(* ===== verification/Prelude.thy ===== *)
theory Prelude
  imports Main "HOL-Library.Word"
begin

text \<open>
  What every other theory shares: the names of the machine types of the C++ sources, the guest
  memory with the library calls that write it, and the generic facts about words and lists the
  component proofs use.

  \<^item> \<^verbatim>\<open>uint8_t\<close>, \<^verbatim>\<open>uint16_t\<close>, \<^verbatim>\<open>uint32_t\<close> and \<^verbatim>\<open>uint64_t\<close> are words of their width, so that every
    wrap-around of the code is a wrap-around of the model; pointers and \<^verbatim>\<open>uintptr_t\<close> are 64-bit
    words (the target is AArch64), the null pointer being \<open>0\<close>.
  \<^item> \<^verbatim>\<open>int32_t\<close> and \<^verbatim>\<open>int64_t\<close> are words of the same width read with \<open>sint\<close>, or \<open>int\<close> where a theory
    says that its computations stay in range.
  \<^item> threads are numbered: \<open>tid\<close> is the calling thread where a call depends on it.
\<close>

unbundle bit_operations_syntax

type_synonym u8 = "8 word"
type_synonym u16 = "16 word"
type_synonym u32 = "32 word"
type_synonym u64 = "64 word"
type_synonym s32 = "32 word"
type_synonym s64 = "64 word"
type_synonym ptr = "64 word"
type_synonym tid = nat
type_synonym memory = "ptr \<Rightarrow> u8"

abbreviation null :: ptr where
  "null \<equiv> 0"

section \<open>Collections of facts\<close>

named_theorems op_defs \<open>the definitions of the modelled operations\<close>
named_theorems inv_simps \<open>definitions of the component invariants\<close>
named_theorems unat_simps \<open>facts that move word arithmetic to the natural numbers\<close>

section \<open>Memory\<close>

text \<open>
  The C library calls that write memory. A byte belongs to the \<open>n\<close> bytes at \<open>p\<close> when its offset
  from \<open>p\<close> is less than \<open>n\<close>; the offset is a word difference, so the test is exact at every address.
\<close>

definition in_bytes :: "ptr \<Rightarrow> nat \<Rightarrow> ptr \<Rightarrow> bool" where
  "in_bytes p n a \<longleftrightarrow> unat (a - p) < n"

definition memset :: "ptr \<Rightarrow> u8 \<Rightarrow> nat \<Rightarrow> memory \<Rightarrow> memory" where
  "memset p v n m = (\<lambda>a. if in_bytes p n a then v else m a)"

definition memmove :: "ptr \<Rightarrow> ptr \<Rightarrow> nat \<Rightarrow> memory \<Rightarrow> memory" where
  "memmove d s n m = (\<lambda>a. if in_bytes d n a then m (s + (a - d)) else m a)"

text \<open>\<^verbatim>\<open>snprintf(buffer, n, "%s", s)\<close> into a buffer of \<open>n > 0\<close> bytes: the string left in it.\<close>

definition snprintf_s :: "nat \<Rightarrow> string \<Rightarrow> string" where
  "snprintf_s n s = take (n - 1) s"

lemma memset_inside [simp]: "in_bytes p n a \<Longrightarrow> memset p v n m a = v"
  by (simp add: memset_def)

lemma memset_outside [simp]: "\<not> in_bytes p n a \<Longrightarrow> memset p v n m a = m a"
  by (simp add: memset_def)

lemma in_bytes_iff:
  assumes "unat p + n \<le> 2 ^ 64"
  shows "in_bytes p n a \<longleftrightarrow> unat p \<le> unat a \<and> unat a < unat p + n"
proof -
  have a: "unat a < 2 ^ 64" and p: "unat p < 2 ^ 64"
    using unsigned_less [of a, where ?'a = nat] unsigned_less [of p, where ?'a = nat] by simp_all
  show ?thesis
  proof (cases "unat p \<le> unat a")
    case True
    then have "unat (a - p) = unat a - unat p" by (simp add: unat_sub word_le_nat_alt)
    with True show ?thesis by (auto simp: in_bytes_def)
  next
    case False
    then have "a < p" by (simp add: word_less_nat_alt)
    have "unat (a - p) = (unat a + (2 ^ 64 - unat p)) mod 2 ^ 64"
      using False p by (simp add: unat_sub_if')
    also have "\<dots> = unat a + (2 ^ 64 - unat p)" using False a p by simp
    finally show ?thesis using False assms by (simp add: in_bytes_def)
  qed
qed

section \<open>Words as natural numbers\<close>

lemma unat_less_2p32 [simp]: "unat (x :: u32) < 4294967296"
  using unsigned_less [of x, where ?'a = nat] by simp

lemma unat_less_2p64 [simp]: "unat (x :: u64) < 18446744073709551616"
  using unsigned_less [of x, where ?'a = nat] by simp

lemma unat_ucast_u32_u64 [simp, unat_simps]: "unat (ucast (x :: u32) :: u64) = unat x"
  by (simp add: unsigned_ucast_eq take_bit_nat_eq_self less_trans [OF unat_less_2p32])

lemma unat_ucast_u64_u32: "unat (x :: u64) < 4294967296 \<Longrightarrow> unat (ucast x :: u32) = unat x"
  by (simp add: unsigned_ucast_eq take_bit_nat_eq_self)

lemma unat_plus_nowrap [unat_simps]:
  "unat (x :: 'a::len word) + unat y < 2 ^ LENGTH('a) \<Longrightarrow> unat (x + y) = unat x + unat y"
  by (simp add: unat_add_lem [THEN iffD1])

lemma unat_minus_nowrap [unat_simps]:
  "unat (y :: 'a::len word) \<le> unat x \<Longrightarrow> unat (x - y) = unat x - unat y"
  by (simp add: unat_sub word_le_nat_alt)

lemma unat_plus_u64:
  "unat (x :: u64) + unat y < 18446744073709551616 \<Longrightarrow> unat (x + y) = unat x + unat y"
  using unat_plus_nowrap [of x y] by simp

lemma unat_plus_u32:
  "unat (x :: u32) + unat y < 4294967296 \<Longrightarrow> unat (x + y) = unat x + unat y"
  using unat_plus_nowrap [of x y] by simp

lemma word_pos_unat: "(x :: 'a::len word) \<noteq> 0 \<longleftrightarrow> 0 < unat x"
  by (simp add: unat_gt_0)


section \<open>Signed words\<close>

lemma sint_plus_nowrap:
  fixes a b :: "'a::len word"
  assumes "- (2 ^ (LENGTH('a) - 1)) \<le> sint a + sint b" "sint a + sint b < 2 ^ (LENGTH('a) - 1)"
  shows "sint (a + b) = sint a + sint b"
  using assms by (simp add: sint_word_ariths signed_take_bit_int_eq_self)

lemma sint_minus_nowrap:
  fixes a b :: "'a::len word"
  assumes "- (2 ^ (LENGTH('a) - 1)) \<le> sint a - sint b" "sint a - sint b < 2 ^ (LENGTH('a) - 1)"
  shows "sint (a - b) = sint a - sint b"
  using assms by (simp add: sint_word_ariths signed_take_bit_int_eq_self)

lemma sint_0_iff: "sint (x :: 'a::len word) = 0 \<longleftrightarrow> x = 0"
proof
  assume "sint x = 0"
  then have "sint x = sint (0 :: 'a word)" by simp
  then show "x = 0" by (rule signed_word_eqI)
qed simp

lemma sint_s32_bounds: "- 2147483648 \<le> sint (x :: s32)" "sint (x :: s32) \<le> 2147483647"
  using sint_greater_eq [of x] sint_less [of x] by simp_all

lemma sint_s32_Suc: "sint (x :: s32) < 2147483647 \<Longrightarrow> sint (x + 1) = sint x + 1"
  using sint_s32_bounds(1) [of x] by (subst sint_plus_nowrap) simp_all

lemma sint_s32_pred: "- 2147483648 < sint (x :: s32) \<Longrightarrow> sint (x - 1) = sint x - 1"
  using sint_s32_bounds(2) [of x] by (subst sint_minus_nowrap) simp_all

end
