(* ===== verification/HandleTable.thy ===== *)
theory HandleTable
  imports Prelude
begin

text \<open>
  The table of \<^verbatim>\<open>source/internal/handle_table.hpp\<close>: it maps the address of a structure the guest
  allocated to the host object that implements it. A \<open>Host *\<close> the code obtains from \<open>get\<close> is
  modelled by the object itself, which the caller stores back with \<open>ht_store\<close> after it has
  changed it: a write through the pointer. The mutex inside the table makes \<open>get\<close> and
  \<open>erase\<close> atomic, so each is one step.
\<close>

type_synonym 'h table = "ptr \<rightharpoonup> 'h"

text \<open>
  \<open>get\<close> creates the object on first use: \<open>init\<close> is a fresh \<^verbatim>\<open>Host\<close> after \<^verbatim>\<open>init()\<close>.
\<close>

definition ht_get :: "'h \<Rightarrow> ptr \<Rightarrow> 'h table \<Rightarrow> 'h \<times> 'h table" where
  "ht_get init key m =
     (case m key of
        Some host \<Rightarrow> (host, m)
      | None \<Rightarrow> (init, m(key \<mapsto> init)))"

definition ht_erase :: "ptr \<Rightarrow> 'h table \<Rightarrow> 'h table" where
  "ht_erase key m = (case m key of Some _ \<Rightarrow> m(key := None) | None \<Rightarrow> m)"

definition ht_store :: "ptr \<Rightarrow> 'h \<Rightarrow> 'h table \<Rightarrow> 'h table" where
  "ht_store key host m = m(key \<mapsto> host)"

text \<open>The object \<open>get\<close> hands out, and the write of a changed object through the pointer.\<close>

definition ht_host :: "'h \<Rightarrow> ptr \<Rightarrow> 'h table \<Rightarrow> 'h" where
  "ht_host init key m = fst (ht_get init key m)"

definition ht_update :: "'h \<Rightarrow> ptr \<Rightarrow> ('h \<Rightarrow> 'h) \<Rightarrow> 'h table \<Rightarrow> 'h table" where
  "ht_update init key f m = (let (host, m') = ht_get init key m in ht_store key (f host) m')"

lemma ht_get_eq: "ht_get init key m = (ht_host init key m, ht_store key (ht_host init key m) m)"
  by (auto simp: ht_get_def ht_host_def ht_store_def fun_upd_idem split: option.split)

lemma ht_host_store [simp]:
  "ht_host init k (ht_store key host m) = (if k = key then host else ht_host init k m)"
  by (auto simp: ht_host_def ht_get_def ht_store_def split: option.split)

lemma ht_host_Some [simp]: "m key = Some host \<Longrightarrow> ht_host init key m = host"
  by (simp add: ht_host_def ht_get_def)

lemma ht_host_None [simp]: "m key = None \<Longrightarrow> ht_host init key m = init"
  by (simp add: ht_host_def ht_get_def)

lemma ht_store_same [simp]: "ht_store key host m key = Some host"
  by (simp add: ht_store_def)

lemma ht_store_other [simp]: "k \<noteq> key \<Longrightarrow> ht_store key host m k = m k"
  by (simp add: ht_store_def)

lemma ht_store_store [simp]: "ht_store key h2 (ht_store key h1 m) = ht_store key h2 m"
  by (simp add: ht_store_def)

lemma ht_store_idem [simp]: "m key = Some host \<Longrightarrow> ht_store key host m = m"
  by (simp add: ht_store_def fun_upd_idem)

lemma ht_update_eq: "ht_update init key f m = ht_store key (f (ht_host init key m)) m"
  by (simp add: ht_update_def ht_get_eq)

section \<open>The interface: a table of lazily created objects\<close>

text \<open>
  What the modules that own a table rely on: \<open>get\<close> hands out one and the same object for a key
  until it is erased, a write is seen by the next \<open>get\<close> of the key and by no other key.
\<close>

locale lazy_table =
  fixes get :: "'h \<Rightarrow> ptr \<Rightarrow> 't \<Rightarrow> 'h \<times> 't"
    and store :: "ptr \<Rightarrow> 'h \<Rightarrow> 't \<Rightarrow> 't"
    and erase :: "ptr \<Rightarrow> 't \<Rightarrow> 't"
    and view :: "'t \<Rightarrow> ptr \<Rightarrow> 'h option"
  assumes view_get: "view (snd (get i k t)) = (view t)(k \<mapsto> fst (get i k t))"
    and get_known: "view t k = Some h \<Longrightarrow> fst (get i k t) = h"
    and get_fresh: "view t k = None \<Longrightarrow> fst (get i k t) = i"
    and view_store: "view (store k h t) = (view t)(k \<mapsto> h)"
    and view_erase: "view (erase k t) = (view t)(k := None)"
begin

lemma get_again: "fst (get j k (snd (get i k t))) = fst (get i k t)"
  by (rule get_known) (simp add: view_get)

lemma get_store: "fst (get i k (store k h t)) = h"
  by (rule get_known) (simp add: view_store)

lemma get_store_other: "k \<noteq> k' \<Longrightarrow> fst (get i k (store k' h t)) = fst (get i k t)"
  by (cases "view t k") (auto simp: view_store get_known get_fresh)

lemma get_erase: "fst (get i k (erase k t)) = i"
  by (rule get_fresh) (simp add: view_erase)

lemma get_other: "k \<noteq> k' \<Longrightarrow> fst (get i k (snd (get j k' t))) = fst (get i k t)"
  by (cases "view t k") (auto simp: view_get get_known get_fresh)

end

interpretation ht: lazy_table ht_get ht_store ht_erase "\<lambda>m. m"
  by unfold_locales
    (auto simp: ht_get_def ht_store_def ht_erase_def fun_eq_iff split: option.split)

section \<open>Invariants of the objects of a table\<close>

text \<open>
  A module's invariant is a property of each host object (and its key): it holds for every
  object of the table when it holds for a fresh object and each operation keeps it for the one
  object it changes.
\<close>

definition tab_ok :: "(ptr \<Rightarrow> 'h \<Rightarrow> bool) \<Rightarrow> 'h table \<Rightarrow> bool" where
  [inv_simps]: "tab_ok ok m \<longleftrightarrow> (\<forall>k h. m k = Some h \<longrightarrow> ok k h)"

lemma tab_ok_empty [simp]: "tab_ok ok Map.empty"
  by (simp add: tab_ok_def)

lemma tab_ok_store: "tab_ok ok m \<Longrightarrow> ok key h \<Longrightarrow> tab_ok ok (ht_store key h m)"
  by (simp add: tab_ok_def ht_store_def)

locale hosted_object =
  fixes init :: 'h
    and ok :: "ptr \<Rightarrow> 'h \<Rightarrow> bool"
  assumes ok_init: "ok k init"
begin

lemma host_ok: "tab_ok ok m \<Longrightarrow> ok key (ht_host init key m)"
  by (cases "m key") (auto simp: tab_ok_def ok_init)

lemma get_ok: "tab_ok ok m \<Longrightarrow> tab_ok ok (snd (ht_get init key m))"
  by (simp add: ht_get_eq tab_ok_store host_ok)

lemma update_ok:
  "tab_ok ok m \<Longrightarrow> (\<And>h. ok key h \<Longrightarrow> ok key (f h)) \<Longrightarrow> tab_ok ok (ht_update init key f m)"
  by (simp add: ht_update_eq tab_ok_store host_ok)

end

end
