(* ===== verification/Alignment.thy ===== *)
theory Alignment
  imports Prelude
begin

text \<open>
  The address arithmetic the two heaps share. \<^verbatim>\<open>source/memexpheap.cpp\<close> and
  \<^verbatim>\<open>source/memfrmheap.cpp\<close> each declare the same four helpers in an anonymous namespace; they are
  modelled once. The lemmas give their meaning on the natural numbers: rounding up and down to
  a multiple.
\<close>

section \<open>The helpers\<close>

definition isPow2 :: "u32 \<Rightarrow> bool" where
  "isPow2 v \<longleftrightarrow> v \<noteq> 0 \<and> v AND (v - 1) = 0"

definition alignUp :: "ptr \<Rightarrow> u32 \<Rightarrow> ptr" where
  "alignUp v a = (v + ucast a - 1) AND NOT (ucast (a - 1))"

definition alignDown :: "ptr \<Rightarrow> u32 \<Rightarrow> ptr" where
  "alignDown v a = v AND NOT (ucast (a - 1))"

text \<open>
  A negative alignment asks for the bottom (tail) of the region; an alignment that is no power of
  two becomes 4. The result is the alignment and the code's \<^verbatim>\<open>fromBottom\<close>/\<^verbatim>\<open>fromTail\<close> flag.
\<close>

definition normaliseAlignment :: "s32 \<Rightarrow> u32 \<times> bool" where
  "normaliseAlignment alignment =
     (let fromBottom = sint alignment < 0;
          a = (if sint alignment < 0 then - alignment else alignment)
      in (if \<not> isPow2 a then 4 else a, fromBottom))"

section \<open>Powers of two\<close>

lemma odd_decomp: "0 < (n::nat) \<Longrightarrow> \<exists>k m. n = 2 ^ k * m \<and> odd m"
proof (induction n rule: less_induct)
  case (less n)
  show ?case
  proof (cases "odd n")
    case True
    then show ?thesis by (intro exI [of _ 0] exI [of _ n]) simp
  next
    case False
    then obtain h where h: "n = 2 * h" by (auto elim: evenE)
    with less.prems obtain k m where "h = 2 ^ k * m" "odd m"
      using less.IH [of h] by auto
    with h show ?thesis by (intro exI [of _ "Suc k"] exI [of _ m]) simp
  qed
qed

lemma nat_and_pred_pow2:
  assumes "0 < (n::nat)" "n AND (n - 1) = 0"
  shows "\<exists>k. n = 2 ^ k"
proof -
  obtain k m where n: "n = 2 ^ k * m" and "odd m"
    using odd_decomp [OF assms(1)] by blast
  then obtain h where h: "m = 2 * h + 1" by (elim oddE)
  have "n - 1 = (2 ^ k - 1) + h * 2 ^ Suc k"
    unfolding n h by (simp add: algebra_simps)
  moreover have "(2::nat) ^ k - 1 < 2 ^ Suc k"
    by (rule le_less_trans [of _ "2 ^ k"]) simp_all
  ultimately have "(n - 1) div 2 ^ Suc k = h"
    by (simp only: div_mult_self1 power_not_zero zero_neq_numeral not_False_eq_True div_less add_0)
  moreover have "n div 2 ^ Suc k = h"
    unfolding n h by (simp add: algebra_simps)
  ultimately have "drop_bit (Suc k) n AND drop_bit (Suc k) (n - 1) = h"
    by (simp only: drop_bit_eq_div and.idem)
  then have "drop_bit (Suc k) (n AND (n - 1)) = h"
    by (simp only: drop_bit_and)
  then have "h = 0" by (simp only: assms(2) drop_bit_of_0)
  then show ?thesis using n h by auto
qed

lemma unat_pow2: "k < LENGTH('a) \<Longrightarrow> unat (2 ^ k :: 'a::len word) = 2 ^ k"
  using unat_of_nat [of "2 ^ k", where ?'a = 'a] by (simp del: unat_of_nat)

lemma unat_mask: "k < LENGTH('a) \<Longrightarrow> unat (mask k :: 'a::len word) = 2 ^ k - 1"
  by (simp add: mask_eq_exp_minus_1 unat_minus_one unat_pow2)

lemma isPow2_obtain:
  assumes "isPow2 a"
  obtains k where "k < 32" "a = 2 ^ k" "unat a = 2 ^ k"
proof -
  from assms have nz: "a \<noteq> 0" and z: "a AND (a - 1) = 0" by (auto simp: isPow2_def)
  have "unat (a - 1) = unat a - 1"
    using nz by (simp add: unat_minus_one)
  then have "unat a AND (unat a - 1) = 0"
    using arg_cong [OF z, of unat] by (simp add: unsigned_and_eq)
  then obtain k where k: "unat a = 2 ^ k"
    using nat_and_pred_pow2 nz by (auto simp: word_pos_unat)
  have "(2::nat) ^ k < 2 ^ 32" using unat_less_2p32 [of a] k by simp
  then have "k < 32" by (rule power_less_imp_less_exp [rotated]) simp
  moreover have "a = 2 ^ k"
    using k unat_pow2 [of k, where ?'a = 32] \<open>k < 32\<close> by (simp add: word_unat_eq_iff)
  ultimately show ?thesis using k that by blast
qed

lemma isPow2_4 [simp]: "isPow2 4"
  by (simp add: isPow2_def)

lemma isPow2_pos: "isPow2 a \<Longrightarrow> 0 < unat a"
  by (auto simp: isPow2_def word_pos_unat)

lemma isPow2_le: "isPow2 a \<Longrightarrow> unat a \<le> 2147483648"
proof (erule isPow2_obtain)
  fix k assume "k < 32" and a: "unat a = 2 ^ k"
  then have "(2::nat) ^ k \<le> 2 ^ 31" by (intro power_increasing) simp_all
  with a show ?thesis by simp
qed

lemma normaliseAlignment_pow2: "isPow2 (fst (normaliseAlignment al))"
  by (simp add: normaliseAlignment_def Let_def)

lemma centre_mod:
  "n < 4294967296 \<Longrightarrow> (int n + 2147483648) mod 4294967296 - 2147483648 =
     (if n < 2147483648 then int n else int n - 4294967296)"
proof (cases "n < 2147483648")
  case False
  assume n: "n < 4294967296"
  have "int n + 2147483648 = (int n - 2147483648) + 4294967296" by simp
  then have "(int n + 2147483648) mod 4294967296 = (int n - 2147483648) mod 4294967296"
    by (simp only: mod_add_self2)
  also have "\<dots> = int n - 2147483648"
    using False n by (intro mod_pos_pos_trivial) linarith+
  finally show ?thesis using False by simp
qed simp

lemma sint_u32: "sint (x :: u32) = (if unat x < 2147483648 then int (unat x) else int (unat x) - 4294967296)"
proof -
  have "sint x = signed_take_bit 31 (uint x)" by (simp add: sint_uint)
  also have "\<dots> = (uint x + 2147483648) mod 4294967296 - 2147483648"
    by (simp add: signed_take_bit_eq_take_bit_shift take_bit_eq_mod)
  finally have eq: "sint x = (int (unat x) + 2147483648) mod 4294967296 - 2147483648"
    by (simp only: uint_nat)
  show ?thesis unfolding eq by (rule centre_mod [OF unat_less_2p32])
qed

lemma sint_nonneg_u32: "unat (x :: u32) < 2147483648 \<Longrightarrow> sint x = int (unat x)"
  by (simp add: sint_u32)

lemma normaliseAlignment_positive:
  "isPow2 a \<Longrightarrow> unat a < 2147483648 \<Longrightarrow> normaliseAlignment a = (a, False)"
  by (simp add: normaliseAlignment_def Let_def sint_nonneg_u32)

section \<open>Rounding on the natural numbers\<close>

definition round_down :: "nat \<Rightarrow> nat \<Rightarrow> nat" where
  "round_down v a = v - v mod a"

definition round_up :: "nat \<Rightarrow> nat \<Rightarrow> nat" where
  "round_up v a = round_down (v + a - 1) a"

lemma round_down_dvd [simp]: "a dvd round_down v a"
  by (simp add: round_down_def dvd_minus_mod)

lemma round_down_le [simp]: "round_down v a \<le> v"
  by (simp add: round_down_def)

lemma round_down_gt: "0 < a \<Longrightarrow> v < round_down v a + a"
  using mod_less_divisor [of a v] mod_less_eq_dividend [of v a]
  unfolding round_down_def by linarith

lemma dvd_gap: "(a::nat) dvd x \<Longrightarrow> a dvd y \<Longrightarrow> x < y + a \<Longrightarrow> x \<le> y"
proof -
  assume "a dvd x" "a dvd y" and lt: "x < y + a"
  then obtain i j where "x = a * i" "y = a * j" by (elim dvdE)
  with lt have "a * i < a * Suc j" by simp
  then have "i < Suc j" using mult_less_cancel1 by blast
  then show "x \<le> y" using \<open>x = a * i\<close> \<open>y = a * j\<close> by simp
qed

lemma round_down_greatest: "0 < a \<Longrightarrow> a dvd x \<Longrightarrow> x \<le> v \<Longrightarrow> x \<le> round_down v a"
  by (rule dvd_gap [of a]) (use round_down_gt [of a v] in simp_all)

lemma round_up_dvd [simp]: "a dvd round_up v a"
  by (simp add: round_up_def)

lemma round_up_ge: "0 < a \<Longrightarrow> v \<le> round_up v a"
  using round_down_gt [of a "v + a - 1"] unfolding round_up_def by linarith

lemma round_up_less: "0 < a \<Longrightarrow> round_up v a < v + a"
  using round_down_le [of "v + a - 1" a] unfolding round_up_def by linarith

lemma round_up_least: "0 < a \<Longrightarrow> a dvd x \<Longrightarrow> v \<le> x \<Longrightarrow> round_up v a \<le> x"
  by (rule dvd_gap [of a]) (use round_up_less [of a v] in simp_all)

section \<open>What the helpers compute\<close>

lemma and_not_mask_nat:
  fixes v :: "'a::len word"
  shows "k < LENGTH('a) \<Longrightarrow> unat (v AND NOT (mask k)) = round_down (unat v) (2 ^ k)"
proof -
  assume "k < LENGTH('a)"
  have "v - take_bit k v = v AND NOT (take_bit k v)"
    by (rule disjunctive_diff_eq_and_not) (auto intro: bit_eqI simp: bit_simps)
  also have "\<dots> = v AND NOT (mask k)"
    by (auto intro: bit_eqI simp: bit_simps)
  finally have "v AND NOT (mask k) = v - take_bit k v" ..
  moreover have "take_bit k v \<le> v"
    by (simp add: take_bit_eq_mask word_and_le2)
  moreover have "unat (take_bit k v) = unat v mod 2 ^ k"
    by (subst unsigned_take_bit_eq) (simp only: take_bit_eq_mod)
  ultimately show ?thesis
    by (simp only: round_down_def unat_sub)
qed

lemma pow2_pred_mask:
  assumes "isPow2 a" and "unat a = 2 ^ k" "k < 32"
  shows "(ucast (a - 1) :: u64) = mask k"
proof (rule word_unat_eq_iff [THEN iffD2])
  have "unat (a - 1) = 2 ^ k - 1"
    using assms by (simp add: isPow2_def unat_minus_one)
  moreover have "unat (mask k :: u64) = 2 ^ k - 1"
    using assms by (simp add: unat_mask)
  ultimately show "unat (ucast (a - 1) :: u64) = unat (mask k :: u64)"
    by simp
qed

lemma unat_alignDown: "isPow2 a \<Longrightarrow> unat (alignDown v a) = round_down (unat v) (unat a)"
proof -
  assume p: "isPow2 a"
  then obtain k where k: "k < 32" "unat a = 2 ^ k" by (elim isPow2_obtain)
  show ?thesis
    using and_not_mask_nat [of k v] k by (simp add: alignDown_def pow2_pred_mask [OF p k(2,1)])
qed

lemma unat_alignUp:
  assumes p: "isPow2 a" and fits: "unat v + unat a \<le> 18446744073709551616"
  shows "unat (alignUp v a) = round_up (unat v) (unat a)"
proof -
  obtain k where k: "k < 32" "unat a = 2 ^ k" using p by (elim isPow2_obtain)
  have "v + ucast a - 1 = v + (ucast a - 1)" by (rule add_diff_eq [symmetric])
  moreover have pred: "unat (ucast a - 1 :: u64) = unat a - 1"
    using isPow2_pos [OF p] by (subst unat_minus_one) (auto simp: word_pos_unat)
  moreover have "unat (v + (ucast a - 1)) = unat v + (unat a - 1)"
    using fits isPow2_pos [OF p] unat_plus_u64 [of v "ucast a - 1"] unfolding pred by linarith
  ultimately have "unat (v + ucast a - 1) = unat v + (unat a - 1)" by (simp only:)
  then show ?thesis
    using and_not_mask_nat [of k "v + ucast a - 1"] k isPow2_pos [OF p]
    by (simp add: alignUp_def round_up_def pow2_pred_mask [OF p k(2,1)])
qed

end
