(* ===== verification/FrmHeap.thy ===== *)
theory FrmHeap
  imports HandleTable Alignment
begin

text \<open>
  The frame heap of \<^verbatim>\<open>source/memfrmheap.cpp\<close>: a two-ended stack over a region the guest supplies.
  \<open>frm_heap\<close> is \<^verbatim>\<open>HostFrmHeap\<close>, \<open>frm_world\<close> the table \<^verbatim>\<open>g_frmHeaps\<close> with the guest memory the
  zeroing flag writes. Each API function is one definition of the same name; the body of the
  allocation, which works on one heap, is \<open>frm_alloc\<close>. The lemmas give the meaning of the cursor
  arithmetic on the natural numbers, the well-formedness invariant \<open>frm_ok\<close>, the exact condition
  under which an allocation succeeds, and what recording a state and freeing back to it restores.
\<close>

section \<open>State\<close>

record frm_state =
  st_tag :: u32
  st_head :: ptr
  st_tail :: ptr

record frm_heap =
  fh_dataStart :: ptr
  fh_dataEnd :: ptr
  fh_head :: ptr
  fh_tail :: ptr
  fh_flags :: u32
  fh_live :: bool
  fh_states :: "frm_state list"

record frm_world =
  frm_heaps :: "frm_heap table"
  frm_mem :: memory

definition frm_init :: frm_heap where
  "frm_init = \<lparr>fh_dataStart = 0, fh_dataEnd = 0, fh_head = 0, fh_tail = 0, fh_flags = 0,
     fh_live = False, fh_states = []\<rparr>"

abbreviation (input) COREINIT_NX_MEMFRMHEAP_SIZE :: u32 where
  "COREINIT_NX_MEMFRMHEAP_SIZE \<equiv> 0x4C"

abbreviation (input) MEM_HEAP_FLAG_ZERO_ALLOCATED :: u32 where
  "MEM_HEAP_FLAG_ZERO_ALLOCATED \<equiv> 1"

abbreviation (input) MEM_FRM_HEAP_FREE_HEAD :: u32 where
  "MEM_FRM_HEAP_FREE_HEAD \<equiv> 1"

abbreviation (input) MEM_FRM_HEAP_FREE_TAIL :: u32 where
  "MEM_FRM_HEAP_FREE_TAIL \<equiv> 2"

abbreviation (input) MEM_FRM_HEAP_FREE_ALL :: u32 where
  "MEM_FRM_HEAP_FREE_ALL \<equiv> 3"

section \<open>Operations\<close>

text \<open>\<^verbatim>\<open>live\<close>: the host heap of a handle, when there is one and it has not been destroyed.\<close>

definition frm_live :: "ptr \<Rightarrow> frm_world \<Rightarrow> frm_heap option \<times> frm_world" where
  "frm_live heap w =
     (if heap = null then (None, w)
      else let (h, t) = ht_get frm_init heap (frm_heaps w)
           in (if fh_live h then Some h else None, w\<lparr>frm_heaps := t\<rparr>))"

definition frm_put :: "ptr \<Rightarrow> frm_heap \<Rightarrow> frm_world \<Rightarrow> frm_world" where
  "frm_put heap h w = w\<lparr>frm_heaps := ht_store heap h (frm_heaps w)\<rparr>"

definition MEMCreateFrmHeapEx :: "ptr \<Rightarrow> u32 \<Rightarrow> u32 \<Rightarrow> frm_world \<Rightarrow> ptr \<times> frm_world" where
  "MEMCreateFrmHeapEx heap sz flags w =
     (if heap = null \<or> sz \<le> COREINIT_NX_MEMFRMHEAP_SIZE then (null, w)
      else
        let h = ht_host frm_init heap (frm_heaps w);
            base = heap;
            h1 = h\<lparr>fh_dataStart := alignUp (base + ucast COREINIT_NX_MEMFRMHEAP_SIZE) 4,
                   fh_dataEnd := base + ucast sz\<rparr>
        in if fh_dataEnd h1 \<le> fh_dataStart h1 then (null, frm_put heap h1 w)
           else (heap, frm_put heap
                   (h1\<lparr>fh_head := fh_dataStart h1, fh_tail := fh_dataEnd h1, fh_flags := flags,
                       fh_live := True, fh_states := []\<rparr>) w))"

definition MEMDestroyFrmHeap :: "ptr \<Rightarrow> frm_world \<Rightarrow> ptr \<times> frm_world" where
  "MEMDestroyFrmHeap heap w =
     (case frm_live heap w of
        (None, w') \<Rightarrow> (null, w')
      | (Some h, w') \<Rightarrow> (heap, frm_put heap (h\<lparr>fh_live := False, fh_states := []\<rparr>) w'))"

text \<open>The cursor move of an allocation; \<open>None\<close> is the early return of a null pointer.\<close>

definition frm_alloc :: "frm_heap \<Rightarrow> u32 \<Rightarrow> s32 \<Rightarrow> (ptr \<times> frm_heap) option" where
  "frm_alloc h sz alignment =
     (let (a, fromTail) = normaliseAlignment alignment in
      if fromTail then
        let candidate = alignDown (fh_tail h - ucast sz) a in
        if candidate < fh_head h \<or> fh_tail h < candidate then None
        else Some (candidate, h\<lparr>fh_tail := candidate\<rparr>)
      else
        let candidate = alignUp (fh_head h) a in
        if fh_tail h < candidate + ucast sz \<or> candidate < fh_head h then None
        else Some (candidate, h\<lparr>fh_head := candidate + ucast sz\<rparr>))"

definition request_size :: "u32 \<Rightarrow> u32" where
  "request_size sz = (if sz = 0 then 1 else sz)"

definition MEMAllocFromFrmHeapEx :: "ptr \<Rightarrow> u32 \<Rightarrow> s32 \<Rightarrow> frm_world \<Rightarrow> ptr \<times> frm_world" where
  "MEMAllocFromFrmHeapEx heap sz alignment w =
     (case frm_live heap w of
        (None, w') \<Rightarrow> (null, w')
      | (Some h, w') \<Rightarrow>
          (case frm_alloc h (request_size sz) alignment of
             None \<Rightarrow> (null, w')
           | Some (result, h') \<Rightarrow>
               let w'' = frm_put heap h' w' in
               (result,
                if fh_flags h' AND MEM_HEAP_FLAG_ZERO_ALLOCATED \<noteq> 0
                then w''\<lparr>frm_mem := memset result 0 (unat (request_size sz)) (frm_mem w'')\<rparr>
                else w'')))"

definition frm_free :: "u32 \<Rightarrow> frm_heap \<Rightarrow> frm_heap" where
  "frm_free mode h =
     (let h1 = (if mode AND MEM_FRM_HEAP_FREE_HEAD \<noteq> 0
                then h\<lparr>fh_head := fh_dataStart h\<rparr> else h);
          h2 = (if mode AND MEM_FRM_HEAP_FREE_TAIL \<noteq> 0
                then h1\<lparr>fh_tail := fh_dataEnd h1\<rparr> else h1)
      in if mode AND MEM_FRM_HEAP_FREE_ALL = MEM_FRM_HEAP_FREE_ALL
         then h2\<lparr>fh_states := []\<rparr> else h2)"

definition MEMFreeToFrmHeap :: "ptr \<Rightarrow> u32 \<Rightarrow> frm_world \<Rightarrow> frm_world" where
  "MEMFreeToFrmHeap heap mode w =
     (case frm_live heap w of
        (None, w') \<Rightarrow> w'
      | (Some h, w') \<Rightarrow> frm_put heap (frm_free mode h) w')"

definition frm_record :: "u32 \<Rightarrow> frm_heap \<Rightarrow> frm_heap" where
  "frm_record tag h =
     h\<lparr>fh_states := fh_states h @ [\<lparr>st_tag = tag, st_head = fh_head h, st_tail = fh_tail h\<rparr>]\<rparr>"

definition MEMRecordStateForFrmHeap :: "ptr \<Rightarrow> u32 \<Rightarrow> frm_world \<Rightarrow> s32 \<times> frm_world" where
  "MEMRecordStateForFrmHeap heap tag w =
     (case frm_live heap w of
        (None, w') \<Rightarrow> (0, w')
      | (Some h, w') \<Rightarrow> (1, frm_put heap (frm_record tag h) w'))"

text \<open>The loop \<^verbatim>\<open>for (size_t i = h->states.size(); i-- > 0; )\<close>: the last state with this tag.\<close>

fun find_state :: "u32 \<Rightarrow> frm_state list \<Rightarrow> nat \<Rightarrow> nat option" where
  "find_state tag states 0 = None"
| "find_state tag states (Suc i) =
     (if st_tag (states ! i) = tag then Some i else find_state tag states i)"

definition frm_free_by_state :: "u32 \<Rightarrow> frm_heap \<Rightarrow> frm_heap option" where
  "frm_free_by_state tag h =
     (if fh_states h = [] then None
      else
        case (if tag = 0 then Some (length (fh_states h) - 1)
              else find_state tag (fh_states h) (length (fh_states h))) of
          None \<Rightarrow> None
        | Some idx \<Rightarrow>
            Some (h\<lparr>fh_head := st_head (fh_states h ! idx),
                    fh_tail := st_tail (fh_states h ! idx),
                    fh_states := take idx (fh_states h)\<rparr>))"

definition MEMFreeByStateToFrmHeap :: "ptr \<Rightarrow> u32 \<Rightarrow> frm_world \<Rightarrow> s32 \<times> frm_world" where
  "MEMFreeByStateToFrmHeap heap tag w =
     (case frm_live heap w of
        (None, w') \<Rightarrow> (0, w')
      | (Some h, w') \<Rightarrow>
          (case frm_free_by_state tag h of
             None \<Rightarrow> (0, w')
           | Some h' \<Rightarrow> (1, frm_put heap h' w')))"

definition MEMAdjustFrmHeap :: "ptr \<Rightarrow> frm_world \<Rightarrow> u32 \<times> frm_world" where
  "MEMAdjustFrmHeap heap w =
     (case frm_live heap w of
        (None, w') \<Rightarrow> (0, w')
      | (Some h, w') \<Rightarrow>
          if fh_tail h \<noteq> fh_dataEnd h then (0, w')
          else let h' = h\<lparr>fh_dataEnd := fh_head h, fh_tail := fh_head h\<rparr>
               in (ucast (fh_dataEnd h' - heap), frm_put heap h' w'))"

definition frm_allocatable :: "s32 \<Rightarrow> frm_heap \<Rightarrow> u32" where
  "frm_allocatable alignment h =
     (let (a, fromTail) = normaliseAlignment alignment;
          start = alignUp (fh_head h) a
      in if fh_tail h \<le> start then 0 else ucast (fh_tail h - start))"

definition MEMGetAllocatableSizeForFrmHeapEx :: "ptr \<Rightarrow> s32 \<Rightarrow> frm_world \<Rightarrow> u32 \<times> frm_world" where
  "MEMGetAllocatableSizeForFrmHeapEx heap alignment w =
     (case frm_live heap w of
        (None, w') \<Rightarrow> (0, w')
      | (Some h, w') \<Rightarrow> (frm_allocatable alignment h, w'))"

section \<open>The allocation on natural numbers\<close>

text \<open>
  A well-formed heap keeps \<open>dataStart \<le> head \<le> tail \<le> dataEnd\<close> inside its region \<open>[lo, hi)\<close>, and every
  recorded state is a pair of cursors of the same kind. Guest regions lie below \<open>2 ^ 63\<close> and are
  shorter than 4 GiB (their size is a \<^verbatim>\<open>uint32_t\<close>).
\<close>

definition frm_wf :: "nat \<Rightarrow> nat \<Rightarrow> frm_heap \<Rightarrow> bool" where
  "frm_wf lo hi h \<longleftrightarrow>
     0 < lo \<and> hi \<le> 9223372036854775808 \<and> hi < lo + 4294967296 \<and>
     lo \<le> unat (fh_dataStart h) \<and>
     unat (fh_dataStart h) \<le> unat (fh_head h) \<and> unat (fh_head h) \<le> unat (fh_tail h) \<and>
     unat (fh_tail h) \<le> unat (fh_dataEnd h) \<and> unat (fh_dataEnd h) \<le> hi \<and>
     (\<forall>s \<in> set (fh_states h).
        unat (fh_dataStart h) \<le> unat (st_head s) \<and> unat (st_head s) \<le> unat (st_tail s) \<and>
        unat (st_tail s) \<le> unat (fh_dataEnd h))"

lemma frm_wf_bounds:
  assumes "frm_wf lo hi h"
  shows "unat (fh_head h) \<le> unat (fh_tail h)" "unat (fh_tail h) \<le> 9223372036854775808"
    "0 < unat (fh_head h)" "unat (fh_tail h) - unat (fh_head h) < 4294967296"
  using assms unfolding frm_wf_def by linarith+

lemma frm_alloc_head:
  assumes wf: "frm_wf lo hi h" and al: "normaliseAlignment al = (a, False)"
  shows "frm_alloc h sz al =
    (if round_up (unat (fh_head h)) (unat a) + unat sz \<le> unat (fh_tail h)
     then Some (alignUp (fh_head h) a, h\<lparr>fh_head := alignUp (fh_head h) a + ucast sz\<rparr>) else None)"
    (is "_ = (if ?fits then _ else _)")
    and "unat (alignUp (fh_head h) a) = round_up (unat (fh_head h)) (unat a)"
    and "unat (alignUp (fh_head h) a + ucast sz) = round_up (unat (fh_head h)) (unat a) + unat sz"
proof -
  have p: "isPow2 a" using normaliseAlignment_pow2 [of al] al by simp
  note b = frm_wf_bounds [OF wf] isPow2_le [OF p] isPow2_pos [OF p]
  show up: "unat (alignUp (fh_head h) a) = round_up (unat (fh_head h)) (unat a)"
    using b by (intro unat_alignUp p) linarith
  have lt: "round_up (unat (fh_head h)) (unat a) < unat (fh_head h) + unat a"
    and ge: "unat (fh_head h) \<le> round_up (unat (fh_head h)) (unat a)"
    using b by (simp_all add: round_up_less round_up_ge)
  show plus: "unat (alignUp (fh_head h) a + ucast sz) = round_up (unat (fh_head h)) (unat a) + unat sz"
  proof -
    have "unat (alignUp (fh_head h) a) + unat sz < 18446744073709551616"
      using up lt b unat_less_2p32 [of sz] by linarith
    then show ?thesis by (simp add: unat_plus_u64 up)
  qed
  have "\<not> alignUp (fh_head h) a < fh_head h"
    using up ge by (simp add: word_less_nat_alt)
  moreover have "fh_tail h < alignUp (fh_head h) a + ucast sz \<longleftrightarrow> \<not> ?fits"
    by (simp add: word_less_nat_alt plus not_le)
  ultimately show "frm_alloc h sz al = (if ?fits
      then Some (alignUp (fh_head h) a, h\<lparr>fh_head := alignUp (fh_head h) a + ucast sz\<rparr>) else None)"
    by (simp add: frm_alloc_def al Let_def)
qed

lemma frm_alloc_tail:
  assumes wf: "frm_wf lo hi h" and al: "normaliseAlignment al = (a, True)"
  shows "frm_alloc h sz al =
    (if unat sz \<le> unat (fh_tail h) \<and>
        unat (fh_head h) \<le> round_down (unat (fh_tail h) - unat sz) (unat a)
     then Some (alignDown (fh_tail h - ucast sz) a, h\<lparr>fh_tail := alignDown (fh_tail h - ucast sz) a\<rparr>)
     else None)"
    and "unat sz \<le> unat (fh_tail h) \<Longrightarrow> unat (alignDown (fh_tail h - ucast sz) a) =
      round_down (unat (fh_tail h) - unat sz) (unat a)"
proof -
  have p: "isPow2 a" using normaliseAlignment_pow2 [of al] al by simp
  note b = frm_wf_bounds [OF wf] isPow2_le [OF p] isPow2_pos [OF p]
  define c where "c = alignDown (fh_tail h - ucast sz) a"
  have down: "unat c = round_down (unat (fh_tail h - ucast sz)) (unat a)"
    by (simp add: c_def unat_alignDown p)
  show eq: "unat (alignDown (fh_tail h - ucast sz) a) = round_down (unat (fh_tail h) - unat sz) (unat a)"
    if "unat sz \<le> unat (fh_tail h)"
    using that down by (simp add: c_def unat_minus_nowrap)
  have "frm_alloc h sz al = (if c < fh_head h \<or> fh_tail h < c then None
      else Some (c, h\<lparr>fh_tail := c\<rparr>))"
    by (simp add: frm_alloc_def al c_def Let_def)
  also have "c < fh_head h \<or> fh_tail h < c \<longleftrightarrow> \<not> (unat sz \<le> unat (fh_tail h) \<and>
      unat (fh_head h) \<le> round_down (unat (fh_tail h) - unat sz) (unat a))"
  proof (cases "unat sz \<le> unat (fh_tail h)")
    case True
    then show ?thesis
      using eq [OF True] order_trans [OF round_down_le [of "unat (fh_tail h) - unat sz" "unat a"]
          diff_le_self [of "unat (fh_tail h)" "unat sz"]]
      by (auto simp: c_def [symmetric] word_less_nat_alt)
  next
    case False
    then have "unat (fh_tail h - ucast sz) = 18446744073709551616 - (unat sz - unat (fh_tail h))"
      by (simp add: unat_sub_if')
    then have "unat c > unat (fh_tail h)"
      using round_down_gt [of "unat a" "unat (fh_tail h - ucast sz)"] b down
        unat_less_2p32 [of sz] False by linarith
    with False show ?thesis by (simp add: word_less_nat_alt)
  qed
  finally show "frm_alloc h sz al =
    (if unat sz \<le> unat (fh_tail h) \<and>
        unat (fh_head h) \<le> round_down (unat (fh_tail h) - unat sz) (unat a)
     then Some (alignDown (fh_tail h - ucast sz) a, h\<lparr>fh_tail := alignDown (fh_tail h - ucast sz) a\<rparr>)
     else None)"
    by (simp add: c_def)
qed

text \<open>A block is cut from the gap between the cursors, and what is left of the gap is disjoint from it.\<close>

lemma frm_alloc_Some:
  assumes wf: "frm_wf lo hi h" and ok: "frm_alloc h sz al = Some (p, h')"
  shows "unat (fst (normaliseAlignment al)) dvd unat p"
    and "unat (fh_head h) \<le> unat p" and "unat p + unat sz \<le> unat (fh_tail h)"
    and "unat (fh_head h) \<le> unat (fh_head h')" and "unat (fh_tail h') \<le> unat (fh_tail h)"
    and "unat (fh_head h') \<le> unat (fh_tail h')"
    and "unat p + unat sz \<le> unat (fh_head h') \<or> unat (fh_tail h') \<le> unat p"
    and "h' = h\<lparr>fh_head := fh_head h', fh_tail := fh_tail h'\<rparr>"
proof -
  obtain a bot where al: "normaliseAlignment al = (a, bot)" by fastforce
  have p: "isPow2 a" using normaliseAlignment_pow2 [of al] al by simp
  note b = frm_wf_bounds [OF wf] isPow2_pos [OF p]
  have "unat a dvd unat p \<and> unat (fh_head h) \<le> unat p \<and> unat p + unat sz \<le> unat (fh_tail h) \<and>
      unat (fh_head h) \<le> unat (fh_head h') \<and> unat (fh_tail h') \<le> unat (fh_tail h) \<and>
      unat (fh_head h') \<le> unat (fh_tail h') \<and>
      (unat p + unat sz \<le> unat (fh_head h') \<or> unat (fh_tail h') \<le> unat p) \<and>
      h' = h\<lparr>fh_head := fh_head h', fh_tail := fh_tail h'\<rparr>"
  proof (cases bot)
    case False
    with al have al': "normaliseAlignment al = (a, False)" by simp
    show ?thesis
      using ok b frm_alloc_head(1,3) [OF wf al', of sz] frm_alloc_head(2) [OF wf al'] round_up_ge [of "unat a" "unat (fh_head h)"]
      by (auto split: if_splits)
  next
    case True
    with al have al': "normaliseAlignment al = (a, True)" by simp
    show ?thesis
      using ok b frm_alloc_tail [OF wf al', of sz]
        le_diff_conv2 [THEN iffD1, OF _ round_down_le [of "unat (fh_tail h) - unat sz" "unat a"]]
      by (auto split: if_splits)
  qed
  then show "unat (fst (normaliseAlignment al)) dvd unat p"
    and "unat (fh_head h) \<le> unat p" and "unat p + unat sz \<le> unat (fh_tail h)"
    and "unat (fh_head h) \<le> unat (fh_head h')" and "unat (fh_tail h') \<le> unat (fh_tail h)"
    and "unat (fh_head h') \<le> unat (fh_tail h')"
    and "unat p + unat sz \<le> unat (fh_head h') \<or> unat (fh_tail h') \<le> unat p"
    and "h' = h\<lparr>fh_head := fh_head h', fh_tail := fh_tail h'\<rparr>"
    using al by simp_all
qed

section \<open>Every operation keeps a heap well formed\<close>

lemma frm_alloc_wf:
  assumes "frm_wf lo hi h" and "frm_alloc h sz al = Some (p, h')"
  shows "frm_wf lo hi h'"
proof -
  note s = frm_alloc_Some [OF assms]
  have "frm_wf lo hi (h\<lparr>fh_head := fh_head h', fh_tail := fh_tail h'\<rparr>)"
    using assms(1) s(4-6) by (auto simp: frm_wf_def)
  then show ?thesis using s(8) by simp
qed

lemma frm_free_wf: "frm_wf lo hi h \<Longrightarrow> frm_wf lo hi (frm_free mode h)"
  by (auto simp: frm_wf_def frm_free_def Let_def)

lemma frm_record_wf: "frm_wf lo hi h \<Longrightarrow> frm_wf lo hi (frm_record tag h)"
  by (auto simp: frm_wf_def frm_record_def)

lemma find_state_Some:
  "find_state tag states n = Some i \<Longrightarrow> i < n \<and> st_tag (states ! i) = tag"
  by (induction tag states n rule: find_state.induct) (auto split: if_splits)

lemma frm_free_by_state_Some:
  assumes "frm_free_by_state tag h = Some h'"
  shows "\<exists>i < length (fh_states h). h' = h\<lparr>fh_head := st_head (fh_states h ! i),
    fh_tail := st_tail (fh_states h ! i), fh_states := take i (fh_states h)\<rparr>"
proof (cases "tag = 0")
  case True
  then show ?thesis
    using assms by (intro exI [of _ "length (fh_states h) - 1"])
      (simp add: frm_free_by_state_def split: if_splits)
next
  case False
  then show ?thesis
    using assms by (auto simp: frm_free_by_state_def split: if_splits option.splits
        dest: find_state_Some)
qed

lemma frm_free_by_state_wf:
  assumes wf: "frm_wf lo hi h" and ok: "frm_free_by_state tag h = Some h'"
  shows "frm_wf lo hi h'"
proof -
  from frm_free_by_state_Some [OF ok] obtain i where i: "i < length (fh_states h)" and
    h': "h' = h\<lparr>fh_head := st_head (fh_states h ! i), fh_tail := st_tail (fh_states h ! i),
      fh_states := take i (fh_states h)\<rparr>"
    by blast
  then have "fh_states h ! i \<in> set (fh_states h)" by simp
  with wf show ?thesis unfolding h' by (auto simp: frm_wf_def dest: in_set_takeD)
qed

lemma frm_adjust_wf:
  "frm_wf lo hi h \<Longrightarrow> fh_states h = [] \<Longrightarrow> frm_wf lo hi (h\<lparr>fh_dataEnd := fh_head h, fh_tail := fh_head h\<rparr>)"
  by (auto simp: frm_wf_def)

section \<open>The invariant of the table\<close>

text \<open>
  \<open>lim k\<close> is the end of the region the guest gave for the heap at \<open>k\<close>. A heap that is not live is
  unconstrained.
\<close>

definition frm_ok :: "(ptr \<Rightarrow> nat) \<Rightarrow> ptr \<Rightarrow> frm_heap \<Rightarrow> bool" where
  "frm_ok lim k h \<longleftrightarrow> (fh_live h \<longrightarrow> frm_wf (unat k + 76) (lim k) h)"

interpretation frm: hosted_object frm_init "frm_ok lim" for lim
  by unfold_locales (simp add: frm_ok_def frm_init_def)

text \<open>An API call, the state it leaves, and what the guest must respect for the invariant.\<close>

datatype frm_call =
    FrmCreate ptr u32 u32
  | FrmDestroy ptr
  | FrmAlloc ptr u32 s32
  | FrmFree ptr u32
  | FrmRecord ptr u32
  | FrmFreeByState ptr u32
  | FrmAdjust ptr
  | FrmAllocatable ptr s32

fun frm_exec :: "frm_call \<Rightarrow> frm_world \<Rightarrow> frm_world" where
  "frm_exec (FrmCreate k sz flags) w = snd (MEMCreateFrmHeapEx k sz flags w)"
| "frm_exec (FrmDestroy k) w = snd (MEMDestroyFrmHeap k w)"
| "frm_exec (FrmAlloc k sz al) w = snd (MEMAllocFromFrmHeapEx k sz al w)"
| "frm_exec (FrmFree k mode) w = MEMFreeToFrmHeap k mode w"
| "frm_exec (FrmRecord k tag) w = snd (MEMRecordStateForFrmHeap k tag w)"
| "frm_exec (FrmFreeByState k tag) w = snd (MEMFreeByStateToFrmHeap k tag w)"
| "frm_exec (FrmAdjust k) w = snd (MEMAdjustFrmHeap k w)"
| "frm_exec (FrmAllocatable k al) w = snd (MEMGetAllocatableSizeForFrmHeapEx k al w)"

text \<open>
  A region given to \<open>create\<close> starts at a multiple of four and is the guest's own; \<open>adjust\<close> is called with no
  state recorded. The two conditions are the ones the code needs and does not check: see
  \<open>frm_adjust_escapes\<close> and \<open>frm_create_clobbers\<close>.
\<close>

fun frm_call_ok :: "(ptr \<Rightarrow> nat) \<Rightarrow> frm_call \<Rightarrow> frm_world \<Rightarrow> bool" where
  "frm_call_ok lim (FrmCreate k sz flags) w \<longleftrightarrow>
     4 dvd unat k \<and> unat k + unat sz \<le> lim k \<and> lim k \<le> 9223372036854775808 \<and>
     lim k < unat k + 4294967296"
| "frm_call_ok lim (FrmAdjust k) w \<longleftrightarrow> fh_states (ht_host frm_init k (frm_heaps w)) = []"
| "frm_call_ok lim _ w \<longleftrightarrow> True"

fun frm_run :: "frm_call list \<Rightarrow> frm_world \<Rightarrow> frm_world" where
  "frm_run [] w = w"
| "frm_run (c # cs) w = frm_run cs (frm_exec c w)"

fun frm_run_ok :: "(ptr \<Rightarrow> nat) \<Rightarrow> frm_call list \<Rightarrow> frm_world \<Rightarrow> bool" where
  "frm_run_ok lim [] w \<longleftrightarrow> True"
| "frm_run_ok lim (c # cs) w \<longleftrightarrow> frm_call_ok lim c w \<and> frm_run_ok lim cs (frm_exec c w)"

lemma frm_live_cases:
  obtains (dead) w' where "frm_live k w = (None, w')" "w' = w \<or> w' = frm_put k (ht_host frm_init k (frm_heaps w)) w"
  | (live) h where "k \<noteq> null" "fh_live h" "h = ht_host frm_init k (frm_heaps w)"
      "frm_live k w = (Some h, frm_put k h w)"
  by (cases "k = null"; cases "fh_live (ht_host frm_init k (frm_heaps w))")
    (auto simp: frm_live_def frm_put_def ht_get_eq Let_def)

lemma frm_put_ok:
  "tab_ok (frm_ok lim) (frm_heaps w) \<Longrightarrow> frm_ok lim k h \<Longrightarrow> tab_ok (frm_ok lim) (frm_heaps (frm_put k h w))"
  by (simp add: frm_put_def tab_ok_store)

lemma frm_put_put [simp]: "frm_put k h2 (frm_put k h1 w) = frm_put k h2 w"
  by (simp add: frm_put_def)

lemma frm_live_ok:
  assumes "tab_ok (frm_ok lim) (frm_heaps w)"
  obtains (dead) w' where "frm_live k w = (None, w')" "tab_ok (frm_ok lim) (frm_heaps w')"
  | (live) h where "k \<noteq> null" "frm_live k w = (Some h, frm_put k h w)"
      "h = ht_host frm_init k (frm_heaps w)" "fh_live h" "frm_wf (unat k + 76) (lim k) h"
proof (cases rule: frm_live_cases [of k w])
  case (dead w')
  then show ?thesis using that(1) assms by (auto simp: frm_put_ok frm.host_ok)
next
  case (live h)
  then show ?thesis using that(2) frm.host_ok [OF assms, of k] by (auto simp: frm_ok_def)
qed

lemma frm_create_ok:
  assumes tab: "tab_ok (frm_ok lim) (frm_heaps w)" and call: "frm_call_ok lim (FrmCreate k sz flags) w"
  shows "tab_ok (frm_ok lim) (frm_heaps (snd (MEMCreateFrmHeapEx k sz flags w)))"
proof (cases "k = null \<or> sz \<le> COREINIT_NX_MEMFRMHEAP_SIZE")
  case True
  with tab show ?thesis by (auto simp: MEMCreateFrmHeapEx_def)
next
  case False
  then have sz: "76 < unat sz" and k: "0 < unat k" by (auto simp: word_le_nat_alt word_pos_unat)
  from call have fits: "unat k + unat sz \<le> lim k" "lim k \<le> 9223372036854775808"
    "lim k < unat k + 4294967296" and dvd: "4 dvd unat k" by simp_all
  have e: "unat (k + ucast sz) = unat k + unat sz"
    using fits by (simp add: unat_plus_u64)
  have b: "unat (k + 76) = unat k + 76"
    using fits sz by (simp add: unat_plus_u64)
  have "unat (alignUp (k + 76) 4) = round_up (unat k + 76) 4"
    using fits sz by (subst unat_alignUp) (simp_all add: b)
  also have "\<dots> = unat k + 76"
    using dvd by (intro le_antisym round_up_least round_up_ge) simp_all
  finally have st: "unat (alignUp (k + 76) 4) = unat k + 76" .
  have "\<not> k + ucast sz \<le> alignUp (k + 76) 4"
    using sz by (simp only: word_le_nat_alt st e)
  with False have "snd (MEMCreateFrmHeapEx k sz flags w) = frm_put k
      ((ht_host frm_init k (frm_heaps w))\<lparr>fh_dataStart := alignUp (k + 76) 4,
        fh_dataEnd := k + ucast sz, fh_head := alignUp (k + 76) 4,
        fh_tail := k + ucast sz, fh_flags := flags, fh_live := True, fh_states := []\<rparr>) w"
    by (simp add: MEMCreateFrmHeapEx_def Let_def)
  then show ?thesis
    using sz k fits e st tab by (auto simp: frm_ok_def frm_wf_def intro!: frm_put_ok)
qed

lemma frm_exec_ok:
  assumes tab: "tab_ok (frm_ok lim) (frm_heaps w)" and call: "frm_call_ok lim c w"
  shows "tab_ok (frm_ok lim) (frm_heaps (frm_exec c w))"
proof -
  have put: "tab_ok (frm_ok lim) (frm_heaps (frm_put k h' w))"
    if "frm_wf (unat k + 76) (lim k) h'" for k h'
    using frm_put_ok [OF tab] that by (simp add: frm_ok_def)
  show ?thesis
  proof (cases c)
    case (FrmCreate k sz flags)
    then show ?thesis using frm_create_ok [OF tab] call by simp
  next
    case (FrmDestroy k)
    then show ?thesis
      by (cases rule: frm_live_ok [OF tab, of k])
        (auto simp: MEMDestroyFrmHeap_def frm_ok_def intro!: frm_put_ok tab)
  next
    case (FrmAlloc k sz al)
    then show ?thesis
      by (cases rule: frm_live_ok [OF tab, of k])
        (auto simp: MEMAllocFromFrmHeapEx_def Let_def intro!: put intro: frm_alloc_wf
          split: option.split)
  next
    case (FrmFree k mode)
    then show ?thesis
      by (cases rule: frm_live_ok [OF tab, of k])
        (auto simp: MEMFreeToFrmHeap_def intro!: put frm_free_wf)
  next
    case (FrmRecord k tag)
    then show ?thesis
      by (cases rule: frm_live_ok [OF tab, of k])
        (auto simp: MEMRecordStateForFrmHeap_def intro!: put frm_record_wf)
  next
    case (FrmFreeByState k tag)
    then show ?thesis
      by (cases rule: frm_live_ok [OF tab, of k])
        (auto simp: MEMFreeByStateToFrmHeap_def intro!: put intro: frm_free_by_state_wf
          split: option.split)
  next
    case (FrmAdjust k)
    with call show ?thesis
      by (cases rule: frm_live_ok [OF tab, of k])
        (auto simp: MEMAdjustFrmHeap_def Let_def intro!: put frm_adjust_wf)
  next
    case (FrmAllocatable k al)
    then show ?thesis
      by (cases rule: frm_live_ok [OF tab, of k])
        (auto simp: MEMGetAllocatableSizeForFrmHeapEx_def intro!: put)
  qed
qed

section \<open>Sequences of allocations\<close>

text \<open>The blocks (address and size) a list of requests obtains from one heap, and the heap after them.\<close>

fun frm_allocs :: "(u32 \<times> s32) list \<Rightarrow> frm_heap \<Rightarrow> (ptr \<times> u32) list \<times> frm_heap" where
  "frm_allocs [] h = ([], h)"
| "frm_allocs ((sz, al) # rs) h =
     (case frm_alloc h (request_size sz) al of
        None \<Rightarrow> frm_allocs rs h
      | Some (p, h') \<Rightarrow>
          let (bs, h'') = frm_allocs rs h' in ((p, request_size sz) # bs, h''))"

definition blocks_apart :: "ptr \<times> u32 \<Rightarrow> ptr \<times> u32 \<Rightarrow> bool" where
  "blocks_apart b c \<longleftrightarrow>
     unat (fst b) + unat (snd b) \<le> unat (fst c) \<or> unat (fst c) + unat (snd c) \<le> unat (fst b)"

lemma frm_allocs_wf: "frm_wf lo hi h \<Longrightarrow> frm_wf lo hi (snd (frm_allocs rs h))"
  by (induction rs h rule: frm_allocs.induct)
    (auto simp: Let_def split: option.split prod.split dest: frm_alloc_wf)

lemma frm_allocs_inside:
  "frm_wf lo hi h \<Longrightarrow> (p, n) \<in> set (fst (frm_allocs rs h)) \<Longrightarrow>
     unat (fh_head h) \<le> unat p \<and> unat p + unat n \<le> unat (fh_tail h)"
proof (induction rs h rule: frm_allocs.induct)
  case (2 sz al rs h)
  show ?case
  proof (cases "frm_alloc h (request_size sz) al")
    case None
    with 2 show ?thesis by simp
  next
    case (Some r)
    obtain q h' where r: "r = (q, h')" by fastforce
    note a = Some [unfolded r] and s = frm_alloc_Some [OF "2.prems"(1) Some [unfolded r]]
    consider "(p, n) = (q, request_size sz)" | "(p, n) \<in> set (fst (frm_allocs rs h'))"
      using "2.prems"(2) a by (auto simp: Let_def split: prod.splits)
    then show ?thesis
    proof cases
      case 1
      then show ?thesis using s(2,3) by simp
    next
      case 2
      then have "unat (fh_head h') \<le> unat p \<and> unat p + unat n \<le> unat (fh_tail h')"
        using "2.IH"(2) [OF a refl frm_alloc_wf [OF "2.prems"(1) a]] by simp
      then show ?thesis using s(4,5) by linarith
    qed
  qed
qed simp

lemma frm_allocs_apart:
  "frm_wf lo hi h \<Longrightarrow> sorted_wrt blocks_apart (fst (frm_allocs rs h))"
proof (induction rs h rule: frm_allocs.induct)
  case (2 sz al rs h)
  show ?case
  proof (cases "frm_alloc h (request_size sz) al")
    case None
    with 2 show ?thesis by simp
  next
    case (Some r)
    obtain q h' where r: "r = (q, h')" by fastforce
    note a = Some [unfolded r] and s = frm_alloc_Some [OF "2.prems" Some [unfolded r]]
    have wf': "frm_wf lo hi h'" by (rule frm_alloc_wf [OF "2.prems" a])
    have "blocks_apart (q, request_size sz) b" if "b \<in> set (fst (frm_allocs rs h'))" for b
      using frm_allocs_inside [OF wf', of "fst b" "snd b" rs] that s(7)
      by (auto simp: blocks_apart_def)
    then show ?thesis
      using "2.IH"(2) [OF a refl wf'] a by (simp add: Let_def case_prod_beta)
  qed
qed simp

section \<open>How much can be allocated\<close>

lemma frm_alloc_iff_allocatable:
  assumes wf: "frm_wf lo hi h" and nz: "sz \<noteq> 0"
  shows "frm_alloc h sz al \<noteq> None \<longleftrightarrow> sz \<le> frm_allocatable al h"
proof -
  obtain a bot where al: "normaliseAlignment al = (a, bot)" by fastforce
  have p: "isPow2 a" using normaliseAlignment_pow2 [of al] al by simp
  note b = frm_wf_bounds [OF wf] isPow2_pos [OF p] isPow2_le [OF p]
  define H T where "H = unat (fh_head h)" and "T = unat (fh_tail h)"
  have up: "unat (alignUp (fh_head h) a) = round_up H (unat a)"
    using b unfolding H_def by (intro unat_alignUp p) linarith
  have ge: "H \<le> round_up H (unat a)" using b by (simp add: round_up_ge)
  have n: "0 < unat sz" using nz by (simp add: word_pos_unat)
  have "unat (frm_allocatable al h) = T - round_up H (unat a)"
  proof (cases "T \<le> round_up H (unat a)")
    case True
    then show ?thesis
      using up by (simp add: frm_allocatable_def al Let_def word_le_nat_alt T_def)
  next
    case False
    then have "unat (fh_tail h - alignUp (fh_head h) a) = T - round_up H (unat a)"
      by (simp add: unat_minus_nowrap up T_def)
    moreover have "T - round_up H (unat a) < 4294967296"
      using b ge unfolding H_def T_def by linarith
    ultimately show ?thesis
      using False up by (simp add: frm_allocatable_def al Let_def word_le_nat_alt T_def unat_ucast_u64_u32)
  qed
  then have avail: "sz \<le> frm_allocatable al h \<longleftrightarrow> round_up H (unat a) + unat sz \<le> T"
    using n by (simp add: word_le_nat_alt) linarith
  show ?thesis
  proof (cases bot)
    case False
    with al have al': "normaliseAlignment al = (a, False)" by simp
    show ?thesis unfolding avail using frm_alloc_head(1) [OF wf al', of sz]
      by (simp add: H_def T_def)
  next
    case True
    with al have al': "normaliseAlignment al = (a, True)" by simp
    have "unat sz \<le> T \<and> H \<le> round_down (T - unat sz) (unat a) \<longleftrightarrow> round_up H (unat a) + unat sz \<le> T"
    proof
      assume l: "unat sz \<le> T \<and> H \<le> round_down (T - unat sz) (unat a)"
      then have "round_up H (unat a) \<le> round_down (T - unat sz) (unat a)"
        using b by (intro round_up_least) simp_all
      then show "round_up H (unat a) + unat sz \<le> T"
        using l round_down_le [of "T - unat sz" "unat a"] by linarith
    next
      assume r: "round_up H (unat a) + unat sz \<le> T"
      then have "round_up H (unat a) \<le> round_down (T - unat sz) (unat a)"
        using b by (intro round_down_greatest) simp_all
      then show "unat sz \<le> T \<and> H \<le> round_down (T - unat sz) (unat a)"
        using r ge by linarith
    qed
    then show ?thesis unfolding avail using frm_alloc_tail(1) [OF wf al', of sz]
      by (simp add: H_def T_def)
  qed
qed

section \<open>Recording a state and freeing back to it\<close>

text \<open>What a guest does between the two: allocations and further recorded states.\<close>

datatype frm_act = Act_alloc u32 s32 | Act_record u32

fun frm_do :: "frm_act \<Rightarrow> frm_heap \<Rightarrow> frm_heap" where
  "frm_do (Act_alloc sz al) h =
     (case frm_alloc h (request_size sz) al of None \<Rightarrow> h | Some (p, h') \<Rightarrow> h')"
| "frm_do (Act_record tag) h = frm_record tag h"

fun act_keeps :: "u32 \<Rightarrow> frm_act \<Rightarrow> bool" where
  "act_keeps tag (Act_alloc sz al) \<longleftrightarrow> True"
| "act_keeps tag (Act_record t) \<longleftrightarrow> tag \<noteq> 0 \<and> t \<noteq> tag"

lemma frm_alloc_only_cursors:
  "frm_alloc h sz al = Some (p, h') \<Longrightarrow> \<exists>hd tl. h' = h\<lparr>fh_head := hd, fh_tail := tl\<rparr>"
  by (cases h) (auto simp: frm_alloc_def Let_def split: prod.splits if_splits)

lemma frm_act_shape:
  assumes "act_keeps tag a"
  shows "\<exists>hd tl ss. frm_do a h = h\<lparr>fh_head := hd, fh_tail := tl, fh_states := fh_states h @ ss\<rparr> \<and>
    (\<forall>s \<in> set ss. tag \<noteq> 0 \<and> st_tag s \<noteq> tag)"
proof (cases a)
  case (Act_alloc sz al)
  then show ?thesis
    using frm_alloc_only_cursors [of h "request_size sz" al]
    by (cases h) (fastforce split: option.split)
next
  case (Act_record t)
  with assms show ?thesis
    by (cases h) (auto simp: frm_record_def)
qed

lemma frm_acts_shape:
  "\<forall>a \<in> set as. act_keeps tag a \<Longrightarrow>
     \<exists>hd tl ss. fold frm_do as h = h\<lparr>fh_head := hd, fh_tail := tl, fh_states := fh_states h @ ss\<rparr> \<and>
       (\<forall>s \<in> set ss. tag \<noteq> 0 \<and> st_tag s \<noteq> tag)"
proof (induction as arbitrary: h)
  case Nil
  show ?case by (intro exI [of _ "fh_head h"] exI [of _ "fh_tail h"] exI [of _ "[]"]) simp
next
  case (Cons a as)
  obtain hd tl ss where a: "frm_do a h = h\<lparr>fh_head := hd, fh_tail := tl, fh_states := fh_states h @ ss\<rparr>"
    and ss: "\<forall>s \<in> set ss. tag \<noteq> 0 \<and> st_tag s \<noteq> tag"
    using frm_act_shape [of tag a h] Cons.prems by auto
  obtain hd' tl' ss' where "fold frm_do as (frm_do a h) =
      (frm_do a h)\<lparr>fh_head := hd', fh_tail := tl', fh_states := fh_states (frm_do a h) @ ss'\<rparr>"
    and ss': "\<forall>s \<in> set ss'. tag \<noteq> 0 \<and> st_tag s \<noteq> tag"
    using Cons.IH [of "frm_do a h"] Cons.prems by auto
  then have "fold frm_do (a # as) h =
      h\<lparr>fh_head := hd', fh_tail := tl', fh_states := fh_states h @ (ss @ ss')\<rparr>"
    by (simp add: a)
  with ss ss' show ?case by (metis UnE set_append)
qed

lemma find_state_skip:
  "\<forall>s \<in> set ss. st_tag s \<noteq> tag \<Longrightarrow> n \<le> length ss \<Longrightarrow> st_tag x = tag \<Longrightarrow>
     find_state tag (xs @ x # ss) (Suc (length xs + n)) = Some (length xs)"
  by (induction n) (auto simp: nth_append nth_Cons')

lemma frm_restore:
  assumes "\<forall>a \<in> set as. act_keeps tag a"
  shows "frm_free_by_state tag (fold frm_do as (frm_record tag h)) = Some h"
proof -
  define x where "x = \<lparr>st_tag = tag, st_head = fh_head h, st_tail = fh_tail h\<rparr>"
  obtain hd tl ss where eq: "fold frm_do as (frm_record tag h) =
      (frm_record tag h)\<lparr>fh_head := hd, fh_tail := tl, fh_states := fh_states (frm_record tag h) @ ss\<rparr>"
    and ss: "\<forall>s \<in> set ss. tag \<noteq> 0 \<and> st_tag s \<noteq> tag"
    using frm_acts_shape [OF assms] by blast
  have g: "fold frm_do as (frm_record tag h) =
      h\<lparr>fh_head := hd, fh_tail := tl, fh_states := fh_states h @ x # ss\<rparr>"
    unfolding eq by (simp add: frm_record_def x_def)
  show ?thesis
  proof (cases "tag = 0")
    case True
    with ss have "ss = []" by (cases ss) auto
    with True show ?thesis
      unfolding g by (cases h) (simp add: frm_free_by_state_def x_def)
  next
    case False
    have "find_state tag (fh_states h @ x # ss) (Suc (length (fh_states h) + length ss)) =
        Some (length (fh_states h))"
      using ss by (intro find_state_skip) (auto simp: x_def)
    with False show ?thesis
      unfolding g by (cases h) (simp add: frm_free_by_state_def x_def)
  qed
qed

section \<open>Properties\<close>

text \<open>A heap of 16 KiB at \<open>0x1000\<close> that zeroes what it hands out: the concrete input of the witnesses.\<close>

definition frm_demo :: frm_world where
  "frm_demo = snd (MEMCreateFrmHeapEx 0x1000 0x4000 1
     \<lparr>frm_heaps = Map.empty, frm_mem = (\<lambda>_. 255)\<rparr>)"

definition frm_demo_lim :: "ptr \<Rightarrow> nat" where
  "frm_demo_lim k = unat k + 0x4000"

lemmas frm_eval = MEMCreateFrmHeapEx_def MEMAllocFromFrmHeapEx_def MEMRecordStateForFrmHeap_def
  MEMAdjustFrmHeap_def MEMFreeByStateToFrmHeap_def MEMGetAllocatableSizeForFrmHeapEx_def
  frm_live_def frm_alloc_def frm_record_def frm_free_by_state_def frm_allocatable_def
  frm_put_def frm_init_def ht_store_def ht_host_def ht_get_def
  request_size_def normaliseAlignment_def isPow2_def alignUp_def alignDown_def Let_def

lemma frm_demo_heap: "frm_heaps frm_demo 0x1000 = Some \<lparr>fh_dataStart = 4172, fh_dataEnd = 20480,
    fh_head = 4172, fh_tail = 20480, fh_flags = 1, fh_live = True, fh_states = []\<rparr>"
  by (simp add: frm_demo_def frm_eval)

lemma frm_demo_ok: "tab_ok (frm_ok frm_demo_lim) (frm_heaps frm_demo)"
  unfolding frm_demo_def
  by (rule frm_create_ok) (simp_all add: frm_demo_lim_def dvd_def)

lemma MEMAllocFromFrmHeapEx_live:
  assumes "tab_ok (frm_ok lim) (frm_heaps w)" and "MEMAllocFromFrmHeapEx k sz al w = (p, w')"
    and "p \<noteq> null"
  obtains h h' where "frm_wf (unat k + 76) (lim k) h" "k \<noteq> null" "h = ht_host frm_init k (frm_heaps w)"
    "frm_alloc h (request_size sz) al = Some (p, h')" "frm_heaps w' = ht_store k h' (frm_heaps w)"
    "frm_mem w' = (if fh_flags h AND 1 \<noteq> 0 then memset p 0 (unat (request_size sz)) (frm_mem w) else frm_mem w)"
  using assms(1)
proof (cases rule: frm_live_ok [where k = k])
  case (dead w2)
  with assms show ?thesis by (simp add: MEMAllocFromFrmHeapEx_def)
next
  case (live h)
  with assms obtain h' where a: "frm_alloc h (request_size sz) al = Some (p, h')"
    and w': "w' = (let w'' = frm_put k h' w in if fh_flags h' AND 1 \<noteq> 0
      then w''\<lparr>frm_mem := memset p 0 (unat (request_size sz)) (frm_mem w'')\<rparr> else w'')"
    by (auto simp: MEMAllocFromFrmHeapEx_def Let_def split: option.splits)
  have "fh_flags h' = fh_flags h"
    using frm_alloc_only_cursors [OF a] by auto
  then show ?thesis
    using live a w' by (intro that [of h h']) (simp_all add: frm_put_def Let_def)
qed

text \<open>
  C10: A block the frame heap hands out is aligned as asked, lies behind the reserved 0x4C bytes and
  inside the guest's region, and is outside the gap from which later blocks are cut; the memory
  written is exactly the block, zeroed, when the heap has the zeroing flag, and nothing otherwise;
  no other heap changes.
\<close>

theorem MEMAllocFromFrmHeapEx_success:
  assumes "tab_ok (frm_ok lim) (frm_heaps w)" and "MEMAllocFromFrmHeapEx k sz al w = (p, w')"
    and "p \<noteq> null"
  shows "unat (fst (normaliseAlignment al)) dvd unat p \<and>
    unat k + 76 \<le> unat p \<and> unat p + unat (request_size sz) \<le> lim k \<and>
    (\<exists>h'. frm_heaps w' k = Some h' \<and>
      (unat p + unat (request_size sz) \<le> unat (fh_head h') \<or> unat (fh_tail h') \<le> unat p) \<and>
      frm_mem w' = (if fh_flags h' AND 1 \<noteq> 0 then memset p 0 (unat (request_size sz)) (frm_mem w)
                    else frm_mem w)) \<and>
    (\<forall>k'. k' \<noteq> k \<longrightarrow> frm_heaps w' k' = frm_heaps w k')"
proof -
  obtain h h' where h: "frm_wf (unat k + 76) (lim k) h" and
    a: "frm_alloc h (request_size sz) al = Some (p, h')" and
    t: "frm_heaps w' = ht_store k h' (frm_heaps w)" and
    m: "frm_mem w' = (if fh_flags h AND 1 \<noteq> 0 then memset p 0 (unat (request_size sz)) (frm_mem w)
      else frm_mem w)"
    using MEMAllocFromFrmHeapEx_live [OF assms] by metis
  have "fh_flags h' = fh_flags h" using frm_alloc_only_cursors [OF a] by auto
  moreover have "unat k + 76 \<le> unat (fh_head h)" "unat (fh_tail h) \<le> lim k"
    using h unfolding frm_wf_def by linarith+
  ultimately show ?thesis
    using frm_alloc_Some [OF h a] m by (auto simp: t)
qed

theorem MEMAllocFromFrmHeapEx_success_witness:
  "\<exists>w'. MEMAllocFromFrmHeapEx 0x1000 100 (-16) frm_demo = (20368, w') \<and>
     frm_mem w' 20368 = 0 \<and> frm_mem w' 20467 = 0 \<and> frm_mem w' 20468 = 255 \<and> 16 dvd (20368 :: nat)"
proof -
  define w' where "w' = snd (MEMAllocFromFrmHeapEx 0x1000 100 (-16) frm_demo)"
  have a: "MEMAllocFromFrmHeapEx 0x1000 100 (-16) frm_demo = (20368, w')"
    by (simp add: w'_def prod_eq_iff frm_demo_def frm_eval)
  have f: "fh_flags h' = 1" if "frm_heaps w' 0x1000 = Some h'" for h'
    using that by (auto simp: w'_def frm_demo_def frm_eval)
  have m: "frm_mem frm_demo = (\<lambda>_. 255)"
    by (simp add: frm_demo_def frm_eval)
  have al: "fst (normaliseAlignment (-16)) = 16"
    by (simp add: normaliseAlignment_def isPow2_def)
  show ?thesis
    using MEMAllocFromFrmHeapEx_success [OF frm_demo_ok a] a f m
    by (auto simp: al memset_def in_bytes_def request_size_def)
qed

text \<open>
  The frame heap never refuses a request that fits and never grants one that does not: an allocation
  returns a block exactly when the size (a request of 0 counts as 1) is at most what
  \<^verbatim>\<open>MEMGetAllocatableSizeForFrmHeapEx\<close> reports for the alignment, from either end of the region; a
  refused request changes no memory.
\<close>

theorem MEMAllocFromFrmHeapEx_iff_allocatable:
  assumes "tab_ok (frm_ok lim) (frm_heaps w)"
  shows "(fst (MEMAllocFromFrmHeapEx k sz al w) \<noteq> null \<longleftrightarrow>
      request_size sz \<le> fst (MEMGetAllocatableSizeForFrmHeapEx k al w)) \<and>
    (fst (MEMAllocFromFrmHeapEx k sz al w) = null \<longrightarrow>
      frm_mem (snd (MEMAllocFromFrmHeapEx k sz al w)) = frm_mem w)"
proof -
  have nz: "request_size sz \<noteq> 0" by (simp add: request_size_def)
  show ?thesis
    using assms
  proof (cases rule: frm_live_ok [where k = k])
    case (dead w')
    then have "frm_mem w' = frm_mem w"
      by (auto simp: frm_live_def Let_def split: if_splits prod.splits)
    with dead nz show ?thesis
      by (simp add: MEMAllocFromFrmHeapEx_def MEMGetAllocatableSizeForFrmHeapEx_def word_le_0_iff)
  next
    case (live h)
    note iff = frm_alloc_iff_allocatable [OF live(5) nz, of al]
    show ?thesis
    proof (cases "frm_alloc h (request_size sz) al")
      case None
      with live iff show ?thesis
        by (simp add: MEMAllocFromFrmHeapEx_def MEMGetAllocatableSizeForFrmHeapEx_def frm_put_def)
    next
      case (Some r)
      obtain p h' where r: "r = (p, h')" by fastforce
      have "0 < unat p"
        using frm_alloc_Some(2) [OF live(5) Some [unfolded r]] frm_wf_bounds(3) [OF live(5)] by linarith
      then have "p \<noteq> 0" by (simp add: word_pos_unat)
      with live iff Some r show ?thesis
        by (simp add: MEMAllocFromFrmHeapEx_def MEMGetAllocatableSizeForFrmHeapEx_def Let_def)
    qed
  qed
qed

theorem MEMAllocFromFrmHeapEx_iff_allocatable_witness:
  "fst (MEMGetAllocatableSizeForFrmHeapEx 0x1000 256 frm_demo) = 16128 \<and>
   fst (MEMAllocFromFrmHeapEx 0x1000 16128 256 frm_demo) \<noteq> null \<and>
   fst (MEMAllocFromFrmHeapEx 0x1000 16129 (-256) frm_demo) = null"
proof -
  have "fst (MEMGetAllocatableSizeForFrmHeapEx 0x1000 256 frm_demo) = 16128"
    "fst (MEMGetAllocatableSizeForFrmHeapEx 0x1000 (-256) frm_demo) = 16128"
    by (simp_all add: frm_demo_def frm_eval)
  then show ?thesis
    using MEMAllocFromFrmHeapEx_iff_allocatable [OF frm_demo_ok, of "0x1000" 16128 256]
      MEMAllocFromFrmHeapEx_iff_allocatable [OF frm_demo_ok, of "0x1000" 16129 "-256"]
    by (simp add: request_size_def)
qed

text \<open>
  Blocks obtained one after the other from a frame heap, from both ends in any order, are pairwise
  disjoint and all lie between the cursors the heap had before.
\<close>

theorem frm_blocks_disjoint:
  assumes "frm_wf lo hi h"
  shows "sorted_wrt blocks_apart (fst (frm_allocs rs h)) \<and>
    (\<forall>(p, n) \<in> set (fst (frm_allocs rs h)).
       unat (fh_head h) \<le> unat p \<and> unat p + unat n \<le> unat (fh_tail h)) \<and>
    frm_wf lo hi (snd (frm_allocs rs h))"
  using frm_allocs_apart [OF assms] frm_allocs_inside [OF assms] frm_allocs_wf [OF assms] by auto

theorem frm_blocks_disjoint_witness:
  "fst (frm_allocs [(100, 4), (1, -64), (0, 1)] (the (frm_heaps frm_demo 0x1000))) =
     [(4172, 100), (20416, 1), (4272, 1)] \<and>
   sorted_wrt blocks_apart [(4172, 100), (20416, 1), (4272, 1)]"
proof -
  have "frm_wf 76 20480 (the (frm_heaps frm_demo 0x1000))"
    by (simp add: frm_demo_heap frm_wf_def)
  moreover have "fst (frm_allocs [(100, 4), (1, -64), (0, 1)] (the (frm_heaps frm_demo 0x1000))) =
     [(4172, 100), (20416, 1), (4272, 1)]"
    by (simp add: frm_demo_heap frm_eval)
  ultimately show ?thesis
    using frm_blocks_disjoint [of 76 20480 "the (frm_heaps frm_demo 0x1000)"
        "[(100, 4), (1, -64), (0, 1)]"] by simp
qed

text \<open>
  C23: Whatever sequence of frame heap calls the guest makes, on any number of heaps, every live heap keeps
  \<open>dataStart \<le> head \<le> tail \<le> dataEnd\<close> inside the region it was created on, provided each created region
  is the guest's own and starts at a multiple of four, and \<^verbatim>\<open>MEMAdjustFrmHeap\<close> is not called while a state
  is recorded.
\<close>

theorem frm_run_keeps_ok:
  assumes "tab_ok (frm_ok lim) (frm_heaps w)" and "frm_run_ok lim cs w"
  shows "tab_ok (frm_ok lim) (frm_heaps (frm_run cs w)) \<and>
    (\<forall>k h. frm_heaps (frm_run cs w) k = Some h \<and> fh_live h \<longrightarrow>
       unat k + 76 \<le> unat (fh_dataStart h) \<and> fh_dataStart h \<le> fh_head h \<and> fh_head h \<le> fh_tail h \<and>
       fh_tail h \<le> fh_dataEnd h \<and> unat (fh_dataEnd h) \<le> lim k)"
proof -
  have run: "tab_ok (frm_ok lim) (frm_heaps (frm_run cs w))"
    using assms by (induction cs arbitrary: w) (auto dest: frm_exec_ok)
  then have "frm_wf (unat k + 76) (lim k) h" if "frm_heaps (frm_run cs w) k = Some h" "fh_live h" for k h
    using that by (simp add: tab_ok_def frm_ok_def)
  with run show ?thesis
    by (auto simp: frm_wf_def word_le_nat_alt)
qed

definition frm_demo_calls :: "frm_call list" where
  "frm_demo_calls = [FrmCreate 0x1000 0x4000 0, FrmAlloc 0x1000 100 4, FrmRecord 0x1000 7,
     FrmAlloc 0x1000 64 (-16), FrmFreeByState 0x1000 7, FrmAdjust 0x1000]"

theorem frm_run_keeps_ok_witness:
  "\<exists>h. frm_heaps (frm_run frm_demo_calls \<lparr>frm_heaps = Map.empty, frm_mem = (\<lambda>_. 0)\<rparr>) 0x1000 = Some h \<and>
     fh_live h \<and> fh_dataEnd h = 4272 \<and> fh_tail h \<le> fh_dataEnd h"
proof -
  have ok: "frm_run_ok frm_demo_lim frm_demo_calls \<lparr>frm_heaps = Map.empty, frm_mem = (\<lambda>_. 0)\<rparr>"
    by (simp add: frm_demo_calls_def frm_demo_lim_def frm_eval dvd_def)
  have run: "frm_heaps (frm_run frm_demo_calls \<lparr>frm_heaps = Map.empty, frm_mem = (\<lambda>_. 0)\<rparr>) 0x1000 =
      Some \<lparr>fh_dataStart = 4172, fh_dataEnd = 4272, fh_head = 4272, fh_tail = 4272, fh_flags = 0,
        fh_live = True, fh_states = []\<rparr>"
    by (simp add: frm_demo_calls_def frm_eval)
  show ?thesis
    using frm_run_keeps_ok [OF _ ok] run by simp
qed

text \<open>
  The calls that may stand between recording a state of the heap \<open>k\<close> and freeing back to it: allocations
  and queries on any heap, states of other heaps, states of \<open>k\<close> under another tag, and anything on another
  heap.
\<close>

fun call_keeps :: "ptr \<Rightarrow> u32 \<Rightarrow> frm_call \<Rightarrow> bool" where
  "call_keeps k tag (FrmCreate k' sz flags) \<longleftrightarrow> k' \<noteq> k"
| "call_keeps k tag (FrmDestroy k') \<longleftrightarrow> k' \<noteq> k"
| "call_keeps k tag (FrmAlloc k' sz al) \<longleftrightarrow> True"
| "call_keeps k tag (FrmFree k' mode) \<longleftrightarrow> k' \<noteq> k"
| "call_keeps k tag (FrmRecord k' t) \<longleftrightarrow> k' \<noteq> k \<or> act_keeps tag (Act_record t)"
| "call_keeps k tag (FrmFreeByState k' t) \<longleftrightarrow> k' \<noteq> k"
| "call_keeps k tag (FrmAdjust k') \<longleftrightarrow> k' \<noteq> k"
| "call_keeps k tag (FrmAllocatable k' al) \<longleftrightarrow> True"

fun call_handle :: "frm_call \<Rightarrow> ptr" where
  "call_handle (FrmCreate k' sz flags) = k'"
| "call_handle (FrmDestroy k') = k'"
| "call_handle (FrmAlloc k' sz al) = k'"
| "call_handle (FrmFree k' mode) = k'"
| "call_handle (FrmRecord k' t) = k'"
| "call_handle (FrmFreeByState k' t) = k'"
| "call_handle (FrmAdjust k') = k'"
| "call_handle (FrmAllocatable k' al) = k'"

lemma frm_put_other [simp]: "k \<noteq> k' \<Longrightarrow> frm_heaps (frm_put k' h w) k = frm_heaps w k"
  by (simp add: frm_put_def)

lemma frm_put_same [simp]: "frm_heaps (frm_put k h w) k = Some h"
  by (simp add: frm_put_def)

lemma frm_exec_other: "call_handle c \<noteq> k \<Longrightarrow> frm_heaps (frm_exec c w) k = frm_heaps w k"
  by (cases c; cases rule: frm_live_cases [of "call_handle c" w])
    (auto simp: MEMCreateFrmHeapEx_def MEMDestroyFrmHeap_def MEMAllocFromFrmHeapEx_def MEMFreeToFrmHeap_def
      MEMRecordStateForFrmHeap_def MEMFreeByStateToFrmHeap_def MEMAdjustFrmHeap_def
      MEMGetAllocatableSizeForFrmHeapEx_def Let_def split: option.split)

lemma frm_live_known:
  "k \<noteq> null \<Longrightarrow> frm_heaps w k = Some h \<Longrightarrow> fh_live h \<Longrightarrow> frm_live k w = (Some h, w)"
  by (simp add: frm_live_def ht_get_def Let_def)

lemma frm_exec_acts:
  assumes live: "k \<noteq> null" "frm_heaps w k = Some h" "fh_live h" and c: "call_keeps k tag c"
  shows "\<exists>as. (\<forall>a \<in> set as. act_keeps tag a) \<and> frm_heaps (frm_exec c w) k = Some (fold frm_do as h)"
proof (cases "call_handle c = k")
  case False
  then show ?thesis
    using live by (intro exI [of _ "[]"]) (simp add: frm_exec_other)
next
  case True
  note l = frm_live_known [OF live]
  from True c consider (alloc) sz al where "c = FrmAlloc k sz al"
    | (recorded) t where "c = FrmRecord k t" "act_keeps tag (Act_record t)"
    | (query) al where "c = FrmAllocatable k al"
    by (cases c) auto
  then show ?thesis
  proof cases
    case (alloc sz al)
    then show ?thesis
      using live l by (intro exI [of _ "[Act_alloc sz al]"])
        (auto simp: MEMAllocFromFrmHeapEx_def Let_def split: option.split)
  next
    case (recorded t)
    then show ?thesis
      using l by (intro exI [of _ "[Act_record t]"]) (simp add: MEMRecordStateForFrmHeap_def)
  next
    case (query al)
    then show ?thesis
      using live l by (intro exI [of _ "[]"]) (simp add: MEMGetAllocatableSizeForFrmHeapEx_def)
  qed
qed

lemma frm_do_live [simp]: "fh_live (frm_do a h) = fh_live h"
  by (cases a) (auto simp: frm_record_def split: option.split dest: frm_alloc_only_cursors)

lemma fold_frm_do_live [simp]: "fh_live (fold frm_do as h) = fh_live h"
  by (induction as arbitrary: h) simp_all

lemma frm_run_acts:
  assumes "k \<noteq> null" "frm_heaps w k = Some h" "fh_live h" "\<forall>c \<in> set cs. call_keeps k tag c"
  shows "\<exists>as. (\<forall>a \<in> set as. act_keeps tag a) \<and> frm_heaps (frm_run cs w) k = Some (fold frm_do as h)"
  using assms
proof (induction cs arbitrary: w h)
  case Nil
  then show ?case by (intro exI [of _ "[]"]) simp
next
  case (Cons c cs)
  then obtain as where as: "\<forall>a \<in> set as. act_keeps tag a"
    and e: "frm_heaps (frm_exec c w) k = Some (fold frm_do as h)"
    using frm_exec_acts [of k w h tag c] by auto
  obtain as' where "\<forall>a \<in> set as'. act_keeps tag a"
    and "frm_heaps (frm_run cs (frm_exec c w)) k = Some (fold frm_do as' (fold frm_do as h))"
    using Cons.IH [OF Cons.prems(1) e] Cons.prems by auto
  with as show ?case by (intro exI [of _ "as @ as'"]) auto
qed

text \<open>
  C27: Recording a state of a frame heap and freeing back to it brings the heap back to exactly what it was,
  cursors and recorded states included, whatever allocations and nested recordings (under other tags) the
  guest made on the heap in between and whatever it did to other heaps; tag 0 frees to the most recent state.
\<close>

theorem frm_record_free_restores:
  assumes "k \<noteq> null" and "frm_heaps w k = Some h" and "fh_live h"
    and "\<forall>c \<in> set cs. call_keeps k tag c"
  shows "fst (MEMRecordStateForFrmHeap k tag w) = 1 \<and>
    (let w1 = snd (MEMRecordStateForFrmHeap k tag w); w2 = frm_run cs w1 in
     fst (MEMFreeByStateToFrmHeap k tag w2) = 1 \<and>
     frm_heaps (snd (MEMFreeByStateToFrmHeap k tag w2)) k = Some h)"
proof -
  have r: "MEMRecordStateForFrmHeap k tag w = (1, frm_put k (frm_record tag h) w)"
    using frm_live_known [OF assms(1-3)] by (simp add: MEMRecordStateForFrmHeap_def)
  have "fh_live (frm_record tag h)" using assms(3) by (simp add: frm_record_def)
  then obtain as where as: "\<forall>a \<in> set as. act_keeps tag a" and
    w2: "frm_heaps (frm_run cs (frm_put k (frm_record tag h) w)) k = Some (fold frm_do as (frm_record tag h))"
    using frm_run_acts [OF assms(1) _ _ assms(4), of "frm_put k (frm_record tag h) w" "frm_record tag h"]
    by auto
  then show ?thesis
    using frm_live_known [OF assms(1) w2] frm_restore [OF as, of h] \<open>fh_live (frm_record tag h)\<close>
    by (simp add: r Let_def MEMFreeByStateToFrmHeap_def)
qed

theorem frm_record_free_restores_witness:
  "let w1 = snd (MEMRecordStateForFrmHeap 0x1000 7 frm_demo);
       w2 = frm_run [FrmAlloc 0x1000 100 4, FrmRecord 0x1000 8, FrmAlloc 0x1000 1 (-4)] w1
   in frm_heaps w2 0x1000 \<noteq> frm_heaps frm_demo 0x1000 \<and>
      frm_heaps (snd (MEMFreeByStateToFrmHeap 0x1000 7 w2)) 0x1000 = frm_heaps frm_demo 0x1000"
proof -
  have "frm_heaps (frm_run [FrmAlloc 0x1000 100 4, FrmRecord 0x1000 8, FrmAlloc 0x1000 1 (-4)]
      (snd (MEMRecordStateForFrmHeap 0x1000 7 frm_demo))) 0x1000 \<noteq> frm_heaps frm_demo 0x1000"
    by (simp add: frm_demo_def frm_eval)
  then show ?thesis
    using frm_record_free_restores [OF _ frm_demo_heap, where tag = 7 and
        cs = "[FrmAlloc 0x1000 100 4, FrmRecord 0x1000 8, FrmAlloc 0x1000 1 (-4)]"]
    by (simp add: frm_demo_heap Let_def)
qed

section \<open>Two calls the code does not guard\<close>

text \<open>
  \<^verbatim>\<open>MEMAdjustFrmHeap\<close> does not forget the recorded states: after a state is recorded, the heap shrunk to its
  head, and the state freed, the tail is back at the old end, beyond the end the adjusted heap reported, so
  the heap hands out memory it has given back.
\<close>

theorem frm_adjust_escapes:
  assumes "k \<noteq> null" and "frm_heaps w k = Some h" and "fh_live h"
    and "fh_tail h = fh_dataEnd h" and "fh_head h < fh_dataEnd h"
  shows "let w1 = snd (MEMRecordStateForFrmHeap k tag w);
             w2 = snd (MEMAdjustFrmHeap k w1);
             w3 = snd (MEMFreeByStateToFrmHeap k tag w2)
         in \<exists>h3. frm_heaps w3 k = Some h3 \<and> fh_live h3 \<and> fh_dataEnd h3 = fh_head h \<and>
              fh_dataEnd h3 < fh_tail h3"
proof -
  have "find_state tag (fh_states h @ [\<lparr>st_tag = tag, st_head = fh_head h, st_tail = fh_tail h\<rparr>])
      (Suc (length (fh_states h))) = Some (length (fh_states h))"
    using find_state_skip [of "[]" tag 0] by simp
  then show ?thesis
    using assms
    by (simp add: Let_def MEMRecordStateForFrmHeap_def MEMAdjustFrmHeap_def MEMFreeByStateToFrmHeap_def
        frm_live_known frm_record_def frm_free_by_state_def)
qed

theorem frm_adjust_escapes_witness:
  "let w1 = snd (MEMRecordStateForFrmHeap 0x1000 7 frm_demo);
       (len, w2) = MEMAdjustFrmHeap 0x1000 w1;
       w3 = snd (MEMFreeByStateToFrmHeap 0x1000 7 w2)
   in len = 76 \<and> (\<exists>h3. frm_heaps w3 0x1000 = Some h3 \<and> fh_dataEnd h3 < fh_tail h3) \<and>
      fst (MEMAllocFromFrmHeapEx 0x1000 16 4 w3) = 0x1000 + 76"
proof -
  have "fst (MEMAdjustFrmHeap 0x1000 (snd (MEMRecordStateForFrmHeap 0x1000 7 frm_demo))) = 76 \<and>
    fst (MEMAllocFromFrmHeapEx 0x1000 16 4 (snd (MEMFreeByStateToFrmHeap 0x1000 7
      (snd (MEMAdjustFrmHeap 0x1000 (snd (MEMRecordStateForFrmHeap 0x1000 7 frm_demo))))))) = 0x1000 + 76"
    by (simp add: frm_demo_def frm_eval)
  then show ?thesis
    using frm_adjust_escapes [OF _ frm_demo_heap, where tag = 7]
    by (auto simp: Let_def case_prod_beta)
qed

text \<open>
  Creating a heap again over a live one, at an address that is not a multiple of four and with a size that
  leaves no room behind the reserved bytes, fails, but only after the bounds of the live heap were overwritten.
\<close>

lemma frm_create_clobbers:
  "let w = snd (MEMCreateFrmHeapEx 0x1001 0x4000 0 \<lparr>frm_heaps = Map.empty, frm_mem = (\<lambda>_. 0)\<rparr>);
       (p, w') = MEMCreateFrmHeapEx 0x1001 0x4D 0 w
   in p = null \<and> (\<exists>h. frm_heaps w' 0x1001 = Some h \<and> fh_live h \<and> fh_dataEnd h < fh_tail h)"
  by (simp add: frm_eval)

end
