(* ===== verification/ExpHeap.thy ===== *)
theory ExpHeap
  imports HandleTable Alignment
begin

text \<open>
  The expanded heap of \<^verbatim>\<open>source/memexpheap.cpp\<close>: a general allocator over a region the guest supplies,
  with a list of blocks kept outside the region. \<open>block\<close> is \<^verbatim>\<open>Block\<close>, \<open>exp_heap\<close> is \<^verbatim>\<open>HostExpHeap\<close>, and
  \<open>exp_world\<close> the table \<^verbatim>\<open>g_expHeaps\<close> with the guest memory. The steps of the allocation are \<open>exp_choose\<close>
  (the search loop), \<open>exp_carve\<close> (cutting the block and its remainder from the chosen free block) and the
  replacement in the list; freeing marks the block and runs \<open>coalesce\<close>.

  The invariant \<open>exp_wf\<close> says that the blocks tile the region in order, that no two free blocks are
  neighbours, and that each used block holds its header and its payload.
\<close>

section \<open>State\<close>

record block =
  bk_start :: ptr
  bk_size :: u32
  bk_payload :: ptr
  bk_payloadSize :: u32
  bk_used :: bool
  bk_direction :: u8

record exp_heap =
  eh_dataStart :: ptr
  eh_dataEnd :: ptr
  eh_flags :: u16
  eh_mode :: u8
  eh_live :: bool
  eh_blocks :: "block list"

record exp_world =
  exp_heaps :: "exp_heap table"
  exp_mem :: memory

abbreviation (input) COREINIT_NX_MEMEXPHEAP_SIZE :: u32 where
  "COREINIT_NX_MEMEXPHEAP_SIZE \<equiv> 0x54"

abbreviation (input) COREINIT_NX_EXPBLOCK_SIZE :: u32 where
  "COREINIT_NX_EXPBLOCK_SIZE \<equiv> 0x14"

abbreviation (input) MEM_EXP_HEAP_MODE_FIRST_FREE :: u8 where
  "MEM_EXP_HEAP_MODE_FIRST_FREE \<equiv> 0"

abbreviation (input) MEM_EXP_HEAP_MODE_NEAREST_SIZE :: u8 where
  "MEM_EXP_HEAP_MODE_NEAREST_SIZE \<equiv> 1"

abbreviation (input) MEM_EXP_HEAP_DIR_FROM_TOP :: u8 where
  "MEM_EXP_HEAP_DIR_FROM_TOP \<equiv> 0"

abbreviation (input) MEM_EXP_HEAP_DIR_FROM_BOTTOM :: u8 where
  "MEM_EXP_HEAP_DIR_FROM_BOTTOM \<equiv> 1"

definition exp_init :: exp_heap where
  "exp_init = \<lparr>eh_dataStart = 0, eh_dataEnd = 0, eh_flags = 0, eh_mode = MEM_EXP_HEAP_MODE_FIRST_FREE,
     eh_live = False, eh_blocks = []\<rparr>"

definition free_block :: "ptr \<Rightarrow> u32 \<Rightarrow> block" where
  "free_block st sz = \<lparr>bk_start = st, bk_size = sz, bk_payload = 0, bk_payloadSize = 0,
     bk_used = False, bk_direction = MEM_EXP_HEAP_DIR_FROM_TOP\<rparr>"

section \<open>Operations\<close>

definition exp_live :: "ptr \<Rightarrow> exp_world \<Rightarrow> exp_heap option \<times> exp_world" where
  "exp_live heap w =
     (if heap = null then (None, w)
      else let (h, t) = ht_get exp_init heap (exp_heaps w)
           in (if eh_live h then Some h else None, w\<lparr>exp_heaps := t\<rparr>))"

definition exp_put :: "ptr \<Rightarrow> exp_heap \<Rightarrow> exp_world \<Rightarrow> exp_world" where
  "exp_put heap h w = w\<lparr>exp_heaps := ht_store heap h (exp_heaps w)\<rparr>"

text \<open>The largest payload of this alignment that fits in a free block.\<close>

definition fitInFree :: "block \<Rightarrow> u32 \<Rightarrow> u32" where
  "fitInFree b a =
     (let en = bk_start b + ucast (bk_size b);
          lowest = alignUp (bk_start b + ucast COREINIT_NX_EXPBLOCK_SIZE) a
      in if en \<le> lowest then 0 else ucast (en - lowest))"

text \<open>
  The loop of \<^verbatim>\<open>coalesce\<close>: at index \<open>i\<close>, a free block swallows its free successor (and the index
  stays), else the index moves on.
\<close>

function coalesce_from :: "nat \<Rightarrow> block list \<Rightarrow> block list" where
  "coalesce_from i bs =
     (if i + 1 < length bs then
        if \<not> bk_used (bs ! i) \<and> \<not> bk_used (bs ! (i + 1)) then
          coalesce_from i
            (take i bs @ (bs ! i)\<lparr>bk_size := bk_size (bs ! i) + bk_size (bs ! (i + 1))\<rparr> # drop (i + 2) bs)
        else coalesce_from (i + 1) bs
      else bs)"
  by pat_completeness auto
termination
  by (relation "measure (\<lambda>(i, bs). length bs - i)") auto

declare coalesce_from.simps [simp del]

definition coalesce :: "exp_heap \<Rightarrow> exp_heap" where
  "coalesce h = h\<lparr>eh_blocks := coalesce_from 0 (eh_blocks h)\<rparr>"

definition MEMCreateExpHeapEx :: "ptr \<Rightarrow> u32 \<Rightarrow> u16 \<Rightarrow> exp_world \<Rightarrow> ptr \<times> exp_world" where
  "MEMCreateExpHeapEx heap sz flags w =
     (if heap = null \<or> sz \<le> COREINIT_NX_MEMEXPHEAP_SIZE + COREINIT_NX_EXPBLOCK_SIZE then (null, w)
      else
        let h = ht_host exp_init heap (exp_heaps w);
            base = heap;
            h1 = h\<lparr>eh_dataStart := alignUp (base + ucast COREINIT_NX_MEMEXPHEAP_SIZE) 4,
                   eh_dataEnd := base + ucast sz\<rparr>
        in if eh_dataEnd h1 \<le> eh_dataStart h1 then (null, exp_put heap h1 w)
           else (heap, exp_put heap
                   (h1\<lparr>eh_flags := flags, eh_mode := MEM_EXP_HEAP_MODE_FIRST_FREE, eh_live := True,
                       eh_blocks := [free_block (eh_dataStart h1)
                                       (ucast (eh_dataEnd h1 - eh_dataStart h1))]\<rparr>) w))"

definition MEMDestroyExpHeap :: "ptr \<Rightarrow> exp_world \<Rightarrow> ptr \<times> exp_world" where
  "MEMDestroyExpHeap heap w =
     (case exp_live heap w of
        (None, w') \<Rightarrow> (null, w')
      | (Some h, w') \<Rightarrow> (heap, exp_put heap (h\<lparr>eh_live := False, eh_blocks := []\<rparr>) w'))"

text \<open>
  The search loop: \<open>i\<close> is the index of the first block of the rest, \<open>chosen\<close> and \<open>chosenSlack\<close> the loop's
  variables; the first fit ends the loop, in the other mode the tightest fit is kept.
\<close>

fun exp_choose :: "u8 \<Rightarrow> u32 \<Rightarrow> u32 \<Rightarrow> nat \<Rightarrow> nat option \<Rightarrow> u32 \<Rightarrow> block list \<Rightarrow> nat option" where
  "exp_choose mode sz a i chosen chosenSlack [] = chosen"
| "exp_choose mode sz a i chosen chosenSlack (b # bs) =
     (if bk_used b then exp_choose mode sz a (Suc i) chosen chosenSlack bs
      else
        let avail = fitInFree b a in
        if avail < sz then exp_choose mode sz a (Suc i) chosen chosenSlack bs
        else if mode = MEM_EXP_HEAP_MODE_FIRST_FREE then Some i
        else
          let slack = avail - sz in
          if chosen = None \<or> slack < chosenSlack
          then exp_choose mode sz a (Suc i) (Some i) slack bs
          else exp_choose mode sz a (Suc i) chosen chosenSlack bs)"

text \<open>
  Cutting the allocation out of the chosen free block: the payload and the blocks that replace the free
  one. A remainder smaller than \<^verbatim>\<open>minSplit\<close> stays with the used block.
\<close>

definition minSplit :: u32 where
  "minSplit = COREINIT_NX_EXPBLOCK_SIZE + 4"

definition exp_carve :: "block \<Rightarrow> u32 \<Rightarrow> u32 \<Rightarrow> bool \<Rightarrow> (ptr \<times> block list) option" where
  "exp_carve fr sz a fromBottom =
     (let freeEnd = bk_start fr + ucast (bk_size fr) in
      if fromBottom then
        let payload = alignDown (freeEnd - ucast sz) a;
            blockStart = payload - ucast COREINIT_NX_EXPBLOCK_SIZE;
            blockEnd = freeEnd
        in if blockStart < bk_start fr then None
           else
             let used = \<lparr>bk_start = blockStart, bk_size = ucast (blockEnd - blockStart),
                          bk_payload = payload, bk_payloadSize = sz, bk_used = True,
                          bk_direction = MEM_EXP_HEAP_DIR_FROM_BOTTOM\<rparr>;
                 before = ucast (blockStart - bk_start fr)
             in Some (payload,
                  if minSplit \<le> before then [free_block (bk_start fr) before, used]
                  else if 0 < before then
                    [used\<lparr>bk_start := bk_start fr, bk_size := bk_size used + before\<rparr>]
                  else [used])
      else
        let payload = alignUp (bk_start fr + ucast COREINIT_NX_EXPBLOCK_SIZE) a;
            blockStart = bk_start fr;
            blockEnd = payload + ucast sz
        in if freeEnd < blockEnd then None
           else
             let used = \<lparr>bk_start = blockStart, bk_size = ucast (blockEnd - blockStart),
                          bk_payload = payload, bk_payloadSize = sz, bk_used = True,
                          bk_direction = MEM_EXP_HEAP_DIR_FROM_TOP\<rparr>;
                 after = ucast (freeEnd - blockEnd)
             in Some (payload,
                  if minSplit \<le> after then [used, free_block blockEnd after]
                  else [used\<lparr>bk_size := bk_size used + after\<rparr>]))"

definition exp_request :: "u32 \<Rightarrow> u32" where
  "exp_request sz = (if sz = 0 then 1 else sz)"

definition exp_alloc :: "exp_heap \<Rightarrow> u32 \<Rightarrow> s32 \<Rightarrow> (ptr \<times> exp_heap) option" where
  "exp_alloc h sz alignment =
     (let (a, fromBottom) = normaliseAlignment alignment in
      case exp_choose (eh_mode h) sz a 0 None 0 (eh_blocks h) of
        None \<Rightarrow> None
      | Some chosen \<Rightarrow>
          (case exp_carve (eh_blocks h ! chosen) sz a fromBottom of
             None \<Rightarrow> None
           | Some (payload, replacement) \<Rightarrow>
               Some (payload, h\<lparr>eh_blocks :=
                 take chosen (eh_blocks h) @ replacement @ drop (Suc chosen) (eh_blocks h)\<rparr>)))"

definition MEMAllocFromExpHeapEx :: "ptr \<Rightarrow> u32 \<Rightarrow> s32 \<Rightarrow> exp_world \<Rightarrow> ptr \<times> exp_world" where
  "MEMAllocFromExpHeapEx heap sz alignment w =
     (case exp_live heap w of
        (None, w') \<Rightarrow> (null, w')
      | (Some h, w') \<Rightarrow>
          (case exp_alloc h (exp_request sz) alignment of
             None \<Rightarrow> (null, w')
           | Some (payload, h') \<Rightarrow>
               let w'' = exp_put heap h' w' in
               (payload,
                if eh_flags h' AND 1 \<noteq> 0
                then w''\<lparr>exp_mem := memset payload 0 (unat (exp_request sz)) (exp_mem w'')\<rparr>
                else w'')))"

text \<open>The loop of \<^verbatim>\<open>MEMFreeToExpHeap\<close>: the first used block with this payload.\<close>

fun exp_find :: "ptr \<Rightarrow> nat \<Rightarrow> block list \<Rightarrow> nat option" where
  "exp_find p i [] = None"
| "exp_find p i (b # bs) =
     (if bk_used b \<and> bk_payload b = p then Some i else exp_find p (Suc i) bs)"

definition exp_free :: "ptr \<Rightarrow> exp_heap \<Rightarrow> exp_heap" where
  "exp_free p h =
     (case exp_find p 0 (eh_blocks h) of
        None \<Rightarrow> h
      | Some i \<Rightarrow>
          coalesce (h\<lparr>eh_blocks := (eh_blocks h)
            [i := (eh_blocks h ! i)\<lparr>bk_used := False, bk_payload := 0, bk_payloadSize := 0\<rparr>]\<rparr>))"

definition MEMFreeToExpHeap :: "ptr \<Rightarrow> ptr \<Rightarrow> exp_world \<Rightarrow> exp_world" where
  "MEMFreeToExpHeap heap p w =
     (case exp_live heap w of
        (None, w') \<Rightarrow> w'
      | (Some h, w') \<Rightarrow> if p = null then w' else exp_put heap (exp_free p h) w')"

fun exp_total_free :: "u32 \<Rightarrow> block list \<Rightarrow> u32" where
  "exp_total_free tot [] = tot"
| "exp_total_free tot (b # bs) =
     exp_total_free (if \<not> bk_used b then tot + bk_size b else tot) bs"

definition MEMGetTotalFreeSizeForExpHeap :: "ptr \<Rightarrow> exp_world \<Rightarrow> u32 \<times> exp_world" where
  "MEMGetTotalFreeSizeForExpHeap heap w =
     (case exp_live heap w of
        (None, w') \<Rightarrow> (0, w')
      | (Some h, w') \<Rightarrow> (exp_total_free 0 (eh_blocks h), w'))"

fun exp_best :: "u32 \<Rightarrow> u32 \<Rightarrow> block list \<Rightarrow> u32" where
  "exp_best a best [] = best"
| "exp_best a best (b # bs) =
     (if bk_used b then exp_best a best bs
      else let avail = fitInFree b a in exp_best a (if best < avail then avail else best) bs)"

definition exp_allocatable :: "s32 \<Rightarrow> exp_heap \<Rightarrow> u32" where
  "exp_allocatable alignment h =
     (let (a, fromBottom) = normaliseAlignment alignment in exp_best a 0 (eh_blocks h))"

definition MEMGetAllocatableSizeForExpHeapEx :: "ptr \<Rightarrow> s32 \<Rightarrow> exp_world \<Rightarrow> u32 \<times> exp_world" where
  "MEMGetAllocatableSizeForExpHeapEx heap alignment w =
     (case exp_live heap w of
        (None, w') \<Rightarrow> (0, w')
      | (Some h, w') \<Rightarrow> (exp_allocatable alignment h, w'))"

text \<open>The mode of \<^verbatim>\<open>MEMSetAllocModeForExpHeap\<close> is an enum, stored as a byte.\<close>

definition MEMSetAllocModeForExpHeap :: "ptr \<Rightarrow> u32 \<Rightarrow> exp_world \<Rightarrow> u32 \<times> exp_world" where
  "MEMSetAllocModeForExpHeap heap mode w =
     (case exp_live heap w of
        (None, w') \<Rightarrow> (ucast MEM_EXP_HEAP_MODE_FIRST_FREE, w')
      | (Some h, w') \<Rightarrow> (ucast (eh_mode h), exp_put heap (h\<lparr>eh_mode := ucast mode\<rparr>) w'))"

definition MEMGetAllocModeForExpHeap :: "ptr \<Rightarrow> exp_world \<Rightarrow> u32 \<times> exp_world" where
  "MEMGetAllocModeForExpHeap heap w =
     (case exp_live heap w of
        (None, w') \<Rightarrow> (ucast MEM_EXP_HEAP_MODE_FIRST_FREE, w')
      | (Some h, w') \<Rightarrow> (ucast (eh_mode h), w'))"

end
