(* ===== verification/ExpHeapWf.thy ===== *)
theory ExpHeapWf
  imports ExpHeap
begin

text \<open>
  The correctness of the expanded heap of \<open>ExpHeap\<close>. The blocks are read on the natural numbers: \<open>tiles\<close>
  says that they cover an interval in order without gap or overlap, \<open>separated\<close> that no two free blocks are
  neighbours. \<open>merge_free\<close> is the list recursion the index loop of \<^verbatim>\<open>coalesce\<close> computes. From these follow the
  invariant \<open>exp_wf\<close> of every operation, the exact condition under which an allocation succeeds, and that the
  block list is determined by the outstanding allocations.
\<close>

section \<open>Lists of blocks\<close>

fun tiles :: "nat \<Rightarrow> block list \<Rightarrow> nat \<Rightarrow> bool" where
  "tiles lo [] hi \<longleftrightarrow> lo = hi"
| "tiles lo (b # bs) hi \<longleftrightarrow>
     unat (bk_start b) = lo \<and> 0 < unat (bk_size b) \<and> tiles (lo + unat (bk_size b)) bs hi"

fun separated :: "block list \<Rightarrow> bool" where
  "separated [] \<longleftrightarrow> True"
| "separated [b] \<longleftrightarrow> True"
| "separated (b # c # bs) \<longleftrightarrow> (bk_used b \<or> bk_used c) \<and> separated (c # bs)"

definition block_ok :: "block \<Rightarrow> bool" where
  "block_ok b \<longleftrightarrow>
     (if bk_used b then
        unat (bk_start b) + 20 \<le> unat (bk_payload b) \<and> 0 < unat (bk_payloadSize b) \<and>
        unat (bk_payload b) + unat (bk_payloadSize b) \<le> unat (bk_start b) + unat (bk_size b)
      else bk_payload b = 0 \<and> bk_payloadSize b = 0)"

lemma tiles_le: "tiles lo bs hi \<Longrightarrow> lo \<le> hi"
  by (induction bs arbitrary: lo) fastforce+

lemma tiles_append: "tiles lo (xs @ ys) hi \<longleftrightarrow> (\<exists>m. tiles lo xs m \<and> tiles m ys hi)"
  by (induction xs arbitrary: lo) auto

lemma tiles_split:
  assumes "tiles lo (xs @ b # ys) hi"
  shows "tiles lo xs (unat (bk_start b))" "lo \<le> unat (bk_start b)" "0 < unat (bk_size b)"
    "tiles (unat (bk_start b) + unat (bk_size b)) ys hi" "unat (bk_start b) + unat (bk_size b) \<le> hi"
proof -
  obtain m where m: "tiles lo xs m" "tiles m (b # ys) hi" using assms tiles_append by blast
  then show "tiles lo xs (unat (bk_start b))" "0 < unat (bk_size b)"
    "tiles (unat (bk_start b) + unat (bk_size b)) ys hi" by auto
  then show "lo \<le> unat (bk_start b)" "unat (bk_start b) + unat (bk_size b) \<le> hi"
    by (auto dest: tiles_le)
qed

lemma separated_append:
  "separated (xs @ ys) \<longleftrightarrow> separated xs \<and> separated ys \<and>
     (xs \<noteq> [] \<longrightarrow> ys \<noteq> [] \<longrightarrow> bk_used (last xs) \<or> bk_used (hd ys))"
proof (induction xs rule: separated.induct)
  case (2 b)
  then show ?case by (cases ys) auto
qed auto

text \<open>Replacing a free block by blocks that are themselves separated keeps the list separated.\<close>

lemma separated_replace:
  "separated (xs @ b # ys) \<Longrightarrow> \<not> bk_used b \<Longrightarrow> separated rs \<Longrightarrow> rs \<noteq> [] \<Longrightarrow> separated (xs @ rs @ ys)"
  by (cases ys) (auto simp: separated_append)

section \<open>Coalescing\<close>

fun merge_free :: "block list \<Rightarrow> block list" where
  "merge_free [] = []"
| "merge_free [b] = [b]"
| "merge_free (b # c # bs) =
     (if \<not> bk_used b \<and> \<not> bk_used c then merge_free (b\<lparr>bk_size := bk_size b + bk_size c\<rparr> # bs)
      else b # merge_free (c # bs))"

lemma coalesce_from_merge: "coalesce_from (length xs) (xs @ ys) = xs @ merge_free ys"
proof (induction ys arbitrary: xs rule: merge_free.induct)
  case (3 b c bs)
  show ?case
  proof (cases "\<not> bk_used b \<and> \<not> bk_used c")
    case True
    then have "coalesce_from (length xs) (xs @ b # c # bs) =
        coalesce_from (length xs) (xs @ b\<lparr>bk_size := bk_size b + bk_size c\<rparr> # bs)"
      by (subst coalesce_from.simps) (simp add: nth_append)
    with 3(1) [OF True] True show ?thesis by simp
  next
    case False
    then have "coalesce_from (length xs) (xs @ b # c # bs) = coalesce_from (length (xs @ [b])) ((xs @ [b]) @ c # bs)"
      by (subst coalesce_from.simps) (auto simp: nth_append)
    with 3(2) [OF False, of "xs @ [b]"] False show ?thesis by auto
  qed
qed (simp_all add: coalesce_from.simps)

lemma coalesce_merge: "coalesce h = h\<lparr>eh_blocks := merge_free (eh_blocks h)\<rparr>"
  using coalesce_from_merge [of "[]"] by (simp add: coalesce_def)

lemma merge_free_hd: "merge_free (b # bs) \<noteq> [] \<and> bk_used (hd (merge_free (b # bs))) = bk_used b"
  by (induction "b # bs" arbitrary: b bs rule: merge_free.induct) auto

lemma merge_free_separated: "separated (merge_free bs)"
proof (induction bs rule: merge_free.induct)
  case (3 b c bs)
  then show ?case
    using merge_free_hd [of c bs] by (cases "merge_free (c # bs)") auto
qed auto

lemma merge_free_used: "filter bk_used (merge_free bs) = filter bk_used bs"
  by (induction bs rule: merge_free.induct) auto

lemma merge_free_ok: "list_all block_ok bs \<Longrightarrow> list_all block_ok (merge_free bs)"
  by (induction bs rule: merge_free.induct) (auto simp: block_ok_def)

lemma merge_free_tiles: "tiles lo bs hi \<Longrightarrow> hi < lo + 4294967296 \<Longrightarrow> tiles lo (merge_free bs) hi"
proof (induction bs arbitrary: lo rule: merge_free.induct)
  case (3 b c bs)
  then have "lo + unat (bk_size b) + unat (bk_size c) \<le> hi" by (auto dest: tiles_le)
  then have "unat (bk_size b + bk_size c) = unat (bk_size b) + unat (bk_size c)"
    using 3(4) by (intro unat_plus_u32) linarith
  with 3 show ?case by (auto simp: add.assoc)
qed auto

section \<open>The invariant\<close>

definition exp_wf :: "nat \<Rightarrow> nat \<Rightarrow> exp_heap \<Rightarrow> bool" where
  "exp_wf lo hi h \<longleftrightarrow>
     0 < lo \<and> hi \<le> 9223372036854775808 \<and>
     lo \<le> unat (eh_dataStart h) \<and> unat (eh_dataEnd h) \<le> hi \<and>
     unat (eh_dataEnd h) < unat (eh_dataStart h) + 4294967296 \<and>
     tiles (unat (eh_dataStart h)) (eh_blocks h) (unat (eh_dataEnd h)) \<and>
     list_all block_ok (eh_blocks h) \<and> separated (eh_blocks h)"

definition exp_ok :: "(ptr \<Rightarrow> nat) \<Rightarrow> ptr \<Rightarrow> exp_heap \<Rightarrow> bool" where
  [inv_simps]: "exp_ok lim k h \<longleftrightarrow> eh_live h \<longrightarrow> exp_wf (unat k + 84) (lim k) h"

interpretation exph: hosted_object exp_init "exp_ok lim" for lim
  by unfold_locales (simp add: exp_ok_def exp_init_def)


section \<open>The fit of a free block\<close>

text \<open>The lowest aligned address behind the header, and whether a payload fits behind it.\<close>

definition lowest :: "block \<Rightarrow> u32 \<Rightarrow> nat" where
  "lowest b a = round_up (unat (bk_start b) + 20) (unat a)"

definition fits :: "block \<Rightarrow> u32 \<Rightarrow> u32 \<Rightarrow> bool" where
  "fits b a sz \<longleftrightarrow> \<not> bk_used b \<and> lowest b a + unat sz \<le> unat (bk_start b) + unat (bk_size b)"

definition in_range :: "block \<Rightarrow> bool" where
  "in_range b \<longleftrightarrow> unat (bk_start b) + unat (bk_size b) \<le> 9223372036854775808"

lemma tiles_in_range: "tiles lo bs hi \<Longrightarrow> hi \<le> 9223372036854775808 \<Longrightarrow> b \<in> set bs \<Longrightarrow> in_range b"
  by (induction bs arbitrary: lo) (auto simp: in_range_def dest: tiles_le)

lemma block_end: "in_range b \<Longrightarrow> unat (bk_start b + ucast (bk_size b)) = unat (bk_start b) + unat (bk_size b)"
  by (subst unat_plus_u64) (simp_all add: in_range_def)

lemma unat_lowest:
  assumes "in_range b" "isPow2 a"
  shows "unat (alignUp (bk_start b + 20) a) = lowest b a"
proof -
  have "unat (bk_start b + 20) = unat (bk_start b) + 20"
    using assms(1) by (subst unat_plus_u64) (simp_all add: in_range_def)
  then show ?thesis
    using assms isPow2_le [OF assms(2)] by (subst unat_alignUp) (simp_all add: in_range_def lowest_def)
qed

lemma lowest_bounds: "isPow2 a \<Longrightarrow> unat (bk_start b) + 20 \<le> lowest b a"
  "isPow2 a \<Longrightarrow> lowest b a < unat (bk_start b) + 20 + unat a"
  by (simp_all add: lowest_def round_up_ge round_up_less isPow2_pos)

lemma unat_fitInFree:
  assumes "in_range b" "isPow2 a"
  shows "unat (fitInFree b a) = unat (bk_start b) + unat (bk_size b) - lowest b a"
proof -
  have e: "unat (bk_start b) + unat (bk_size b) - lowest b a < 4294967296"
    using lowest_bounds(1) [OF assms(2), of b] unat_less_2p32 [of "bk_size b"] by linarith
  show ?thesis
  proof (cases "unat (bk_start b) + unat (bk_size b) \<le> lowest b a")
    case False
    then have "unat (bk_start b + ucast (bk_size b) - alignUp (bk_start b + 20) a) =
        unat (bk_start b) + unat (bk_size b) - lowest b a"
      by (simp add: unat_minus_nowrap block_end unat_lowest assms)
    then show ?thesis
      using False e by (simp add: fitInFree_def Let_def word_le_nat_alt block_end unat_lowest assms unat_ucast_u64_u32)
  qed (simp add: fitInFree_def Let_def word_le_nat_alt block_end unat_lowest assms)
qed

lemma fits_fitInFree:
  "in_range b \<Longrightarrow> isPow2 a \<Longrightarrow> sz \<noteq> 0 \<Longrightarrow> fits b a sz \<longleftrightarrow> \<not> bk_used b \<and> sz \<le> fitInFree b a"
  by (auto simp: fits_def word_le_nat_alt unat_fitInFree word_pos_unat)

section \<open>The search\<close>


definition candidate :: "u32 \<Rightarrow> u32 \<Rightarrow> block \<Rightarrow> bool" where
  "candidate sz a b \<longleftrightarrow> \<not> bk_used b \<and> sz \<le> fitInFree b a"

lemma exp_choose_skip:
  "\<not> candidate sz a b \<Longrightarrow> exp_choose mode sz a k c s (b # bs) = exp_choose mode sz a (Suc k) c s bs"
  by (auto simp: candidate_def not_le)

lemma exp_choose_stop: "candidate sz a b \<Longrightarrow> exp_choose 0 sz a k c s (b # bs) = Some k"
  by (auto simp: candidate_def not_le Let_def)

lemma exp_choose_take:
  "candidate sz a b \<Longrightarrow> mode \<noteq> 0 \<Longrightarrow> c = None \<or> fitInFree b a - sz < s \<Longrightarrow>
     exp_choose mode sz a k c s (b # bs) = exp_choose mode sz a (Suc k) (Some k) (fitInFree b a - sz) bs"
  by (auto simp: candidate_def not_le Let_def)

lemma exp_choose_keep:
  "candidate sz a b \<Longrightarrow> mode \<noteq> 0 \<Longrightarrow> c \<noteq> None \<Longrightarrow> s \<le> fitInFree b a - sz \<Longrightarrow>
     exp_choose mode sz a k c s (b # bs) = exp_choose mode sz a (Suc k) c s bs"
  by (auto simp: candidate_def not_le Let_def)

declare exp_choose.simps(2) [simp del]

lemmas exp_choose_steps = exp_choose_skip exp_choose_stop exp_choose_take exp_choose_keep

lemma exp_choose_cases:
  obtains "\<not> candidate sz a b" | "candidate sz a b" "mode = 0"
  | "candidate sz a b" "mode \<noteq> 0" "c = None \<or> fitInFree b a - sz < (s :: u32)"
  | "candidate sz a b" "mode \<noteq> 0" "c \<noteq> None" "s \<le> fitInFree b a - sz"
  by (meson not_le)

lemma exp_choose_None:
  "exp_choose mode sz a k c s bs = None \<longleftrightarrow> c = None \<and> (\<forall>b \<in> set bs. \<not> candidate sz a b)"
proof (induction bs arbitrary: k c s)
  case (Cons b bs)
  show ?case
    by (cases rule: exp_choose_cases [where sz = sz and a = a and b = b and mode = mode and c = c and s = s])
      (auto simp: exp_choose_steps Cons.IH)
qed simp

lemma exp_choose_Some:
  "exp_choose mode sz a k c s bs = Some i \<Longrightarrow>
     c = Some i \<or> (\<exists>j < length bs. i = k + j \<and> candidate sz a (bs ! j))"
proof (induction bs arbitrary: k c s)
  case (Cons b bs)
  have later: "\<exists>j < length (b # bs). i = k + j \<and> candidate sz a ((b # bs) ! j)"
    if "\<exists>j < length bs. i = Suc k + j \<and> candidate sz a (bs ! j)"
    using that by (elim exE) (rule_tac x = "Suc j" in exI, simp)
  show ?case
  proof (cases rule: exp_choose_cases [where sz = sz and a = a and b = b and mode = mode and c = c and s = s])
    case 1
    with Cons.prems have "c = Some i \<or> (\<exists>j < length bs. i = Suc k + j \<and> candidate sz a (bs ! j))"
      by (intro Cons.IH) (simp add: exp_choose_skip)
    with later show ?thesis by blast
  next
    case 2
    with Cons.prems show ?thesis by (auto simp: exp_choose_stop intro: exI [of _ 0])
  next
    case 3
    with Cons.prems have "Some k = Some i \<or> (\<exists>j < length bs. i = Suc k + j \<and> candidate sz a (bs ! j))"
      by (intro Cons.IH) (simp add: exp_choose_take)
    moreover have "\<exists>j < length (b # bs). k = k + j \<and> candidate sz a ((b # bs) ! j)"
      using 3 by (intro exI [of _ 0]) simp
    ultimately show ?thesis using later by blast
  next
    case 4
    with Cons.prems have "c = Some i \<or> (\<exists>j < length bs. i = Suc k + j \<and> candidate sz a (bs ! j))"
      by (intro Cons.IH) (simp add: exp_choose_keep)
    with later show ?thesis by blast
  qed
qed simp

lemma exp_choose_first:
  "exp_choose 0 sz a k None s bs = Some (k + i) \<Longrightarrow> j < i \<Longrightarrow> \<not> candidate sz a (bs ! j)"
proof (induction bs arbitrary: k i j)
  case (Cons b bs)
  show ?case
  proof (cases "candidate sz a b")
    case True
    with Cons.prems show ?thesis by (simp add: exp_choose_stop)
  next
    case False
    with Cons.prems have e: "exp_choose 0 sz a (Suc k) None s bs = Some (Suc k + (i - 1))"
      by (simp add: exp_choose_skip)
    show ?thesis
      using Cons.IH [OF e, of "j - 1"] Cons.prems(2) False by (cases j) auto
  qed
qed simp

text \<open>In the other mode no fitting block is tighter than the one chosen.\<close>

lemma exp_choose_nearest:
  assumes "mode \<noteq> 0" and "exp_choose mode sz a k c s bs = Some i"
  shows "\<exists>v. (c = Some i \<and> v = s \<or> (\<exists>j < length bs. i = k + j \<and> v = fitInFree (bs ! j) a - sz)) \<and>
    (c \<noteq> None \<longrightarrow> v \<le> s) \<and> (\<forall>b \<in> set bs. candidate sz a b \<longrightarrow> v \<le> fitInFree b a - sz)"
  using assms(2)
proof (induction bs arbitrary: k c s)
  case (Cons b bs)
  have later: "\<exists>j < length (b # bs). i = k + j \<and> v = fitInFree ((b # bs) ! j) a - sz"
    if "\<exists>j < length bs. i = Suc k + j \<and> v = fitInFree (bs ! j) a - sz" for v
    using that by (elim exE) (rule_tac x = "Suc j" in exI, simp)
  show ?case
  proof (cases rule: exp_choose_cases [where sz = sz and a = a and b = b and mode = mode and c = c and s = s])
    case 1
    with Cons.IH [of "Suc k" c s] Cons.prems later show ?thesis by (fastforce simp: exp_choose_skip)
  next
    case 2
    with assms show ?thesis by simp
  next
    case 3
    then obtain v where v: "Some k = Some i \<and> v = fitInFree b a - sz \<or>
        (\<exists>j < length bs. i = Suc k + j \<and> v = fitInFree (bs ! j) a - sz)"
      "v \<le> fitInFree b a - sz" "\<forall>b \<in> set bs. candidate sz a b \<longrightarrow> v \<le> fitInFree b a - sz"
      using Cons.IH [of "Suc k" "Some k" "fitInFree b a - sz"] Cons.prems by (auto simp: exp_choose_take)
    then have "\<exists>j < length (b # bs). i = k + j \<and> v = fitInFree ((b # bs) ! j) a - sz"
      using later by (auto intro: exI [of _ 0])
    moreover have "c \<noteq> None \<longrightarrow> v \<le> s" using v(2) 3 by auto
    ultimately show ?thesis using v by (intro exI [of _ v]) auto
  next
    case 4
    with Cons.prems obtain v where v: "c = Some i \<and> v = s \<or>
        (\<exists>j < length bs. i = Suc k + j \<and> v = fitInFree (bs ! j) a - sz)"
      "v \<le> s" "\<forall>b \<in> set bs. candidate sz a b \<longrightarrow> v \<le> fitInFree b a - sz"
      using Cons.IH [of "Suc k" c s] by (auto simp: exp_choose_keep)
    with 4 later show ?thesis by (intro exI [of _ v]) auto
  qed
qed simp


section \<open>Cutting a block\<close>

text \<open>
  What an allocation puts in place of a free block: blocks that tile the same interval, one of them used,
  with the payload and its size, and none of them a needless free neighbour of another.
\<close>

definition good_carve :: "block \<Rightarrow> u32 \<Rightarrow> u32 \<Rightarrow> ptr \<Rightarrow> block list \<Rightarrow> bool" where
  "good_carve fr sz a p rs \<longleftrightarrow>
     tiles (unat (bk_start fr)) rs (unat (bk_start fr) + unat (bk_size fr)) \<and>
     list_all block_ok rs \<and> separated rs \<and> rs \<noteq> [] \<and> unat a dvd unat p \<and>
     (\<exists>u. filter bk_used rs = [u] \<and> bk_payload u = p \<and> bk_payloadSize u = sz)"

lemma carve_top:
  assumes r: "in_range fr" and p: "isPow2 a" and nz: "sz \<noteq> 0" and f: "fits fr a sz"
  shows "\<exists>p rs. exp_carve fr sz a False = Some (p, rs) \<and> good_carve fr sz a p rs"
proof -
  define S where "S = unat (bk_start fr)"
  define Z where "Z = unat (bk_size fr)"
  define P where "P = alignUp (bk_start fr + 20) a"
  define E where "E = P + ucast sz"
  define FE where "FE = bk_start fr + ucast (bk_size fr)"
  define L where "L = lowest fr a"
  have b: "S + 20 \<le> L" "L + unat sz \<le> S + Z" "S + Z \<le> 9223372036854775808" "Z < 4294967296" "0 < unat sz"
    using lowest_bounds(1) [OF p, of fr] f r nz unat_less_2p32 [of "bk_size fr"]
    by (auto simp: fits_def in_range_def S_def Z_def L_def word_pos_unat)
  have uP: "unat P = L" by (simp add: P_def L_def unat_lowest r p)
  have uE: "unat E = L + unat sz"
    unfolding E_def using b by (subst unat_plus_u64) (simp_all add: uP)
  have uFE: "unat FE = S + Z" by (simp add: FE_def block_end r S_def Z_def)
  have used: "unat (ucast (E - bk_start fr) :: u32) = L + unat sz - S"
    using b uE by (subst unat_ucast_u64_u32; subst unat_minus_nowrap) (simp_all add: S_def [symmetric])
  have after: "unat (ucast (FE - E) :: u32) = S + Z - (L + unat sz)"
    using b uE uFE by (subst unat_ucast_u64_u32; subst unat_minus_nowrap) simp_all
  have nofail: "\<not> FE < E" using b by (simp add: word_less_nat_alt uE uFE)
  have all: "unat (ucast (E - bk_start fr) + ucast (FE - E) :: u32) = Z"
    using b used after by (subst unat_plus_u32) simp_all
  have al: "unat a dvd L" by (simp add: L_def lowest_def)
  have S: "unat (bk_start fr) = S" and Z: "unat (bk_size fr) = Z" by (simp_all add: S_def Z_def)
  show ?thesis
    using b al nofail used after all uE uP
    by (auto simp: exp_carve_def Let_def P_def [symmetric] E_def [symmetric] FE_def [symmetric] S Z
        good_carve_def block_ok_def free_block_def minSplit_def word_le_nat_alt)
qed

lemma carve_bottom:
  assumes r: "in_range fr" and p: "isPow2 a" and nz: "sz \<noteq> 0" and f: "fits fr a sz"
  shows "\<exists>p rs. exp_carve fr sz a True = Some (p, rs) \<and> good_carve fr sz a p rs"
proof -
  define S where "S = unat (bk_start fr)"
  define Z where "Z = unat (bk_size fr)"
  define FE where "FE = bk_start fr + ucast (bk_size fr)"
  define P where "P = alignDown (FE - ucast sz) a"
  define B where "B = P - 20"
  define D where "D = round_down (S + Z - unat sz) (unat a)"
  have b: "S + 20 \<le> lowest fr a" "lowest fr a + unat sz \<le> S + Z" "S + Z \<le> 9223372036854775808"
    "Z < 4294967296" "0 < unat sz"
    using lowest_bounds(1) [OF p, of fr] f r nz unat_less_2p32 [of "bk_size fr"]
    by (auto simp: fits_def in_range_def S_def Z_def word_pos_unat)
  have uFE: "unat FE = S + Z" by (simp add: FE_def block_end r S_def Z_def)
  have uP: "unat P = D"
    using b by (simp add: P_def D_def unat_alignDown p unat_minus_nowrap uFE)
  have "lowest fr a \<le> D"
    unfolding D_def using b isPow2_pos [OF p] by (intro round_down_greatest) (simp_all add: lowest_def)
  moreover have "D \<le> S + Z - unat sz" by (simp add: D_def)
  ultimately have D: "S + 20 \<le> D" "D + unat sz \<le> S + Z" using b by linarith+
  have uB: "unat B = D - 20" using D uP by (simp add: B_def unat_minus_nowrap)
  define U :: u32 where "U = ucast (FE - B)"
  define V :: u32 where "V = ucast (B - bk_start fr)"
  define u where "u = \<lparr>bk_start = B, bk_size = U, bk_payload = P, bk_payloadSize = sz, bk_used = True,
    bk_direction = 1\<rparr>"
  have U: "unat U = S + Z - (D - 20)" unfolding U_def
    using b D uB uFE by (subst unat_ucast_u64_u32; subst unat_minus_nowrap) simp_all
  have V: "unat V = D - 20 - S" unfolding V_def
    using b D uB by (subst unat_ucast_u64_u32; subst unat_minus_nowrap) (simp_all add: S_def [symmetric])
  have UV: "unat (U + V) = Z"
    using b D U V by (subst unat_plus_u32) simp_all
  have "\<not> B < bk_start fr" using D uB by (simp add: word_less_nat_alt S_def)
  then have eq: "exp_carve fr sz a True = Some (P,
      if 24 \<le> V then [free_block (bk_start fr) V, u]
      else if 0 < V then [u\<lparr>bk_start := bk_start fr, bk_size := U + V\<rparr>] else [u])" (is "_ = Some (P, ?rs)")
    by (simp add: exp_carve_def Let_def FE_def [symmetric] P_def [symmetric] B_def [symmetric] U_def V_def u_def
        minSplit_def)
  have al: "unat a dvd D" by (simp add: D_def)
  have S: "unat (bk_start fr) = S" and Z: "unat (bk_size fr) = Z" by (simp_all add: S_def Z_def)
  consider "24 \<le> V" "24 \<le> D - 20 - S" | "\<not> 24 \<le> V" "0 < V" "S < D - 20" | "V = 0" "D - 20 = S"
    using V D by (fastforce simp: word_le_nat_alt word_less_nat_alt unat_eq_0 [symmetric])
  then have "good_carve fr sz a P ?rs"
  proof cases
    case 1
    then show ?thesis
      using b D al U V uB uP by (simp add: good_carve_def u_def free_block_def block_ok_def S Z)
  next
    case 2
    then show ?thesis
      using b D al UV uB uP by (simp add: good_carve_def u_def block_ok_def S Z)
  next
    case 3
    then show ?thesis
      using b D al U uB uP by (simp add: good_carve_def u_def block_ok_def S Z)
  qed
  with eq show ?thesis by blast
qed

lemma carve_good:
  "in_range fr \<Longrightarrow> isPow2 a \<Longrightarrow> sz \<noteq> 0 \<Longrightarrow> fits fr a sz \<Longrightarrow>
     \<exists>p rs. exp_carve fr sz a fromBottom = Some (p, rs) \<and> good_carve fr sz a p rs"
  by (cases fromBottom) (simp_all add: carve_top carve_bottom)


section \<open>Allocation\<close>

text \<open>The free block at which an allocation works, and what becomes of the list.\<close>

definition exp_alloc_step :: "exp_heap \<Rightarrow> u32 \<Rightarrow> u32 \<Rightarrow> ptr \<Rightarrow> exp_heap \<Rightarrow> bool" where
  "exp_alloc_step h sz a p h' \<longleftrightarrow>
     (\<exists>xs fr ys rs. eh_blocks h = xs @ fr # ys \<and> fits fr a sz \<and> good_carve fr sz a p rs \<and>
        exp_choose (eh_mode h) sz a 0 None 0 (eh_blocks h) = Some (length xs) \<and>
        h' = h\<lparr>eh_blocks := xs @ rs @ ys\<rparr>)"

lemma wf_in_range: "exp_wf lo hi h \<Longrightarrow> b \<in> set (eh_blocks h) \<Longrightarrow> in_range b"
  by (rule tiles_in_range) (auto simp: exp_wf_def)

lemma wf_candidate:
  "exp_wf lo hi h \<Longrightarrow> isPow2 a \<Longrightarrow> sz \<noteq> 0 \<Longrightarrow> b \<in> set (eh_blocks h) \<Longrightarrow> candidate sz a b \<longleftrightarrow> fits b a sz"
  by (simp add: candidate_def fits_fitInFree wf_in_range)

lemma exp_alloc_cases:
  assumes wf: "exp_wf lo hi h" and nz: "sz \<noteq> 0"
  obtains (none) "exp_alloc h sz al = None"
      "\<forall>b \<in> set (eh_blocks h). \<not> fits b (fst (normaliseAlignment al)) sz"
  | (some) p h' where "exp_alloc h sz al = Some (p, h')"
      "exp_alloc_step h sz (fst (normaliseAlignment al)) p h'"
proof -
  obtain a fromBottom where al: "normaliseAlignment al = (a, fromBottom)" by fastforce
  have p: "isPow2 a" using normaliseAlignment_pow2 [of al] al by simp
  show thesis
  proof (cases "exp_choose (eh_mode h) sz a 0 None 0 (eh_blocks h)")
    case None
    then have "\<forall>b \<in> set (eh_blocks h). \<not> fits b a sz"
      by (simp add: exp_choose_None wf_candidate [OF wf p nz])
    with None al show ?thesis by (intro none) (simp_all add: exp_alloc_def)
  next
    case (Some i)
    from exp_choose_Some [OF this] have i: "i < length (eh_blocks h)" "candidate sz a (eh_blocks h ! i)"
      by auto
    define fr where "fr = eh_blocks h ! i"
    have f: "fits fr a sz" "in_range fr"
      using i by (simp_all add: fr_def wf_candidate [OF wf p nz, symmetric] wf_in_range [OF wf])
    obtain q rs where c: "exp_carve fr sz a fromBottom = Some (q, rs)" "good_carve fr sz a q rs"
      using carve_good [OF f(2) p nz f(1)] by blast
    have split: "eh_blocks h = take i (eh_blocks h) @ fr # drop (Suc i) (eh_blocks h)"
      unfolding fr_def by (rule id_take_nth_drop [OF i(1)])
    have "exp_alloc h sz al = Some (q, h\<lparr>eh_blocks :=
        take i (eh_blocks h) @ rs @ drop (Suc i) (eh_blocks h)\<rparr>)"
      using Some c by (simp add: exp_alloc_def al fr_def)
    moreover have "exp_alloc_step h sz a q (h\<lparr>eh_blocks :=
        take i (eh_blocks h) @ rs @ drop (Suc i) (eh_blocks h)\<rparr>)"
      unfolding exp_alloc_step_def
      using split f(1) c(2) Some i(1)
      by (intro exI [of _ "take i (eh_blocks h)"] exI [of _ fr] exI [of _ "drop (Suc i) (eh_blocks h)"]
          exI [of _ rs]) simp
    ultimately show ?thesis using al by (intro some) simp_all
  qed
qed

lemma exp_step_wf: "exp_wf lo hi h \<Longrightarrow> exp_alloc_step h sz a p h' \<Longrightarrow> exp_wf lo hi h'"
  by (auto simp: exp_alloc_step_def exp_wf_def good_carve_def tiles_append fits_def
      intro: separated_replace intro!: exI)

text \<open>The outstanding allocations: the used blocks. An allocation adds one, with the payload and size asked.\<close>

definition used_blocks :: "exp_heap \<Rightarrow> block list" where
  "used_blocks h = filter bk_used (eh_blocks h)"

lemma exp_step_used:
  "exp_alloc_step h sz a p h' \<Longrightarrow>
     \<exists>us vs u. used_blocks h = us @ vs \<and> used_blocks h' = us @ u # vs \<and> bk_used u \<and> bk_payload u = p \<and>
       bk_payloadSize u = sz"
proof -
  assume "exp_alloc_step h sz a p h'"
  then obtain xs fr ys rs u where h: "eh_blocks h = xs @ fr # ys" "h' = h\<lparr>eh_blocks := xs @ rs @ ys\<rparr>"
    "\<not> bk_used fr" and u: "filter bk_used rs = [u]" "bk_payload u = p" "bk_payloadSize u = sz"
    by (auto simp: exp_alloc_step_def good_carve_def fits_def)
  have "u \<in> set (filter bk_used rs)" by (simp only: u list.set_intros)
  then have "bk_used u" by simp
  with h u show ?thesis
    by (intro exI [of _ "filter bk_used xs"] exI [of _ "filter bk_used ys"] exI [of _ u])
      (simp add: used_blocks_def)
qed

text \<open>The bytes of the used blocks do not overlap, and each payload lies in its block behind the header.\<close>

definition blocks_apart :: "block \<Rightarrow> block \<Rightarrow> bool" where
  "blocks_apart b c \<longleftrightarrow> unat (bk_start b) + unat (bk_size b) \<le> unat (bk_start c)"

lemma tiles_apart: "tiles lo bs hi \<Longrightarrow> sorted_wrt blocks_apart bs \<and> (\<forall>b \<in> set bs. lo \<le> unat (bk_start b) \<and>
    unat (bk_start b) + unat (bk_size b) \<le> hi)"
proof (induction bs arbitrary: lo)
  case (Cons b bs)
  then show ?case by (force simp: blocks_apart_def dest: tiles_le)
qed simp

lemma used_blocks_apart: "exp_wf lo hi h \<Longrightarrow> sorted_wrt blocks_apart (used_blocks h)"
  unfolding used_blocks_def by (intro sorted_wrt_filter) (auto simp: exp_wf_def dest: tiles_apart)

lemma used_block_inside:
  assumes "exp_wf lo hi h" "b \<in> set (used_blocks h)"
  shows "lo + 20 \<le> unat (bk_payload b)" "unat (bk_payload b) + unat (bk_payloadSize b) \<le> hi"
    "0 < unat (bk_payloadSize b)" "unat (bk_start b) + 20 \<le> unat (bk_payload b)"
    "unat (bk_payload b) + unat (bk_payloadSize b) \<le> unat (bk_start b) + unat (bk_size b)" "bk_used b"
proof -
  have "b \<in> set (eh_blocks h)" and u: "bk_used b" using assms(2) by (auto simp: used_blocks_def)
  then have "block_ok b" "unat (eh_dataStart h) \<le> unat (bk_start b)"
    "unat (bk_start b) + unat (bk_size b) \<le> unat (eh_dataEnd h)"
    using assms(1) by (auto simp: exp_wf_def list_all_iff dest!: tiles_apart)
  moreover from this u have "unat (bk_start b) + 20 \<le> unat (bk_payload b)" "0 < unat (bk_payloadSize b)"
    "unat (bk_payload b) + unat (bk_payloadSize b) \<le> unat (bk_start b) + unat (bk_size b)"
    by (simp_all add: block_ok_def)
  moreover have "lo \<le> unat (eh_dataStart h)" "unat (eh_dataEnd h) \<le> hi"
    using assms(1) by (auto simp: exp_wf_def)
  ultimately show "lo + 20 \<le> unat (bk_payload b)" "unat (bk_payload b) + unat (bk_payloadSize b) \<le> hi"
    "0 < unat (bk_payloadSize b)" "unat (bk_start b) + 20 \<le> unat (bk_payload b)"
    "unat (bk_payload b) + unat (bk_payloadSize b) \<le> unat (bk_start b) + unat (bk_size b)" "bk_used b"
    using u by linarith+
qed

section \<open>Freeing\<close>

lemma exp_find_None: "exp_find p k bs = None \<longleftrightarrow> (\<forall>b \<in> set bs. bk_used b \<longrightarrow> bk_payload b \<noteq> p)"
  by (induction bs arbitrary: k) auto

lemma exp_find_Some:
  "exp_find p k bs = Some i \<Longrightarrow>
     \<exists>xs b ys. bs = xs @ b # ys \<and> i = k + length xs \<and> bk_used b \<and> bk_payload b = p"
proof (induction bs arbitrary: k)
  case (Cons b bs)
  show ?case
  proof (cases "bk_used b \<and> bk_payload b = p")
    case True
    with Cons.prems show ?thesis by (intro exI [of _ "[]"]) auto
  next
    case False
    with Cons.prems obtain xs c ys where "bs = xs @ c # ys" "i = Suc k + length xs" "bk_used c" "bk_payload c = p"
      using Cons.IH [of "Suc k"] by auto
    then show ?thesis by (intro exI [of _ "b # xs"]) auto
  qed
qed simp

definition release :: "block \<Rightarrow> block" where
  "release b = b\<lparr>bk_used := False, bk_payload := 0, bk_payloadSize := 0\<rparr>"

lemma exp_free_cases:
  obtains (unknown) "\<forall>b \<in> set (used_blocks h). bk_payload b \<noteq> p" "exp_free p h = h"
  | (known) xs b ys where "eh_blocks h = xs @ b # ys" "bk_used b" "bk_payload b = p"
      "exp_free p h = h\<lparr>eh_blocks := merge_free (xs @ release b # ys)\<rparr>"
proof (cases "exp_find p 0 (eh_blocks h)")
  case None
  then have "\<forall>b \<in> set (used_blocks h). bk_payload b \<noteq> p"
    by (auto simp: exp_find_None used_blocks_def)
  with None show ?thesis by (intro unknown) (simp_all add: exp_free_def)
next
  case (Some i)
  from exp_find_Some [OF this] obtain xs b ys where
    x: "eh_blocks h = xs @ b # ys" "i = length xs" "bk_used b" "bk_payload b = p" by auto
  with Some show ?thesis
    by (intro known [of xs b ys]) (simp_all add: exp_free_def coalesce_merge release_def)
qed

lemma exp_free_wf: "exp_wf lo hi h \<Longrightarrow> exp_wf lo hi (exp_free p h)"
proof (cases rule: exp_free_cases [of h p])
  case (known xs b ys)
  assume wf: "exp_wf lo hi h"
  let ?bs = "xs @ release b # ys"
  have "tiles (unat (eh_dataStart h)) ?bs (unat (eh_dataEnd h))" "list_all block_ok ?bs"
    using wf known(1) by (auto simp: exp_wf_def tiles_append release_def block_ok_def)
  with wf known(4) show ?thesis
    by (simp add: exp_wf_def merge_free_tiles merge_free_ok merge_free_separated)
qed simp

lemma exp_free_used:
  "exp_wf lo hi h \<Longrightarrow> used_blocks (exp_free p h) = filter (\<lambda>b. bk_payload b \<noteq> p) (used_blocks h)"
proof (cases rule: exp_free_cases [of h p])
  case unknown
  then show ?thesis by (auto simp: filter_id_conv)
next
  case (known xs b ys)
  assume wf: "exp_wf lo hi h"
  have u: "used_blocks h = filter bk_used xs @ b # filter bk_used ys"
    using known by (simp add: used_blocks_def)
  have apart: "sorted_wrt blocks_apart (filter bk_used xs @ b # filter bk_used ys)"
    using used_blocks_apart [OF wf] by (simp add: u)
  have "bk_payload c \<noteq> p" if "c \<in> set (filter bk_used xs) \<union> set (filter bk_used ys)" for c
  proof -
    have c: "c \<in> set (used_blocks h)" "b \<in> set (used_blocks h)" using that u by auto
    have "blocks_apart c b \<or> blocks_apart b c" using that apart by (auto simp: sorted_wrt_append)
    then show ?thesis
      using used_block_inside(3-5) [OF wf c(1)] used_block_inside(3-5) [OF wf c(2)] known(3)
      unfolding blocks_apart_def by auto
  qed
  then have "filter (\<lambda>b. bk_payload b \<noteq> p) (used_blocks h) = filter bk_used xs @ filter bk_used ys"
    using known(3) by (simp add: u filter_id_conv del: filter_filter)
  then show ?thesis
    using known by (simp add: used_blocks_def merge_free_used release_def)
qed


section \<open>The block list is determined by the outstanding allocations\<close>

text \<open>
  Coalescing leaves no choice: where the free blocks are, and how large, follows from the used ones. Only the
  direction byte of a free block, which the code never reads, may differ.
\<close>

definition shape :: "block \<Rightarrow> block" where
  "shape b = (if bk_used b then b else b\<lparr>bk_direction := 0\<rparr>)"

lemma shape_free:
  "\<not> bk_used b \<Longrightarrow> \<not> bk_used c \<Longrightarrow> block_ok b \<Longrightarrow> block_ok c \<Longrightarrow> bk_start b = bk_start c \<Longrightarrow>
     bk_size b = bk_size c \<Longrightarrow> shape b = shape c"
  by (cases b; cases c) (simp add: shape_def block_ok_def)

lemma free_prefix:
  assumes "tiles lo (b # bs) hi" "separated (b # bs)" "\<not> bk_used b"
  shows "lo + unat (bk_size b) = (case filter bk_used bs of [] \<Rightarrow> hi | u # us \<Rightarrow> unat (bk_start u))"
  using assms by (cases bs) auto

lemma blocks_determined:
  assumes "tiles lo bs hi" "tiles lo cs hi" "separated bs" "separated cs"
    "list_all block_ok bs" "list_all block_ok cs" "filter bk_used bs = filter bk_used cs"
  shows "map shape bs = map shape cs"
  using assms
proof (induction bs arbitrary: lo cs)
  case Nil
  then show ?case by (cases cs) (auto dest: tiles_le)
next
  case (Cons b bs)
  obtain c cs' where c: "cs = c # cs'"
    using Cons.prems by (cases cs) (auto dest: tiles_le)
  have sep: "separated bs" "separated cs'"
    using Cons.prems(3,4) c by (cases bs; cases cs'; simp)+
  have step: "map shape bs = map shape cs'" if "unat (bk_size b) = unat (bk_size c)"
    "filter bk_used bs = filter bk_used cs'"
    using Cons.prems c sep that by (intro Cons.IH) auto
  consider (used) "bk_used b" "bk_used c" | (free) "\<not> bk_used b" "\<not> bk_used c"
    | (left) "bk_used b" "\<not> bk_used c" | (right) "\<not> bk_used b" "bk_used c" by blast
  then show ?case
  proof cases
    case used
    then show ?thesis using Cons.prems(7) c step by simp
  next
    case free
    then have f: "filter bk_used bs = filter bk_used cs'" using Cons.prems(7) c by simp
    with free have "unat (bk_size b) = unat (bk_size c)"
      using free_prefix [OF Cons.prems(1,3)] free_prefix [OF Cons.prems(2,4) [unfolded c]]
      by (auto split: list.splits)
    moreover from this have "shape b = shape c"
      using Cons.prems free c by (intro shape_free) (auto simp: word_unat_eq_iff)
    ultimately show ?thesis using f step c by simp
  next
    case left
    then have "filter bk_used cs' = b # filter bk_used bs" using Cons.prems(7) c by simp
    then have "lo + unat (bk_size c) = lo"
      using free_prefix [OF Cons.prems(2,4) [unfolded c] left(2)] Cons.prems(1) by simp
    then show ?thesis using Cons.prems(2) c by simp
  next
    case right
    then have "filter bk_used bs = c # filter bk_used cs'" using Cons.prems(7) c by simp
    then have "lo + unat (bk_size b) = lo"
      using free_prefix [OF Cons.prems(1,3) right(1)] Cons.prems(2) c by simp
    then show ?thesis using Cons.prems(1) by simp
  qed
qed

lemma exp_determined:
  assumes "exp_wf lo hi h" "exp_wf lo hi h'" "eh_dataStart h = eh_dataStart h'" "eh_dataEnd h = eh_dataEnd h'"
    "used_blocks h = used_blocks h'"
  shows "map shape (eh_blocks h) = map shape (eh_blocks h')"
  using assms by (intro blocks_determined) (auto simp: exp_wf_def used_blocks_def)

section \<open>What the queries report\<close>

definition free_bytes :: "block list \<Rightarrow> nat" where
  "free_bytes bs = sum_list (map (\<lambda>b. if bk_used b then 0 else unat (bk_size b)) bs)"

definition used_bytes :: "block list \<Rightarrow> nat" where
  "used_bytes bs = sum_list (map (\<lambda>b. unat (bk_size b)) (filter bk_used bs))"

lemma tiles_bytes: "tiles lo bs hi \<Longrightarrow> free_bytes bs + used_bytes bs + lo = hi"
proof (induction bs arbitrary: lo)
  case (Cons b bs)
  then have "free_bytes bs + used_bytes bs + (lo + unat (bk_size b)) = hi" by simp
  then show ?case by (simp add: free_bytes_def used_bytes_def)
qed (simp add: free_bytes_def used_bytes_def)

lemma exp_total_free_nat:
  "unat tot + free_bytes bs < 4294967296 \<Longrightarrow> unat (exp_total_free tot bs) = unat tot + free_bytes bs"
  by (induction bs arbitrary: tot) (auto simp: free_bytes_def unat_plus_u32)

lemma exp_total_free:
  assumes "exp_wf lo hi h"
  shows "unat (exp_total_free 0 (eh_blocks h)) + used_bytes (used_blocks h) =
    unat (eh_dataEnd h) - unat (eh_dataStart h)"
proof -
  have "free_bytes (eh_blocks h) + used_bytes (eh_blocks h) + unat (eh_dataStart h) = unat (eh_dataEnd h)"
    using assms by (intro tiles_bytes) (simp add: exp_wf_def)
  moreover have "used_bytes (used_blocks h) = used_bytes (eh_blocks h)"
    by (simp add: used_bytes_def used_blocks_def)
  moreover have "unat (eh_dataEnd h) < unat (eh_dataStart h) + 4294967296"
    using assms by (simp add: exp_wf_def)
  ultimately show ?thesis by (subst exp_total_free_nat) simp_all
qed

lemma exp_best_le: "sz \<le> exp_best a best bs \<longleftrightarrow> sz \<le> best \<or> (\<exists>b \<in> set bs. candidate sz a b)"
proof (induction bs arbitrary: best)
  case (Cons b bs)
  show ?case by (auto simp: Let_def Cons.IH candidate_def intro: order_trans)
qed simp

lemma exp_best_shape: "map shape bs = map shape cs \<Longrightarrow> exp_best a best bs = exp_best a best cs"
proof (induction bs arbitrary: best cs)
  case (Cons b bs)
  then obtain c cs' where c: "cs = c # cs'" "shape b = shape c" "map shape bs = map shape cs'" by auto
  then have "bk_used b = bk_used c" "fitInFree b a = fitInFree c a"
    by (auto simp: shape_def fitInFree_def split: if_splits) (cases b; cases c; simp)+
  with c Cons.IH [of cs'] show ?case by (simp add: Let_def)
qed simp

end
