(* ===== verification/ExpHeapApi.thy ===== *)
theory ExpHeapApi
  imports ExpHeapWf
begin

text \<open>
  The expanded heap's functions on the table of heaps: which heap a handle reaches, the invariant over any
  sequence of calls, and the properties of \<^verbatim>\<open>source/memexpheap.cpp\<close> as the guest sees them.
\<close>

section \<open>One call\<close>

lemma exp_live_ok:
  assumes "tab_ok (exp_ok lim) (exp_heaps w)"
  obtains (dead) w' where "exp_live k w = (None, w')" "tab_ok (exp_ok lim) (exp_heaps w')"
      "exp_mem w' = exp_mem w"
  | (live) h where "k \<noteq> null" "h = ht_host exp_init k (exp_heaps w)" "exp_heaps w k = Some h" "eh_live h"
      "exp_live k w = (Some h, w)" "exp_wf (unat k + 84) (lim k) h"
proof (cases "k = null")
  case True
  then have "exp_live k w = (None, w)" by (simp add: exp_live_def)
  then show ?thesis using assms by (rule dead) simp
next
  case False
  define h where "h = ht_host exp_init k (exp_heaps w)"
  have ok: "exp_ok lim k h" using exph.host_ok [OF assms] by (simp add: h_def)
  have l: "exp_live k w = (if eh_live h then Some h else None, w\<lparr>exp_heaps := ht_store k h (exp_heaps w)\<rparr>)"
    using False by (simp add: exp_live_def ht_get_eq h_def)
  show ?thesis
  proof (cases "eh_live h")
    case True
    then have e: "exp_heaps w k = Some h"
      by (cases "exp_heaps w k") (auto simp: h_def exp_init_def)
    then have "exp_live k w = (Some h, w)" using l True by simp
    with True False ok e show ?thesis by (intro live [of h]) (simp_all add: h_def [symmetric] exp_ok_def)
  next
    case not_live: False
    then have "exp_live k w = (None, w\<lparr>exp_heaps := ht_store k h (exp_heaps w)\<rparr>)" using l by simp
    from dead [OF this] tab_ok_store [OF assms ok] show ?thesis by simp
  qed
qed

lemma exp_put_ok: "tab_ok (exp_ok lim) (exp_heaps w) \<Longrightarrow> exp_ok lim k h \<Longrightarrow>
    tab_ok (exp_ok lim) (exp_heaps (exp_put k h w))"
  by (simp add: exp_put_def tab_ok_store)

lemma exp_put_heaps [simp]: "exp_heaps (exp_put k h w) = ht_store k h (exp_heaps w)"
  "exp_mem (exp_put k h w) = exp_mem w"
  by (simp_all add: exp_put_def)

lemma exp_live_known:
  "k \<noteq> null \<Longrightarrow> exp_heaps w k = Some h \<Longrightarrow> eh_live h \<Longrightarrow> exp_live k w = (Some h, w)"
  by (simp add: exp_live_def ht_get_def Let_def)

text \<open>
  Creation: the second check of the code can never fail once the first one has passed, so a heap is either
  refused untouched or created with one free block over all of its region.
\<close>

lemma exp_create_eq:
  assumes "k \<noteq> null" "104 < sz" "unat k + unat sz \<le> 9223372036854775808"
  shows "\<exists>h. MEMCreateExpHeapEx k sz flags w = (k, exp_put k h w) \<and>
    exp_wf (unat k + 84) (unat k + unat sz) h \<and> eh_live h \<and> used_blocks h = [] \<and>
    unat (eh_dataStart h) < unat k + 88 \<and> unat (eh_dataEnd h) = unat k + unat sz \<and> eh_flags h = flags \<and>
    eh_mode h = MEM_EXP_HEAP_MODE_FIRST_FREE"
proof -
  have sz: "104 < unat sz" using assms(2) by (simp add: word_less_nat_alt)
  have k: "unat (k + 84) = unat k + 84" using assms(3) sz by (subst unat_plus_u64) simp_all
  have e: "unat (k + ucast sz) = unat k + unat sz" using assms(3) by (subst unat_plus_u64) simp_all
  have s: "unat (alignUp (k + 84) 4) = round_up (unat k + 84) 4"
    using assms(3) sz by (subst unat_alignUp) (simp_all add: k)
  note b = round_up_ge [of 4 "unat k + 84"] round_up_less [of 4 "unat k + 84"]
  define d where "d = k + ucast sz - alignUp (k + 84) 4"
  have d: "unat d = unat k + unat sz - round_up (unat k + 84) 4"
    using b sz by (simp add: d_def unat_minus_nowrap e s)
  have "unat d < 4294967296" using d b unat_less_2p32 [of sz] by linarith
  then have ud: "unat (ucast d :: u32) = unat k + unat sz - round_up (unat k + 84) 4"
    using d by (simp add: unat_ucast_u64_u32)
  have guard: "\<not> k + ucast sz \<le> alignUp (k + 84) 4"
    using b sz by (simp add: word_le_nat_alt e s)
  have "\<not> sz \<le> 104" using assms(2) by simp
  moreover have "unat k + unat sz < round_up (unat k + 84) 4 + 4294967296"
    using b unat_less_2p32 [of sz] by linarith
  ultimately show ?thesis
    using assms(1,3) guard b sz ud unat_less_2p32 [of sz]
    by (intro exI [of _ "(ht_host exp_init k (exp_heaps w))\<lparr>eh_dataStart := alignUp (k + 84) 4,
        eh_dataEnd := k + ucast sz, eh_flags := flags, eh_mode := 0, eh_live := True,
        eh_blocks := [free_block (alignUp (k + 84) 4) (ucast d)]\<rparr>"])
      (simp add: MEMCreateExpHeapEx_def Let_def exp_wf_def e s free_block_def block_ok_def used_blocks_def
        d_def [symmetric])
qed

lemma exp_create_refused:
  "k = null \<or> sz \<le> 104 \<Longrightarrow> MEMCreateExpHeapEx k sz flags w = (null, w)"
  by (auto simp: MEMCreateExpHeapEx_def)

section \<open>Sequences of calls\<close>

datatype exp_call =
    ExpCreate ptr u32 u16
  | ExpDestroy ptr
  | ExpAlloc ptr u32 s32
  | ExpFree ptr ptr
  | ExpTotalFree ptr
  | ExpAllocatable ptr s32
  | ExpSetMode ptr u32
  | ExpGetMode ptr

fun exp_exec :: "exp_call \<Rightarrow> exp_world \<Rightarrow> exp_world" where
  "exp_exec (ExpCreate k sz flags) w = snd (MEMCreateExpHeapEx k sz flags w)"
| "exp_exec (ExpDestroy k) w = snd (MEMDestroyExpHeap k w)"
| "exp_exec (ExpAlloc k sz al) w = snd (MEMAllocFromExpHeapEx k sz al w)"
| "exp_exec (ExpFree k p) w = MEMFreeToExpHeap k p w"
| "exp_exec (ExpTotalFree k) w = snd (MEMGetTotalFreeSizeForExpHeap k w)"
| "exp_exec (ExpAllocatable k al) w = snd (MEMGetAllocatableSizeForExpHeapEx k al w)"
| "exp_exec (ExpSetMode k mode) w = snd (MEMSetAllocModeForExpHeap k mode w)"
| "exp_exec (ExpGetMode k) w = snd (MEMGetAllocModeForExpHeap k w)"

text \<open>The guest may pass any arguments, but the region it gives to a heap must be its own.\<close>

fun exp_call_ok :: "(ptr \<Rightarrow> nat) \<Rightarrow> exp_call \<Rightarrow> bool" where
  "exp_call_ok lim (ExpCreate k sz flags) \<longleftrightarrow>
     unat k + unat sz \<le> lim k \<and> lim k \<le> 9223372036854775808"
| "exp_call_ok lim c \<longleftrightarrow> True"

lemma exp_wf_mono: "exp_wf lo hi h \<Longrightarrow> hi \<le> hi' \<Longrightarrow> hi' \<le> 9223372036854775808 \<Longrightarrow> exp_wf lo hi' h"
  by (simp add: exp_wf_def)

lemma exp_wf_mode: "exp_wf lo hi (h\<lparr>eh_mode := m\<rparr>) = exp_wf lo hi h"
  by (simp add: exp_wf_def)

lemma exp_request_nz: "exp_request sz \<noteq> 0"
  by (simp add: exp_request_def)

lemma exp_exec_ok:
  assumes ok: "tab_ok (exp_ok lim) (exp_heaps w)" and c: "exp_call_ok lim c"
  shows "tab_ok (exp_ok lim) (exp_heaps (exp_exec c w))"
proof (cases c)
  case (ExpCreate k sz flags)
  show ?thesis
  proof (cases "k = null \<or> sz \<le> 104")
    case True
    then show ?thesis using ok ExpCreate by (simp add: exp_create_refused)
  next
    case False
    then obtain h where h: "MEMCreateExpHeapEx k sz flags w = (k, exp_put k h w)"
      "exp_wf (unat k + 84) (unat k + unat sz) h"
      using exp_create_eq [of k sz flags w] c ExpCreate by (auto simp: not_le)
    then have "exp_ok lim k h"
      using c ExpCreate by (auto simp: exp_ok_def intro: exp_wf_mono)
    with h ok ExpCreate show ?thesis by (simp add: tab_ok_store)
  qed
next
  case (ExpDestroy k)
  show ?thesis using ok
    by (cases rule: exp_live_ok [where k = k])
      (simp_all add: ExpDestroy MEMDestroyExpHeap_def tab_ok_store [OF ok] exp_ok_def)
next
  case (ExpAlloc k sz al)
  show ?thesis using ok
  proof (cases rule: exp_live_ok [where k = k])
    case (live h)
    show ?thesis
    proof (cases rule: exp_alloc_cases [OF live(6) exp_request_nz, of sz al])
      case 1
      then show ?thesis using live(5) by (simp add: ExpAlloc MEMAllocFromExpHeapEx_def ok)
    next
      case (2 p h')
      have "exp_ok lim k h'" using exp_step_wf [OF live(6) 2(2)] by (simp add: exp_ok_def)
      then show ?thesis
        using live(5) 2(1) by (simp add: ExpAlloc MEMAllocFromExpHeapEx_def Let_def tab_ok_store [OF ok])
    qed
  qed (simp add: ExpAlloc MEMAllocFromExpHeapEx_def)
next
  case (ExpFree k p)
  show ?thesis using ok
    by (cases rule: exp_live_ok [where k = k])
      (simp_all add: ExpFree MEMFreeToExpHeap_def tab_ok_store [OF ok] exp_ok_def exp_free_wf ok)
next
  case (ExpTotalFree k)
  show ?thesis using ok
    by (cases rule: exp_live_ok [where k = k]) (simp_all add: ExpTotalFree MEMGetTotalFreeSizeForExpHeap_def ok)
next
  case (ExpAllocatable k al)
  show ?thesis using ok
    by (cases rule: exp_live_ok [where k = k])
      (simp_all add: ExpAllocatable MEMGetAllocatableSizeForExpHeapEx_def ok)
next
  case (ExpSetMode k mode)
  show ?thesis using ok
    by (cases rule: exp_live_ok [where k = k])
      (simp_all add: ExpSetMode MEMSetAllocModeForExpHeap_def tab_ok_store [OF ok] exp_ok_def exp_wf_mode)
next
  case (ExpGetMode k)
  show ?thesis using ok
    by (cases rule: exp_live_ok [where k = k]) (simp_all add: ExpGetMode MEMGetAllocModeForExpHeap_def ok)
qed

fun exp_run :: "exp_call list \<Rightarrow> exp_world \<Rightarrow> exp_world" where
  "exp_run [] w = w"
| "exp_run (c # cs) w = exp_run cs (exp_exec c w)"


section \<open>The allocation as the guest sees it\<close>

text \<open>The three outcomes of an allocation: no such heap, no free block that fits, or a block.\<close>

lemma exp_step_fields:
  "exp_alloc_step h sz a p h' \<Longrightarrow> eh_flags h' = eh_flags h \<and> eh_live h' = eh_live h \<and> eh_mode h' = eh_mode h \<and>
     eh_dataStart h' = eh_dataStart h \<and> eh_dataEnd h' = eh_dataEnd h"
  by (auto simp: exp_alloc_step_def)

lemma exp_step_payload:
  assumes "exp_wf lo hi h" "exp_alloc_step h sz a p h'"
  obtains us vs u where "used_blocks h = us @ vs" "used_blocks h' = us @ u # vs" "bk_payload u = p"
    "bk_payloadSize u = sz" "unat a dvd unat p" "lo + 20 \<le> unat p" "unat p + unat sz \<le> hi" "p \<noteq> null"
    "unat (bk_start u) + 20 \<le> unat p" "unat p + unat sz \<le> unat (bk_start u) + unat (bk_size u)"
proof -
  obtain us vs u where u: "used_blocks h = us @ vs" "used_blocks h' = us @ u # vs" "bk_payload u = p"
    "bk_payloadSize u = sz" using exp_step_used [OF assms(2)] by blast
  then have m: "u \<in> set (used_blocks h')" by simp
  note b = used_block_inside [OF exp_step_wf [OF assms] m, unfolded u(3,4)]
  have "p \<noteq> null" using b(1) assms(1) by (auto simp: exp_wf_def)
  moreover have "unat a dvd unat p" using assms(2) by (auto simp: exp_alloc_step_def good_carve_def)
  ultimately show thesis using b u by (intro that [of us vs u]) simp_all
qed

lemma exp_alloc_live:
  assumes ok: "tab_ok (exp_ok lim) (exp_heaps w)"
  obtains (refused) w' where "MEMAllocFromExpHeapEx k sz al w = (null, w')" "exp_live k w = (None, w')"
      "exp_mem w' = exp_mem w"
  | (full) h where "exp_live k w = (Some h, w)" "exp_wf (unat k + 84) (lim k) h"
      "MEMAllocFromExpHeapEx k sz al w = (null, w)"
      "\<forall>b \<in> set (eh_blocks h). \<not> fits b (fst (normaliseAlignment al)) (exp_request sz)"
  | (granted) h h' p where "exp_live k w = (Some h, w)" "exp_heaps w k = Some h" "eh_live h" "k \<noteq> null"
      "exp_wf (unat k + 84) (lim k) h"
      "MEMAllocFromExpHeapEx k sz al w = (p, (exp_put k h' w)\<lparr>exp_mem :=
         if eh_flags h AND 1 \<noteq> 0 then memset p 0 (unat (exp_request sz)) (exp_mem w) else exp_mem w\<rparr>)"
      "exp_alloc_step h (exp_request sz) (fst (normaliseAlignment al)) p h'" "p \<noteq> null"
  using ok
proof (cases rule: exp_live_ok [where k = k])
  case (dead w')
  then show thesis by (intro refused [of w']) (simp_all add: MEMAllocFromExpHeapEx_def)
next
  case (live h)
  show thesis
  proof (cases rule: exp_alloc_cases [OF live(6) exp_request_nz, of sz al])
    case 1
    with live(5,6) show thesis by (intro full [of h]) (simp_all add: MEMAllocFromExpHeapEx_def)
  next
    case (2 p h')
    have "p \<noteq> null" by (rule exp_step_payload [OF live(6) 2(2)])
    with 2 live(1,3-6) show thesis
      using exp_step_fields [OF 2(2)]
      by (intro granted [of h p h']) (simp_all add: MEMAllocFromExpHeapEx_def Let_def exp_put_def)
  qed
qed

lemma apart_payloads:
  assumes "exp_wf lo hi h" "used_blocks h = us @ u # vs" "b \<in> set (us @ vs)"
  shows "unat (bk_payload u) + unat (bk_payloadSize u) \<le> unat (bk_payload b) \<or>
    unat (bk_payload b) + unat (bk_payloadSize b) \<le> unat (bk_payload u)"
proof -
  have "blocks_apart b u \<or> blocks_apart u b"
    using used_blocks_apart [OF assms(1)] assms(2,3) by (auto simp: sorted_wrt_append)
  moreover have m: "b \<in> set (used_blocks h)" "u \<in> set (used_blocks h)" using assms by auto
  ultimately show ?thesis
    using used_block_inside(4,5) [OF assms(1) m(1)] used_block_inside(4,5) [OF assms(1) m(2)]
    unfolding blocks_apart_def by linarith
qed

lemma payloads_apart:
  assumes "exp_wf lo hi h"
  shows "sorted_wrt (\<lambda>b c. unat (bk_payload b) + unat (bk_payloadSize b) + 0x14 \<le> unat (bk_payload c))
    (used_blocks h)"
  using used_blocks_apart [OF assms]
proof (rule sorted_wrt_mono_rel [rotated])
  fix b c assume "b \<in> set (used_blocks h)" "c \<in> set (used_blocks h)" "blocks_apart b c"
  then show "unat (bk_payload b) + unat (bk_payloadSize b) + 0x14 \<le> unat (bk_payload c)"
    using used_block_inside(5) [OF assms, of b] used_block_inside(4) [OF assms, of c]
    by (simp add: blocks_apart_def)
qed

lemma empty_heap:
  assumes wf: "exp_wf lo hi h" and none: "used_blocks h = []" and ne: "eh_dataStart h \<noteq> eh_dataEnd h"
  shows "map shape (eh_blocks h) = [free_block (eh_dataStart h) (ucast (eh_dataEnd h - eh_dataStart h))]"
proof -
  have le: "unat (eh_dataStart h) < unat (eh_dataEnd h)"
    "unat (eh_dataEnd h) < unat (eh_dataStart h) + 4294967296"
    using wf ne tiles_le [of "unat (eh_dataStart h)" "eh_blocks h" "unat (eh_dataEnd h)"]
    by (auto simp: exp_wf_def word_unat_eq_iff)
  let ?f = "free_block (eh_dataStart h) (ucast (eh_dataEnd h - eh_dataStart h))"
  have "unat (eh_dataEnd h - eh_dataStart h) = unat (eh_dataEnd h) - unat (eh_dataStart h)"
    using le by (simp add: unat_minus_nowrap)
  then have z: "unat (bk_size ?f) = unat (eh_dataEnd h) - unat (eh_dataStart h)"
    using le by (simp add: free_block_def unat_ucast_u64_u32)
  have "exp_wf lo hi (h\<lparr>eh_blocks := [?f]\<rparr>)"
    using wf le z by (simp add: exp_wf_def block_ok_def) (simp add: free_block_def)
  from exp_determined [OF wf this] none show ?thesis
    by (simp add: used_blocks_def free_block_def shape_def)
qed

lemma exp_total_same:
  assumes "exp_wf lo hi h" "exp_wf lo hi h'" "eh_dataStart h = eh_dataStart h'" "eh_dataEnd h = eh_dataEnd h'"
    "used_blocks h = used_blocks h'"
  shows "exp_total_free 0 (eh_blocks h) = exp_total_free 0 (eh_blocks h')"
  using exp_total_free [OF assms(1)] exp_total_free [OF assms(2)] assms(3-5) by (simp add: word_unat_eq_iff)

section \<open>Properties\<close>

text \<open>A heap of 16 KiB at \<open>0x1000\<close> that zeroes what it hands out, with one block allocated at each end.\<close>

definition exp_demo_lim :: "ptr \<Rightarrow> nat" where
  "exp_demo_lim k = unat k + 0x4000"

definition exp_fresh :: exp_world where
  "exp_fresh = \<lparr>exp_heaps = Map.empty, exp_mem = (\<lambda>_. 255)\<rparr>"

definition exp_demo_setup :: "exp_call list" where
  "exp_demo_setup = [ExpCreate 0x1000 0x4000 1, ExpAlloc 0x1000 100 4, ExpAlloc 0x1000 0 (-256)]"

definition exp_demo :: exp_world where
  "exp_demo = exp_run exp_demo_setup exp_fresh"

lemma exp_fresh_run: "exp_run cs exp_fresh = exp_run cs \<lparr>exp_heaps = Map.empty, exp_mem = (\<lambda>_. 255)\<rparr>"
  by (simp add: exp_fresh_def)

lemma exp_demo_run: "exp_demo = exp_run exp_demo_setup \<lparr>exp_heaps = Map.empty, exp_mem = (\<lambda>_. 255)\<rparr>"
  by (simp add: exp_demo_def exp_fresh_def)

lemma exp_run_tab_ok:
  "tab_ok (exp_ok lim) (exp_heaps w) \<Longrightarrow> list_all (exp_call_ok lim) cs \<Longrightarrow>
     tab_ok (exp_ok lim) (exp_heaps (exp_run cs w))"
  by (induction cs arbitrary: w) (auto simp: exp_exec_ok)

lemma exp_demo_ok: "tab_ok (exp_ok exp_demo_lim) (exp_heaps exp_demo)"
  unfolding exp_demo_run by (rule exp_run_tab_ok) (simp_all add: exp_demo_setup_def exp_demo_lim_def)

lemmas exp_eval = MEMCreateExpHeapEx_def MEMDestroyExpHeap_def MEMAllocFromExpHeapEx_def MEMFreeToExpHeap_def
  MEMGetTotalFreeSizeForExpHeap_def MEMGetAllocatableSizeForExpHeapEx_def MEMSetAllocModeForExpHeap_def
  exp_live_def exp_alloc_def exp_choose.simps exp_carve_def exp_free_def exp_allocatable_def coalesce_merge
  exp_put_def exp_init_def free_block_def fitInFree_def minSplit_def exp_request_def
  ht_store_def ht_host_def ht_get_def normaliseAlignment_def isPow2_def alignUp_def alignDown_def Let_def

lemma exp_demo_heap: "exp_heaps exp_demo 0x1000 = Some \<lparr>eh_dataStart = 4180, eh_dataEnd = 20480,
    eh_flags = 1, eh_mode = 0, eh_live = True, eh_blocks =
     [\<lparr>bk_start = 4180, bk_size = 120, bk_payload = 4200, bk_payloadSize = 100, bk_used = True, bk_direction = 0\<rparr>,
      \<lparr>bk_start = 4300, bk_size = 15904, bk_payload = 0, bk_payloadSize = 0, bk_used = False, bk_direction = 0\<rparr>,
      \<lparr>bk_start = 20204, bk_size = 276, bk_payload = 20224, bk_payloadSize = 1, bk_used = True, bk_direction = 1\<rparr>]\<rparr>"
  by (simp add: exp_demo_run exp_demo_setup_def exp_eval)

text \<open>
  C8: A block the expanded heap hands out is aligned as asked, lies behind the heap's 0x54 reserved bytes and its
  own 0x14-byte header and inside the guest's region, and overlaps no outstanding block; exactly one block is
  added to the outstanding ones; the memory written is exactly the block, zeroed, when the heap has the zeroing
  flag, and nothing otherwise; no other heap changes.
\<close>

theorem MEMAllocFromExpHeapEx_success:
  assumes "tab_ok (exp_ok lim) (exp_heaps w)" and "MEMAllocFromExpHeapEx k sz al w = (p, w')" and "p \<noteq> null"
  shows "\<exists>h h' us vs u. exp_heaps w k = Some h \<and> exp_heaps w' = (exp_heaps w)(k \<mapsto> h') \<and>
    unat (fst (normaliseAlignment al)) dvd unat p \<and>
    unat k + 0x54 + 0x14 \<le> unat p \<and> unat p + unat (exp_request sz) \<le> lim k \<and>
    used_blocks h = us @ vs \<and> used_blocks h' = us @ u # vs \<and>
    bk_payload u = p \<and> bk_payloadSize u = exp_request sz \<and>
    (\<forall>b \<in> set (used_blocks h). unat p + unat (exp_request sz) \<le> unat (bk_payload b) \<or>
       unat (bk_payload b) + unat (bk_payloadSize b) \<le> unat p) \<and>
    exp_mem w' = (if eh_flags h AND 1 \<noteq> 0 then memset p 0 (unat (exp_request sz)) (exp_mem w) else exp_mem w)"
  using assms(1)
proof (cases rule: exp_alloc_live [where k = k and sz = sz and al = al])
  case (granted h h' q)
  then have q: "q = p" using assms(2) by simp
  obtain us vs u where u: "used_blocks h = us @ vs" "used_blocks h' = us @ u # vs" "bk_payload u = q"
    "bk_payloadSize u = exp_request sz" "unat (fst (normaliseAlignment al)) dvd unat q"
    "unat k + 84 + 20 \<le> unat q" "unat q + unat (exp_request sz) \<le> lim k"
    by (rule exp_step_payload [OF granted(5,7)])
  have "\<forall>b \<in> set (used_blocks h). unat q + unat (exp_request sz) \<le> unat (bk_payload b) \<or>
       unat (bk_payload b) + unat (bk_payloadSize b) \<le> unat q"
    using apart_payloads [OF exp_step_wf [OF granted(5,7)] u(2)] u by simp
  then show ?thesis
    using u granted assms(2) unfolding q
    by (intro exI [of _ h] exI [of _ h'] exI [of _ us] exI [of _ vs] exI [of _ u]) (auto simp: ht_store_def)
qed (use assms in auto)

theorem MEMAllocFromExpHeapEx_success_witness:
  "\<exists>w'. MEMAllocFromExpHeapEx 0x1000 32 64 exp_demo = (4352, w') \<and> exp_mem w' 4352 = 0 \<and>
     exp_mem w' 4383 = 0 \<and> exp_mem w' 4384 = exp_mem exp_demo 4384 \<and> 64 dvd (4352 :: nat)"
proof -
  define w' where "w' = snd (MEMAllocFromExpHeapEx 0x1000 32 64 exp_demo)"
  have a: "MEMAllocFromExpHeapEx 0x1000 32 64 exp_demo = (4352, w')"
    by (simp add: w'_def prod_eq_iff exp_live_known exp_demo_heap exp_eval)
  show ?thesis
    using MEMAllocFromExpHeapEx_success [OF exp_demo_ok a] a
    by (auto simp: exp_demo_heap memset_def in_bytes_def exp_request_def)
qed


text \<open>
  C28: An expanded heap never refuses a request that fits and never grants one that does not: the allocation
  returns a block exactly when the size (0 counts as 1) is at most what
  \<^verbatim>\<open>MEMGetAllocatableSizeForExpHeapEx\<close> reports for the alignment, whichever end it is cut from and whichever
  search mode is set; a refused request changes no memory and no block list.
\<close>

theorem MEMAllocFromExpHeapEx_iff_allocatable:
  assumes "tab_ok (exp_ok lim) (exp_heaps w)"
  shows "(fst (MEMAllocFromExpHeapEx k sz al w) \<noteq> null \<longleftrightarrow>
      exp_request sz \<le> fst (MEMGetAllocatableSizeForExpHeapEx k al w)) \<and>
    (fst (MEMAllocFromExpHeapEx k sz al w) = null \<longrightarrow>
      exp_mem (snd (MEMAllocFromExpHeapEx k sz al w)) = exp_mem w \<and>
      snd (MEMAllocFromExpHeapEx k sz al w) = snd (exp_live k w))"
proof -
  define a where "a = fst (normaliseAlignment al)"
  have a: "isPow2 a" "exp_allocatable al h = exp_best a 0 (eh_blocks h)" for h
    by (simp_all add: a_def normaliseAlignment_pow2 exp_allocatable_def case_prod_beta Let_def)
  have avail: "exp_request sz \<le> exp_allocatable al h \<longleftrightarrow> (\<exists>b \<in> set (eh_blocks h). fits b a (exp_request sz))"
    if "exp_wf lo hi h" for lo hi h
    using wf_candidate [OF that a(1) exp_request_nz] exp_request_nz [of sz]
    by (simp add: a(2) exp_best_le word_le_0_iff)
  show ?thesis
    using assms
  proof (cases rule: exp_alloc_live [where k = k and sz = sz and al = al])
    case (refused w')
    then show ?thesis
      by (simp add: MEMGetAllocatableSizeForExpHeapEx_def word_le_0_iff exp_request_nz)
  next
    case (full h)
    then show ?thesis
      using avail [OF full(2)] by (simp add: MEMGetAllocatableSizeForExpHeapEx_def a_def)
  next
    case (granted h h' p)
    then have "\<exists>b \<in> set (eh_blocks h). fits b a (exp_request sz)"
      by (auto simp: exp_alloc_step_def a_def)
    then show ?thesis
      using granted avail [OF granted(5)] by (simp add: MEMGetAllocatableSizeForExpHeapEx_def)
  qed
qed

theorem MEMAllocFromExpHeapEx_iff_allocatable_witness:
  "fst (MEMGetAllocatableSizeForExpHeapEx 0x1000 256 exp_demo) = 15852 \<and>
   fst (MEMAllocFromExpHeapEx 0x1000 15852 256 exp_demo) \<noteq> null \<and>
   fst (MEMAllocFromExpHeapEx 0x1000 15853 256 exp_demo) = null"
proof -
  have "fst (MEMGetAllocatableSizeForExpHeapEx 0x1000 256 exp_demo) = 15852"
    by (simp add: exp_demo_heap exp_eval)
  then show ?thesis
    using MEMAllocFromExpHeapEx_iff_allocatable [OF exp_demo_ok, of "0x1000" 15852 256]
      MEMAllocFromExpHeapEx_iff_allocatable [OF exp_demo_ok, of "0x1000" 15853 256]
    by (simp add: exp_request_def)
qed

text \<open>
  C1: Whatever sequence of expanded heap calls the guest makes, with any arguments (unknown handles, pointers the
  heap never handed out, blocks freed twice, heaps destroyed and created again), the blocks of every live heap
  tile its region in order without gap or overlap, no two free blocks are neighbours, and the payloads of the
  outstanding blocks are pairwise disjoint; the one condition is that a created region is the guest's own.
\<close>

theorem exp_run_keeps_ok:
  assumes "tab_ok (exp_ok lim) (exp_heaps w)" and "list_all (exp_call_ok lim) cs"
  shows "tab_ok (exp_ok lim) (exp_heaps (exp_run cs w)) \<and>
    (\<forall>k h. exp_heaps (exp_run cs w) k = Some h \<and> eh_live h \<longrightarrow>
       tiles (unat (eh_dataStart h)) (eh_blocks h) (unat (eh_dataEnd h)) \<and> separated (eh_blocks h) \<and>
       unat k + 0x54 \<le> unat (eh_dataStart h) \<and> unat (eh_dataEnd h) \<le> lim k \<and>
       sorted_wrt (\<lambda>b c. unat (bk_payload b) + unat (bk_payloadSize b) + 0x14 \<le> unat (bk_payload c))
         (used_blocks h))"
proof -
  have run: "tab_ok (exp_ok lim) (exp_heaps (exp_run cs w))" by (rule exp_run_tab_ok [OF assms])
  then have wf: "exp_wf (unat k + 84) (lim k) h" if "exp_heaps (exp_run cs w) k = Some h \<and> eh_live h" for k h
    using that by (simp add: tab_ok_def exp_ok_def)
  show ?thesis
    using run payloads_apart [OF wf] wf unfolding exp_wf_def by blast
qed

definition exp_demo_calls :: "exp_call list" where
  "exp_demo_calls = [ExpCreate 0x1000 0x4000 0, ExpAlloc 0x1000 100 4, ExpAlloc 0x1000 7 (-16),
     ExpFree 0x1000 0x1068, ExpFree 0x1000 0x1068, ExpFree 0x1000 77, ExpSetMode 0x1000 1,
     ExpAlloc 0x1000 50 32, ExpDestroy 0x2000]"

theorem exp_run_keeps_ok_witness:
  "\<exists>h. exp_heaps (exp_run exp_demo_calls \<lparr>exp_heaps = Map.empty, exp_mem = (\<lambda>_. 0)\<rparr>) 0x1000 = Some h \<and>
     length (used_blocks h) = 2 \<and> tiles 4180 (eh_blocks h) 20480 \<and> separated (eh_blocks h)"
proof -
  have run: "exp_heaps (exp_run exp_demo_calls \<lparr>exp_heaps = Map.empty, exp_mem = (\<lambda>_. 0)\<rparr>) 0x1000 =
    Some \<lparr>eh_dataStart = 4180, eh_dataEnd = 20480, eh_flags = 0, eh_mode = 1, eh_live = True, eh_blocks =
     [\<lparr>bk_start = 4180, bk_size = 94, bk_payload = 4224, bk_payloadSize = 50, bk_used = True, bk_direction = 0\<rparr>,
      \<lparr>bk_start = 4274, bk_size = 16170, bk_payload = 0, bk_payloadSize = 0, bk_used = False, bk_direction = 0\<rparr>,
      \<lparr>bk_start = 20444, bk_size = 36, bk_payload = 20464, bk_payloadSize = 7, bk_used = True, bk_direction = 1\<rparr>]\<rparr>"
    by (simp add: exp_demo_calls_def exp_eval)
  have "list_all (exp_call_ok exp_demo_lim) exp_demo_calls"
    by (simp add: exp_demo_calls_def exp_demo_lim_def)
  from exp_run_keeps_ok [OF _ this, of "\<lparr>exp_heaps = Map.empty, exp_mem = (\<lambda>_. 0)\<rparr>"] show ?thesis
    unfolding run by (simp add: used_blocks_def)
qed


text \<open>
  Freeing releases exactly the block whose payload was passed, and a pointer the heap has not handed out, or
  one already freed, changes nothing at all.
\<close>

theorem MEMFreeToExpHeap_releases:
  assumes "tab_ok (exp_ok lim) (exp_heaps w)" and "k \<noteq> null" and "exp_heaps w k = Some h" and "eh_live h"
    and "p \<noteq> null"
  shows "\<exists>h'. exp_heaps (MEMFreeToExpHeap k p w) = (exp_heaps w)(k \<mapsto> h') \<and>
    exp_mem (MEMFreeToExpHeap k p w) = exp_mem w \<and>
    used_blocks h' = filter (\<lambda>b. bk_payload b \<noteq> p) (used_blocks h) \<and>
    (p \<notin> bk_payload ` set (used_blocks h) \<longrightarrow> h' = h)"
proof -
  have wf: "exp_wf (unat k + 84) (lim k) h" using assms by (simp add: tab_ok_def exp_ok_def)
  have "p \<notin> bk_payload ` set (used_blocks h) \<longrightarrow> exp_free p h = h"
    by (cases rule: exp_free_cases [of h p]) (auto simp: used_blocks_def)
  moreover have "MEMFreeToExpHeap k p w = exp_put k (exp_free p h) w"
    using assms by (simp add: MEMFreeToExpHeap_def exp_live_known)
  ultimately show ?thesis
    using exp_free_used [OF wf, of p] by (intro exI [of _ "exp_free p h"]) (simp add: ht_store_def)
qed

theorem MEMFreeToExpHeap_releases_witness:
  "exp_heaps (MEMFreeToExpHeap 0x1000 4201 exp_demo) 0x1000 = exp_heaps exp_demo 0x1000 \<and>
   (\<exists>h'. exp_heaps (MEMFreeToExpHeap 0x1000 4200 exp_demo) 0x1000 = Some h' \<and>
      map bk_payload (used_blocks h') = [20224])"
  using MEMFreeToExpHeap_releases [OF exp_demo_ok _ exp_demo_heap, of 4201]
    MEMFreeToExpHeap_releases [OF exp_demo_ok _ exp_demo_heap, of 4200]
  by (auto simp: used_blocks_def exp_demo_heap)

text \<open>The demo heap again, reached by another sequence of calls.\<close>

definition exp_demo_detour_calls :: "exp_call list" where
  "exp_demo_detour_calls = exp_demo_setup @ [ExpAlloc 0x1000 64 8, ExpFree 0x1000 4320, ExpAlloc 0x1000 15884 (-4),
     ExpFree 0x1000 4320]"

lemma exp_demo_detour_heap:
  "exp_heaps (exp_run exp_demo_detour_calls exp_fresh) 0x1000 = Some \<lparr>eh_dataStart = 4180, eh_dataEnd = 20480,
    eh_flags = 1, eh_mode = 0, eh_live = True, eh_blocks =
     [\<lparr>bk_start = 4180, bk_size = 120, bk_payload = 4200, bk_payloadSize = 100, bk_used = True, bk_direction = 0\<rparr>,
      \<lparr>bk_start = 4300, bk_size = 15904, bk_payload = 0, bk_payloadSize = 0, bk_used = False, bk_direction = 1\<rparr>,
      \<lparr>bk_start = 20204, bk_size = 276, bk_payload = 20224, bk_payloadSize = 1, bk_used = True, bk_direction = 1\<rparr>]\<rparr>"
proof -
  have "exp_run exp_demo_detour_calls exp_fresh = exp_run [ExpAlloc 0x1000 64 8, ExpFree 0x1000 4320,
      ExpAlloc 0x1000 15884 (-4), ExpFree 0x1000 4320] exp_demo"
    by (simp add: exp_demo_detour_calls_def exp_demo_def exp_demo_setup_def)
  then show ?thesis by (simp add: exp_demo_heap exp_eval)
qed

text \<open>
  C16: No fragmentation survives freeing: whatever two sequences of creations, allocations, frees and other calls have
  built a heap, over the same region and with the same blocks outstanding at the end, the block lists are the same, up
  to the direction byte of free blocks, which nothing reads; the heaps report the same free and allocatable sizes, and
  with nothing outstanding the heap is one free block over its whole region.
\<close>

theorem exp_blocks_determined:
  assumes "list_all (exp_call_ok lim) cs" and "list_all (exp_call_ok lim) cs'"
    and "w = exp_run cs \<lparr>exp_heaps = Map.empty, exp_mem = m\<rparr>" and "w' = exp_run cs' \<lparr>exp_heaps = Map.empty, exp_mem = m'\<rparr>"
    and "k \<noteq> null" and "exp_heaps w k = Some h" and "eh_live h" and "exp_heaps w' k = Some h'" and "eh_live h'"
    and "eh_dataStart h = eh_dataStart h'" and "eh_dataEnd h = eh_dataEnd h'" and "used_blocks h = used_blocks h'"
  shows "map shape (eh_blocks h) = map shape (eh_blocks h') \<and>
    fst (MEMGetTotalFreeSizeForExpHeap k w) = fst (MEMGetTotalFreeSizeForExpHeap k w') \<and>
    fst (MEMGetAllocatableSizeForExpHeapEx k al w) = fst (MEMGetAllocatableSizeForExpHeapEx k al w') \<and>
    (used_blocks h = [] \<and> eh_dataStart h \<noteq> eh_dataEnd h \<longrightarrow>
       map shape (eh_blocks h) = [free_block (eh_dataStart h) (ucast (eh_dataEnd h - eh_dataStart h))])"
proof -
  have ok: "tab_ok (exp_ok lim) (exp_heaps w)" "tab_ok (exp_ok lim) (exp_heaps w')"
    using assms(1-4) by (simp_all add: exp_run_tab_ok)
  then have wf: "exp_wf (unat k + 84) (lim k) h" "exp_wf (unat k + 84) (lim k) h'"
    using assms(6-9) by (auto simp: tab_ok_def exp_ok_def)
  note same = exp_determined [OF wf assms(10-12)] exp_total_same [OF wf assms(10-12)]
  have "exp_live k w = (Some h, w)" "exp_live k w' = (Some h', w')"
    using assms(5-9) by (simp_all add: exp_live_known)
  then show ?thesis
    using same exp_best_shape [OF same(1)] empty_heap [OF wf(1)]
    by (simp add: MEMGetTotalFreeSizeForExpHeap_def MEMGetAllocatableSizeForExpHeapEx_def exp_allocatable_def
        case_prod_beta Let_def)
qed

theorem exp_blocks_determined_witness:
  "eh_blocks (the (exp_heaps exp_demo 0x1000)) \<noteq> eh_blocks (the (exp_heaps (exp_run exp_demo_detour_calls exp_fresh) 0x1000)) \<and>
   map shape (eh_blocks (the (exp_heaps exp_demo 0x1000))) =
     map shape (eh_blocks (the (exp_heaps (exp_run exp_demo_detour_calls exp_fresh) 0x1000))) \<and>
   fst (MEMGetAllocatableSizeForExpHeapEx 0x1000 4 exp_demo) =
     fst (MEMGetAllocatableSizeForExpHeapEx 0x1000 4 (exp_run exp_demo_detour_calls exp_fresh))"
proof -
  have c: "list_all (exp_call_ok exp_demo_lim) exp_demo_setup" "list_all (exp_call_ok exp_demo_lim) exp_demo_detour_calls"
    by (simp_all add: exp_demo_setup_def exp_demo_detour_calls_def exp_demo_lim_def)
  show ?thesis
    using exp_blocks_determined [OF c exp_demo_run exp_fresh_run [of exp_demo_detour_calls] _ exp_demo_heap _
        exp_demo_detour_heap, of 4]
    by (simp add: exp_demo_heap exp_demo_detour_heap used_blocks_def)
qed

text \<open>
  C26: Every allocation costs at least its size and the 0x14 bytes a header takes on the console, and freeing the
  block gives all of it back: free and allocatable sizes, for every alignment, are what they were before.
\<close>

theorem exp_alloc_free_restores:
  assumes "tab_ok (exp_ok lim) (exp_heaps w)" and "MEMAllocFromExpHeapEx k sz al w = (p, w')" and "p \<noteq> null"
  shows "let w'' = MEMFreeToExpHeap k p w' in
    unat (fst (MEMGetTotalFreeSizeForExpHeap k w')) + 0x14 + unat (exp_request sz)
      \<le> unat (fst (MEMGetTotalFreeSizeForExpHeap k w)) \<and>
    fst (MEMGetTotalFreeSizeForExpHeap k w'') = fst (MEMGetTotalFreeSizeForExpHeap k w) \<and>
    (\<forall>al'. fst (MEMGetAllocatableSizeForExpHeapEx k al' w'') = fst (MEMGetAllocatableSizeForExpHeapEx k al' w))"
  using assms(1)
proof (cases rule: exp_alloc_live [where k = k and sz = sz and al = al])
  case (granted h h' q)
  then have q: "q = p" using assms(2) by simp
  note wf = granted(5) exp_step_wf [OF granted(5,7)] exp_free_wf [OF exp_step_wf [OF granted(5,7)], of q]
  note f = exp_step_fields [OF granted(7)]
  have live: "exp_live k w' = (Some h', w')"
    using granted(3,4,6) assms(2) f by (auto simp: exp_live_known)
  then have w'': "MEMFreeToExpHeap k p w' = exp_put k (exp_free p h') w'"
    using assms(3) by (simp add: MEMFreeToExpHeap_def)
  have g: "eh_live (exp_free p h')" "eh_dataStart (exp_free p h') = eh_dataStart h"
    "eh_dataEnd (exp_free p h') = eh_dataEnd h"
    using f granted(3) by (cases rule: exp_free_cases [of h' p]; simp)+
  then have live'': "exp_live k (exp_put k (exp_free p h') w') = (Some (exp_free p h'), exp_put k (exp_free p h') w')"
    using granted(4) by (simp add: exp_live_known)
  obtain us vs u where u: "used_blocks h = us @ vs" "used_blocks h' = us @ u # vs" "bk_payload u = q"
    "unat (bk_start u) + 20 \<le> unat q" "unat q + unat (exp_request sz) \<le> unat (bk_start u) + unat (bk_size u)"
    by (rule exp_step_payload [OF granted(5,7)])
  have "bk_payload b \<noteq> p" if "b \<in> set (us @ vs)" for b
    using apart_payloads [OF wf(2) u(2) that] used_block_inside(3) [OF wf(2)] u(2,3) that q by fastforce
  then have "used_blocks (exp_free q h') = used_blocks h"
    unfolding exp_free_used [OF wf(2)] using u q by (simp add: filter_id_conv)
  then have same: "exp_total_free 0 (eh_blocks (exp_free p h')) = exp_total_free 0 (eh_blocks h)"
    "map shape (eh_blocks (exp_free p h')) = map shape (eh_blocks h)"
    using exp_total_same [OF wf(3,1)] exp_determined [OF wf(3,1)] g q by simp_all
  have "used_bytes (used_blocks h') = used_bytes (used_blocks h) + unat (bk_size u)"
    using u(1,2) used_block_inside(6) [OF wf(2), of u]
    by (simp add: used_bytes_def used_blocks_def [symmetric])
  then have "unat (exp_total_free 0 (eh_blocks h')) + 0x14 + unat (exp_request sz) \<le>
      unat (exp_total_free 0 (eh_blocks h))"
    using exp_total_free [OF wf(1)] exp_total_free [OF wf(2)] f u(4,5) by simp
  then show ?thesis
    using granted(1) live live'' same exp_best_shape [OF same(2)]
    by (simp add: w'' Let_def MEMGetTotalFreeSizeForExpHeap_def MEMGetAllocatableSizeForExpHeapEx_def
        exp_allocatable_def case_prod_beta)
qed (use assms in auto)

theorem exp_alloc_free_restores_witness:
  "\<exists>w'. MEMAllocFromExpHeapEx 0x1000 32 64 exp_demo = (4352, w') \<and>
     fst (MEMGetTotalFreeSizeForExpHeap 0x1000 exp_demo) = 15904 \<and>
     fst (MEMGetTotalFreeSizeForExpHeap 0x1000 w') = 15820 \<and>
     fst (MEMGetTotalFreeSizeForExpHeap 0x1000 (MEMFreeToExpHeap 0x1000 4352 w')) = 15904"
proof -
  define w' where "w' = snd (MEMAllocFromExpHeapEx 0x1000 32 64 exp_demo)"
  have a: "MEMAllocFromExpHeapEx 0x1000 32 64 exp_demo = (4352, w')"
    by (simp add: w'_def prod_eq_iff exp_demo_heap exp_eval)
  have "fst (MEMGetTotalFreeSizeForExpHeap 0x1000 exp_demo) = 15904"
    "fst (MEMGetTotalFreeSizeForExpHeap 0x1000 w') = 15820"
    by (simp_all add: w'_def exp_demo_heap exp_eval)
  then show ?thesis
    using exp_alloc_free_restores [OF exp_demo_ok a] a by (simp add: Let_def)
qed

text \<open>
  The search: with \<^verbatim>\<open>MEM_EXP_HEAP_MODE_FIRST_FREE\<close> the block is cut from the first free block that fits; in
  the other mode from a free block that leaves least, so no other fitting block has a smaller slack.
\<close>

theorem exp_search_policy:
  assumes "exp_choose mode sz a 0 None 0 bs = Some i"
  shows "i < length bs \<and> candidate sz a (bs ! i) \<and>
    (mode = MEM_EXP_HEAP_MODE_FIRST_FREE \<longrightarrow> (\<forall>j < i. \<not> candidate sz a (bs ! j))) \<and>
    (mode \<noteq> MEM_EXP_HEAP_MODE_FIRST_FREE \<longrightarrow>
       (\<forall>b \<in> set bs. candidate sz a b \<longrightarrow> fitInFree (bs ! i) a - sz \<le> fitInFree b a - sz))"
  using exp_choose_Some [OF assms] exp_choose_first [of sz a 0 0 bs i] exp_choose_nearest [OF _ assms] assms
  by auto

theorem exp_search_policy_witness:
  "let bs = [free_block 0x1000 200, (free_block 0x10c8 50)\<lparr>bk_used := True\<rparr>, free_block 0x10fa 60]
   in exp_choose MEM_EXP_HEAP_MODE_FIRST_FREE 30 4 0 None 0 bs = Some 0 \<and>
      exp_choose MEM_EXP_HEAP_MODE_NEAREST_SIZE 30 4 0 None 0 bs = Some 2 \<and>
      fitInFree (bs ! 2) 4 - 30 \<le> fitInFree (bs ! 0) 4 - 30"
proof -
  define bs where "bs = [free_block 0x1000 200, (free_block 0x10c8 50)\<lparr>bk_used := True\<rparr>, free_block 0x10fa 60]"
  have c: "exp_choose MEM_EXP_HEAP_MODE_FIRST_FREE 30 4 0 None 0 bs = Some 0"
    "exp_choose MEM_EXP_HEAP_MODE_NEAREST_SIZE 30 4 0 None 0 bs = Some 2"
    by (simp_all add: bs_def exp_eval)
  have "candidate 30 4 (bs ! 0)" "bs ! 0 \<in> set bs"
    by (simp_all add: bs_def candidate_def exp_eval)
  then have "fitInFree (bs ! 2) 4 - 30 \<le> fitInFree (bs ! 0) 4 - 30"
    using exp_search_policy [OF c(2)] by simp
  with c show ?thesis by (simp only: bs_def Let_def)
qed

end
