(* ===== verification/BaseHeap.thy ===== *)
theory BaseHeap
  imports ExpHeapApi
begin

text \<open>
  The base heaps of \<^verbatim>\<open>source/memexpheap.cpp\<close> and the default heap of \<^verbatim>\<open>source/memdefaultheap.cpp\<close>, which
  allocates from the MEM2 base heap. A base heap is created on its first use, on memory from \<^verbatim>\<open>std::malloc\<close>: what
  \<^verbatim>\<open>malloc\<close> returns is the argument \<open>m\<close> of the operations that may call it, and \<open>malloc_ok\<close> says that it is null or
  the start of memory of its own. \<open>base_world\<close> holds the arrays \<^verbatim>\<open>g_baseRegion\<close> and \<^verbatim>\<open>g_baseHeap\<close> and the heaps.
\<close>

section \<open>State\<close>

record base_world =
  baseRegion :: "ptr list"
  baseHeap :: "ptr list"
  base_exp :: exp_world

abbreviation (input) MEM_BASE_HEAP_MEM1 :: u32 where
  "MEM_BASE_HEAP_MEM1 \<equiv> 0"

abbreviation (input) MEM_BASE_HEAP_MEM2 :: u32 where
  "MEM_BASE_HEAP_MEM2 \<equiv> 1"

abbreviation (input) MEM_BASE_HEAP_FG :: u32 where
  "MEM_BASE_HEAP_FG \<equiv> 8"

definition baseIndex :: "u32 \<Rightarrow> nat option" where
  "baseIndex type =
     (if type = MEM_BASE_HEAP_MEM1 then Some 0
      else if type = MEM_BASE_HEAP_MEM2 then Some 1
      else if type = MEM_BASE_HEAP_FG then Some 2
      else None)"

section \<open>Operations\<close>

definition kSize :: u32 where
  "kSize = 8 * 1024 * 1024"

definition MEMGetBaseHeapHandle :: "ptr \<Rightarrow> u32 \<Rightarrow> base_world \<Rightarrow> ptr \<times> base_world" where
  "MEMGetBaseHeapHandle m type w =
     (case baseIndex type of
        None \<Rightarrow> (null, w)
      | Some i \<Rightarrow>
          if baseHeap w ! i \<noteq> null then (baseHeap w ! i, w)
          else
            let w1 = w\<lparr>baseRegion := (baseRegion w)[i := m]\<rparr>
            in if baseRegion w1 ! i = null then (null, w1)
               else
                 let (heap, e) = MEMCreateExpHeapEx (baseRegion w1 ! i) kSize 0 (base_exp w1);
                     w2 = w1\<lparr>baseHeap := (baseHeap w1)[i := heap], base_exp := e\<rparr>
                 in (baseHeap w2 ! i, w2))"

definition MEMSetBaseHeapHandle :: "u32 \<Rightarrow> ptr \<Rightarrow> base_world \<Rightarrow> ptr \<times> base_world" where
  "MEMSetBaseHeapHandle type heap w =
     (case baseIndex type of
        None \<Rightarrow> (null, w)
      | Some i \<Rightarrow> (baseHeap w ! i, w\<lparr>baseHeap := (baseHeap w)[i := heap]\<rparr>))"

text \<open>The loop of \<^verbatim>\<open>MEMFindContainHeap\<close> over the remaining base heaps; \<open>live\<close> may create a host object.\<close>

fun find_contain :: "ptr \<Rightarrow> ptr list \<Rightarrow> exp_world \<Rightarrow> ptr \<times> exp_world" where
  "find_contain p [] e = (null, e)"
| "find_contain p (h # hs) e =
     (if h = null then find_contain p hs e
      else
        case exp_live h e of
          (None, e') \<Rightarrow> find_contain p hs e'
        | (Some host, e') \<Rightarrow>
            if eh_dataStart host \<le> p \<and> p < eh_dataEnd host then (h, e') else find_contain p hs e')"

definition MEMFindContainHeap :: "ptr \<Rightarrow> base_world \<Rightarrow> ptr \<times> base_world" where
  "MEMFindContainHeap p w =
     (if p = null then (null, w)
      else let (h, e) = find_contain p (take 3 (baseHeap w)) (base_exp w) in (h, w\<lparr>base_exp := e\<rparr>))"

definition MEMFindParentHeap :: "ptr \<Rightarrow> ptr" where
  "MEMFindParentHeap handle = null"

text \<open>The default heap, over the MEM2 base heap.\<close>

definition defaultAlloc :: "ptr \<Rightarrow> u32 \<Rightarrow> base_world \<Rightarrow> ptr \<times> base_world" where
  "defaultAlloc m sz w =
     (let (heap, w1) = MEMGetBaseHeapHandle m MEM_BASE_HEAP_MEM2 w;
          (p, e) = MEMAllocFromExpHeapEx heap sz 4 (base_exp w1)
      in (p, w1\<lparr>base_exp := e\<rparr>))"

definition defaultAllocEx :: "ptr \<Rightarrow> u32 \<Rightarrow> s32 \<Rightarrow> base_world \<Rightarrow> ptr \<times> base_world" where
  "defaultAllocEx m sz alignment w =
     (let (heap, w1) = MEMGetBaseHeapHandle m MEM_BASE_HEAP_MEM2 w;
          (p, e) = MEMAllocFromExpHeapEx heap sz (if alignment \<noteq> 0 then alignment else 4) (base_exp w1)
      in (p, w1\<lparr>base_exp := e\<rparr>))"

definition defaultFree :: "ptr \<Rightarrow> ptr \<Rightarrow> base_world \<Rightarrow> base_world" where
  "defaultFree m p w =
     (let (heap, w1) = MEMGetBaseHeapHandle m MEM_BASE_HEAP_MEM2 w
      in w1\<lparr>base_exp := MEMFreeToExpHeap heap p (base_exp w1)\<rparr>)"

text \<open>The three function pointers the game may replace, with the values they start with.\<close>

record default_heap =
  MEMAllocFromDefaultHeap :: "ptr \<Rightarrow> u32 \<Rightarrow> base_world \<Rightarrow> ptr \<times> base_world"
  MEMAllocFromDefaultHeapEx :: "ptr \<Rightarrow> u32 \<Rightarrow> s32 \<Rightarrow> base_world \<Rightarrow> ptr \<times> base_world"
  MEMFreeToDefaultHeap :: "ptr \<Rightarrow> ptr \<Rightarrow> base_world \<Rightarrow> base_world"

definition default_heap_init :: default_heap where
  "default_heap_init = \<lparr>MEMAllocFromDefaultHeap = defaultAlloc, MEMAllocFromDefaultHeapEx = defaultAllocEx,
     MEMFreeToDefaultHeap = defaultFree\<rparr>"


section \<open>The interface: an allocator and its outstanding blocks\<close>

text \<open>
  What the clients of a heap rely on: a block handed out is new and overlaps no other outstanding block, a refused
  request and the freeing of any other pointer leave the outstanding blocks alone, and freeing takes out exactly
  the block that was passed. \<open>outstanding\<close> gives payload address and size.
\<close>

locale block_allocator =
  fixes ok :: "'s \<Rightarrow> bool"
    and alloc :: "u32 \<Rightarrow> s32 \<Rightarrow> 's \<Rightarrow> ptr \<times> 's"
    and free :: "ptr \<Rightarrow> 's \<Rightarrow> 's"
    and outstanding :: "'s \<Rightarrow> (ptr \<times> nat) set"
  assumes ok_alloc: "ok s \<Longrightarrow> ok (snd (alloc n a s))"
    and ok_free: "ok s \<Longrightarrow> ok (free p s)"
    and alloc_fresh: "ok s \<Longrightarrow> fst (alloc n a s) = p \<Longrightarrow> p \<noteq> null \<Longrightarrow>
      \<exists>m. unat n \<le> m \<and> 0 < m \<and> outstanding (snd (alloc n a s)) = insert (p, m) (outstanding s) \<and>
        (\<forall>(q, l) \<in> outstanding s. unat p + m \<le> unat q \<or> unat q + l \<le> unat p)"
    and alloc_refused: "ok s \<Longrightarrow> fst (alloc n a s) = null \<Longrightarrow> outstanding (snd (alloc n a s)) = outstanding s"
    and free_out: "ok s \<Longrightarrow> p \<noteq> null \<Longrightarrow> outstanding (free p s) = {(q, l) \<in> outstanding s. q \<noteq> p}"
    and sizes_pos: "ok s \<Longrightarrow> (q, l) \<in> outstanding s \<Longrightarrow> 0 < l"
begin

lemma alloc_new:
  assumes "ok s" "fst (alloc n a s) = p" "p \<noteq> null"
  shows "p \<notin> fst ` outstanding s"
proof
  assume "p \<in> fst ` outstanding s"
  then obtain l where l: "(p, l) \<in> outstanding s" by auto
  then show False
    using alloc_fresh [OF assms] sizes_pos [OF assms(1) l] by fastforce
qed

lemma alloc_keeps: "ok s \<Longrightarrow> b \<in> outstanding s \<Longrightarrow> b \<in> outstanding (snd (alloc n a s))"
  using alloc_fresh [of s n a "fst (alloc n a s)"] alloc_refused [of s n a]
  by (cases "fst (alloc n a s) = null") auto

lemma alloc_then_free:
  assumes "ok s" "fst (alloc n a s) = p" "p \<noteq> null"
  shows "outstanding (free p (snd (alloc n a s))) = outstanding s"
  using alloc_fresh [OF assms] alloc_new [OF assms] free_out [OF ok_alloc [OF assms(1)] assms(3), of n a]
  by force

text \<open>A block stays outstanding through any calls that do not free it.\<close>

lemma run_keeps:
  assumes "ok s" "b \<in> outstanding s"
    "\<forall>c \<in> set cs. (\<exists>n a. c = (\<lambda>s. snd (alloc n a s))) \<or> (\<exists>p. p \<noteq> null \<and> p \<noteq> fst b \<and> c = free p)"
  shows "ok (fold (\<lambda>c s. c s) cs s) \<and> b \<in> outstanding (fold (\<lambda>c s. c s) cs s)"
  using assms
proof (induction cs arbitrary: s)
  case (Cons c cs)
  then consider n a where "c = (\<lambda>s. snd (alloc n a s))" | p where "p \<noteq> null" "p \<noteq> fst b" "c = free p" by auto
  then have "ok (c s) \<and> b \<in> outstanding (c s)"
  proof cases
    case 1
    then show ?thesis using Cons.prems by (simp add: ok_alloc alloc_keeps)
  next
    case 2
    then show ?thesis using Cons.prems by (auto simp: ok_free free_out)
  qed
  with Cons show ?case by simp
qed simp

end

section \<open>The base heaps provide it\<close>

text \<open>
  \<open>base_ready\<close>: the MEM2 base heap has been created (by the first \<^verbatim>\<open>MEMGetBaseHeapHandle\<close>, below) or set by the
  game to a live heap. From then on the default heap is an allocator.
\<close>

definition base_ready :: "(ptr \<Rightarrow> nat) \<Rightarrow> base_world \<Rightarrow> bool" where
  "base_ready lim w \<longleftrightarrow> tab_ok (exp_ok lim) (exp_heaps (base_exp w)) \<and>
     baseHeap w ! 1 \<noteq> null \<and>
     (\<exists>h. exp_heaps (base_exp w) (baseHeap w ! 1) = Some h \<and> eh_live h)"

definition mem2_heap :: "base_world \<Rightarrow> exp_heap" where
  "mem2_heap w = ht_host exp_init (baseHeap w ! 1) (exp_heaps (base_exp w))"

definition mem2_outstanding :: "base_world \<Rightarrow> (ptr \<times> nat) set" where
  "mem2_outstanding w = (\<lambda>b. (bk_payload b, unat (bk_payloadSize b))) ` set (used_blocks (mem2_heap w))"

lemma baseIndex_MEM2: "baseIndex MEM_BASE_HEAP_MEM2 = Some 1"
  by (simp add: baseIndex_def)

lemma get_base_ready: "base_ready lim w \<Longrightarrow> MEMGetBaseHeapHandle m MEM_BASE_HEAP_MEM2 w = (baseHeap w ! 1, w)"
  by (simp add: base_ready_def MEMGetBaseHeapHandle_def baseIndex_MEM2)

lemma base_ready_obtain:
  assumes "base_ready lim w"
  obtains h where "exp_heaps (base_exp w) (baseHeap w ! 1) = Some h" "eh_live h" "mem2_heap w = h"
    "exp_wf (unat (baseHeap w ! 1) + 84) (lim (baseHeap w ! 1)) h" "baseHeap w ! 1 \<noteq> null"
    "tab_ok (exp_ok lim) (exp_heaps (base_exp w))"
  using assms by (auto simp: base_ready_def mem2_heap_def tab_ok_def exp_ok_def)

lemma base_ready_put:
  "base_ready lim w \<Longrightarrow> tab_ok (exp_ok lim) (exp_heaps e) \<Longrightarrow> exp_heaps e (baseHeap w ! 1) = Some h \<Longrightarrow> eh_live h \<Longrightarrow>
     base_ready lim (w\<lparr>base_exp := e\<rparr>) \<and> mem2_heap (w\<lparr>base_exp := e\<rparr>) = h"
  by (simp add: base_ready_def mem2_heap_def)

lemma defaultAllocEx_ready:
  assumes r: "base_ready lim w"
  shows "base_ready lim (snd (defaultAllocEx m n a w)) \<and>
    (fst (defaultAllocEx m n a w) = null \<longrightarrow> mem2_heap (snd (defaultAllocEx m n a w)) = mem2_heap w) \<and>
    (fst (defaultAllocEx m n a w) \<noteq> null \<longrightarrow> (\<exists>al. exp_alloc_step (mem2_heap w) (exp_request n)
       (fst (normaliseAlignment al)) (fst (defaultAllocEx m n a w)) (mem2_heap (snd (defaultAllocEx m n a w)))))"
proof -
  define al where "al = (if a \<noteq> 0 then a else 4)"
  obtain h where h: "exp_heaps (base_exp w) (baseHeap w ! 1) = Some h" "eh_live h" "mem2_heap w = h"
    "baseHeap w ! 1 \<noteq> null" and t: "tab_ok (exp_ok lim) (exp_heaps (base_exp w))"
    by (rule base_ready_obtain [OF r])
  have d: "defaultAllocEx m n a w = (let (p, e) = MEMAllocFromExpHeapEx (baseHeap w ! 1) n al (base_exp w) in
      (p, w\<lparr>base_exp := e\<rparr>))"
    by (simp add: defaultAllocEx_def get_base_ready [OF r] al_def)
  have t': "tab_ok (exp_ok lim) (exp_heaps (snd (MEMAllocFromExpHeapEx (baseHeap w ! 1) n al (base_exp w))))"
    using exp_exec_ok [OF t, of "ExpAlloc (baseHeap w ! 1) n al"] by simp
  have l: "exp_live (baseHeap w ! 1) (base_exp w) = (Some h, base_exp w)"
    using h by (simp add: exp_live_known)
  show ?thesis
    using t
  proof (cases rule: exp_alloc_live [where k = "baseHeap w ! 1" and sz = n and al = al])
    case (refused w')
    with l show ?thesis by simp
  next
    case (full h)
    then show ?thesis by (simp add: d r)
  next
    case (granted h2 h' p)
    with l have "h2 = h" by simp
    then show ?thesis
      using granted t' h(3) exp_step_fields [OF granted(7)] base_ready_put [OF r t', of h']
      by (auto simp: d Let_def h(2))
  qed
qed

lemma defaultFree_ready:
  assumes r: "base_ready lim w" and p: "p \<noteq> null"
  shows "base_ready lim (defaultFree m p w) \<and> mem2_heap (defaultFree m p w) = exp_free p (mem2_heap w)"
proof -
  obtain h where h: "exp_heaps (base_exp w) (baseHeap w ! 1) = Some h" "eh_live h" "mem2_heap w = h"
    "baseHeap w ! 1 \<noteq> null" and t: "tab_ok (exp_ok lim) (exp_heaps (base_exp w))"
    by (rule base_ready_obtain [OF r])
  have d: "MEMFreeToExpHeap (baseHeap w ! 1) p (base_exp w) = exp_put (baseHeap w ! 1) (exp_free p h) (base_exp w)"
    using h p by (simp add: MEMFreeToExpHeap_def exp_live_known)
  have t': "tab_ok (exp_ok lim) (exp_heaps (MEMFreeToExpHeap (baseHeap w ! 1) p (base_exp w)))"
    using exp_exec_ok [OF t, of "ExpFree (baseHeap w ! 1) p"] by simp
  have "eh_live (exp_free p h)" using h(2) by (cases rule: exp_free_cases [of h p]) simp_all
  then show ?thesis
    using base_ready_put [OF r t', of "exp_free p h"] h(3)
    by (simp add: defaultFree_def get_base_ready [OF r] d del: One_nat_def)
qed

lemma defaultFree_null:
  assumes r: "base_ready lim w"
  shows "defaultFree m null w = w"
proof -
  obtain h where "exp_heaps (base_exp w) (baseHeap w ! 1) = Some h" "eh_live h" "baseHeap w ! 1 \<noteq> null"
    by (rule base_ready_obtain [OF r])
  then show ?thesis
    by (simp add: defaultFree_def get_base_ready [OF r] MEMFreeToExpHeap_def exp_live_known del: One_nat_def)
qed

interpretation defh: block_allocator "base_ready lim" "defaultAllocEx m" "defaultFree m" mem2_outstanding
  for lim m
proof unfold_locales
  fix s n a p q l
  assume r: "base_ready lim s"
  obtain h where h: "mem2_heap s = h" and wf: "exp_wf (unat (baseHeap s ! 1) + 84) (lim (baseHeap s ! 1)) h"
    by (rule base_ready_obtain [OF r])
  note a = defaultAllocEx_ready [OF r, of m n a]
  show "base_ready lim (snd (defaultAllocEx m n a s))" using a by simp
  show "mem2_outstanding (snd (defaultAllocEx m n a s)) = mem2_outstanding s" if "fst (defaultAllocEx m n a s) = null"
    using a that by (simp add: mem2_outstanding_def)
  show "0 < l" if "(q, l) \<in> mem2_outstanding s"
    using that used_block_inside(3) [OF wf] h by (auto simp: mem2_outstanding_def)
  show "mem2_outstanding (defaultFree m p s) = {(q, l) \<in> mem2_outstanding s. q \<noteq> p}" if "p \<noteq> null"
    using defaultFree_ready [OF r that, of m] exp_free_used [OF wf, of p] h
    by (auto simp: mem2_outstanding_def)
  show "\<exists>k. unat n \<le> k \<and> 0 < k \<and>
      mem2_outstanding (snd (defaultAllocEx m n a s)) = insert (p, k) (mem2_outstanding s) \<and>
      (\<forall>(q, l) \<in> mem2_outstanding s. unat p + k \<le> unat q \<or> unat q + l \<le> unat p)"
    if f: "fst (defaultAllocEx m n a s) = p" "p \<noteq> null"
  proof -
    obtain al where st: "exp_alloc_step h (exp_request n) (fst (normaliseAlignment al)) p
        (mem2_heap (snd (defaultAllocEx m n a s)))"
      using a f h by auto
    obtain us vs u where u: "used_blocks h = us @ vs"
      "used_blocks (mem2_heap (snd (defaultAllocEx m n a s))) = us @ u # vs"
      "bk_payload u = p" "bk_payloadSize u = exp_request n"
      by (rule exp_step_payload [OF wf st])
    have "0 < unat (exp_request n)" "unat n \<le> unat (exp_request n)"
      by (simp_all add: exp_request_def word_pos_unat [symmetric])
    moreover have "\<forall>b \<in> set (us @ vs). unat p + unat (exp_request n) \<le> unat (bk_payload b) \<or>
        unat (bk_payload b) + unat (bk_payloadSize b) \<le> unat p"
      using apart_payloads [OF exp_step_wf [OF wf st] u(2)] u(3,4) by simp
    ultimately show ?thesis
      using u h by (intro exI [of _ "unat (exp_request n)"]) (auto simp: mem2_outstanding_def)
  qed
qed (use defaultFree_ready defaultFree_null in \<open>metis\<close>)


section \<open>Which heap owns a pointer\<close>

definition contains :: "exp_world \<Rightarrow> ptr \<Rightarrow> ptr \<Rightarrow> bool" where
  "contains e p k \<longleftrightarrow> k \<noteq> null \<and>
     (case exp_heaps e k of None \<Rightarrow> False
      | Some host \<Rightarrow> eh_live host \<and> eh_dataStart host \<le> p \<and> p < eh_dataEnd host)"

lemma exp_live_contains:
  "k \<noteq> null \<Longrightarrow> contains (snd (exp_live k e)) p k' = contains e p k' \<and>
     contains e p k = (case fst (exp_live k e) of None \<Rightarrow> False
       | Some host \<Rightarrow> eh_dataStart host \<le> p \<and> p < eh_dataEnd host)"
  by (auto simp: exp_live_def contains_def ht_get_def Let_def exp_init_def split: option.splits)

lemma find_contain_first:
  "fst (find_contain p hs e) = (case find (contains e p) hs of None \<Rightarrow> null | Some k \<Rightarrow> k)"
proof (induction hs arbitrary: e)
  case (Cons k hs)
  obtain r e' where l: "exp_live k e = (r, e')" by fastforce
  show ?case
  proof (cases "k = null")
    case True
    then show ?thesis using Cons.IH [of e] by (simp add: contains_def)
  next
    case False
    then have "contains e' p = contains e p"
      using exp_live_contains [of k e p] l by auto
    with Cons.IH [of e'] show ?thesis
      using False exp_live_contains [OF False, of e p] l by (cases r) auto
  qed
qed simp

text \<open>The base heaps lie in memory of their own: the regions \<open>[k, lim k)\<close> of two of them are disjoint.\<close>

definition bases_apart :: "(ptr \<Rightarrow> nat) \<Rightarrow> ptr list \<Rightarrow> bool" where
  "bases_apart lim hs \<longleftrightarrow> length hs = 3 \<and>
     (\<forall>i < 3. \<forall>j < 3. i \<noteq> j \<longrightarrow> hs ! i \<noteq> null \<longrightarrow> hs ! j \<noteq> null \<longrightarrow>
        hs ! i \<noteq> hs ! j \<and> (lim (hs ! i) \<le> unat (hs ! j) \<or> lim (hs ! j) \<le> unat (hs ! i)))"

lemma contains_region:
  "tab_ok (exp_ok lim) (exp_heaps e) \<Longrightarrow> contains e p k \<Longrightarrow> unat k \<le> unat p \<and> unat p < lim k"
  by (fastforce simp: contains_def tab_ok_def exp_ok_def exp_wf_def word_le_nat_alt word_less_nat_alt
      split: option.splits)

lemma find_base:
  assumes "bases_apart lim hs" "tab_ok (exp_ok lim) (exp_heaps e)" "i < 3" "contains e p (hs ! i)"
  shows "fst (find_contain p (take 3 hs) e) = hs ! i"
proof -
  have l: "length hs = 3" using assms(1) by (simp add: bases_apart_def)
  have "k = hs ! i" if k: "k \<in> set hs" "contains e p k" for k
  proof -
    obtain j where "j < length hs" "hs ! j = k" using k(1) unfolding in_set_conv_nth by blast
    then have j: "j < 3" "k = hs ! j" using l by simp_all
    have n: "k \<noteq> null" "hs ! i \<noteq> null" using that(2) assms(4) by (simp_all add: contains_def)
    show ?thesis
    proof (rule ccontr)
      assume "k \<noteq> hs ! i"
      then have "i \<noteq> j" using j by auto
      then have "lim (hs ! i) \<le> unat k \<or> lim k \<le> unat (hs ! i)"
        using assms(1,3) j n unfolding bases_apart_def by blast
      then show False
        using contains_region [OF assms(2) k(2)] contains_region [OF assms(2,4)] by linarith
    qed
  qed
  moreover have "find (contains e p) hs \<noteq> None"
    using assms(3,4) l by (metis find_None_iff nth_mem)
  moreover from this obtain k where f: "find (contains e p) hs = Some k" by blast
  then have "k \<in> set hs \<and> contains e p k" by (metis find_Some_iff nth_mem)
  ultimately have "k = hs ! i" by blast
  with f l show ?thesis by (simp add: find_contain_first)
qed

lemma outstanding_contained:
  assumes "base_ready lim w" "(p, k) \<in> mem2_outstanding w"
  shows "contains (base_exp w) p (baseHeap w ! 1)"
proof -
  obtain h where h: "exp_heaps (base_exp w) (baseHeap w ! 1) = Some h" "eh_live h" "mem2_heap w = h"
    "exp_wf (unat (baseHeap w ! 1) + 84) (lim (baseHeap w ! 1)) h" "baseHeap w ! 1 \<noteq> null"
    by (rule base_ready_obtain [OF assms(1)])
  obtain b where b: "b \<in> set (used_blocks h)" "bk_payload b = p"
    using assms(2) h(3) by (auto simp: mem2_outstanding_def)
  have "unat (eh_dataStart h) \<le> unat (bk_start b)" "unat (bk_start b) + unat (bk_size b) \<le> unat (eh_dataEnd h)"
    using h(4) b(1) by (auto simp: exp_wf_def used_blocks_def dest!: tiles_apart)
  then show ?thesis
    using used_block_inside(3-5) [OF h(4) b(1)] h b(2)
    by (simp add: contains_def word_le_nat_alt word_less_nat_alt)
qed

section \<open>Properties\<close>

text \<open>
  What is asked of \<^verbatim>\<open>malloc\<close>: null, or the start of 8 MiB the guest and the other base heaps do not use.
\<close>

definition malloc_ok :: "(ptr \<Rightarrow> nat) \<Rightarrow> base_world \<Rightarrow> ptr \<Rightarrow> bool" where
  "malloc_ok lim w m \<longleftrightarrow> m = null \<or>
     (unat m + 8388608 \<le> lim m \<and> lim m \<le> 9223372036854775808 \<and>
      (\<forall>k \<in> set (baseHeap w). k \<noteq> null \<longrightarrow> k \<noteq> m \<and> (lim k \<le> unat m \<or> lim m \<le> unat k)))"

lemma get_base_fresh:
  assumes ok: "tab_ok (exp_ok lim) (exp_heaps (base_exp w))" and apart: "bases_apart lim (baseHeap w)"
    and lr: "length (baseRegion w) = 3" and m: "malloc_ok lim w m" "m \<noteq> null" and none: "baseHeap w ! 1 = null"
  shows "fst (MEMGetBaseHeapHandle m MEM_BASE_HEAP_MEM2 w) = m \<and>
    base_ready lim (snd (MEMGetBaseHeapHandle m MEM_BASE_HEAP_MEM2 w)) \<and>
    bases_apart lim (baseHeap (snd (MEMGetBaseHeapHandle m MEM_BASE_HEAP_MEM2 w))) \<and>
    mem2_outstanding (snd (MEMGetBaseHeapHandle m MEM_BASE_HEAP_MEM2 w)) = {} \<and>
    length (baseRegion (snd (MEMGetBaseHeapHandle m MEM_BASE_HEAP_MEM2 w))) = 3 \<and>
    baseHeap (snd (MEMGetBaseHeapHandle m MEM_BASE_HEAP_MEM2 w)) ! 1 = m"
proof -
  have k: "unat kSize = 8388608" "104 < kSize" by (simp_all add: kSize_def)
  have l: "length (baseHeap w) = 3" using apart by (simp add: bases_apart_def)
  obtain h where h: "MEMCreateExpHeapEx m kSize 0 (base_exp w) = (m, exp_put m h (base_exp w))"
    "exp_wf (unat m + 84) (unat m + unat kSize) h" "eh_live h" "used_blocks h = []"
    using exp_create_eq [OF m(2) k(2), of 0 "base_exp w"] m k by (auto simp: malloc_ok_def)
  then have "exp_ok lim m h"
    using m k by (auto simp: exp_ok_def malloc_ok_def intro: exp_wf_mono)
  then have t: "tab_ok (exp_ok lim) (exp_heaps (exp_put m h (base_exp w)))" using ok by (simp add: tab_ok_store)
  define w' where "w' = w\<lparr>baseRegion := (baseRegion w)[1 := m], baseHeap := (baseHeap w)[1 := m],
    base_exp := exp_put m h (base_exp w)\<rparr>"
  have g: "MEMGetBaseHeapHandle m MEM_BASE_HEAP_MEM2 w = (m, w')"
    using h m(2) none lr l by (simp add: MEMGetBaseHeapHandle_def baseIndex_MEM2 w'_def Let_def)
  have "\<forall>i < 3. baseHeap w ! i \<in> set (baseHeap w)" using l by simp
  then have "bases_apart lim ((baseHeap w)[1 := m])"
    using apart m l by (auto simp: bases_apart_def malloc_ok_def nth_list_update)
  moreover have "base_ready lim w'" "mem2_outstanding w' = {}"
    using t h m(2) l by (simp_all add: base_ready_def w'_def mem2_outstanding_def mem2_heap_def)
  ultimately show ?thesis using lr l by (simp add: g w'_def)
qed


section \<open>Calls after the creation\<close>

text \<open>
  The calls of the component, with what \<^verbatim>\<open>malloc\<close> answers, and those on any expanded heap, the base heaps included.
  The MEM2 heap \<open>m\<close> must not be destroyed or created anew, and the game must not replace it by
  \<^verbatim>\<open>MEMSetBaseHeapHandle\<close>, which is not among the calls.
\<close>

datatype base_call = BGet ptr u32 | BAlloc ptr u32 | BAllocEx ptr u32 s32 | BFree ptr ptr | BFind ptr | BExp exp_call

fun base_exec :: "base_call \<Rightarrow> base_world \<Rightarrow> base_world" where
  "base_exec (BGet a type) w = snd (MEMGetBaseHeapHandle a type w)"
| "base_exec (BAlloc a n) w = snd (defaultAlloc a n w)"
| "base_exec (BAllocEx a n al) w = snd (defaultAllocEx a n al w)"
| "base_exec (BFree a p) w = defaultFree a p w"
| "base_exec (BFind p) w = snd (MEMFindContainHeap p w)"
| "base_exec (BExp c) w = w\<lparr>base_exp := exp_exec c (base_exp w)\<rparr>"

fun exp_remakes :: "ptr \<Rightarrow> exp_call \<Rightarrow> bool" where
  "exp_remakes m (ExpCreate k sz flags) \<longleftrightarrow> k = m"
| "exp_remakes m (ExpDestroy k) \<longleftrightarrow> k = m"
| "exp_remakes m c \<longleftrightarrow> False"

fun base_call_ok :: "(ptr \<Rightarrow> nat) \<Rightarrow> ptr \<Rightarrow> base_world \<Rightarrow> base_call \<Rightarrow> bool" where
  "base_call_ok lim m w (BGet a type) \<longleftrightarrow> malloc_ok lim w a"
| "base_call_ok lim m w (BExp c) \<longleftrightarrow> exp_call_ok lim c \<and> \<not> exp_remakes m c"
| "base_call_ok lim m w c \<longleftrightarrow> True"

fun base_run :: "base_call list \<Rightarrow> base_world \<Rightarrow> base_world" where
  "base_run [] w = w"
| "base_run (c # cs) w = base_run cs (base_exec c w)"

fun base_calls_ok :: "(ptr \<Rightarrow> nat) \<Rightarrow> ptr \<Rightarrow> base_call list \<Rightarrow> base_world \<Rightarrow> bool" where
  "base_calls_ok lim m [] w \<longleftrightarrow> True"
| "base_calls_ok lim m (c # cs) w \<longleftrightarrow> base_call_ok lim m w c \<and> base_calls_ok lim m cs (base_exec c w)"

text \<open>The call frees the block \<open>q\<close> of the heap \<open>m\<close>.\<close>

fun base_frees :: "ptr \<Rightarrow> ptr \<Rightarrow> base_call \<Rightarrow> bool" where
  "base_frees m q (BFree a p) \<longleftrightarrow> p = q"
| "base_frees m q (BExp (ExpFree k p)) \<longleftrightarrow> k = m \<and> p = q"
| "base_frees m q c \<longleftrightarrow> False"

definition mem2_inv :: "(ptr \<Rightarrow> nat) \<Rightarrow> ptr \<Rightarrow> base_world \<Rightarrow> bool" where
  "mem2_inv lim m w \<longleftrightarrow>
     base_ready lim w \<and> bases_apart lim (baseHeap w) \<and> length (baseRegion w) = 3 \<and> baseHeap w ! 1 = m"

lemma exp_live_entry: "exp_heaps e k = Some h \<Longrightarrow> exp_heaps (snd (exp_live k' e)) k = Some h"
  by (auto simp: exp_live_def ht_get_def Let_def split: option.split)

lemma exp_exec_other:
  assumes "exp_heaps e k = Some h"
    and "case c of ExpCreate k' sz flags \<Rightarrow> k' \<noteq> k | ExpDestroy k' \<Rightarrow> k' \<noteq> k | ExpAlloc k' sz al \<Rightarrow> k' \<noteq> k
      | ExpFree k' p \<Rightarrow> k' \<noteq> k | ExpTotalFree k' \<Rightarrow> True | ExpAllocatable k' al \<Rightarrow> True
      | ExpSetMode k' md \<Rightarrow> k' \<noteq> k | ExpGetMode k' \<Rightarrow> True"
  shows "exp_heaps (exp_exec c e) k = Some h"
proof -
  have l: "exp_heaps e' k = Some h" if "exp_live k' e = (r, e')" for k' r e'
    using exp_live_entry [OF assms(1), of k'] that by simp
  show ?thesis
    using assms
    by (cases c)
      (auto simp: MEMCreateExpHeapEx_def MEMDestroyExpHeap_def MEMAllocFromExpHeapEx_def MEMFreeToExpHeap_def
        MEMGetTotalFreeSizeForExpHeap_def MEMGetAllocatableSizeForExpHeapEx_def MEMSetAllocModeForExpHeap_def
        MEMGetAllocModeForExpHeap_def Let_def dest: l split: prod.split option.split)
qed

text \<open>A live heap stays live through the calls, with every outstanding block that is not freed.\<close>

lemma exp_exec_entry:
  assumes ok: "tab_ok (exp_ok lim) (exp_heaps e)" and h: "exp_heaps e k = Some h" "eh_live h" "k \<noteq> null"
    and c: "\<not> exp_remakes k c"
  shows "\<exists>h'. exp_heaps (exp_exec c e) k = Some h' \<and> eh_live h' \<and>
    (\<forall>b \<in> set (used_blocks h). c \<noteq> ExpFree k (bk_payload b) \<longrightarrow> b \<in> set (used_blocks h'))"
proof -
  have l: "exp_live k e = (Some h, e)" using h by (simp add: exp_live_known)
  have wf: "exp_wf (unat k + 84) (lim k) h" using ok h by (auto simp: tab_ok_def exp_ok_def)
  note same = exp_exec_other [OF h(1)]
  show ?thesis
  proof (cases c)
    case (ExpCreate k' sz flags)
    then show ?thesis using same [of c] c h(2) by simp
  next
    case (ExpDestroy k')
    then show ?thesis using same [of c] c h(2) by simp
  next
    case (ExpAlloc k' sz al)
    show ?thesis
    proof (cases "k' = k")
      case True
      show ?thesis using ok
      proof (cases rule: exp_alloc_live [where k = k and sz = sz and al = al])
        case (granted h2 h' p)
        then have "h2 = h" using l by simp
        moreover obtain us vs u where "used_blocks h2 = us @ vs" "used_blocks h' = us @ u # vs"
          by (rule exp_step_payload [OF granted(5,7)])
        ultimately show ?thesis
          using granted(3,6) exp_step_fields [OF granted(7)] ExpAlloc True by auto
      qed (use l h ExpAlloc True in auto)
    qed (use same [of c] h(2) ExpAlloc in simp)
  next
    case (ExpFree k' p)
    show ?thesis
    proof (cases "k' = k")
      case True
      have "eh_live (exp_free p h)" using h(2) by (cases rule: exp_free_cases [of h p]) simp_all
      then show ?thesis
        using True ExpFree l h exp_free_used [OF wf, of p] by (auto simp: MEMFreeToExpHeap_def)
    qed (use same [of c] h(2) ExpFree in simp)
  next
    case (ExpSetMode k' md)
    show ?thesis
    proof (cases "k' = k")
      case True
      then show ?thesis using ExpSetMode l h by (simp add: MEMSetAllocModeForExpHeap_def used_blocks_def)
    qed (use same [of c] h(2) ExpSetMode in simp)
  qed (use same [of c] h(2) in simp_all)
qed

lemma find_contain_entry:
  assumes "tab_ok (exp_ok lim) (exp_heaps e)" "exp_heaps e k = Some h"
  shows "tab_ok (exp_ok lim) (exp_heaps (snd (find_contain p hs e))) \<and>
    exp_heaps (snd (find_contain p hs e)) k = Some h"
  using assms
proof (induction hs arbitrary: e)
  case (Cons k' hs)
  obtain r e' where l: "exp_live k' e = (r, e')" by fastforce
  have e: "exp_heaps e' k = Some h" using exp_live_entry [OF Cons.prems(2), of k'] l by simp
  have t: "tab_ok (exp_ok lim) (exp_heaps e')"
    using exp_exec_ok [OF Cons.prems(1), of "ExpTotalFree k'"] l
    by (simp add: MEMGetTotalFreeSizeForExpHeap_def split: option.splits)
  show ?case
  proof (cases "k' = null")
    case True
    then show ?thesis using Cons.IH [OF Cons.prems] by simp
  next
    case False
    then show ?thesis using Cons.IH [OF t e] t e by (cases r) (simp_all add: l)
  qed
qed simp

lemma mem2_inv_put:
  assumes "mem2_inv lim m w" "tab_ok (exp_ok lim) (exp_heaps e)" "exp_heaps e m = Some h" "eh_live h"
  shows "mem2_inv lim m (w\<lparr>base_exp := e\<rparr>)" and "mem2_heap (w\<lparr>base_exp := e\<rparr>) = h"
  using assms base_ready_put [of lim w e h] by (auto simp: mem2_inv_def)

lemma mem2_inv_obtain:
  assumes "mem2_inv lim m w"
  obtains h where "base_ready lim w" "exp_heaps (base_exp w) m = Some h" "eh_live h" "mem2_heap w = h" "m \<noteq> null"
    "tab_ok (exp_ok lim) (exp_heaps (base_exp w))" "length (baseHeap w) = 3" "baseHeap w ! 1 = m"
proof -
  from assms have r: "base_ready lim w" "baseHeap w ! 1 = m" "length (baseHeap w) = 3"
    by (auto simp: mem2_inv_def bases_apart_def)
  from r(1) show thesis by (rule base_ready_obtain) (use r that in auto)
qed

text \<open>A request for any base heap, which may create one of the others, keeps the MEM2 heap.\<close>

lemma get_base_keeps:
  assumes inv: "mem2_inv lim m w" and a: "malloc_ok lim w a"
  shows "mem2_inv lim m (snd (MEMGetBaseHeapHandle a type w)) \<and>
    mem2_heap (snd (MEMGetBaseHeapHandle a type w)) = mem2_heap w"
proof -
  obtain h where h: "exp_heaps (base_exp w) m = Some h" "eh_live h" "mem2_heap w = h" "m \<noteq> null"
    "tab_ok (exp_ok lim) (exp_heaps (base_exp w))" "length (baseHeap w) = 3" "baseHeap w ! 1 = m"
    by (rule mem2_inv_obtain [OF inv])
  have lr: "length (baseRegion w) = 3" using inv by (simp add: mem2_inv_def)
  show ?thesis
  proof (cases "baseIndex type")
    case None
    then show ?thesis using inv by (simp add: MEMGetBaseHeapHandle_def)
  next
    case (Some i)
    then have i: "i < 3" by (auto simp: baseIndex_def split: if_splits)
    consider "baseHeap w ! i \<noteq> null" | "baseHeap w ! i = null" "a = null" | "baseHeap w ! i = null" "a \<noteq> null" by blast
    then show ?thesis
    proof cases
      case 1
      then show ?thesis using inv Some by (simp add: MEMGetBaseHeapHandle_def)
    next
      case 2
      then show ?thesis
        using inv Some lr i h(2,4,7)
        by (auto simp: MEMGetBaseHeapHandle_def Let_def mem2_inv_def base_ready_def mem2_heap_def)
    next
      case 3
      have k: "unat kSize = 8388608" "104 < kSize" by (simp_all add: kSize_def)
      obtain h' where h': "MEMCreateExpHeapEx a kSize 0 (base_exp w) = (a, exp_put a h' (base_exp w))"
        "exp_wf (unat a + 84) (unat a + unat kSize) h'"
        using exp_create_eq [OF 3(2) k(2), of 0 "base_exp w"] a 3 k by (auto simp: malloc_ok_def)
      define w' where "w' = w\<lparr>baseRegion := (baseRegion w)[i := a], baseHeap := (baseHeap w)[i := a],
        base_exp := exp_put a h' (base_exp w)\<rparr>"
      have g: "snd (MEMGetBaseHeapHandle a type w) = w'"
        using h' 3 Some lr i h(6) by (simp add: MEMGetBaseHeapHandle_def w'_def Let_def)
      have ne: "a \<noteq> m" "i \<noteq> 1"
        using a 3 h(4,6,7) nth_mem [of 1 "baseHeap w"] by (auto simp: malloc_ok_def)
      have "exp_ok lim a h'" using h'(2) a 3(2) k by (auto simp: exp_ok_def malloc_ok_def intro: exp_wf_mono)
      then have t: "tab_ok (exp_ok lim) (exp_heaps (exp_put a h' (base_exp w)))" using h(5) by (simp add: tab_ok_store)
      have mem: "\<forall>j < 3. baseHeap w ! j \<in> set (baseHeap w)" using h(6) by simp
      have "bases_apart lim ((baseHeap w)[i := a])"
        using inv a 3 h(6) i mem by (auto simp: mem2_inv_def bases_apart_def malloc_ok_def nth_list_update)
      then show ?thesis
        using t h ne lr by (simp add: g w'_def mem2_inv_def base_ready_def mem2_heap_def)
    qed
  qed
qed

lemma base_exec_keeps:
  assumes inv: "mem2_inv lim m w" and c: "base_call_ok lim m w c"
  shows "mem2_inv lim m (base_exec c w) \<and>
    (\<forall>b \<in> set (used_blocks (mem2_heap w)). \<not> base_frees m (bk_payload b) c \<longrightarrow>
       b \<in> set (used_blocks (mem2_heap (base_exec c w))))"
proof -
  obtain h where h: "base_ready lim w" "exp_heaps (base_exp w) m = Some h" "eh_live h" "mem2_heap w = h" "m \<noteq> null"
    "tab_ok (exp_ok lim) (exp_heaps (base_exp w))" "length (baseHeap w) = 3" "baseHeap w ! 1 = m"
    by (rule mem2_inv_obtain [OF inv])
  have exp: "mem2_inv lim m (base_exec (BExp ec) w) \<and>
      (\<forall>b \<in> set (used_blocks (mem2_heap w)). \<not> base_frees m (bk_payload b) (BExp ec) \<longrightarrow>
         b \<in> set (used_blocks (mem2_heap (base_exec (BExp ec) w))))"
    if ec: "exp_call_ok lim ec" "\<not> exp_remakes m ec" for ec
  proof -
    obtain h' where h': "exp_heaps (exp_exec ec (base_exp w)) m = Some h'" "eh_live h'"
      "\<forall>b \<in> set (used_blocks h). ec \<noteq> ExpFree m (bk_payload b) \<longrightarrow> b \<in> set (used_blocks h')"
      using exp_exec_entry [OF h(6,2,3,5) ec(2)] by blast
    note put = mem2_inv_put [OF inv exp_exec_ok [OF h(6) ec(1)] h'(1,2)]
    from put(1) h'(3) show ?thesis by (auto simp: put(2) h(4))
  qed
  show ?thesis
  proof (cases c)
    case (BGet a type)
    then show ?thesis using get_base_keeps [OF inv] c by simp
  next
    case (BAlloc a n)
    then have "base_exec c w = base_exec (BExp (ExpAlloc m n 4)) w"
      using h(8) by (simp add: defaultAlloc_def get_base_ready [OF h(1)] Let_def case_prod_beta del: One_nat_def)
    then show ?thesis using exp [of "ExpAlloc m n 4"] BAlloc by simp
  next
    case (BAllocEx a n al)
    then have "base_exec c w = base_exec (BExp (ExpAlloc m n (if al \<noteq> 0 then al else 4))) w"
      using h(8) by (simp add: defaultAllocEx_def get_base_ready [OF h(1)] Let_def case_prod_beta del: One_nat_def)
    then show ?thesis using exp [of "ExpAlloc m n (if al \<noteq> 0 then al else 4)"] BAllocEx by simp
  next
    case (BFree a p)
    then have "base_exec c w = base_exec (BExp (ExpFree m p)) w"
      using h(8) by (simp add: defaultFree_def get_base_ready [OF h(1)] Let_def case_prod_beta del: One_nat_def)
    then show ?thesis using exp [of "ExpFree m p"] BFree by simp
  next
    case (BFind p)
    then show ?thesis
      using find_contain_entry [OF h(6,2), of p "take 3 (baseHeap w)"] mem2_inv_put [OF inv _ _ h(3)] inv h(4)
      by (auto simp: MEMFindContainHeap_def case_prod_beta Let_def)
  next
    case (BExp ec)
    then show ?thesis using exp [of ec] c by simp
  qed
qed

lemma base_run_keeps:
  assumes "mem2_inv lim m w" "base_calls_ok lim m cs w"
  shows "mem2_inv lim m (base_run cs w) \<and>
    (\<forall>(q, l) \<in> mem2_outstanding w. (\<forall>c \<in> set cs. \<not> base_frees m q c) \<longrightarrow> (q, l) \<in> mem2_outstanding (base_run cs w))"
  using assms
proof (induction cs arbitrary: w)
  case (Cons c cs)
  then have one: "mem2_inv lim m (base_exec c w) \<and>
    (\<forall>b \<in> set (used_blocks (mem2_heap w)). \<not> base_frees m (bk_payload b) c \<longrightarrow>
       b \<in> set (used_blocks (mem2_heap (base_exec c w))))"
    by (intro base_exec_keeps) simp_all
  then have "\<forall>(q, l) \<in> mem2_outstanding w. \<not> base_frees m q c \<longrightarrow> (q, l) \<in> mem2_outstanding (base_exec c w)"
    by (auto simp: mem2_outstanding_def)
  with Cons.IH [of "base_exec c w"] one Cons.prems(2) show ?case by fastforce
qed auto

lemma default_block_contained:
  assumes inv: "mem2_inv lim m w" and a: "fst (defaultAllocEx a n al w) = p" "p \<noteq> null"
  shows "fst (MEMFindContainHeap p (snd (defaultAllocEx a n al w))) = m"
proof -
  have r: "base_ready lim w" using inv by (simp add: mem2_inv_def)
  define w3 where "w3 = snd (defaultAllocEx a n al w)"
  have w3: "base_ready lim w3" using defh.ok_alloc [OF r] by (simp add: w3_def)
  have h3: "baseHeap w3 = baseHeap w"
    using get_base_ready [OF r] by (simp add: w3_def defaultAllocEx_def case_prod_beta Let_def)
  obtain k where "(p, k) \<in> mem2_outstanding w3"
    using defh.alloc_fresh [OF r a] by (auto simp: w3_def)
  then have "contains (base_exp w3) p (baseHeap w ! 1)"
    using outstanding_contained [OF w3] h3 by simp
  moreover have "tab_ok (exp_ok lim) (exp_heaps (base_exp w3))" using w3 by (simp add: base_ready_def)
  ultimately have "fst (find_contain p (take 3 (baseHeap w)) (base_exp w3)) = m"
    using find_base [of lim "baseHeap w" "base_exp w3" 1 p] inv by (simp add: mem2_inv_def)
  then show ?thesis
    using a(2) h3 by (simp add: w3_def [symmetric] MEMFindContainHeap_def case_prod_beta Let_def)
qed

text \<open>
  C29: The first request for the MEM2 base heap creates it, on memory from \<^verbatim>\<open>malloc\<close>, with nothing allocated. After
  any calls that follow (requests for every base heap, allocations and frees on the default heap or any other, the
  MEM2 heap itself not being destroyed, created anew or replaced) a request returns the same heap and changes
  nothing; a block stays outstanding until it is freed; and a block the default heap hands out has at least the
  size asked for, overlaps no outstanding block, and is attributed to the MEM2 heap by \<^verbatim>\<open>MEMFindContainHeap\<close>, whatever
  the other base heaps are.
\<close>

theorem default_heap_contained:
  assumes "tab_ok (exp_ok lim) (exp_heaps (base_exp w))" and "bases_apart lim (baseHeap w)"
    and "length (baseRegion w) = 3" and "malloc_ok lim w m" and "m \<noteq> null" and "baseHeap w ! 1 = null"
    and "base_calls_ok lim m cs (snd (MEMGetBaseHeapHandle m MEM_BASE_HEAP_MEM2 w))"
  shows "let w1 = snd (MEMGetBaseHeapHandle m MEM_BASE_HEAP_MEM2 w); w2 = base_run cs w1 in
    fst (MEMGetBaseHeapHandle m MEM_BASE_HEAP_MEM2 w) = m \<and> mem2_outstanding w1 = {} \<and>
    (\<forall>a. MEMGetBaseHeapHandle a MEM_BASE_HEAP_MEM2 w2 = (m, w2)) \<and>
    (\<forall>c. base_call_ok lim m w2 c \<longrightarrow>
       (\<forall>(q, l) \<in> mem2_outstanding w2. base_frees m q c \<or> (q, l) \<in> mem2_outstanding (base_exec c w2))) \<and>
    (\<forall>a n al p w3. defaultAllocEx a n al w2 = (p, w3) \<and> p \<noteq> null \<longrightarrow>
       (\<exists>k \<ge> unat n. mem2_outstanding w3 = insert (p, k) (mem2_outstanding w2) \<and>
          (\<forall>(q, l) \<in> mem2_outstanding w2. unat p + k \<le> unat q \<or> unat q + l \<le> unat p)) \<and>
       fst (MEMFindContainHeap p w3) = m)"
proof -
  define w1 where "w1 = snd (MEMGetBaseHeapHandle m MEM_BASE_HEAP_MEM2 w)"
  define w2 where "w2 = base_run cs w1"
  have g: "fst (MEMGetBaseHeapHandle m MEM_BASE_HEAP_MEM2 w) = m" "mem2_outstanding w1 = {}" "mem2_inv lim m w1"
    using get_base_fresh [OF assms(1-6)] by (simp_all add: w1_def mem2_inv_def)
  have inv: "mem2_inv lim m w2"
    using base_run_keeps [OF g(3)] assms(7) by (simp add: w1_def w2_def)
  then have r: "base_ready lim w2" "baseHeap w2 ! 1 = m" by (simp_all add: mem2_inv_def)
  have kept: "\<forall>(q, l) \<in> mem2_outstanding w2. base_frees m q c \<or> (q, l) \<in> mem2_outstanding (base_exec c w2)"
    if "base_call_ok lim m w2 c" for c
    using base_run_keeps [OF inv, of "[c]"] that by auto
  have blk: "(\<exists>k \<ge> unat n. mem2_outstanding w3 = insert (p, k) (mem2_outstanding w2) \<and>
        (\<forall>(q, l) \<in> mem2_outstanding w2. unat p + k \<le> unat q \<or> unat q + l \<le> unat p)) \<and>
      fst (MEMFindContainHeap p w3) = m" if "defaultAllocEx a n al w2 = (p, w3)" "p \<noteq> null" for a n al p w3
    using defh.alloc_fresh [OF r(1), where m = a and n = n and a = al and p = p] default_block_contained [OF inv, of a n al p] that by auto
  have get: "MEMGetBaseHeapHandle a MEM_BASE_HEAP_MEM2 w2 = (m, w2)" for a
    using get_base_ready [OF r(1)] r(2) by simp
  show ?thesis
    unfolding Let_def w1_def [symmetric] w2_def [symmetric] using g(1,2) get kept blk by blast
qed

definition base_demo :: base_world where
  "base_demo = \<lparr>baseRegion = [0, 0, 0], baseHeap = [0x100000, 0, 0],
     base_exp = snd (MEMCreateExpHeapEx 0x100000 0x10000 0 \<lparr>exp_heaps = Map.empty, exp_mem = (\<lambda>_. 0)\<rparr>)\<rparr>"

definition base_demo_lim :: "ptr \<Rightarrow> nat" where
  "base_demo_lim k = unat k + 0x800000"

lemma base_demo_ok: "tab_ok (exp_ok base_demo_lim) (exp_heaps (base_exp base_demo))"
  using exp_exec_ok [of base_demo_lim "\<lparr>exp_heaps = Map.empty, exp_mem = (\<lambda>_. 0)\<rparr>" "ExpCreate 0x100000 0x10000 0"]
  by (simp add: base_demo_def base_demo_lim_def)

text \<open>
  After the MEM1 and foreground heaps were requested, too (the second without success), and a block was allocated and
  another freed.
\<close>

theorem default_heap_contained_witness:
  "let w1 = snd (MEMGetBaseHeapHandle 0x2000000 MEM_BASE_HEAP_MEM2 base_demo);
       w2 = base_run [BGet 0 MEM_BASE_HEAP_FG, BAlloc 0 100, BAllocEx 0 64 0, BFree 0 0x2000068, BGet 0 MEM_BASE_HEAP_MEM1] w1
   in MEMGetBaseHeapHandle 0x4000000 MEM_BASE_HEAP_MEM2 w2 = (0x2000000, w2) \<and>
      fst (defaultAllocEx 0 100 0 w2) = 0x2000068 \<and>
      fst (MEMFindContainHeap 0x2000068 (snd (defaultAllocEx 0 100 0 w2))) = 0x2000000"
proof -
  define w1 where "w1 = snd (MEMGetBaseHeapHandle 0x2000000 MEM_BASE_HEAP_MEM2 base_demo)"
  let ?cs = "[BGet 0 MEM_BASE_HEAP_FG, BAlloc 0 100, BAllocEx 0 64 0, BFree 0 0x2000068, BGet 0 MEM_BASE_HEAP_MEM1]"
  have pre: "bases_apart base_demo_lim (baseHeap base_demo)" "malloc_ok base_demo_lim base_demo 0x2000000"
    by (auto simp: bases_apart_def base_demo_def base_demo_lim_def malloc_ok_def less_Suc_eq numeral_3_eq_3)
  have ok: "base_calls_ok base_demo_lim 0x2000000 ?cs w1" by (simp add: malloc_ok_def)
  have a: "fst (defaultAllocEx 0 100 0 (base_run ?cs w1)) = 0x2000068"
    by (simp add: w1_def base_demo_def MEMGetBaseHeapHandle_def defaultAlloc_def defaultAllocEx_def defaultFree_def
        baseIndex_def kSize_def exp_eval)
  obtain w3 where w3: "defaultAllocEx 0 100 0 (base_run ?cs w1) = (0x2000068, w3)" using a by (metis prod.collapse)
  show ?thesis
    using default_heap_contained [OF base_demo_ok pre(1) _ pre(2) _ _ ok [unfolded w1_def]] w3
    by (simp add: base_demo_def Let_def w1_def)
qed

end
