(* ===== verification/Mutex.thy ===== *)
theory Mutex
  imports HandleTable
begin

text \<open>
  The recursive mutex of \<^verbatim>\<open>source/mutex.cpp\<close> and the condition variable of \<^verbatim>\<open>source/cond.cpp\<close>. Both are built on
  libnx, which is not part of the repository: its \<^verbatim>\<open>Mutex\<close> is the type parameter \<open>'m\<close>, its functions are the
  fields of \<open>mutex_api\<close>, and \<open>mutex_laws\<close> states what the code relies on (the lock is owned by at most one thread;
  it is not recursive). \<open>host_mutex\<close> is \<^verbatim>\<open>HostMutex\<close>.

  A call that has to wait for the lock is no step: \<open>None\<close>. Between the two halves of \<^verbatim>\<open>OSWaitCond\<close>, release and
  reacquisition inside \<^verbatim>\<open>condvarWait\<close>, other threads run; a waiting thread may go on as soon as the lock is free,
  so what is proved does not depend on when the condition variable wakes it.
\<close>

section \<open>The parameter\<close>

record 'm mutex_api =
  mutexInit :: 'm
  mutexIsLockedBy :: "tid \<Rightarrow> 'm \<Rightarrow> bool"
  mutexLock :: "tid \<Rightarrow> 'm \<Rightarrow> 'm option"
  mutexTryLock :: "tid \<Rightarrow> 'm \<Rightarrow> bool \<times> 'm"
  mutexUnlock :: "tid \<Rightarrow> 'm \<Rightarrow> 'm"

definition mutex_laws :: "'m mutex_api \<Rightarrow> ('m \<Rightarrow> tid option) \<Rightarrow> bool" where
  "mutex_laws api owner \<longleftrightarrow>
     owner (mutexInit api) = None \<and>
     (\<forall>t m. mutexIsLockedBy api t m \<longleftrightarrow> owner m = Some t) \<and>
     (\<forall>t m. owner m = None \<longrightarrow> (\<exists>m'. mutexLock api t m = Some m' \<and> owner m' = Some t)) \<and>
     (\<forall>t m. owner m \<noteq> None \<longrightarrow> mutexLock api t m = None) \<and>
     (\<forall>t m. owner m = None \<longrightarrow> fst (mutexTryLock api t m) \<and> owner (snd (mutexTryLock api t m)) = Some t) \<and>
     (\<forall>t m. owner m \<noteq> None \<longrightarrow> \<not> fst (mutexTryLock api t m) \<and> owner (snd (mutexTryLock api t m)) = owner m) \<and>
     (\<forall>t m. owner m = Some t \<longrightarrow> owner (mutexUnlock api t m) = None)"

section \<open>The mutex\<close>

record 'm host_mutex =
  hm_lock :: 'm
  hm_count :: u32

definition hm_init :: "'m mutex_api \<Rightarrow> 'm host_mutex" where
  "hm_init api = \<lparr>hm_lock = mutexInit api, hm_count = 0\<rparr>"

definition getHostMutex :: "'m mutex_api \<Rightarrow> ptr \<Rightarrow> 'm host_mutex table \<Rightarrow> 'm host_mutex \<times> 'm host_mutex table" where
  "getHostMutex api mutex tab = ht_get (hm_init api) mutex tab"

definition OSInitMutex :: "'m mutex_api \<Rightarrow> ptr \<Rightarrow> 'm host_mutex table \<Rightarrow> 'm host_mutex table" where
  "OSInitMutex api mutex tab = snd (getHostMutex api mutex tab)"

definition OSInitMutexEx :: "'m mutex_api \<Rightarrow> ptr \<Rightarrow> ptr \<Rightarrow> 'm host_mutex table \<Rightarrow> 'm host_mutex table" where
  "OSInitMutexEx api mutex name tab = snd (getHostMutex api mutex tab)"

definition OSLockMutex :: "'m mutex_api \<Rightarrow> tid \<Rightarrow> ptr \<Rightarrow> 'm host_mutex table \<Rightarrow> 'm host_mutex table option" where
  "OSLockMutex api t mutex tab =
     (let (h, tab') = getHostMutex api mutex tab in
      if mutexIsLockedBy api t (hm_lock h)
      then Some (ht_store mutex (h\<lparr>hm_count := hm_count h + 1\<rparr>) tab')
      else
        case mutexLock api t (hm_lock h) of
          None \<Rightarrow> None
        | Some l \<Rightarrow> Some (ht_store mutex (h\<lparr>hm_lock := l, hm_count := 1\<rparr>) tab'))"

definition OSUnlockMutex :: "'m mutex_api \<Rightarrow> tid \<Rightarrow> ptr \<Rightarrow> 'm host_mutex table \<Rightarrow> 'm host_mutex table" where
  "OSUnlockMutex api t mutex tab =
     (let (h, tab') = getHostMutex api mutex tab in
      if \<not> mutexIsLockedBy api t (hm_lock h) then tab'
      else
        let h1 = h\<lparr>hm_count := hm_count h - 1\<rparr> in
        if hm_count h1 = 0
        then ht_store mutex (h1\<lparr>hm_lock := mutexUnlock api t (hm_lock h1)\<rparr>) tab'
        else ht_store mutex h1 tab')"

definition OSTryLockMutex :: "'m mutex_api \<Rightarrow> tid \<Rightarrow> ptr \<Rightarrow> 'm host_mutex table \<Rightarrow> s32 \<times> 'm host_mutex table" where
  "OSTryLockMutex api t mutex tab =
     (let (h, tab') = getHostMutex api mutex tab in
      if mutexIsLockedBy api t (hm_lock h)
      then (1, ht_store mutex (h\<lparr>hm_count := hm_count h + 1\<rparr>) tab')
      else
        let (got, l) = mutexTryLock api t (hm_lock h) in
        if got then (1, ht_store mutex (h\<lparr>hm_lock := l, hm_count := 1\<rparr>) tab')
        else (0, ht_store mutex (h\<lparr>hm_lock := l\<rparr>) tab'))"

section \<open>The interface: a recursive lock\<close>

text \<open>
  The contract: \<open>holder\<close> is the owning thread with its depth. A lock call is granted to the owner and to anyone when
  the lock is free, and adds one to the depth, as long as the depth stays below \<open>limit\<close>; an unlock by the owner
  takes one off and releases at zero; an unlock by anyone else changes nothing.
\<close>

fun call_times :: "nat \<Rightarrow> ('s \<Rightarrow> 's option) \<Rightarrow> 's \<Rightarrow> 's option" where
  "call_times 0 f s = Some s"
| "call_times (Suc n) f s = (case f s of None \<Rightarrow> None | Some s' \<Rightarrow> call_times n f s')"

locale recursive_lock =
  fixes ok :: "'s \<Rightarrow> bool"
    and lock :: "tid \<Rightarrow> 's \<Rightarrow> 's option"
    and tryl :: "tid \<Rightarrow> 's \<Rightarrow> bool \<times> 's"
    and unlock :: "tid \<Rightarrow> 's \<Rightarrow> 's"
    and holder :: "'s \<Rightarrow> (tid \<times> nat) option"
    and limit :: nat
  assumes depth_pos: "ok s \<Longrightarrow> holder s = Some (t, n) \<Longrightarrow> 0 < n"
    and lock_free: "ok s \<Longrightarrow> holder s = None \<Longrightarrow>
      \<exists>s'. lock t s = Some s' \<and> ok s' \<and> holder s' = Some (t, 1)"
    and lock_own: "ok s \<Longrightarrow> holder s = Some (t, n) \<Longrightarrow> n < limit \<Longrightarrow>
      \<exists>s'. lock t s = Some s' \<and> ok s' \<and> holder s' = Some (t, Suc n)"
    and lock_other: "ok s \<Longrightarrow> holder s = Some (t', n) \<Longrightarrow> t' \<noteq> t \<Longrightarrow> lock t s = None"
    and try_lock: "ok s \<Longrightarrow> (case lock t s of
         Some s' \<Rightarrow> fst (tryl t s) \<and> (ok s' \<longrightarrow> ok (snd (tryl t s))) \<and> holder (snd (tryl t s)) = holder s'
       | None \<Rightarrow> \<not> fst (tryl t s) \<and> ok (snd (tryl t s)) \<and> holder (snd (tryl t s)) = holder s)"
    and unlock_own: "ok s \<Longrightarrow> holder s = Some (t, n) \<Longrightarrow>
      ok (unlock t s) \<and> holder (unlock t s) = (if n = 1 then None else Some (t, n - 1))"
    and unlock_other: "ok s \<Longrightarrow> (\<forall>n. holder s \<noteq> Some (t, n)) \<Longrightarrow>
      ok (unlock t s) \<and> holder (unlock t s) = holder s"
begin

lemma mutual_exclusion:
  assumes "ok s" "lock t s = Some s'" "\<forall>n. holder s = Some (t, n) \<longrightarrow> n < limit"
  shows "ok s' \<and> (\<exists>n. holder s' = Some (t, n)) \<and> (holder s = None \<or> (\<exists>n. holder s = Some (t, n)))"
proof (cases "holder s")
  case None
  then show ?thesis using assms lock_free [of s t] by auto
next
  case (Some p)
  obtain t' n where p: "p = (t', n)" by fastforce
  show ?thesis
  proof (cases "t' = t")
    case True
    then show ?thesis using assms Some p lock_own [of s t n] by auto
  next
    case False
    then show ?thesis using assms Some p lock_other [of s t' n t] by simp
  qed
qed

lemma call_times_own:
  "ok s \<Longrightarrow> holder s = Some (t, d) \<Longrightarrow> d + n \<le> limit \<Longrightarrow>
     \<exists>s'. call_times n (lock t) s = Some s' \<and> ok s' \<and> holder s' = Some (t, d + n)"
proof (induction n arbitrary: s d)
  case (Suc n)
  then obtain s1 where "lock t s = Some s1" "ok s1" "holder s1 = Some (t, Suc d)"
    using lock_own [of s t d] by auto
  with Suc.IH [of s1 "Suc d"] Suc.prems show ?case by auto
qed auto

lemma unlock_many_own:
  "ok s \<Longrightarrow> holder s = Some (t, d) \<Longrightarrow> n \<le> d \<Longrightarrow>
     ok ((unlock t ^^ n) s) \<and> holder ((unlock t ^^ n) s) = (if n = d then None else Some (t, d - n))"
proof (induction n)
  case 0
  then show ?case using depth_pos [of s t d] by auto
next
  case (Suc n)
  then show ?case using unlock_own [of "(unlock t ^^ n) s" t "d - n"] by auto
qed

text \<open>Balanced calls leave the lock as it was; the last unlock, and none before it, releases it.\<close>

lemma balanced:
  assumes "ok s" "holder s = None" "0 < n" "n \<le> limit"
  shows "\<exists>s'. call_times n (lock t) s = Some s' \<and> ok s' \<and> holder s' = Some (t, n) \<and>
    (\<forall>k < n. holder ((unlock t ^^ k) s') = Some (t, n - k)) \<and> holder ((unlock t ^^ n) s') = None"
proof -
  obtain s1 where s1: "lock t s = Some s1" "ok s1" "holder s1 = Some (t, 1)"
    using lock_free [OF assms(1,2)] by blast
  then obtain s' where s': "call_times (n - 1) (lock t) s1 = Some s'" "ok s'" "holder s' = Some (t, n)"
    using call_times_own [of s1 t 1 "n - 1"] assms(3,4) by auto
  then have "call_times n (lock t) s = Some s'" using s1 assms(3) by (cases n) auto
  then show ?thesis using s' unlock_many_own [of s' t n] by (intro exI [of _ s']) auto
qed

end


section \<open>The mutex of the code is a recursive lock\<close>

definition mutex_holder :: "'m mutex_api \<Rightarrow> ('m \<Rightarrow> tid option) \<Rightarrow> ptr \<Rightarrow> 'm host_mutex table \<Rightarrow> (tid \<times> nat) option" where
  "mutex_holder api owner k tab =
     (case owner (hm_lock (ht_host (hm_init api) k tab)) of
        None \<Rightarrow> None
      | Some t \<Rightarrow> Some (t, unat (hm_count (ht_host (hm_init api) k tab))))"

definition mutex_ok :: "'m mutex_api \<Rightarrow> ('m \<Rightarrow> tid option) \<Rightarrow> 'm host_mutex table \<Rightarrow> bool" where
  "mutex_ok api owner tab \<longleftrightarrow> mutex_laws api owner \<and>
     (\<forall>k h. tab k = Some h \<longrightarrow> owner (hm_lock h) \<noteq> None \<longrightarrow> hm_count h \<noteq> 0)"

lemma mutex_laws_simps:
  assumes "mutex_laws api owner"
  shows "owner (mutexInit api) = None" "mutexIsLockedBy api t m \<longleftrightarrow> owner m = Some t"
    "owner m \<noteq> None \<Longrightarrow> mutexLock api t m = None"
    "fst (mutexTryLock api t m) \<longleftrightarrow> owner m = None"
    "owner m = None \<Longrightarrow> owner (snd (mutexTryLock api t m)) = Some t"
    "owner m \<noteq> None \<Longrightarrow> owner (snd (mutexTryLock api t m)) = owner m"
    "owner m = Some t \<Longrightarrow> owner (mutexUnlock api t m) = None"
  using assms unfolding mutex_laws_def by (cases "owner m"; auto)+

lemma mutex_lock_free:
  assumes "mutex_laws api owner" "owner m = None"
  obtains m' where "mutexLock api t m = Some m'" "owner m' = Some t"
  using assms unfolding mutex_laws_def by blast

lemma mutex_lock_Some:
  assumes "mutex_laws api owner" "mutexLock api t m = Some m'"
  shows "owner m = None" "owner m' = Some t"
proof -
  show "owner m = None" using assms by (cases "owner m") (auto simp: mutex_laws_def)
  from mutex_lock_free [OF assms(1) this, of t] show "owner m' = Some t" using assms(2) by auto
qed

lemma mutex_ok_host:
  assumes "mutex_ok api owner tab" "h = ht_host (hm_init api) k tab" "owner (hm_lock h) = Some t"
  shows "tab k = Some h" "hm_count h \<noteq> 0"
  using assms by (cases "tab k"; auto simp: mutex_ok_def hm_init_def mutex_laws_simps)+

lemma mutex_ok_store:
  "mutex_ok api owner tab \<Longrightarrow> (owner (hm_lock h) \<noteq> None \<longrightarrow> hm_count h \<noteq> 0) \<Longrightarrow>
     mutex_ok api owner (ht_store k h tab)"
  by (simp add: mutex_ok_def ht_store_def)

lemma holder_store:
  "mutex_holder api owner k (ht_store k' h tab) =
     (if k = k' then map_option (\<lambda>t. (t, unat (hm_count h))) (owner (hm_lock h))
      else mutex_holder api owner k tab)"
  by (simp add: mutex_holder_def split: option.split)

lemma getHostMutex_eq:
  "getHostMutex api k tab = (ht_host (hm_init api) k tab, ht_store k (ht_host (hm_init api) k tab) tab)"
  by (simp add: getHostMutex_def ht_get_eq)

lemma mutex_ok_laws: "mutex_ok api owner tab \<Longrightarrow> mutex_laws api owner"
  by (simp add: mutex_ok_def)

lemma mutex_holder_None: "mutex_holder api owner k tab = None \<longleftrightarrow> owner (hm_lock (ht_host (hm_init api) k tab)) = None"
  by (simp add: mutex_holder_def split: option.split)

lemma mutex_holder_Some: "mutex_holder api owner k tab = Some (t, n) \<longleftrightarrow>
    owner (hm_lock (ht_host (hm_init api) k tab)) = Some t \<and> n = unat (hm_count (ht_host (hm_init api) k tab))"
  by (auto simp: mutex_holder_def split: option.split)

definition depth_limit :: nat where
  "depth_limit = 4294967295"

lemma mutex_lock_spec:
  assumes ok: "mutex_ok api owner tab"
  shows "mutex_holder api owner k tab = None \<Longrightarrow>
      \<exists>tab'. OSLockMutex api t k tab = Some tab' \<and> mutex_ok api owner tab' \<and> mutex_holder api owner k tab' = Some (t, 1)"
    and "mutex_holder api owner k tab = Some (t, n) \<Longrightarrow> n < depth_limit \<Longrightarrow>
      \<exists>tab'. OSLockMutex api t k tab = Some tab' \<and> mutex_ok api owner tab' \<and> mutex_holder api owner k tab' = Some (t, Suc n)"
    and "mutex_holder api owner k tab = Some (t', n) \<Longrightarrow> t' \<noteq> t \<Longrightarrow> OSLockMutex api t k tab = None"
proof -
  note laws = mutex_laws_simps [OF mutex_ok_laws [OF ok]]
  define h where "h = ht_host (hm_init api) k tab"
  show "\<exists>tab'. OSLockMutex api t k tab = Some tab' \<and> mutex_ok api owner tab' \<and> mutex_holder api owner k tab' = Some (t, 1)"
    if "mutex_holder api owner k tab = None"
  proof -
    have f: "owner (hm_lock h) = None" using that by (simp add: mutex_holder_None h_def)
    obtain m' where "mutexLock api t (hm_lock h) = Some m'" "owner m' = Some t"
      by (rule mutex_lock_free [OF mutex_ok_laws [OF ok] f])
    then show ?thesis
      using f ok by (simp add: OSLockMutex_def getHostMutex_eq h_def [symmetric] laws mutex_ok_store holder_store)
  qed
  show "\<exists>tab'. OSLockMutex api t k tab = Some tab' \<and> mutex_ok api owner tab' \<and> mutex_holder api owner k tab' = Some (t, Suc n)"
    if "mutex_holder api owner k tab = Some (t, n)" "n < depth_limit"
  proof -
    have o: "owner (hm_lock h) = Some t" "n = unat (hm_count h)"
      using that by (simp_all add: mutex_holder_Some h_def)
    then have u: "unat (hm_count h + 1) = Suc n"
      using that(2) by (subst unat_plus_u32) (simp_all add: depth_limit_def)
    then have "hm_count h + 1 \<noteq> 0" by (auto simp: word_pos_unat)
    with u show ?thesis
      using o ok by (auto simp: OSLockMutex_def getHostMutex_eq h_def [symmetric] laws mutex_ok_store holder_store)
  qed
  show "OSLockMutex api t k tab = None" if "mutex_holder api owner k tab = Some (t', n)" "t' \<noteq> t"
    using that by (simp add: OSLockMutex_def getHostMutex_eq mutex_holder_Some laws)
qed

lemma mutex_unlock_spec:
  assumes ok: "mutex_ok api owner tab"
  shows "mutex_holder api owner k tab = Some (t, n) \<Longrightarrow> mutex_ok api owner (OSUnlockMutex api t k tab) \<and>
      mutex_holder api owner k (OSUnlockMutex api t k tab) = (if n = 1 then None else Some (t, n - 1))"
    and "\<forall>n. mutex_holder api owner k tab \<noteq> Some (t, n) \<Longrightarrow> mutex_ok api owner (OSUnlockMutex api t k tab) \<and>
      mutex_holder api owner k (OSUnlockMutex api t k tab) = mutex_holder api owner k tab"
proof -
  note laws = mutex_laws_simps [OF mutex_ok_laws [OF ok]]
  define h where "h = ht_host (hm_init api) k tab"
  have st: "mutex_ok api owner (ht_store k h tab)" "mutex_holder api owner k (ht_store k h tab) = mutex_holder api owner k tab"
    using ok mutex_ok_host [OF ok h_def]
    by (auto simp: holder_store mutex_holder_def h_def [symmetric] intro!: mutex_ok_store split: option.split)
  show "mutex_ok api owner (OSUnlockMutex api t k tab) \<and>
      mutex_holder api owner k (OSUnlockMutex api t k tab) = (if n = 1 then None else Some (t, n - 1))"
    if "mutex_holder api owner k tab = Some (t, n)"
  proof -
    have o: "owner (hm_lock h) = Some t" "n = unat (hm_count h)"
      using that by (simp_all add: mutex_holder_Some h_def)
    have nz: "hm_count h \<noteq> 0" by (rule mutex_ok_host(2) [OF ok h_def o(1)])
    then have u: "unat (hm_count h - 1) = n - 1" "0 < n"
      using o(2) by (simp_all add: unat_minus_one word_pos_unat)
    have z: "hm_count h - 1 = 0 \<longleftrightarrow> n = 1"
      using u by (subst unat_eq_0 [symmetric]) (simp add: u(1), arith)
    show ?thesis
      using o(1) ok u z by (auto simp: OSUnlockMutex_def getHostMutex_eq h_def [symmetric] laws Let_def
          holder_store intro!: mutex_ok_store)
  qed
  show "mutex_ok api owner (OSUnlockMutex api t k tab) \<and>
      mutex_holder api owner k (OSUnlockMutex api t k tab) = mutex_holder api owner k tab"
    if "\<forall>n. mutex_holder api owner k tab \<noteq> Some (t, n)"
    using that st by (simp add: OSUnlockMutex_def getHostMutex_eq mutex_holder_Some laws h_def)
qed

lemma mutex_try_spec:
  assumes ok: "mutex_ok api owner tab"
  shows "case OSLockMutex api t k tab of
      Some tab' \<Rightarrow> fst (OSTryLockMutex api t k tab) = 1 \<and>
        (mutex_ok api owner tab' \<longrightarrow> mutex_ok api owner (snd (OSTryLockMutex api t k tab))) \<and>
        mutex_holder api owner k (snd (OSTryLockMutex api t k tab)) = mutex_holder api owner k tab'
    | None \<Rightarrow> fst (OSTryLockMutex api t k tab) = 0 \<and> mutex_ok api owner (snd (OSTryLockMutex api t k tab)) \<and>
        mutex_holder api owner k (snd (OSTryLockMutex api t k tab)) = mutex_holder api owner k tab"
proof -
  note laws = mutex_laws_simps [OF mutex_ok_laws [OF ok]]
  define h where "h = ht_host (hm_init api) k tab"
  consider "owner (hm_lock h) = None" | "owner (hm_lock h) = Some t"
    | t' where "owner (hm_lock h) = Some t'" "t' \<noteq> t" by blast
  then show ?thesis
  proof cases
    case 1
    obtain m' where "mutexLock api t (hm_lock h) = Some m'" "owner m' = Some t"
      by (rule mutex_lock_free [OF mutex_ok_laws [OF ok] 1])
    then show ?thesis
      using 1 ok by (simp add: OSLockMutex_def OSTryLockMutex_def getHostMutex_eq h_def [symmetric] laws
          case_prod_beta Let_def holder_store mutex_ok_store)
  next
    case 2
    then show ?thesis
      by (simp add: OSLockMutex_def OSTryLockMutex_def getHostMutex_eq h_def [symmetric] laws)
  next
    case 3
    have nz: "hm_count h \<noteq> 0" by (rule mutex_ok_host(2) [OF ok h_def 3(1)])
    with 3 show ?thesis
      using ok by (auto simp: OSLockMutex_def OSTryLockMutex_def getHostMutex_eq h_def [symmetric] laws
          case_prod_beta Let_def holder_store mutex_holder_def intro!: mutex_ok_store)
  qed
qed

interpretation mx: recursive_lock "mutex_ok api owner" "\<lambda>t. OSLockMutex api t k"
  "\<lambda>t tab. (fst (OSTryLockMutex api t k tab) = 1, snd (OSTryLockMutex api t k tab))" "\<lambda>t. OSUnlockMutex api t k"
  "mutex_holder api owner k" depth_limit for api owner k
proof unfold_locales
  fix s t n
  assume ok: "mutex_ok api owner s"
  show "0 < n" if "mutex_holder api owner k s = Some (t, n)"
    using that mutex_ok_host(2) [OF ok refl, of k t] by (auto simp: mutex_holder_Some word_pos_unat)
  show "case OSLockMutex api t k s of
      Some s' \<Rightarrow> fst (fst (OSTryLockMutex api t k s) = 1, snd (OSTryLockMutex api t k s)) \<and>
        (mutex_ok api owner s' \<longrightarrow> mutex_ok api owner (snd (fst (OSTryLockMutex api t k s) = 1, snd (OSTryLockMutex api t k s)))) \<and>
        mutex_holder api owner k (snd (fst (OSTryLockMutex api t k s) = 1, snd (OSTryLockMutex api t k s))) =
          mutex_holder api owner k s'
    | None \<Rightarrow> \<not> fst (fst (OSTryLockMutex api t k s) = 1, snd (OSTryLockMutex api t k s)) \<and>
        mutex_ok api owner (snd (fst (OSTryLockMutex api t k s) = 1, snd (OSTryLockMutex api t k s))) \<and>
        mutex_holder api owner k (snd (fst (OSTryLockMutex api t k s) = 1, snd (OSTryLockMutex api t k s))) =
          mutex_holder api owner k s"
    using mutex_try_spec [OF ok, of t k] by (auto split: option.splits)
  show "\<exists>s'. OSLockMutex api t k s = Some s' \<and> mutex_ok api owner s' \<and> mutex_holder api owner k s' = Some (t, 1)"
    if "mutex_holder api owner k s = None" by (rule mutex_lock_spec(1) [OF ok that])
  show "\<exists>s'. OSLockMutex api t k s = Some s' \<and> mutex_ok api owner s' \<and> mutex_holder api owner k s' = Some (t, Suc n)"
    if "mutex_holder api owner k s = Some (t, n)" "n < depth_limit" by (rule mutex_lock_spec(2) [OF ok that])
  show "OSLockMutex api t k s = None" if "mutex_holder api owner k s = Some (t', n)" "t' \<noteq> t" for t'
    by (rule mutex_lock_spec(3) [OF ok that])
  show "mutex_ok api owner (OSUnlockMutex api t k s) \<and>
      mutex_holder api owner k (OSUnlockMutex api t k s) = (if n = 1 then None else Some (t, n - 1))"
    if "mutex_holder api owner k s = Some (t, n)" by (rule mutex_unlock_spec(1) [OF ok that])
  show "mutex_ok api owner (OSUnlockMutex api t k s) \<and>
      mutex_holder api owner k (OSUnlockMutex api t k s) = mutex_holder api owner k s"
    if "\<forall>n. mutex_holder api owner k s \<noteq> Some (t, n)" by (rule mutex_unlock_spec(2) [OF ok that])
qed


section \<open>The condition variable\<close>

text \<open>
  \<open>cond_world\<close> holds the two tables and, for each thread inside \<^verbatim>\<open>condvarWait\<close>, what its frame of \<^verbatim>\<open>OSWaitCond\<close>
  holds: the condition, the mutex and the local \<^verbatim>\<open>saved\<close>. \<^verbatim>\<open>HostCond\<close> is its libnx handle, of the type
  parameter \<open>'c\<close>, with \<open>condvarInit\<close> and \<open>condvarWakeAll\<close> as fields of \<open>cond_api\<close>.
\<close>

record 'c cond_api =
  condvarInit :: 'c
  condvarWakeAll :: "'c \<Rightarrow> 'c"

record 'c host_cond =
  hc_handle :: 'c

definition hc_init :: "'c cond_api \<Rightarrow> 'c host_cond" where
  "hc_init capi = \<lparr>hc_handle = condvarInit capi\<rparr>"

record ('m, 'c) cond_world =
  cw_mutexes :: "'m host_mutex table"
  cw_conds :: "'c host_cond table"
  cw_waiting :: "tid \<rightharpoonup> ptr \<times> ptr \<times> u32"

definition OSInitCond :: "'c cond_api \<Rightarrow> ptr \<Rightarrow> ('m, 'c) cond_world \<Rightarrow> ('m, 'c) cond_world" where
  "OSInitCond capi cond w = w\<lparr>cw_conds := snd (ht_get (hc_init capi) cond (cw_conds w))\<rparr>"

definition OSInitCondEx :: "'c cond_api \<Rightarrow> ptr \<Rightarrow> ptr \<Rightarrow> ('m, 'c) cond_world \<Rightarrow> ('m, 'c) cond_world" where
  "OSInitCondEx capi cond name w = w\<lparr>cw_conds := snd (ht_get (hc_init capi) cond (cw_conds w))\<rparr>"

text \<open>\<^verbatim>\<open>OSWaitCond\<close> up to the release of the lock inside \<^verbatim>\<open>condvarWait\<close>, and from its reacquisition on.\<close>

definition OSWaitCond_enter ::
    "'m mutex_api \<Rightarrow> 'c cond_api \<Rightarrow> tid \<Rightarrow> ptr \<Rightarrow> ptr \<Rightarrow> ('m, 'c) cond_world \<Rightarrow> ('m, 'c) cond_world" where
  "OSWaitCond_enter api capi t cond mutex w =
     (let (c, conds) = ht_get (hc_init capi) cond (cw_conds w);
          (m, mutexes) = getHostMutex api mutex (cw_mutexes w);
          saved = hm_count m;
          m1 = m\<lparr>hm_count := 0\<rparr>
      in w\<lparr>cw_conds := conds,
           cw_mutexes := ht_store mutex (m1\<lparr>hm_lock := mutexUnlock api t (hm_lock m1)\<rparr>) mutexes,
           cw_waiting := (cw_waiting w)(t \<mapsto> (cond, mutex, saved))\<rparr>)"

definition OSWaitCond_leave ::
    "'m mutex_api \<Rightarrow> tid \<Rightarrow> ('m, 'c) cond_world \<Rightarrow> ('m, 'c) cond_world option" where
  "OSWaitCond_leave api t w =
     (case cw_waiting w t of
        None \<Rightarrow> None
      | Some (cond, mutex, saved) \<Rightarrow>
          let m = ht_host (hm_init api) mutex (cw_mutexes w) in
          case mutexLock api t (hm_lock m) of
            None \<Rightarrow> None
          | Some l \<Rightarrow> Some (w\<lparr>cw_mutexes := ht_store mutex (m\<lparr>hm_lock := l, hm_count := saved\<rparr>) (cw_mutexes w),
                cw_waiting := (cw_waiting w)(t := None)\<rparr>))"

definition OSSignalCond :: "'c cond_api \<Rightarrow> ptr \<Rightarrow> ('m, 'c) cond_world \<Rightarrow> ('m, 'c) cond_world" where
  "OSSignalCond capi cond w =
     (let (c, conds) = ht_get (hc_init capi) cond (cw_conds w)
      in w\<lparr>cw_conds := ht_store cond (c\<lparr>hc_handle := condvarWakeAll capi (hc_handle c)\<rparr>) conds\<rparr>)"

section \<open>Threads\<close>

text \<open>
  What a thread may do next. A thread inside \<^verbatim>\<open>OSWaitCond\<close> can only leave it; \<open>None\<close> is a step that cannot be
  taken now. Calling \<^verbatim>\<open>OSWaitCond\<close> without holding the mutex is excluded, as on the console.
\<close>

datatype sync_act =
    A_init ptr
  | A_lock ptr
  | A_trylock ptr
  | A_unlock ptr
  | A_init_cond ptr
  | A_signal ptr
  | A_wait ptr ptr
  | A_leave

fun sync_step ::
    "'m mutex_api \<Rightarrow> 'c cond_api \<Rightarrow> tid \<times> sync_act \<Rightarrow> ('m, 'c) cond_world \<Rightarrow> ('m, 'c) cond_world option" where
  "sync_step api capi (t, A_leave) w = OSWaitCond_leave api t w"
| "sync_step api capi (t, a) w =
     (if cw_waiting w t \<noteq> None then None
      else
        case a of
          A_init m \<Rightarrow> Some (w\<lparr>cw_mutexes := OSInitMutex api m (cw_mutexes w)\<rparr>)
        | A_lock m \<Rightarrow> map_option (\<lambda>tab. w\<lparr>cw_mutexes := tab\<rparr>) (OSLockMutex api t m (cw_mutexes w))
        | A_trylock m \<Rightarrow> Some (w\<lparr>cw_mutexes := snd (OSTryLockMutex api t m (cw_mutexes w))\<rparr>)
        | A_unlock m \<Rightarrow> Some (w\<lparr>cw_mutexes := OSUnlockMutex api t m (cw_mutexes w)\<rparr>)
        | A_init_cond c \<Rightarrow> Some (OSInitCond capi c w)
        | A_signal c \<Rightarrow> Some (OSSignalCond capi c w)
        | A_wait c m \<Rightarrow>
            if mutexIsLockedBy api t (hm_lock (ht_host (hm_init api) m (cw_mutexes w)))
            then Some (OSWaitCond_enter api capi t c m w) else None
        | A_leave \<Rightarrow> None)"

fun sync_run ::
    "'m mutex_api \<Rightarrow> 'c cond_api \<Rightarrow> (tid \<times> sync_act) list \<Rightarrow> ('m, 'c) cond_world \<Rightarrow> ('m, 'c) cond_world option" where
  "sync_run api capi [] w = Some w"
| "sync_run api capi (a # as) w =
     (case sync_step api capi a w of None \<Rightarrow> None | Some w' \<Rightarrow> sync_run api capi as w')"

section \<open>The invariant of all threads\<close>

text \<open>
  Every owned mutex has a positive depth; a waiting thread does not own the mutex it waits with, and the depth it
  will restore is positive. The depths are bounded by the number \<open>n\<close> of steps taken, which keeps the 32-bit
  counter from wrapping.
\<close>

definition sync_ok :: "'m mutex_api \<Rightarrow> ('m \<Rightarrow> tid option) \<Rightarrow> nat \<Rightarrow> ('m, 'c) cond_world \<Rightarrow> bool" where
  "sync_ok api owner n w \<longleftrightarrow> mutex_ok api owner (cw_mutexes w) \<and>
     (\<forall>k h. cw_mutexes w k = Some h \<longrightarrow> unat (hm_count h) \<le> n) \<and>
     (\<forall>t c k saved. cw_waiting w t = Some (c, k, saved) \<longrightarrow> saved \<noteq> 0 \<and> unat saved \<le> n \<and>
        (\<forall>d. mutex_holder api owner k (cw_mutexes w) \<noteq> Some (t, d)))"

lemma sync_ok_waiting:
  assumes "sync_ok api owner n w" "cw_waiting w t = Some (c, k, saved)"
  shows "saved \<noteq> 0" "unat saved \<le> n" "mutex_holder api owner k (cw_mutexes w) \<noteq> Some (t, d)"
  using assms unfolding sync_ok_def by blast+

lemma sync_ok_store:
  assumes ok: "sync_ok api owner n w" and "n \<le> m"
    and h: "owner (hm_lock h) \<noteq> None \<Longrightarrow> hm_count h \<noteq> 0" "unat (hm_count h) \<le> m"
    and o: "owner (hm_lock h) = None \<or> owner (hm_lock h) = owner (hm_lock (ht_host (hm_init api) k (cw_mutexes w))) \<or>
      (\<exists>t. owner (hm_lock h) = Some t \<and> cw_waiting w t = None)"
  shows "sync_ok api owner m (w\<lparr>cw_mutexes := ht_store k h (cw_mutexes w)\<rparr>)"
proof -
  have "\<forall>d. mutex_holder api owner k' (ht_store k h (cw_mutexes w)) \<noteq> Some (t, d)"
    if wt: "cw_waiting w t = Some (c, k', saved)" for t c k' saved
  proof -
    have "\<forall>d. mutex_holder api owner k' (cw_mutexes w) \<noteq> Some (t, d)"
      using ok wt by (simp add: sync_ok_def)
    then show ?thesis
      using o wt by (auto simp: holder_store mutex_holder_Some split: if_splits)
  qed
  moreover have "mutex_ok api owner (ht_store k h (cw_mutexes w))"
    using ok h(1) by (intro mutex_ok_store) (auto simp: sync_ok_def)
  moreover have "\<forall>k' h'. ht_store k h (cw_mutexes w) k' = Some h' \<longrightarrow> unat (hm_count h') \<le> m"
    using ok h(2) \<open>n \<le> m\<close> by (auto simp: sync_ok_def ht_store_def intro: order_trans)
  moreover have "\<forall>t c k' saved. cw_waiting w t = Some (c, k', saved) \<longrightarrow> saved \<noteq> 0 \<and> unat saved \<le> m"
    using sync_ok_waiting [OF ok] \<open>n \<le> m\<close> order_trans by blast
  ultimately show ?thesis
    unfolding sync_ok_def by simp
qed

lemma sync_ok_mono: "sync_ok api owner n w \<Longrightarrow> n \<le> m \<Longrightarrow> sync_ok api owner m w"
  by (force simp: sync_ok_def)

lemma sync_ok_conds [simp]: "sync_ok api owner n (w\<lparr>cw_conds := x\<rparr>) = sync_ok api owner n w"
  by (simp add: sync_ok_def)

lemma sync_ok_host:
  assumes "sync_ok api owner n w" "h = ht_host (hm_init api) k (cw_mutexes w)"
  shows "mutex_laws api owner" "unat (hm_count h) \<le> n" "owner (hm_lock h) \<noteq> None \<Longrightarrow> hm_count h \<noteq> 0"
proof -
  show l: "mutex_laws api owner" using assms by (simp add: sync_ok_def mutex_ok_def)
  show "unat (hm_count h) \<le> n" "owner (hm_lock h) \<noteq> None \<Longrightarrow> hm_count h \<noteq> 0"
    using assms mutex_laws_simps(1) [OF l]
    by (cases "cw_mutexes w k"; auto simp: sync_ok_def mutex_ok_def hm_init_def)+
qed

lemma lock_store:
  assumes ok: "sync_ok api owner n w" "Suc n < 4294967296" and l: "OSLockMutex api t k (cw_mutexes w) = Some tab"
  shows "\<exists>h. tab = ht_store k h (cw_mutexes w) \<and> owner (hm_lock h) = Some t \<and> hm_count h \<noteq> 0 \<and> unat (hm_count h) \<le> Suc n"
proof -
  define h where "h = ht_host (hm_init api) k (cw_mutexes w)"
  note laws = mutex_laws_simps [OF sync_ok_host(1) [OF ok(1) h_def]]
  have "unat (hm_count h) \<le> n" by (rule sync_ok_host(2) [OF ok(1) h_def])
  then have u: "unat (hm_count h + 1) = Suc (unat (hm_count h))"
    using ok(2) by (subst unat_plus_u32) simp_all
  then have "hm_count h + 1 \<noteq> 0" by (auto simp: word_pos_unat)
  show ?thesis
  proof (cases "owner (hm_lock h) = Some t")
    case True
    then show ?thesis
      using l u \<open>hm_count h + 1 \<noteq> 0\<close> \<open>unat (hm_count h) \<le> n\<close>
      by (auto simp: OSLockMutex_def getHostMutex_eq h_def [symmetric] laws)
  next
    case False
    then obtain l' where l': "mutexLock api t (hm_lock h) = Some l'"
      using l by (auto simp: OSLockMutex_def getHostMutex_eq h_def [symmetric] laws split: option.splits)
    then show ?thesis
      using l False mutex_lock_Some [OF sync_ok_host(1) [OF ok(1) h_def] l']
      by (auto simp: OSLockMutex_def getHostMutex_eq h_def [symmetric] laws)
  qed
qed

lemma try_store:
  assumes ok: "sync_ok api owner n w" "Suc n < 4294967296"
  shows "\<exists>h. snd (OSTryLockMutex api t k (cw_mutexes w)) = ht_store k h (cw_mutexes w) \<and> unat (hm_count h) \<le> Suc n \<and>
    (owner (hm_lock h) = Some t \<and> hm_count h \<noteq> 0 \<or>
     owner (hm_lock h) = owner (hm_lock (ht_host (hm_init api) k (cw_mutexes w))) \<and>
     hm_count h = hm_count (ht_host (hm_init api) k (cw_mutexes w)))"
proof -
  define h where "h = ht_host (hm_init api) k (cw_mutexes w)"
  note laws = mutex_laws_simps [OF sync_ok_host(1) [OF ok(1) h_def]]
  have n: "unat (hm_count h) \<le> n" by (rule sync_ok_host(2) [OF ok(1) h_def])
  then have u: "unat (hm_count h + 1) = Suc (unat (hm_count h))"
    using ok(2) by (subst unat_plus_u32) simp_all
  then have "hm_count h + 1 \<noteq> 0" by (auto simp: word_pos_unat)
  then show ?thesis
    using n u laws(4,5) laws(6) [of "hm_lock h" t]
    by (cases "owner (hm_lock h)") (auto simp: OSTryLockMutex_def getHostMutex_eq h_def [symmetric] laws Let_def
        case_prod_beta)
qed

lemma unlock_store:
  assumes ok: "sync_ok api owner n w" "Suc n < 4294967296"
  shows "\<exists>h. OSUnlockMutex api t k (cw_mutexes w) = ht_store k h (cw_mutexes w) \<and> unat (hm_count h) \<le> Suc n \<and>
    (owner (hm_lock h) = None \<or>
     owner (hm_lock h) = owner (hm_lock (ht_host (hm_init api) k (cw_mutexes w))) \<and> hm_count h \<noteq> 0)"
proof -
  define h where "h = ht_host (hm_init api) k (cw_mutexes w)"
  note laws = mutex_laws_simps [OF sync_ok_host(1) [OF ok(1) h_def]]
  note h = sync_ok_host(2,3) [OF ok(1) h_def]
  have "unat (hm_count h - 1) \<le> unat (hm_count h)" if "hm_count h \<noteq> 0"
    using that by (simp add: unat_minus_one)
  then show ?thesis
    using h by (cases "owner (hm_lock h)")
      (auto simp: OSUnlockMutex_def getHostMutex_eq h_def [symmetric] laws Let_def intro: le_SucI)
qed

lemma enter_ok:
  assumes ok: "sync_ok api owner n w"
    and o: "owner (hm_lock (ht_host (hm_init api) k (cw_mutexes w))) = Some t"
  shows "sync_ok api owner n (OSWaitCond_enter api capi t c k w)"
proof -
  define h where "h = ht_host (hm_init api) k (cw_mutexes w)"
  note h = sync_ok_host [OF ok h_def]
  let ?h = "h\<lparr>hm_count := 0, hm_lock := mutexUnlock api t (hm_lock h)\<rparr>"
  have free: "owner (hm_lock ?h) = None" using mutex_laws_simps(7) [OF h(1)] o by (simp add: h_def)
  have "sync_ok api owner n (w\<lparr>cw_mutexes := ht_store k ?h (cw_mutexes w)\<rparr>)"
    using free by (intro sync_ok_store [OF ok order_refl]) simp_all
  moreover have "\<forall>d. mutex_holder api owner k (ht_store k ?h (cw_mutexes w)) \<noteq> Some (t, d)"
    using free by (simp add: holder_store)
  ultimately show ?thesis
    using h o by (auto simp: OSWaitCond_enter_def getHostMutex_eq ht_get_eq h_def [symmetric] Let_def sync_ok_def)
qed

lemma sync_step_ok:
  assumes ok: "sync_ok api owner n w" "Suc n < 4294967296" and s: "sync_step api capi (t, a) w = Some w'"
  shows "sync_ok api owner (Suc n) w'"
proof (cases "a = A_leave")
  case True
  with s obtain c k saved l where w: "cw_waiting w t = Some (c, k, saved)"
    and l: "mutexLock api t (hm_lock (ht_host (hm_init api) k (cw_mutexes w))) = Some l"
    and w': "w' = w\<lparr>cw_mutexes := ht_store k ((ht_host (hm_init api) k (cw_mutexes w))\<lparr>hm_lock := l, hm_count := saved\<rparr>)
        (cw_mutexes w), cw_waiting := (cw_waiting w)(t := None)\<rparr>"
    by (auto simp: OSWaitCond_leave_def Let_def split: option.splits)
  define h where "h = ht_host (hm_init api) k (cw_mutexes w)"
  note laws = sync_ok_host(1) [OF ok(1) h_def]
  have "owner l = Some t" by (rule mutex_lock_Some(2) [OF laws l])
  let ?w = "w\<lparr>cw_waiting := (cw_waiting w)(t := None)\<rparr>"
  have ok': "sync_ok api owner n ?w"
    using ok(1) by (auto simp: sync_ok_def)
  have sv: "saved \<noteq> 0" "unat saved \<le> n"
    using ok(1) w by (auto simp: sync_ok_def)
  have "w' = ?w\<lparr>cw_mutexes := ht_store k (h\<lparr>hm_lock := l, hm_count := saved\<rparr>) (cw_mutexes ?w)\<rparr>"
    by (simp add: w' h_def)
  also have "sync_ok api owner (Suc n) \<dots>"
    using sv \<open>owner l = Some t\<close> by (intro sync_ok_store [OF ok']) auto
  finally show ?thesis .
next
  case False
  then have nw: "cw_waiting w t = None"
    using s by (cases a; cases "cw_waiting w t") auto
  note st = sync_ok_store [OF ok(1) le_SucI [OF order_refl]]
  show ?thesis
    using False
  proof (cases a)
    case (A_init k)
    then show ?thesis
      using s nw sync_ok_host(2,3) [OF ok(1) refl, of k]
      by (auto simp: OSInitMutex_def getHostMutex_eq intro!: st)
  next
    case (A_lock k)
    then obtain tab where l: "OSLockMutex api t k (cw_mutexes w) = Some tab" "w' = w\<lparr>cw_mutexes := tab\<rparr>"
      using s nw by auto
    from lock_store [OF ok l(1)] show ?thesis
      using nw unfolding l(2) by (auto intro!: st)
  next
    case (A_trylock k)
    then have w': "w' = w\<lparr>cw_mutexes := snd (OSTryLockMutex api t k (cw_mutexes w))\<rparr>" using s nw by simp
    obtain h where "snd (OSTryLockMutex api t k (cw_mutexes w)) = ht_store k h (cw_mutexes w)"
      "unat (hm_count h) \<le> Suc n"
      and "owner (hm_lock h) = Some t \<and> hm_count h \<noteq> 0 \<or>
       owner (hm_lock h) = owner (hm_lock (ht_host (hm_init api) k (cw_mutexes w))) \<and>
       hm_count h = hm_count (ht_host (hm_init api) k (cw_mutexes w))"
      using try_store [OF ok] by blast
    then show ?thesis
      unfolding w' using nw sync_ok_host(3) [OF ok(1) refl, of k] by (metis st)
  next
    case (A_unlock k)
    from unlock_store [OF ok, of t k] show ?thesis
      using s nw A_unlock by (auto intro!: st)
  next
    case (A_wait c k)
    then have w': "w' = OSWaitCond_enter api capi t c k w"
      and o: "owner (hm_lock (ht_host (hm_init api) k (cw_mutexes w))) = Some t"
      using s nw mutex_laws_simps(2) [OF sync_ok_host(1) [OF ok(1) refl]] by (auto split: if_splits)
    from enter_ok [OF ok(1) o] show ?thesis
      unfolding w' by (rule sync_ok_mono) simp
  qed (use s nw sync_ok_mono [OF ok(1), of "Suc n"] in
      \<open>auto simp: OSInitCond_def OSSignalCond_def Let_def case_prod_beta\<close>)
qed


lemma sync_run_ok:
  "sync_ok api owner n w \<Longrightarrow> n + length as < 4294967296 \<Longrightarrow> sync_run api capi as w = Some w' \<Longrightarrow>
     sync_ok api owner (n + length as) w'"
proof (induction as arbitrary: n w)
  case (Cons a as)
  obtain t b where a: "a = (t, b)" by fastforce
  from Cons.prems(3) obtain w1 where w1: "sync_step api capi (t, b) w = Some w1" "sync_run api capi as w1 = Some w'"
    by (auto simp: a split: option.splits)
  have "sync_ok api owner (Suc n) w1"
    using Cons.prems by (intro sync_step_ok [OF _ _ w1(1)]) simp_all
  from Cons.IH [OF this _ w1(2)] Cons.prems(2) show ?case by simp
qed simp

text \<open>The steps of other threads leave a waiting thread where it is.\<close>

lemma sync_step_waiting:
  assumes "sync_step api capi (t', a) w = Some w'" "t' \<noteq> t"
  shows "cw_waiting w' t = cw_waiting w t"
proof (cases a)
  case A_leave
  with assms show ?thesis by (auto simp: OSWaitCond_leave_def Let_def split: option.splits)
qed (use assms in \<open>cases "cw_waiting w t'", auto simp: OSWaitCond_enter_def OSInitCond_def OSSignalCond_def Let_def
    case_prod_beta split: if_splits\<close>)+

lemma sync_run_waiting:
  "sync_run api capi as w = Some w' \<Longrightarrow> t \<notin> fst ` set as \<Longrightarrow> cw_waiting w' t = cw_waiting w t"
proof (induction as arbitrary: w)
  case (Cons a as)
  obtain t' b where a: "a = (t', b)" by fastforce
  with Cons.prems obtain w1 where "sync_step api capi (t', b) w = Some w1" "sync_run api capi as w1 = Some w'"
    by (auto split: option.splits)
  then show ?case using Cons.IH [of w1] Cons.prems(2) sync_step_waiting [of api capi t' b w w1 t] a by auto
qed simp

lemma sync_run_append:
  "sync_run api capi (as @ bs) w = (case sync_run api capi as w of None \<Rightarrow> None | Some w' \<Rightarrow> sync_run api capi bs w')"
  by (induction as arbitrary: w) (auto split: option.split)

section \<open>Properties\<close>

text \<open>A libnx mutex that is its owner, for the witnesses.\<close>

definition owner_api :: "tid option mutex_api" where
  "owner_api = \<lparr>mutexInit = None, mutexIsLockedBy = (\<lambda>t m. m = Some t),
     mutexLock = (\<lambda>t m. if m = None then Some (Some t) else None),
     mutexTryLock = (\<lambda>t m. if m = None then (True, Some t) else (False, m)),
     mutexUnlock = (\<lambda>t m. None)\<rparr>"

definition count_api :: "nat cond_api" where
  "count_api = \<lparr>condvarInit = 0, condvarWakeAll = Suc\<rparr>"

lemma owner_api_laws: "mutex_laws owner_api (\<lambda>m. m)"
  by (auto simp: mutex_laws_def owner_api_def)

definition sync_start :: "('m, 'c) cond_world" where
  "sync_start = \<lparr>cw_mutexes = Map.empty, cw_conds = Map.empty, cw_waiting = Map.empty\<rparr>"

lemma sync_start_ok: "mutex_laws api owner \<Longrightarrow> sync_ok api owner 0 sync_start"
  by (simp add: sync_ok_def mutex_ok_def sync_start_def)

lemmas sync_eval = sync_start_def owner_api_def count_api_def OSLockMutex_def OSUnlockMutex_def OSTryLockMutex_def
  OSInitMutex_def OSWaitCond_enter_def OSWaitCond_leave_def OSInitCond_def OSSignalCond_def getHostMutex_def
  hm_init_def hc_init_def ht_get_def ht_store_def ht_host_def mutex_holder_def Let_def

text \<open>
  C3: The mutex is recursive: \<open>n\<close> nested lock calls of one thread succeed, the underlying lock is given back by the
  \<open>n\<close>-th unlock and by none before it, and while it is held every other thread's lock call waits, its try-lock
  returns 0 and its unlock changes nothing.
\<close>

theorem OSLockMutex_recursive:
  assumes "mutex_ok api owner tab" and "mutex_holder api owner k tab = None" and "0 < n" and "n \<le> depth_limit"
  shows "\<exists>tab'. call_times n (OSLockMutex api t k) tab = Some tab' \<and> mutex_holder api owner k tab' = Some (t, n) \<and>
    (\<forall>j < n. let tab'' = (OSUnlockMutex api t k ^^ j) tab' in
       mutex_holder api owner k tab'' = Some (t, n - j) \<and>
       (\<forall>t'. t' \<noteq> t \<longrightarrow> OSLockMutex api t' k tab'' = None \<and> fst (OSTryLockMutex api t' k tab'') = 0 \<and>
          mutex_holder api owner k (OSUnlockMutex api t' k tab'') = Some (t, n - j))) \<and>
    mutex_holder api owner k ((OSUnlockMutex api t k ^^ n) tab') = None"
proof -
  obtain tab' where b: "call_times n (OSLockMutex api t k) tab = Some tab'" "mutex_ok api owner tab'"
    "mutex_holder api owner k tab' = Some (t, n)"
    "\<forall>j < n. mutex_holder api owner k ((OSUnlockMutex api t k ^^ j) tab') = Some (t, n - j)"
    "mutex_holder api owner k ((OSUnlockMutex api t k ^^ n) tab') = None"
    using mx.balanced [OF assms] by blast
  have "OSLockMutex api t' k tab'' = None \<and> fst (OSTryLockMutex api t' k tab'') = 0 \<and>
      mutex_holder api owner k (OSUnlockMutex api t' k tab'') = Some (t, n - j)"
    if j: "j < n" "tab'' = (OSUnlockMutex api t k ^^ j) tab'" "t' \<noteq> t" for j t' tab''
  proof -
    have h: "mutex_holder api owner k tab'' = Some (t, n - j)" using b(4) j by simp
    have ok: "mutex_ok api owner tab''"
      using mx.unlock_many_own [OF b(2,3), of j] j by simp
    have "OSLockMutex api t' k tab'' = None" by (rule mx.lock_other [OF ok h]) (use j in simp)
    moreover have "fst (OSTryLockMutex api t' k tab'') = 0"
      using mutex_try_spec [OF ok, of t' k] calculation by simp
    moreover have "mutex_holder api owner k (OSUnlockMutex api t' k tab'') = Some (t, n - j)"
      using mx.unlock_other [OF ok, of k t'] h j(3) by simp
    ultimately show ?thesis by simp
  qed
  with b show ?thesis by (intro exI [of _ tab']) (simp add: Let_def)
qed

theorem OSLockMutex_recursive_witness:
  "\<exists>tab'. call_times 3 (OSLockMutex owner_api 7 0x40) Map.empty = Some tab' \<and>
     OSLockMutex owner_api 8 0x40 tab' = None \<and>
     mutex_holder owner_api (\<lambda>m. m) 0x40 ((OSUnlockMutex owner_api 7 0x40 ^^ 2) tab') = Some (7, 1) \<and>
     mutex_holder owner_api (\<lambda>m. m) 0x40 ((OSUnlockMutex owner_api 7 0x40 ^^ 3) tab') = None"
proof -
  have "mutex_ok owner_api (\<lambda>m. m) Map.empty" by (simp add: mutex_ok_def owner_api_laws)
  moreover have "mutex_holder owner_api (\<lambda>m. m) 0x40 Map.empty = None" by (simp add: sync_eval)
  ultimately obtain tab' where t: "call_times 3 (OSLockMutex owner_api 7 0x40) Map.empty = Some tab'"
    "\<forall>j < 3. mutex_holder owner_api (\<lambda>m. m) 0x40 ((OSUnlockMutex owner_api 7 0x40 ^^ j) tab') = Some (7, 3 - j) \<and>
       (\<forall>t'. t' \<noteq> 7 \<longrightarrow> OSLockMutex owner_api t' 0x40 ((OSUnlockMutex owner_api 7 0x40 ^^ j) tab') = None)"
    "mutex_holder owner_api (\<lambda>m. m) 0x40 ((OSUnlockMutex owner_api 7 0x40 ^^ 3) tab') = None"
    using OSLockMutex_recursive [of owner_api "\<lambda>m. m" Map.empty "0x40" 3 7]
    by (auto simp: depth_limit_def Let_def)
  then show ?thesis
    using t(2) [rule_format, of 0] t(2) [rule_format, of 2] by (intro exI [of _ tab']) simp
qed

text \<open>
  C7: \<^verbatim>\<open>OSWaitCond\<close> gives the mutex back completely, whatever the depth it is held at, so that other threads can
  take it while the caller waits, and returns with the caller holding it at the depth it had, whatever any other
  threads do in between with this mutex, other mutexes and conditions.
\<close>

theorem OSWaitCond_restores_depth:
  assumes "mutex_laws api owner" and "mutex_holder api owner k (cw_mutexes w) = Some (t, d)"
    and "sync_step api capi (t, A_wait c k) w = Some w1"
    and "sync_run api capi as w1 = Some w2" and "t \<notin> fst ` set as"
    and "sync_step api capi (t, A_leave) w2 = Some w3"
  shows "mutex_holder api owner k (cw_mutexes w1) = None \<and> mutex_holder api owner k (cw_mutexes w2) = None \<and>
    mutex_holder api owner k (cw_mutexes w3) = Some (t, d) \<and> cw_waiting w3 t = None"
proof -
  define h where "h = ht_host (hm_init api) k (cw_mutexes w)"
  have h: "owner (hm_lock h) = Some t" "d = unat (hm_count h)"
    using assms(2) by (simp_all add: mutex_holder_Some h_def)
  have w1: "w1 = OSWaitCond_enter api capi t c k w"
    using assms(3) by (cases "cw_waiting w t") (auto split: if_splits)
  have wait1: "cw_waiting w1 t = Some (c, k, hm_count h)"
    and m1: "mutex_holder api owner k (cw_mutexes w1) = None"
    using mutex_laws_simps(7) [OF assms(1) h(1)]
    by (simp_all add: w1 OSWaitCond_enter_def getHostMutex_eq ht_get_eq h_def [symmetric] Let_def holder_store)
  have wait2: "cw_waiting w2 t = Some (c, k, hm_count h)"
    using sync_run_waiting [OF assms(4,5)] wait1 by simp
  define h2 where "h2 = ht_host (hm_init api) k (cw_mutexes w2)"
  obtain l where l: "mutexLock api t (hm_lock h2) = Some l"
    and w3: "w3 = w2\<lparr>cw_mutexes := ht_store k (h2\<lparr>hm_lock := l, hm_count := hm_count h\<rparr>) (cw_mutexes w2),
       cw_waiting := (cw_waiting w2)(t := None)\<rparr>"
    using assms(6) wait2 by (auto simp: OSWaitCond_leave_def h2_def Let_def split: option.splits)
  show ?thesis
    using mutex_lock_Some [OF assms(1) l] m1 h
    by (simp add: w3 holder_store mutex_holder_None h2_def)
qed

theorem OSWaitCond_restores_depth_witness:
  "\<exists>w w1 w2 w3. sync_run owner_api count_api [(1, A_lock 64), (1, A_lock 64)] sync_start = Some w \<and>
     sync_step owner_api count_api (1, A_wait 80 64) w = Some w1 \<and>
     sync_run owner_api count_api [(2, A_lock 64), (2, A_signal 80), (2, A_unlock 64)] w1 = Some w2 \<and>
     sync_step owner_api count_api (1, A_leave) w2 = Some w3 \<and>
     mutex_holder owner_api (\<lambda>m. m) 64 (cw_mutexes w3) = Some (1, 2)"
proof -
  define w where "w = the (sync_run owner_api count_api [(1, A_lock 64), (1, A_lock 64)] sync_start)"
  define w1 where "w1 = the (sync_step owner_api count_api (1, A_wait 80 64) w)"
  define w2 where "w2 = the (sync_run owner_api count_api [(2, A_lock 64), (2, A_signal 80), (2, A_unlock 64)] w1)"
  define w3 where "w3 = the (sync_step owner_api count_api (1, A_leave) w2)"
  have w: "sync_run owner_api count_api [(1, A_lock 64), (1, A_lock 64)] sync_start = Some w"
    "mutex_holder owner_api (\<lambda>m. m) 64 (cw_mutexes w) = Some (1, 2)"
    by (simp_all add: w_def sync_eval)
  have w1: "sync_step owner_api count_api (1, A_wait 80 64) w = Some w1"
    by (simp add: w1_def w_def sync_eval)
  have w2: "sync_run owner_api count_api [(2, A_lock 64), (2, A_signal 80), (2, A_unlock 64)] w1 = Some w2"
    by (simp add: w2_def w1_def w_def sync_eval)
  have w3: "sync_step owner_api count_api (1, A_leave) w2 = Some w3"
    by (simp add: w3_def w2_def w1_def w_def sync_eval)
  show ?thesis
    using OSWaitCond_restores_depth [OF owner_api_laws w(2) w1 w2 _ w3] w(1) w1 w2 w3 by auto
qed

text \<open>
  Under every interleaving of lock, try-lock, unlock, wait and signal calls by any number of threads, from the
  start and for fewer than \<open>2\<^sup>3\<^sup>2 - 1\<close> calls, a mutex in use has one owner with a positive depth, and no thread
  inside \<^verbatim>\<open>OSWaitCond\<close> owns the mutex it waits with.
\<close>

theorem sync_run_invariant:
  assumes "mutex_laws api owner" and "length as < 4294967296" and "sync_run api capi as sync_start = Some w"
  shows "(\<forall>k t d. mutex_holder api owner k (cw_mutexes w) = Some (t, d) \<longrightarrow> 0 < d) \<and>
    (\<forall>t c k saved. cw_waiting w t = Some (c, k, saved) \<longrightarrow>
       saved \<noteq> 0 \<and> (\<forall>d. mutex_holder api owner k (cw_mutexes w) \<noteq> Some (t, d)))"
proof -
  have ok: "sync_ok api owner (length as) w"
    using sync_run_ok [OF sync_start_ok [OF assms(1)] _ assms(3)] assms(2) by simp
  have "mutex_ok api owner (cw_mutexes w)" using ok by (simp add: sync_ok_def)
  then show ?thesis
    using mx.depth_pos [of api owner "cw_mutexes w"] sync_ok_waiting [OF ok] by blast
qed

theorem sync_run_invariant_witness:
  "\<exists>w. sync_run owner_api count_api [(1, A_lock 64), (1, A_wait 80 64), (2, A_lock 64)] sync_start = Some w \<and>
     cw_waiting w 1 = Some (80, 64, 1) \<and> mutex_holder owner_api (\<lambda>m. m) 64 (cw_mutexes w) = Some (2, 1) \<and>
     (\<forall>d. mutex_holder owner_api (\<lambda>m. m) 64 (cw_mutexes w) \<noteq> Some (1, d))"
proof -
  define w where "w = the (sync_run owner_api count_api [(1, A_lock 64), (1, A_wait 80 64), (2, A_lock 64)] sync_start)"
  have w: "sync_run owner_api count_api [(1, A_lock 64), (1, A_wait 80 64), (2, A_lock 64)] sync_start = Some w"
    "cw_waiting w 1 = Some (80, 64, 1)" "mutex_holder owner_api (\<lambda>m. m) 64 (cw_mutexes w) = Some (2, 1)"
    by (simp_all add: w_def sync_eval)
  show ?thesis
    using sync_run_invariant [OF owner_api_laws _ w(1)] w by simp
qed

end
