(* ===== verification/Monitor.thy ===== *)
theory Monitor
  imports Prelude "HOL-Library.Extended_Nat"
begin

text \<open>
  Waiting on a condition variable. The semaphores, events and message queues of the code all wait in the same
  way: with the object's lock held, a thread tests whether it can go on, takes what it waited for if so, and sleeps
  on the condition variable if not; the other operations change the object under the lock and wake one sleeper, all,
  or none. The lock makes each test and each operation one step.

  \<open>monitor_ops\<close> names those parts of an object, \<open>mon_step\<close> is one step of the threads that use it, and the locale
  \<open>no_lost_wakeup\<close> states what the wake-ups of the operations have to cover. Each component interprets it on its
  own definitions. A thread may also wake without reason, as condition variables allow.
\<close>

datatype wake = Wake_none | Wake_one | Wake_all

record ('s, 'o) monitor_ops =
  mo_ready :: "'s \<Rightarrow> bool"
  mo_take :: "tid \<Rightarrow> 's \<Rightarrow> 's"
  mo_op :: "'o \<Rightarrow> 's \<Rightarrow> 's"
  mo_wake :: "'o \<Rightarrow> 's \<Rightarrow> wake"

record 's monitor =
  mon_shared :: 's
  mon_asleep :: "tid list"
  mon_awake :: "tid list"
  mon_done :: "tid list"

text \<open>
  A step: a thread enters the wait, an awake waiter holds the lock and tests (it leaves with what it waited for, or
  sleeps), an awake waiter whose test fails gives up (its timeout has passed), a sleeper wakes without reason, or some
  thread performs an operation, which wakes as it says; with \<open>Wake_one\<close> the sleeper to wake is part of the step.
\<close>

datatype 'o mon_act =
    M_enter tid
  | M_test tid
  | M_give_up tid
  | M_spurious tid
  | M_op 'o "tid option"

fun mon_step :: "('s, 'o) monitor_ops \<Rightarrow> 'o mon_act \<Rightarrow> 's monitor \<Rightarrow> 's monitor option" where
  "mon_step ops (M_enter t) m =
     (if t \<in> set (mon_asleep m) \<or> t \<in> set (mon_awake m) then None
      else Some (m\<lparr>mon_awake := mon_awake m @ [t]\<rparr>))"
| "mon_step ops (M_test t) m =
     (if t \<notin> set (mon_awake m) then None
      else if mo_ready ops (mon_shared m)
      then Some (m\<lparr>mon_shared := mo_take ops t (mon_shared m), mon_awake := remove1 t (mon_awake m),
             mon_done := mon_done m @ [t]\<rparr>)
      else Some (m\<lparr>mon_awake := remove1 t (mon_awake m), mon_asleep := mon_asleep m @ [t]\<rparr>))"
| "mon_step ops (M_give_up t) m =
     (if t \<notin> set (mon_awake m) \<or> mo_ready ops (mon_shared m) then None
      else Some (m\<lparr>mon_awake := remove1 t (mon_awake m)\<rparr>))"
| "mon_step ops (M_spurious t) m =
     (if t \<notin> set (mon_asleep m) then None
      else Some (m\<lparr>mon_asleep := remove1 t (mon_asleep m), mon_awake := mon_awake m @ [t]\<rparr>))"
| "mon_step ops (M_op opn who) m =
     (let m' = m\<lparr>mon_shared := mo_op ops opn (mon_shared m)\<rparr> in
      case mo_wake ops opn (mon_shared m) of
        Wake_none \<Rightarrow> Some m'
      | Wake_all \<Rightarrow> Some (m'\<lparr>mon_asleep := [], mon_awake := mon_awake m @ mon_asleep m\<rparr>)
      | Wake_one \<Rightarrow>
          (case who of
             None \<Rightarrow> if mon_asleep m = [] then Some m' else None
           | Some t \<Rightarrow>
               if t \<in> set (mon_asleep m)
               then Some (m'\<lparr>mon_asleep := remove1 t (mon_asleep m), mon_awake := mon_awake m @ [t]\<rparr>)
               else None))"

fun mon_run :: "('s, 'o) monitor_ops \<Rightarrow> 'o mon_act list \<Rightarrow> 's monitor \<Rightarrow> 's monitor option" where
  "mon_run ops [] m = Some m"
| "mon_run ops (a # as) m = (case mon_step ops a m of None \<Rightarrow> None | Some m' \<Rightarrow> mon_run ops as m')"

definition mon_start :: "'s \<Rightarrow> 's monitor" where
  "mon_start s = \<lparr>mon_shared = s, mon_asleep = [], mon_awake = [], mon_done = []\<rparr>"

lemma mon_run_append:
  "mon_run ops (as @ bs) m = (case mon_run ops as m of None \<Rightarrow> None | Some m' \<Rightarrow> mon_run ops bs m')"
  by (induction as arbitrary: m) (auto split: option.split)

text \<open>A property of the shared object that the operations and the taking keep holds after every run.\<close>

lemma mon_step_shared:
  assumes "mon_step ops a m = Some m'" "P (mon_shared m)"
    and "\<And>opn s. P s \<Longrightarrow> P (mo_op ops opn s)" and "\<And>t s. P s \<Longrightarrow> mo_ready ops s \<Longrightarrow> P (mo_take ops t s)"
  shows "P (mon_shared m')"
  using assms by (cases a) (auto simp: Let_def split: if_splits wake.splits option.splits)

lemma mon_run_shared:
  assumes "mon_run ops as m = Some m'" "P (mon_shared m)"
    and "\<And>opn s. P s \<Longrightarrow> P (mo_op ops opn s)" and "\<And>t s. P s \<Longrightarrow> mo_ready ops s \<Longrightarrow> P (mo_take ops t s)"
  shows "P (mon_shared m')"
  using assms(1,2)
proof (induction as arbitrary: m)
  case (Cons a as)
  then obtain m1 where m1: "mon_step ops a m = Some m1" "mon_run ops as m1 = Some m'"
    by (auto split: option.splits)
  from Cons.IH [OF m1(2) mon_step_shared [OF m1(1) Cons.prems(2) assms(3,4)]] show ?case by simp
qed simp

lemma mon_run_done: "mon_run ops as m = Some m' \<Longrightarrow> \<exists>ds. mon_done m' = mon_done m @ ds"
proof (induction as arbitrary: m)
  case (Cons a as)
  then obtain m1 where m1: "mon_step ops a m = Some m1" "mon_run ops as m1 = Some m'"
    by (auto split: option.splits)
  from m1(1) have "\<exists>ds. mon_done m1 = mon_done m @ ds"
    by (cases a) (auto simp: Let_def split: if_splits wake.splits option.splits)
  with Cons.IH [OF m1(2)] show ?case by auto
qed simp

section \<open>The interface: wake-ups that cover what becomes available\<close>

text \<open>
  \<open>avail\<close> is how many waiters the object can let go on (\<open>\<infinity>\<close> for a signalled manual-reset event): none exactly when
  the test fails. Taking uses up one; an operation that wakes nobody makes nothing available, one that wakes a single
  sleeper makes at most one more.
\<close>

lemma enat_pred_le: "x \<le> enat n \<Longrightarrow> x - 1 \<le> enat (n - 1)"
  by (cases x) (simp_all add: one_enat_def)

locale no_lost_wakeup =
  fixes ops :: "('s, 'o) monitor_ops"
    and inv :: "'s \<Rightarrow> bool"
    and avail :: "'s \<Rightarrow> enat"
  assumes ready_avail: "inv s \<Longrightarrow> mo_ready ops s \<longleftrightarrow> avail s \<noteq> 0"
    and inv_op: "inv s \<Longrightarrow> inv (mo_op ops opn s)"
    and inv_take: "inv s \<Longrightarrow> mo_ready ops s \<Longrightarrow> inv (mo_take ops t s)"
    and take_avail: "inv s \<Longrightarrow> mo_ready ops s \<Longrightarrow> avail (mo_take ops t s) \<le> avail s - 1"
    and wake_none: "inv s \<Longrightarrow> mo_wake ops opn s = Wake_none \<Longrightarrow> avail (mo_op ops opn s) \<le> avail s"
    and wake_one: "inv s \<Longrightarrow> mo_wake ops opn s = Wake_one \<Longrightarrow> avail (mo_op ops opn s) \<le> avail s + 1"
begin

definition covered :: "'s monitor \<Rightarrow> bool" where
  "covered m \<longleftrightarrow> inv (mon_shared m) \<and>
     (mon_asleep m = [] \<or> avail (mon_shared m) \<le> enat (length (mon_awake m)))"

lemma step_covered:
  assumes c: "covered m" and s: "mon_step ops a m = Some m'"
  shows "covered m'"
proof -
  have i: "inv (mon_shared m)" using c by (simp add: covered_def)
  have i': "inv (mon_shared m')"
    by (rule mon_step_shared [where P = inv, OF s i]) (auto simp: inv_op inv_take)
  show ?thesis
  proof (cases a)
    case (M_enter t)
    with c s show ?thesis
      by (auto simp: covered_def split: if_splits intro: order_trans)
  next
    case (M_test t)
    show ?thesis
    proof (cases "mo_ready ops (mon_shared m)")
      case True
      have "avail (mo_take ops t (mon_shared m)) \<le> enat (length (mon_awake m) - 1) \<or> mon_asleep m = []"
        using take_avail [OF i True] c enat_pred_le by (fastforce simp: covered_def intro: order_trans)
      with True M_test s i' show ?thesis
        by (auto simp: covered_def length_remove1 split: if_splits)
    next
      case False
      then have "avail (mon_shared m) = 0" using ready_avail [OF i] by simp
      with False M_test s i show ?thesis by (auto simp: covered_def split: if_splits)
    qed
  next
    case (M_give_up t)
    with s i ready_avail [OF i] show ?thesis by (auto simp: covered_def split: if_splits)
  next
    case (M_spurious t)
    with c s show ?thesis
      by (auto simp: covered_def split: if_splits intro: order_trans)
  next
    case (M_op opn who)
    show ?thesis
    proof (cases "mo_wake ops opn (mon_shared m)")
      case Wake_none
      with M_op c s i' wake_none [OF i Wake_none] show ?thesis
        by (auto simp: covered_def Let_def intro: order_trans)
    next
      case Wake_one
      have "avail (mo_op ops opn (mon_shared m)) \<le> enat (Suc (length (mon_awake m))) \<or> mon_asleep m = []"
        using wake_one [OF i Wake_one] c
        by (fastforce simp: covered_def plus_1_eSuc eSuc_enat [symmetric] intro: order_trans)
      with Wake_one M_op s i' show ?thesis
        by (auto simp: covered_def Let_def split: option.splits if_splits)
    next
      case Wake_all
      with M_op s i' show ?thesis by (auto simp: covered_def Let_def)
    qed
  qed
qed

lemma run_covered: "covered m \<Longrightarrow> mon_run ops as m = Some m' \<Longrightarrow> covered m'"
  by (induction as arbitrary: m) (auto split: option.splits dest: step_covered)

text \<open>
  After any run, when no waiter is left to test, a thread sleeps only if there is nothing to take: no wake-up is
  lost.
\<close>

lemma no_sleeper_forgotten:
  assumes "inv s" "mon_run ops as (mon_start s) = Some m" "mon_awake m = []" "mon_asleep m \<noteq> []"
  shows "\<not> mo_ready ops (mon_shared m)"
proof -
  have "covered m"
    using run_covered [OF _ assms(2)] assms(1) by (simp add: covered_def mon_start_def)
  then have "avail (mon_shared m) = 0" "inv (mon_shared m)"
    using assms(3,4) by (simp_all add: covered_def zero_enat_def [symmetric])
  then show ?thesis using ready_avail by simp
qed

end

end
