(* ===== verification/Semaphore.thy ===== *)
theory Semaphore
  imports HandleTable Monitor
begin

text \<open>
  The counting semaphores of \<^verbatim>\<open>source/semaphore.cpp\<close>. \<open>host_semaphore\<close> is \<^verbatim>\<open>HostSemaphore\<close> without its libnx lock and
  condition variable, which make each operation one step and its waits those of \<open>Monitor\<close>. \<open>None\<close> as the
  result of \<open>OSWaitSemaphore\<close> is a call that has to wait.
\<close>

section \<open>State and operations\<close>

record host_semaphore =
  sem_count :: s32

definition sem_init :: host_semaphore where
  "sem_init = \<lparr>sem_count = 0\<rparr>"

definition OSInitSemaphore :: "ptr \<Rightarrow> s32 \<Rightarrow> host_semaphore table \<Rightarrow> host_semaphore table" where
  "OSInitSemaphore semaphore count tab =
     (if semaphore = null then tab
      else ht_update sem_init semaphore (\<lambda>s. s\<lparr>sem_count := count\<rparr>) tab)"

definition OSInitSemaphoreEx :: "ptr \<Rightarrow> s32 \<Rightarrow> ptr \<Rightarrow> host_semaphore table \<Rightarrow> host_semaphore table" where
  "OSInitSemaphoreEx semaphore count name tab = OSInitSemaphore semaphore count tab"

definition OSGetSemaphoreCount :: "ptr \<Rightarrow> host_semaphore table \<Rightarrow> s32 \<times> host_semaphore table" where
  "OSGetSemaphoreCount semaphore tab =
     (if semaphore = null then (0, tab)
      else let (s, tab') = ht_get sem_init semaphore tab in (sem_count s, tab'))"

text \<open>
  The bodies between lock and unlock; the wait's is what follows its loop. The signal's says whom it wakes: every
  thread asleep on the condition variable, which is not part of the table (\<open>sem_ops\<close> lets the threads see it).
\<close>

definition sem_signal :: "host_semaphore \<Rightarrow> wake \<times> s32 \<times> host_semaphore" where
  "sem_signal s = (Wake_all, sem_count s, s\<lparr>sem_count := sem_count s + 1\<rparr>)"

definition sem_must_wait :: "host_semaphore \<Rightarrow> bool" where
  "sem_must_wait s \<longleftrightarrow> sint (sem_count s) \<le> 0"

definition sem_take :: "host_semaphore \<Rightarrow> s32 \<times> host_semaphore" where
  "sem_take s = (sem_count s, s\<lparr>sem_count := sem_count s - 1\<rparr>)"

definition sem_try :: "host_semaphore \<Rightarrow> s32 \<times> host_semaphore" where
  "sem_try s = (sem_count s, if 0 < sint (sem_count s) then s\<lparr>sem_count := sem_count s - 1\<rparr> else s)"

definition OSSignalSemaphore :: "ptr \<Rightarrow> host_semaphore table \<Rightarrow> s32 \<times> host_semaphore table" where
  "OSSignalSemaphore semaphore tab =
     (if semaphore = null then (0, tab)
      else let (s, tab') = ht_get sem_init semaphore tab; (wk, previous, s') = sem_signal s
           in (previous, ht_store semaphore s' tab'))"

definition OSWaitSemaphore :: "ptr \<Rightarrow> host_semaphore table \<Rightarrow> (s32 \<times> host_semaphore table) option" where
  "OSWaitSemaphore semaphore tab =
     (if semaphore = null then Some (0, tab)
      else let (s, tab') = ht_get sem_init semaphore tab in
           if sem_must_wait s then None
           else let (previous, s') = sem_take s in Some (previous, ht_store semaphore s' tab'))"

definition OSTryWaitSemaphore :: "ptr \<Rightarrow> host_semaphore table \<Rightarrow> s32 \<times> host_semaphore table" where
  "OSTryWaitSemaphore semaphore tab =
     (if semaphore = null then (0, tab)
      else let (s, tab') = ht_get sem_init semaphore tab; (previous, s') = sem_try s
           in (previous, ht_store semaphore s' tab'))"

section \<open>Threads on one semaphore\<close>

datatype sem_op = Sem_signal | Sem_try | Sem_count

definition sem_ops :: "(host_semaphore, sem_op) monitor_ops" where
  "sem_ops = \<lparr>mo_ready = (\<lambda>s. \<not> sem_must_wait s), mo_take = (\<lambda>t s. snd (sem_take s)),
     mo_op = (\<lambda>opn s. case opn of Sem_signal \<Rightarrow> snd (snd (sem_signal s)) | Sem_try \<Rightarrow> snd (sem_try s) | Sem_count \<Rightarrow> s),
     mo_wake = (\<lambda>opn s. case opn of Sem_signal \<Rightarrow> fst (sem_signal s) | Sem_try \<Rightarrow> Wake_none | Sem_count \<Rightarrow> Wake_none)\<rparr>"

definition sem_avail :: "host_semaphore \<Rightarrow> enat" where
  "sem_avail s = enat (nat (sint (sem_count s)))"

interpretation sem: no_lost_wakeup sem_ops "\<lambda>s. True" sem_avail
proof unfold_locales
  fix s :: host_semaphore and opn t
  have pred: "0 < sint (sem_count s) \<Longrightarrow> sint (sem_count s - 1) = sint (sem_count s) - 1"
    using sint_s32_pred [of "sem_count s"] by simp
  show "mo_ready sem_ops s \<longleftrightarrow> sem_avail s \<noteq> 0"
    by (auto simp: sem_ops_def sem_must_wait_def sem_avail_def zero_enat_def)
  show "sem_avail (mo_take sem_ops t s) \<le> sem_avail s - 1" if "mo_ready sem_ops s"
    using that pred by (simp add: sem_ops_def sem_must_wait_def sem_take_def sem_avail_def one_enat_def)
  show "sem_avail (mo_op sem_ops opn s) \<le> sem_avail s" if "mo_wake sem_ops opn s = Wake_none"
    using that pred by (cases opn) (auto simp: sem_ops_def sem_signal_def sem_try_def sem_avail_def intro: nat_mono)
  show "sem_avail (mo_op sem_ops opn s) \<le> sem_avail s + 1" if "mo_wake sem_ops opn s = Wake_one"
    using that by (cases opn) (simp_all add: sem_ops_def sem_signal_def)
qed simp_all

text \<open>The signals of a run, and its successful \<^verbatim>\<open>OSTryWaitSemaphore\<close> calls.\<close>

fun sem_signals :: "sem_op mon_act list \<Rightarrow> nat" where
  "sem_signals [] = 0"
| "sem_signals (M_op Sem_signal who # as) = Suc (sem_signals as)"
| "sem_signals (a # as) = sem_signals as"

fun sem_tries :: "sem_op mon_act list \<Rightarrow> host_semaphore monitor \<Rightarrow> nat" where
  "sem_tries [] m = 0"
| "sem_tries (a # as) m =
     (case mon_step sem_ops a m of
        None \<Rightarrow> 0
      | Some m' \<Rightarrow>
          (case a of M_op Sem_try who \<Rightarrow> if 0 < sint (fst (sem_try (mon_shared m))) then 1 else 0 | _ \<Rightarrow> 0)
          + sem_tries as m')"

lemma sem_step_count:
  assumes "mon_step sem_ops a m = Some m'" "0 \<le> sint (sem_count (mon_shared m))"
    and "sint (sem_count (mon_shared m)) + int (sem_signals [a]) \<le> 2147483647"
  shows "0 \<le> sint (sem_count (mon_shared m')) \<and>
    sint (sem_count (mon_shared m')) + int (length (mon_done m')) + int (sem_tries [a] m) =
      sint (sem_count (mon_shared m)) + int (length (mon_done m)) + int (sem_signals [a])"
proof (cases a)
  case (M_test t)
  with assms show ?thesis
    using sint_s32_pred [of "sem_count (mon_shared m)"]
    by (auto simp: sem_ops_def sem_must_wait_def sem_take_def split: if_splits)
next
  case (M_op opn who)
  show ?thesis
  proof (cases opn)
    case Sem_signal
    with M_op assms show ?thesis
      using sint_s32_Suc [of "sem_count (mon_shared m)"]
      by (auto simp: sem_ops_def sem_signal_def Let_def)
  next
    case Sem_try
    with M_op assms show ?thesis
      using sint_s32_pred [of "sem_count (mon_shared m)"]
      by (auto simp: sem_ops_def sem_try_def Let_def)
  next
    case Sem_count
    with M_op assms show ?thesis by (auto simp: sem_ops_def Let_def)
  qed
qed (use assms in \<open>auto split: if_splits\<close>)

lemma sem_signals_Cons: "sem_signals (a # as) = sem_signals [a] + sem_signals as"
  by (cases "a # as" rule: sem_signals.cases) auto

lemma sem_run_count:
  "mon_run sem_ops as m = Some m' \<Longrightarrow> 0 \<le> sint (sem_count (mon_shared m)) \<Longrightarrow>
     sint (sem_count (mon_shared m)) + int (sem_signals as) \<le> 2147483647 \<Longrightarrow>
     0 \<le> sint (sem_count (mon_shared m')) \<and>
     sint (sem_count (mon_shared m')) + int (length (mon_done m')) + int (sem_tries as m) =
       sint (sem_count (mon_shared m)) + int (length (mon_done m)) + int (sem_signals as)"
proof (induction as arbitrary: m)
  case (Cons a as)
  obtain m1 where m1: "mon_step sem_ops a m = Some m1" "mon_run sem_ops as m1 = Some m'"
    using Cons.prems(1) by (auto split: option.splits)
  note split = sem_signals_Cons [of a as]
  have one: "0 \<le> sint (sem_count (mon_shared m1)) \<and>
    sint (sem_count (mon_shared m1)) + int (length (mon_done m1)) + int (sem_tries [a] m) =
      sint (sem_count (mon_shared m)) + int (length (mon_done m)) + int (sem_signals [a])"
    using Cons.prems split by (intro sem_step_count [OF m1(1)]) auto
  moreover have "length (mon_done m) \<le> length (mon_done m1)"
    using m1(1) by (cases a) (auto simp: Let_def split: if_splits option.splits wake.splits)
  ultimately have "sint (sem_count (mon_shared m1)) + int (sem_signals as) \<le> 2147483647"
    using Cons.prems(3) split by simp
  from Cons.IH [OF m1(2) _ this] one m1(1) split show ?case by simp
qed simp

section \<open>Properties\<close>

text \<open>
  C15: Tokens are conserved: whatever the interleaving of waits, tries and signals of any number of threads on a
  semaphore that starts at \<open>n \<ge> 0\<close> (and while the 32-bit count does not overflow), the count never goes below zero and
  equals \<open>n\<close> plus the signals minus the waits that have returned and the tries that succeeded. And no wake-up is lost:
  once no awake waiter is left to test, a thread sleeps only while the count is zero.
\<close>

theorem OSSemaphore_conserves:
  assumes "mon_run sem_ops as (mon_start \<lparr>sem_count = n\<rparr>) = Some m"
    and "0 \<le> sint n" and "sint n + int (sem_signals as) \<le> 2147483647"
  shows "0 \<le> sint (sem_count (mon_shared m)) \<and>
    sint (sem_count (mon_shared m)) =
      sint n + int (sem_signals as) - int (length (mon_done m)) - int (sem_tries as (mon_start \<lparr>sem_count = n\<rparr>)) \<and>
    (mon_awake m = [] \<and> mon_asleep m \<noteq> [] \<longrightarrow> sem_count (mon_shared m) = 0)"
proof -
  have c: "0 \<le> sint (sem_count (mon_shared m))" "sint (sem_count (mon_shared m)) =
      sint n + int (sem_signals as) - int (length (mon_done m)) - int (sem_tries as (mon_start \<lparr>sem_count = n\<rparr>))"
    using sem_run_count [OF assms(1)] assms(2,3) by (simp_all add: mon_start_def)
  moreover have "sint (sem_count (mon_shared m)) \<le> 0" if "mon_awake m = []" "mon_asleep m \<noteq> []"
    using sem.no_sleeper_forgotten [OF TrueI assms(1) that] by (simp add: sem_ops_def sem_must_wait_def)
  ultimately show ?thesis by (auto simp: sint_0_iff [symmetric])
qed

theorem OSSemaphore_conserves_witness:
  "\<exists>m. mon_run sem_ops [M_enter 1, M_enter 2, M_test 1, M_test 2, M_op Sem_try None, M_op Sem_signal None,
      M_op Sem_try None, M_test 2] (mon_start \<lparr>sem_count = 1\<rparr>) = Some m \<and>
     mon_done m = [1] \<and> mon_asleep m = [2] \<and> sem_count (mon_shared m) = 0"
proof -
  let ?as = "[M_enter 1, M_enter 2, M_test 1, M_test 2, M_op Sem_try None, M_op Sem_signal None,
      M_op Sem_try None, M_test 2]"
  obtain m where m: "mon_run sem_ops ?as (mon_start \<lparr>sem_count = 1\<rparr>) = Some m" "mon_done m = [1]"
    "mon_asleep m = [2]" "mon_awake m = []"
    by (simp add: sem_ops_def sem_must_wait_def sem_take_def sem_try_def sem_signal_def mon_start_def)
  then show ?thesis using OSSemaphore_conserves [OF m(1)] by simp
qed

end
