(* ===== verification/Event.thy ===== *)
theory Event
  imports HandleTable Monitor
begin

text \<open>
  The events of \<^verbatim>\<open>source/event.cpp\<close>: a manual-reset event stays signalled until it is reset, an auto-reset event
  lets one waiter go and clears itself. \<open>host_event\<close> is \<^verbatim>\<open>HostEvent\<close> without its libnx lock and condition
  variable; waits are those of \<open>Monitor\<close>, and \<open>None\<close> is a test of the wait's loop after which the thread sleeps.
  The values of \<^verbatim>\<open>armGetSystemTick\<close> are arguments of the timed wait.
\<close>

section \<open>State and operations\<close>

record host_event =
  ev_signalled :: bool
  ev_autoReset :: bool

definition ev_init :: host_event where
  "ev_init = \<lparr>ev_signalled = False, ev_autoReset = False\<rparr>"

abbreviation (input) OS_EVENT_MODE_AUTO :: u32 where
  "OS_EVENT_MODE_AUTO \<equiv> 1"

definition OSInitEvent :: "ptr \<Rightarrow> s32 \<Rightarrow> u32 \<Rightarrow> host_event table \<Rightarrow> host_event table" where
  "OSInitEvent event val mode tab =
     (if event = null then tab
      else ht_update ev_init event
        (\<lambda>e. e\<lparr>ev_signalled := (val \<noteq> 0), ev_autoReset := (mode = OS_EVENT_MODE_AUTO)\<rparr>) tab)"

definition OSInitEventEx :: "ptr \<Rightarrow> s32 \<Rightarrow> u32 \<Rightarrow> ptr \<Rightarrow> host_event table \<Rightarrow> host_event table" where
  "OSInitEventEx event val mode name tab = OSInitEvent event val mode tab"

text \<open>The bodies between lock and unlock, with whom they wake.\<close>

definition ev_signal :: "host_event \<Rightarrow> wake \<times> host_event" where
  "ev_signal e = (if ev_autoReset e then Wake_one else Wake_all, e\<lparr>ev_signalled := True\<rparr>)"

definition ev_signal_all :: "host_event \<Rightarrow> wake \<times> host_event" where
  "ev_signal_all e =
     (let e1 = e\<lparr>ev_signalled := True\<rparr>
      in (Wake_all, if ev_autoReset e1 then e1\<lparr>ev_signalled := False\<rparr> else e1))"

definition ev_take :: "host_event \<Rightarrow> host_event" where
  "ev_take e = (if ev_autoReset e then e\<lparr>ev_signalled := False\<rparr> else e)"

definition ev_reset :: "host_event \<Rightarrow> host_event" where
  "ev_reset e = e\<lparr>ev_signalled := False\<rparr>"

definition OSSignalEvent :: "ptr \<Rightarrow> host_event table \<Rightarrow> host_event table" where
  "OSSignalEvent event tab =
     (if event = null then tab else ht_update ev_init event (\<lambda>e. snd (ev_signal e)) tab)"

definition OSSignalEventAll :: "ptr \<Rightarrow> host_event table \<Rightarrow> host_event table" where
  "OSSignalEventAll event tab =
     (if event = null then tab else ht_update ev_init event (\<lambda>e. snd (ev_signal_all e)) tab)"

definition OSWaitEvent :: "ptr \<Rightarrow> host_event table \<Rightarrow> host_event table option" where
  "OSWaitEvent event tab =
     (if event = null then Some tab
      else let (e, tab') = ht_get ev_init event tab in
           if \<not> ev_signalled e then None else Some (ht_store event (ev_take e) tab'))"

definition OSResetEvent :: "ptr \<Rightarrow> host_event table \<Rightarrow> host_event table" where
  "OSResetEvent event tab =
     (if event = null then tab else ht_update ev_init event ev_reset tab)"

text \<open>
  The deadline of the timed wait, computed once, and one test of its loop at the tick \<open>now\<close>.
\<close>

definition event_deadline :: "u64 \<Rightarrow> s64 \<Rightarrow> u64" where
  "event_deadline now timeout =
     (let ns = (if 0 < sint timeout then timeout * 32000 div 1989 else 0)
      in now + ns * 192 div 10000)"

definition ev_timed_test :: "u64 \<Rightarrow> u64 \<Rightarrow> host_event \<Rightarrow> (s32 \<times> host_event) option" where
  "ev_timed_test deadline now e =
     (if \<not> ev_signalled e then (if deadline \<le> now then Some (0, e) else None)
      else Some (1, ev_take e))"

text \<open>
  The whole call: \<open>tests\<close> gives for each turn of the loop the tick it reads and what the other threads do to the
  event during the one-millisecond wait that follows; \<open>None\<close> is a call still waiting after these turns.
\<close>

fun ev_timed_loop :: "u64 \<Rightarrow> (u64 \<times> (host_event \<Rightarrow> host_event)) list \<Rightarrow> host_event \<Rightarrow> (s32 \<times> host_event) option" where
  "ev_timed_loop deadline [] e = None"
| "ev_timed_loop deadline ((now, others) # tests) e =
     (case ev_timed_test deadline now e of
        Some r \<Rightarrow> Some r
      | None \<Rightarrow> ev_timed_loop deadline tests (others e))"

definition OSWaitEventWithTimeout ::
    "ptr \<Rightarrow> s64 \<Rightarrow> u64 \<Rightarrow> (u64 \<times> (host_event \<Rightarrow> host_event)) list \<Rightarrow> host_event table \<Rightarrow> (s32 \<times> host_event table) option" where
  "OSWaitEventWithTimeout event timeout start tests tab =
     (if event = null then Some (0, tab)
      else let (e, tab') = ht_get ev_init event tab in
           map_option (\<lambda>(r, e'). (r, ht_store event e' tab'))
             (ev_timed_loop (event_deadline start timeout) tests e))"

section \<open>Threads on one event\<close>

datatype ev_op = Ev_signal | Ev_signal_all | Ev_reset

definition ev_ops :: "(host_event, ev_op) monitor_ops" where
  "ev_ops = \<lparr>mo_ready = ev_signalled, mo_take = (\<lambda>t. ev_take),
     mo_op = (\<lambda>opn e. case opn of Ev_signal \<Rightarrow> snd (ev_signal e) | Ev_signal_all \<Rightarrow> snd (ev_signal_all e)
       | Ev_reset \<Rightarrow> ev_reset e),
     mo_wake = (\<lambda>opn e. case opn of Ev_signal \<Rightarrow> fst (ev_signal e) | Ev_signal_all \<Rightarrow> fst (ev_signal_all e)
       | Ev_reset \<Rightarrow> Wake_none)\<rparr>"

lemmas ev_defs = ev_ops_def ev_signal_def ev_signal_all_def ev_take_def ev_reset_def

definition ev_avail :: "host_event \<Rightarrow> enat" where
  "ev_avail e = (if ev_signalled e then (if ev_autoReset e then 1 else \<infinity>) else 0)"

interpretation ev: no_lost_wakeup ev_ops "\<lambda>e. True" ev_avail
proof unfold_locales
  fix e :: host_event and opn t
  show "mo_ready ev_ops e \<longleftrightarrow> ev_avail e \<noteq> 0" by (simp add: ev_defs ev_avail_def)
  show "ev_avail (mo_take ev_ops t e) \<le> ev_avail e - 1" if "mo_ready ev_ops e"
    using that by (simp add: ev_defs ev_avail_def)
  show "ev_avail (mo_op ev_ops opn e) \<le> ev_avail e" if "mo_wake ev_ops opn e = Wake_none"
    using that by (cases opn) (auto simp: ev_defs ev_avail_def Let_def split: if_splits)
  show "ev_avail (mo_op ev_ops opn e) \<le> ev_avail e + 1" if "mo_wake ev_ops opn e = Wake_one"
    using that by (cases opn) (auto simp: ev_defs ev_avail_def Let_def split: if_splits)
qed simp_all

lemma ev_op_mode [simp]: "ev_autoReset (mo_op ev_ops opn e) = ev_autoReset e"
  "ev_autoReset (mo_take ev_ops t e) = ev_autoReset e"
  by (cases opn) (simp_all add: ev_defs Let_def)

lemma ev_run_mode: "mon_run ev_ops as m = Some m' \<Longrightarrow> ev_autoReset (mon_shared m') = ev_autoReset (mon_shared m)"
  by (erule mon_run_shared [where P = "\<lambda>e. ev_autoReset e = ev_autoReset (mon_shared m)"]) simp_all

section \<open>The timed wait\<close>

text \<open>
  What the \<open>i\<close>th turn of the timed wait finds: the event as the other threads left it during the waits before.
\<close>

definition ev_at_turn :: "host_event \<Rightarrow> (u64 \<times> (host_event \<Rightarrow> host_event)) list \<Rightarrow> nat \<Rightarrow> host_event" where
  "ev_at_turn e tests i = fold (\<lambda>test e. snd test e) (take i tests) e"

lemma ev_at_turn_simps [simp]:
  "ev_at_turn e tests 0 = e"
  "ev_at_turn e (test # tests) (Suc i) = ev_at_turn (snd test e) tests i"
  by (simp_all add: ev_at_turn_def)

lemma ev_timed_exact:
  assumes "\<exists>test \<in> set tests. deadline \<le> fst test"
  shows "\<exists>i < length tests.
    (\<forall>j < i. \<not> ev_signalled (ev_at_turn e tests j) \<and> fst (tests ! j) < deadline) \<and>
    (if ev_signalled (ev_at_turn e tests i)
     then ev_timed_loop deadline tests e = Some (1, ev_take (ev_at_turn e tests i))
     else deadline \<le> fst (tests ! i) \<and> ev_timed_loop deadline tests e = Some (0, ev_at_turn e tests i))"
  using assms
proof (induction deadline tests e rule: ev_timed_loop.induct)
  case (2 deadline now others tests e)
  show ?case
  proof (cases "ev_timed_test deadline now e")
    case None
    then have n: "\<not> ev_signalled e" "now < deadline" by (auto simp: ev_timed_test_def split: if_splits)
    with 2 None obtain i where i: "i < length tests"
      "\<forall>j < i. \<not> ev_signalled (ev_at_turn (others e) tests j) \<and> fst (tests ! j) < deadline"
      "if ev_signalled (ev_at_turn (others e) tests i)
       then ev_timed_loop deadline tests (others e) = Some (1, ev_take (ev_at_turn (others e) tests i))
       else deadline \<le> fst (tests ! i) \<and> ev_timed_loop deadline tests (others e) = Some (0, ev_at_turn (others e) tests i)"
      by auto
    have "\<forall>j < Suc i. \<not> ev_signalled (ev_at_turn e ((now, others) # tests) j) \<and>
        fst (((now, others) # tests) ! j) < deadline"
      using i(2) n by (auto simp: less_Suc_eq_0_disj)
    with i(1,3) None show ?thesis by (intro exI [of _ "Suc i"]) simp
  next
    case (Some p)
    then show ?thesis by (intro exI [of _ 0]) (auto simp: ev_timed_test_def split: if_splits)
  qed
qed simp

text \<open>
  The deadline in host ticks: for timeouts below \<open>2\<^sup>6\<^sup>4 / 32000\<close> ticks of the console's timer (107 days) it is never
  after the exact one and less than two host ticks before it.
\<close>

lemma unat_of_event_deadline:
  assumes "0 < sint timeout" "unat timeout < 576460752303424"
  shows "unat (event_deadline 0 timeout) = unat timeout * 32000 div 1989 * 192 div 10000"
proof -
  have a: "unat (timeout * 32000) = unat timeout * 32000"
    using assms(2) by (subst unat_mult_lem [THEN iffD1]) simp_all
  have b: "unat timeout * 32000 div 1989 * 192 < 18446744073709551616"
  proof -
    have "unat timeout * 32000 div 1989 * 1989 \<le> unat timeout * 32000" by simp
    then show ?thesis using assms(2) by linarith
  qed
  then have "unat (timeout * 32000 div 1989 * 192) = unat timeout * 32000 div 1989 * 192"
    by (subst unat_mult_lem [THEN iffD1]) (simp_all add: unat_div a)
  with assms(1) show ?thesis by (simp add: event_deadline_def Let_def unat_div)
qed

lemma event_deadline_ticks:
  assumes "0 < sint timeout" "unat timeout < 576460752303424"
  shows "let d = unat (event_deadline start timeout - start) in
    3315 * d \<le> 1024 * unat timeout \<and> 1024 * unat timeout < 3315 * (d + 2)"
proof -
  have d: "event_deadline start timeout - start = event_deadline 0 timeout"
    by (simp add: event_deadline_def Let_def)
  have "3315 * (t * 32000 div 1989 * 192 div 10000) \<le> 1024 * t \<and>
      1024 * t < 3315 * (t * 32000 div 1989 * 192 div 10000 + 2)" for t :: nat
  proof -
    define n where "n = t * 32000 div 1989"
    define d where "d = n * 192 div 10000"
    have "1989 * n \<le> 32000 * t" "32000 * t < 1989 * n + 1989"
      unfolding n_def by (simp_all add: dividend_less_times_div mult.commute add.commute)
    moreover have "10000 * d \<le> 192 * n" "192 * n < 10000 * d + 10000"
      unfolding d_def by (simp_all add: dividend_less_times_div mult.commute add.commute)
    ultimately have "3315 * d \<le> 1024 * t" "1024 * t < 3315 * d + 6630" by linarith+
    then show ?thesis unfolding d_def n_def by simp
  qed
  then show ?thesis by (simp add: d Let_def unat_of_event_deadline [OF assms])
qed

section \<open>Properties\<close>

definition ev_signals :: "ev_op mon_act list \<Rightarrow> nat" where
  "ev_signals as = length (filter (\<lambda>a. \<exists>who. a = M_op Ev_signal who) as)"

text \<open>A signalled manual-reset event nobody sleeps on, and what a step that does not reset it does.\<close>

definition ev_released :: "host_event monitor \<Rightarrow> bool" where
  "ev_released m \<longleftrightarrow> \<not> ev_autoReset (mon_shared m) \<and> ev_signalled (mon_shared m) \<and> mon_asleep m = []"

lemma released_step:
  assumes "ev_released m1" "mon_step ev_ops a m1 = Some m2" "\<forall>who. a \<noteq> M_op Ev_reset who"
  shows "ev_released m2 \<and> set (mon_done m1) \<subseteq> set (mon_done m2) \<and>
    set (mon_awake m1) \<subseteq> set (mon_awake m2) \<union> set (mon_done m2) \<and> (\<forall>t. a = M_test t \<longrightarrow> t \<in> set (mon_done m2))"
proof (cases a)
  case (M_op opn who)
  with assms show ?thesis
    by (cases opn) (auto simp: ev_defs ev_released_def Let_def split: option.splits if_splits)
next
  case (M_test t)
  have "x \<in> set (remove1 t xs)" if "x \<in> set xs" "x \<noteq> t" for x and xs :: "tid list"
    using that by simp
  with M_test assms show ?thesis
    by (auto simp: ev_defs ev_released_def split: if_splits)
qed (use assms in \<open>auto simp: ev_defs ev_released_def split: if_splits\<close>)

lemma released_run:
  assumes "ev_released m1" "mon_run ev_ops as m1 = Some m2" "\<forall>a \<in> set as. \<forall>who. a \<noteq> M_op Ev_reset who"
  shows "ev_released m2 \<and> set (mon_done m1) \<subseteq> set (mon_done m2) \<and>
    set (mon_awake m1) \<subseteq> set (mon_awake m2) \<union> set (mon_done m2) \<and>
    (\<forall>t. M_test t \<in> set as \<longrightarrow> t \<in> set (mon_done m2))"
  using assms
proof (induction as arbitrary: m1)
  case (Cons a as)
  then obtain m where m: "mon_step ev_ops a m1 = Some m" "mon_run ev_ops as m = Some m2"
    by (auto split: option.splits)
  have s: "ev_released m \<and> set (mon_done m1) \<subseteq> set (mon_done m) \<and>
    set (mon_awake m1) \<subseteq> set (mon_awake m) \<union> set (mon_done m) \<and> (\<forall>t. a = M_test t \<longrightarrow> t \<in> set (mon_done m))"
    using Cons.prems by (intro released_step [OF _ m(1)]) auto
  from Cons.IH [OF _ m(2)] this Cons.prems(3) show ?case by auto
qed simp

text \<open>
  A signal to a manual-reset event releases every waiter: until the event is reset, no thread that was asleep or
  enters the wait is left asleep, and each returns at its next test.
\<close>

theorem OSSignalEvent_manual_releases_all:
  assumes "\<not> ev_autoReset (mon_shared m)"
    and "mon_run ev_ops (M_op Ev_signal who # as) m = Some m'" and "\<forall>a \<in> set as. \<forall>who. a \<noteq> M_op Ev_reset who"
  shows "mon_asleep m' = [] \<and> ev_signalled (mon_shared m') \<and>
    (\<forall>t. M_test t \<in> set as \<longrightarrow> t \<in> set (mon_done m')) \<and>
    set (mon_asleep m) \<subseteq> set (mon_awake m') \<union> set (mon_done m')"
proof -
  obtain m1 where m1: "mon_step ev_ops (M_op Ev_signal who) m = Some m1" "mon_run ev_ops as m1 = Some m'"
    using assms(2) by (auto split: option.splits)
  then have "ev_released m1" "set (mon_asleep m) \<subseteq> set (mon_awake m1)"
    using assms(1) by (auto simp: ev_defs Let_def ev_released_def)
  then show ?thesis
    using released_run [OF _ m1(2) assms(3)] by (auto simp: ev_released_def)
qed

theorem OSSignalEvent_manual_releases_all_witness:
  "\<exists>m'. mon_run ev_ops [M_enter 1, M_enter 2, M_test 1, M_test 2] (mon_start ev_init) = Some m' \<and>
     mon_asleep m' = [1, 2] \<and>
     (\<exists>m''. mon_run ev_ops (M_op Ev_signal None # [M_test 2, M_enter 3, M_test 3, M_test 1]) m' = Some m'' \<and>
        mon_asleep m'' = [] \<and> {1, 2, 3} \<subseteq> set (mon_done m''))"
proof -
  let ?as = "[M_test 2, M_enter 3, M_test 3, M_test 1]"
  obtain m' m'' where m: "mon_run ev_ops [M_enter 1, M_enter 2, M_test 1, M_test 2] (mon_start ev_init) = Some m'"
    "mon_asleep m' = [1, 2]" "\<not> ev_autoReset (mon_shared m')"
    "mon_run ev_ops (M_op Ev_signal None # ?as) m' = Some m''"
    by (simp add: ev_defs mon_start_def ev_init_def Let_def)
  then show ?thesis
    using OSSignalEvent_manual_releases_all [OF m(3,4)] by auto
qed


lemma auto_run_done:
  "mon_run ev_ops as m = Some m' \<Longrightarrow> ev_autoReset (mon_shared m) \<Longrightarrow>
     length (mon_done m') + (if ev_signalled (mon_shared m') then 1 else 0) \<le>
       length (mon_done m) + (if ev_signalled (mon_shared m) then 1 else 0) + ev_signals as"
proof (induction as arbitrary: m)
  case (Cons a as)
  then obtain m1 where m1: "mon_step ev_ops a m = Some m1" "mon_run ev_ops as m1 = Some m'"
    by (auto split: option.splits)
  have "ev_autoReset (mon_shared m1)"
    using m1(1) Cons.prems(2) ev_run_mode [of "[a]" m m1] by simp
  moreover have "length (mon_done m1) + (if ev_signalled (mon_shared m1) then 1 else 0) \<le>
      length (mon_done m) + (if ev_signalled (mon_shared m) then 1 else 0) + ev_signals [a]"
  proof (cases a)
    case (M_op opn who)
    with m1(1) Cons.prems(2) show ?thesis
      by (cases opn) (auto simp: ev_defs ev_signals_def Let_def split: option.splits if_splits)
  qed (use m1(1) Cons.prems(2) in \<open>auto simp: ev_defs split: if_splits\<close>)
  moreover have "ev_signals (a # as) = ev_signals [a] + ev_signals as" by (simp add: ev_signals_def)
  ultimately show ?case using Cons.IH [OF m1(2)] by simp
qed (simp add: ev_signals_def)

text \<open>
  The signals of a run that find the event clear, so that each makes one wait possible, and the resets that find it
  signalled, so that each takes one back.
\<close>

fun ev_raised :: "ev_op mon_act list \<Rightarrow> host_event monitor \<Rightarrow> nat" where
  "ev_raised [] m = 0"
| "ev_raised (a # as) m =
     (case mon_step ev_ops a m of
        None \<Rightarrow> 0
      | Some m' \<Rightarrow>
          (case a of M_op Ev_signal who \<Rightarrow> if ev_signalled (mon_shared m) then 0 else 1 | _ \<Rightarrow> 0) + ev_raised as m')"

fun ev_cleared :: "ev_op mon_act list \<Rightarrow> host_event monitor \<Rightarrow> nat" where
  "ev_cleared [] m = 0"
| "ev_cleared (a # as) m =
     (case mon_step ev_ops a m of
        None \<Rightarrow> 0
      | Some m' \<Rightarrow>
          (case a of M_op Ev_reset who \<Rightarrow> if ev_signalled (mon_shared m) then 1 else 0 | _ \<Rightarrow> 0) + ev_cleared as m')"

abbreviation ev_flag :: "host_event \<Rightarrow> nat" where
  "ev_flag e \<equiv> (if ev_signalled e then 1 else 0)"

lemma ev_raised_signals: "ev_raised as m \<le> ev_signals as"
proof (induction as arbitrary: m)
  case (Cons a as)
  show ?case
  proof (cases a)
    case (M_op opn who)
    then show ?thesis
      using Cons.IH by (cases opn) (auto simp: ev_signals_def intro: le_SucI split: option.split)
  qed (use Cons.IH in \<open>auto simp: ev_signals_def split: option.split\<close>)
qed simp

lemma auto_step_counts:
  assumes "mon_step ev_ops a m = Some m'" "ev_autoReset (mon_shared m)" "\<forall>who. a \<noteq> M_op Ev_signal_all who"
  shows "length (mon_done m') + ev_flag (mon_shared m') + ev_cleared [a] m =
    length (mon_done m) + ev_flag (mon_shared m) + ev_raised [a] m"
proof (cases a)
  case (M_op opn who)
  with assms show ?thesis
    by (cases opn) (auto simp: ev_defs Let_def split: option.splits if_splits)
qed (use assms in \<open>auto simp: ev_defs split: if_splits\<close>)

lemma auto_run_counts:
  "mon_run ev_ops as m = Some m' \<Longrightarrow> ev_autoReset (mon_shared m) \<Longrightarrow> \<forall>a \<in> set as. \<forall>who. a \<noteq> M_op Ev_signal_all who \<Longrightarrow>
     length (mon_done m') + ev_flag (mon_shared m') + ev_cleared as m =
       length (mon_done m) + ev_flag (mon_shared m) + ev_raised as m"
proof (induction as arbitrary: m)
  case (Cons a as)
  then obtain m1 where m1: "mon_step ev_ops a m = Some m1" "mon_run ev_ops as m1 = Some m'"
    by (auto split: option.splits)
  have mode: "ev_autoReset (mon_shared m1)"
    using m1(1) Cons.prems(2) ev_run_mode [of "[a]" m m1] by simp
  have one: "length (mon_done m1) + ev_flag (mon_shared m1) + ev_cleared [a] m =
    length (mon_done m) + ev_flag (mon_shared m) + ev_raised [a] m"
    using Cons.prems by (intro auto_step_counts [OF m1(1)]) auto
  moreover have "ev_cleared (a # as) m = ev_cleared [a] m + ev_cleared as m1"
    "ev_raised (a # as) m = ev_raised [a] m + ev_raised as m1"
    using m1(1) by simp_all
  ultimately show ?case using Cons.IH [OF m1(2) mode] Cons.prems(3) by simp
qed simp

text \<open>
  C13: On an auto-reset event used without \<^verbatim>\<open>OSSignalEventAll\<close> no signal is lost and none counts twice: under every
  interleaving of waits, signals and resets the waits that have returned are exactly the signals that found the event
  clear, plus one if it started signalled, less the resets that took a signal back and the one still pending; so at
  most one waiter goes for each signal. And no wake-up is lost: when every awake waiter has tested and some thread
  still sleeps, the event is not signalled.
\<close>

theorem OSSignalEvent_auto_releases_one:
  assumes "mon_run ev_ops as (mon_start e) = Some m" and "ev_autoReset e"
    and "\<forall>a \<in> set as. \<forall>who. a \<noteq> M_op Ev_signal_all who"
  shows "length (mon_done m) + (if ev_signalled (mon_shared m) then 1 else 0) + ev_cleared as (mon_start e) =
      (if ev_signalled e then 1 else 0) + ev_raised as (mon_start e) \<and>
    length (mon_done m) \<le> (if ev_signalled e then 1 else 0) + ev_signals as \<and>
    (mon_awake m = [] \<and> mon_asleep m \<noteq> [] \<longrightarrow> \<not> ev_signalled (mon_shared m))"
proof -
  have "length (mon_done m) + ev_flag (mon_shared m) + ev_cleared as (mon_start e) =
      ev_flag e + ev_raised as (mon_start e)"
    using auto_run_counts [OF assms(1) _ assms(3)] assms(2) by (simp add: mon_start_def)
  then show ?thesis
    using ev_raised_signals [of as "mon_start e"] ev.no_sleeper_forgotten [OF TrueI assms(1)]
    by (simp add: ev_ops_def)
qed

theorem OSSignalEvent_auto_releases_one_witness:
  "\<exists>m. mon_run ev_ops [M_enter 1, M_enter 2, M_test 1, M_test 2, M_op Ev_signal (Some 2), M_op Ev_signal (Some 1),
      M_test 1, M_test 2] (mon_start \<lparr>ev_signalled = False, ev_autoReset = True\<rparr>) = Some m \<and>
     length (mon_done m) = 1 \<and> mon_asleep m = [2] \<and> \<not> ev_signalled (mon_shared m)"
proof -
  let ?e = "\<lparr>ev_signalled = False, ev_autoReset = True\<rparr>"
  define as where "as = [M_enter 1, M_enter 2, M_test 1, M_test 2, M_op Ev_signal (Some 2), M_op Ev_signal (Some 1),
    M_test 1, M_test (2 :: tid)]"
  obtain m where m: "mon_run ev_ops as (mon_start ?e) = Some m" "mon_asleep m = [2]" "mon_awake m = []"
    "ev_raised as (mon_start ?e) = 1" "ev_cleared as (mon_start ?e) = 0" "\<forall>a \<in> set as. \<forall>who. a \<noteq> M_op Ev_signal_all who"
    by (simp add: ev_defs mon_start_def as_def)
  then show ?thesis
    using OSSignalEvent_auto_releases_one [OF m(1) _ m(6)] unfolding as_def [symmetric] by auto
qed

text \<open>
  \<^verbatim>\<open>OSSignalEventAll\<close> on an auto-reset event releases no one: it clears the event before any woken thread can test
  it, so, however the threads run afterwards, no wait returns until another signal comes. The comment at the call,
  and wut, say that all waiting threads are released.
\<close>

theorem OSSignalEventAll_auto_releases_none:
  assumes "ev_autoReset (mon_shared m)" and "mon_run ev_ops (M_op Ev_signal_all who # as) m = Some m'"
    and "ev_signals as = 0"
  shows "mon_done m' = mon_done m"
proof -
  obtain m1 where m1: "mon_step ev_ops (M_op Ev_signal_all who) m = Some m1" "mon_run ev_ops as m1 = Some m'"
    using assms(2) by (auto split: option.splits)
  have "ev_autoReset (mon_shared m1)" "\<not> ev_signalled (mon_shared m1)" "mon_done m1 = mon_done m"
    using m1(1) assms(1) by (auto simp: ev_defs Let_def)
  then have "length (mon_done m') \<le> length (mon_done m)"
    using auto_run_done [OF m1(2)] assms(3) by simp
  moreover have "\<exists>ds. mon_done m' = mon_done m @ ds"
    using mon_run_done [OF assms(2)] .
  ultimately show ?thesis by auto
qed

theorem OSSignalEventAll_auto_releases_none_witness:
  "\<exists>m m'. mon_run ev_ops [M_enter 1, M_enter 2, M_test 1, M_test 2]
      (mon_start \<lparr>ev_signalled = False, ev_autoReset = True\<rparr>) = Some m \<and>
     mon_run ev_ops (M_op Ev_signal_all None # [M_test 1, M_test 2]) m = Some m' \<and>
     mon_done m' = [] \<and> mon_asleep m' = [1, 2]"
proof -
  let ?e = "\<lparr>ev_signalled = False, ev_autoReset = True\<rparr>"
  obtain m m' where m: "mon_run ev_ops [M_enter 1, M_enter 2, M_test 1, M_test 2] (mon_start ?e) = Some m"
    "ev_autoReset (mon_shared m)" "mon_done m = []"
    "mon_run ev_ops (M_op Ev_signal_all None # [M_test 1, M_test 2]) m = Some m'" "mon_asleep m' = [1, 2]"
    by (simp add: ev_defs mon_start_def Let_def)
  then show ?thesis
    using OSSignalEventAll_auto_releases_none [OF m(2,4)] by (simp add: ev_signals_def)
qed

text \<open>
  C30: A timed wait whose loop comes to read the deadline returns, and its result is exact: it ends at the first turn
  that finds the event signalled or, being not signalled, reads a tick at or after the deadline. If that turn finds
  the event signalled, even past the deadline, the call returns 1 and takes the signal (an auto-reset event is
  cleared); otherwise it returns 0 and leaves the event as it is. For timeouts below 576460752303424 ticks of the
  console's timer, the deadline is at most the exact conversion \<open>timeout * 1024 / 3315\<close> into host ticks and less than
  two ticks under it.
\<close>

theorem OSWaitEventWithTimeout_deadline:
  assumes "0 < sint timeout" and "unat timeout < 576460752303424" and "event \<noteq> null"
    and "\<exists>test \<in> set tests. event_deadline start timeout \<le> fst test"
  shows "(\<exists>i < length tests.
      (\<forall>j < i. \<not> ev_signalled (ev_at_turn (ht_host ev_init event tab) tests j) \<and>
         fst (tests ! j) < event_deadline start timeout) \<and>
      (if ev_signalled (ev_at_turn (ht_host ev_init event tab) tests i)
       then OSWaitEventWithTimeout event timeout start tests tab =
         Some (1, ht_store event (ev_take (ev_at_turn (ht_host ev_init event tab) tests i)) tab)
       else event_deadline start timeout \<le> fst (tests ! i) \<and>
         OSWaitEventWithTimeout event timeout start tests tab =
         Some (0, ht_store event (ev_at_turn (ht_host ev_init event tab) tests i) tab))) \<and>
    (let d = unat (event_deadline start timeout - start) in
       3315 * d \<le> 1024 * unat timeout \<and> 1024 * unat timeout < 3315 * (d + 2))"
proof -
  define e where "e = ht_host ev_init event tab"
  obtain i where "i < length tests"
    "\<forall>j < i. \<not> ev_signalled (ev_at_turn e tests j) \<and> fst (tests ! j) < event_deadline start timeout"
    "if ev_signalled (ev_at_turn e tests i)
     then ev_timed_loop (event_deadline start timeout) tests e = Some (1, ev_take (ev_at_turn e tests i))
     else event_deadline start timeout \<le> fst (tests ! i) \<and>
       ev_timed_loop (event_deadline start timeout) tests e = Some (0, ev_at_turn e tests i)"
    using ev_timed_exact [OF assms(4), of e] by blast
  then show ?thesis
    using assms(3) event_deadline_ticks [OF assms(1,2), of start] unfolding e_def [symmetric]
    by (auto simp: OSWaitEventWithTimeout_def ht_get_eq e_def [symmetric] split: if_splits intro!: exI [of _ i])
qed

text \<open>
  At the third turn, past the deadline, an auto-reset event signalled during the second wait is found and taken; with
  nobody signalling, the second turn, the first to read the deadline, ends the wait.
\<close>

theorem OSWaitEventWithTimeout_deadline_witness:
  "event_deadline 1000 62156250 = 19201000 \<and>
   OSWaitEventWithTimeout 64 62156250 1000 [(5000, id), (6000, \<lambda>e. snd (ev_signal e)), (19201000, id)]
     [64 \<mapsto> \<lparr>ev_signalled = False, ev_autoReset = True\<rparr>] = Some (1, [64 \<mapsto> \<lparr>ev_signalled = False, ev_autoReset = True\<rparr>]) \<and>
   fst (the (OSWaitEventWithTimeout 64 62156250 1000 [(5000, id), (19201000, id)] Map.empty)) = 0"
proof -
  let ?tests = "[(5000 :: u64, id), (6000, \<lambda>e. snd (ev_signal e)), (19201000, id)]"
  let ?e = "\<lparr>ev_signalled = False, ev_autoReset = True\<rparr>"
  have e: "event_deadline 1000 62156250 = 19201000" by (simp add: event_deadline_def Let_def sint_uint)
  have at: "ev_at_turn ?e ?tests 0 = ?e" "ev_at_turn ?e ?tests (Suc 0) = ?e"
    "ev_at_turn ?e ?tests (Suc (Suc 0)) = \<lparr>ev_signalled = True, ev_autoReset = True\<rparr>"
    by (simp_all add: ev_signal_def)
  have less: "(\<exists>i < length [x, y, z]. P i) \<longleftrightarrow> P 0 \<or> P (Suc 0) \<or> P (Suc (Suc 0))"
    "(\<exists>i < length [x, y]. P i) \<longleftrightarrow> P 0 \<or> P (Suc 0)" for P and x y z :: 'a
    by (auto simp: less_Suc_eq)
  have "OSWaitEventWithTimeout 64 62156250 1000 ?tests [64 \<mapsto> ?e] = Some (1, [64 \<mapsto> ?e])"
    using OSWaitEventWithTimeout_deadline [of 62156250 64 ?tests 1000 "[64 \<mapsto> ?e]", THEN conjunct1, unfolded less] e at
    by (auto simp: sint_uint ev_take_def ht_store_def)
  moreover have "fst (the (OSWaitEventWithTimeout 64 62156250 1000 [(5000, id), (19201000, id)] Map.empty)) = 0"
    using OSWaitEventWithTimeout_deadline [of 62156250 64 "[(5000, id), (19201000, id)]" 1000 Map.empty,
      THEN conjunct1, unfolded less] e
    by (auto simp: sint_uint ev_init_def)
  ultimately show ?thesis using e by blast
qed

text \<open>A timeout of 576460752303424 ticks, 107 days, wraps around and expires at once.\<close>

lemma event_deadline_wraps: "event_deadline now 576460752303424 = now"
  by (simp add: event_deadline_def Let_def)

end
