(* ===== verification/MessageQueue.thy ===== *)
theory MessageQueue
  imports HandleTable Monitor "HOL-Library.Multiset"
begin

text \<open>
  The message queues of \<^verbatim>\<open>source/messagequeue.cpp\<close>: a ring of messages kept on the host. \<open>host_queue\<close> is
  \<^verbatim>\<open>HostQueue\<close> without its libnx lock and condition variables. The content of the ring is the list \<open>mq_list\<close>,
  and the operations are those of a bounded list with insertion at both ends. \<open>None\<close> as the result of a blocking
  call is a call that has to wait; a null message pointer is the argument \<open>None\<close>.
\<close>

section \<open>State\<close>

record os_message =
  om_message :: ptr
  om_args :: "u32 \<times> u32 \<times> u32"

definition om_zero :: os_message where
  "om_zero = \<lparr>om_message = 0, om_args = (0, 0, 0)\<rparr>"

record host_queue =
  mq_ring :: "os_message list"
  mq_head :: u32
  mq_count :: u32
  mq_capacity :: u32

definition mq_init :: host_queue where
  "mq_init = \<lparr>mq_ring = [], mq_head = 0, mq_count = 0, mq_capacity = 0\<rparr>"

abbreviation (input) OS_MESSAGE_FLAGS_BLOCKING :: u32 where
  "OS_MESSAGE_FLAGS_BLOCKING \<equiv> 1"

abbreviation (input) OS_MESSAGE_FLAGS_HIGH_PRIORITY :: u32 where
  "OS_MESSAGE_FLAGS_HIGH_PRIORITY \<equiv> 2"

section \<open>Operations\<close>

definition OSInitMessageQueue :: "ptr \<Rightarrow> ptr \<Rightarrow> s32 \<Rightarrow> host_queue table \<Rightarrow> host_queue table" where
  "OSInitMessageQueue queue messages sz tab =
     (if queue = null \<or> sint sz \<le> 0 then tab
      else ht_update mq_init queue
        (\<lambda>q. q\<lparr>mq_capacity := sz, mq_ring := replicate (unat sz) om_zero, mq_head := 0, mq_count := 0\<rparr>) tab)"

definition OSInitMessageQueueEx :: "ptr \<Rightarrow> ptr \<Rightarrow> s32 \<Rightarrow> ptr \<Rightarrow> host_queue table \<Rightarrow> host_queue table" where
  "OSInitMessageQueueEx queue messages sz name tab = OSInitMessageQueue queue messages sz tab"

text \<open>The test of the send loop, and what follows it: insertion at the head or behind the last message.\<close>

definition mq_full :: "host_queue \<Rightarrow> bool" where
  "mq_full q \<longleftrightarrow> mq_capacity q \<le> mq_count q"

definition mq_push :: "u32 \<Rightarrow> os_message \<Rightarrow> host_queue \<Rightarrow> host_queue" where
  "mq_push flags msg q =
     (let q1 = (if flags AND OS_MESSAGE_FLAGS_HIGH_PRIORITY \<noteq> 0 then
                  let hd = (mq_head q + mq_capacity q - 1) mod mq_capacity q
                  in q\<lparr>mq_head := hd, mq_ring := (mq_ring q)[unat hd := msg]\<rparr>
                else q\<lparr>mq_ring := (mq_ring q)[unat ((mq_head q + mq_count q) mod mq_capacity q) := msg]\<rparr>)
      in q1\<lparr>mq_count := mq_count q1 + 1\<rparr>)"

text \<open>The body after the loop, up to the unlock: the message goes in and one sleeper on \<^verbatim>\<open>notEmpty\<close> is woken.\<close>

definition send_body :: "u32 \<Rightarrow> os_message \<Rightarrow> host_queue \<Rightarrow> wake \<times> host_queue" where
  "send_body flags msg q = (Wake_one, mq_push flags msg q)"

definition OSSendMessage ::
    "ptr \<Rightarrow> os_message option \<Rightarrow> u32 \<Rightarrow> host_queue table \<Rightarrow> (s32 \<times> host_queue table) option" where
  "OSSendMessage queue message flags tab =
     (case message of
        None \<Rightarrow> Some (0, tab)
      | Some msg \<Rightarrow>
          if queue = null then Some (0, tab)
          else let (q, tab') = ht_get mq_init queue tab in
               if mq_full q
               then (if flags AND OS_MESSAGE_FLAGS_BLOCKING = 0 then Some (0, tab') else None)
               else let (wk, q') = send_body flags msg q in Some (1, ht_store queue q' tab'))"

definition mq_empty :: "host_queue \<Rightarrow> bool" where
  "mq_empty q \<longleftrightarrow> mq_count q = 0"

definition mq_pop :: "host_queue \<Rightarrow> os_message \<times> host_queue" where
  "mq_pop q =
     (mq_ring q ! unat (mq_head q),
      q\<lparr>mq_head := (mq_head q + 1) mod mq_capacity q, mq_count := mq_count q - 1\<rparr>)"

text \<open>The body after the loop, up to the unlock: the message comes out and one sleeper on \<^verbatim>\<open>notFull\<close> is woken.\<close>

definition receive_body :: "host_queue \<Rightarrow> wake \<times> os_message \<times> host_queue" where
  "receive_body q = (Wake_one, mq_pop q)"

text \<open>The receiving calls also return what they write to \<^verbatim>\<open>*message\<close>, when they do.\<close>

definition OSReceiveMessage ::
    "ptr \<Rightarrow> ptr \<Rightarrow> u32 \<Rightarrow> host_queue table \<Rightarrow> (s32 \<times> os_message option \<times> host_queue table) option" where
  "OSReceiveMessage queue message flags tab =
     (if queue = null \<or> message = null then Some (0, None, tab)
      else let (q, tab') = ht_get mq_init queue tab in
           if mq_empty q
           then (if flags AND OS_MESSAGE_FLAGS_BLOCKING = 0 then Some (0, None, tab') else None)
           else let (wk, msg, q') = receive_body q in Some (1, Some msg, ht_store queue q' tab'))"

definition OSPeekMessage :: "ptr \<Rightarrow> ptr \<Rightarrow> host_queue table \<Rightarrow> s32 \<times> os_message option \<times> host_queue table" where
  "OSPeekMessage queue message tab =
     (if queue = null \<or> message = null then (0, None, tab)
      else let (q, tab') = ht_get mq_init queue tab; has = (0 < mq_count q)
           in (if has then 1 else 0, if has then Some (mq_ring q ! unat (mq_head q)) else None, tab'))"

text \<open>The system queue: a global at the address \<open>sys\<close>, initialised at its first use.\<close>

record mq_world =
  mw_queues :: "host_queue table"
  mw_systemQueueReady :: bool

definition OSGetSystemMessageQueue :: "ptr \<Rightarrow> mq_world \<Rightarrow> ptr \<times> mq_world" where
  "OSGetSystemMessageQueue sys w =
     (if \<not> mw_systemQueueReady w
      then (sys, w\<lparr>mw_queues := OSInitMessageQueue sys null 16 (mw_queues w), mw_systemQueueReady := True\<rparr>)
      else (sys, w))"

section \<open>The ring as a list\<close>

definition mq_wf :: "host_queue \<Rightarrow> bool" where
  "mq_wf q \<longleftrightarrow> length (mq_ring q) = unat (mq_capacity q) \<and> unat (mq_capacity q) < 2147483648 \<and>
     unat (mq_count q) \<le> unat (mq_capacity q) \<and>
     (mq_capacity q \<noteq> 0 \<longrightarrow> unat (mq_head q) < unat (mq_capacity q))"

definition ring_list :: "'a list \<Rightarrow> nat \<Rightarrow> nat \<Rightarrow> 'a list" where
  "ring_list r h n = map (\<lambda>i. r ! ((h + i) mod length r)) [0..<n]"

definition mq_list :: "host_queue \<Rightarrow> os_message list" where
  "mq_list q = ring_list (mq_ring q) (unat (mq_head q)) (unat (mq_count q))"

lemma length_ring_list [simp]: "length (ring_list r h n) = n"
  by (simp add: ring_list_def)

lemma ring_slot_less: "(h + i) mod k = (h + j) mod k \<Longrightarrow> i \<le> j \<Longrightarrow> j < (k::nat) \<Longrightarrow> i = j"
proof -
  assume "(h + i) mod k = (h + j) mod k" "i \<le> j" "j < k"
  then have "k dvd (h + j) - (h + i)" by (subst mod_eq_dvd_iff_nat [symmetric]) simp_all
  then have "k dvd j - i" by simp
  then show ?thesis using \<open>i \<le> j\<close> \<open>j < k\<close> by (auto dest: dvd_imp_le)
qed

lemma ring_slot_inj: "(h + i) mod k = (h + j) mod k \<Longrightarrow> i < k \<Longrightarrow> j < (k::nat) \<Longrightarrow> i = j"
  using ring_slot_less [of h i k j] ring_slot_less [of h j k i] by (cases "i \<le> j") auto

lemma ring_list_push_back:
  assumes "n < length r"
  shows "ring_list (r[(h + n) mod length r := m]) h (Suc n) = ring_list r h n @ [m]"
proof -
  have "r[(h + n) mod length r := m] ! ((h + i) mod length r) = r ! ((h + i) mod length r)" if "i < n" for i
    using ring_slot_inj [of h i "length r" n] that assms by (intro nth_list_update_neq) auto
  moreover have "(h + n) mod length r < length r" using assms by (intro mod_less_divisor) auto
  ultimately show ?thesis by (simp add: ring_list_def)
qed

lemma ring_list_push_front:
  assumes "n < length r" "h < length r"
  defines "h' \<equiv> (h + length r - 1) mod length r"
  shows "ring_list (r[h' := m]) h' (Suc n) = m # ring_list r h n"
proof -
  have h': "h' = (h + (length r - 1)) mod length r" using assms(1) by (simp add: h'_def)
  have lt: "h' < length r" unfolding h'_def using assms(1) by (intro mod_less_divisor) auto
  have step: "(h' + Suc i) mod length r = (h + i) mod length r" for i
  proof -
    have "(h' + Suc i) mod length r = (h + (length r - 1) + Suc i) mod length r"
      unfolding h' by (rule mod_add_left_eq)
    also have "h + (length r - 1) + Suc i = (h + i) + length r" using assms(1) by simp
    finally show ?thesis by (simp only: mod_add_self2)
  qed
  have ne: "r[h' := m] ! ((h + i) mod length r) = r ! ((h + i) mod length r)" if "i < n" for i
    using ring_slot_inj [of h i "length r" "length r - 1"] that assms(1) unfolding h'
    by (intro nth_list_update_neq) auto
  have "[0..<Suc n] = 0 # map Suc [0..<n]" by (simp add: map_Suc_upt upt_conv_Cons)
  then show ?thesis
    using ne step lt by (simp add: ring_list_def)
qed

lemma ring_list_pop: "ring_list r h (Suc n) = r ! (h mod length r) # ring_list r ((h + 1) mod length r) n"
proof -
  have "[0..<Suc n] = 0 # map Suc [0..<n]" by (simp add: map_Suc_upt upt_conv_Cons)
  then show ?thesis by (simp add: ring_list_def mod_add_left_eq)
qed

section \<open>The operations on the list\<close>

lemma mq_nonempty_ring: "mq_wf q \<Longrightarrow> mq_count q \<noteq> 0 \<or> \<not> mq_full q \<Longrightarrow> mq_capacity q \<noteq> 0"
  by (auto simp: mq_wf_def mq_full_def word_le_nat_alt word_pos_unat)

lemma mq_full_list: "mq_wf q \<Longrightarrow> mq_full q \<longleftrightarrow> length (mq_list q) = unat (mq_capacity q)"
  by (auto simp: mq_wf_def mq_full_def word_le_nat_alt mq_list_def)

lemma mq_empty_list: "mq_empty q \<longleftrightarrow> mq_list q = []"
  by (auto simp: mq_empty_def mq_list_def ring_list_def unat_eq_0)

lemma mq_push_list:
  assumes wf: "mq_wf q" and room: "\<not> mq_full q"
  shows "mq_wf (mq_push flags msg q)"
    and "mq_list (mq_push flags msg q) =
      (if flags AND OS_MESSAGE_FLAGS_HIGH_PRIORITY \<noteq> 0 then msg # mq_list q else mq_list q @ [msg])"
    and "mq_capacity (mq_push flags msg q) = mq_capacity q"
proof -
  define C where "C = unat (mq_capacity q)"
  define H where "H = unat (mq_head q)"
  define N where "N = unat (mq_count q)"
  have b: "length (mq_ring q) = C" "C < 2147483648" "N < C" "H < C"
    using wf room mq_nonempty_ring [OF wf] by (auto simp: mq_wf_def mq_full_def word_le_nat_alt C_def H_def N_def)
  have n: "unat (mq_count q + 1) = Suc N"
    using b by (subst unat_plus_u32) (simp_all add: N_def [symmetric])
  have "unat (mq_head q + mq_capacity q) = H + C"
    using b by (subst unat_plus_u32) (simp_all add: C_def [symmetric] H_def [symmetric])
  then have "unat (mq_head q + mq_capacity q - 1) = H + C - 1"
    using b by (subst unat_minus_nowrap) simp_all
  then have front: "unat ((mq_head q + mq_capacity q - 1) mod mq_capacity q) = (H + C - 1) mod C"
    by (simp add: unat_mod C_def)
  have "unat (mq_head q + mq_count q) = H + N"
    using b by (subst unat_plus_u32) (simp_all add: N_def [symmetric] H_def [symmetric])
  then have rear: "unat ((mq_head q + mq_count q) mod mq_capacity q) = (H + N) mod C"
    by (simp add: unat_mod C_def)
  have lt: "(H + C - 1) mod C < C" using b by simp
  show "mq_wf (mq_push flags msg q)" "mq_capacity (mq_push flags msg q) = mq_capacity q"
    using b n front lt by (simp_all add: mq_push_def mq_wf_def Let_def C_def [symmetric] H_def [symmetric])
  show "mq_list (mq_push flags msg q) =
      (if flags AND OS_MESSAGE_FLAGS_HIGH_PRIORITY \<noteq> 0 then msg # mq_list q else mq_list q @ [msg])"
    using b ring_list_push_back [of N "mq_ring q" H msg] ring_list_push_front [of N "mq_ring q" H msg]
    by (simp add: mq_push_def mq_list_def Let_def n front rear H_def [symmetric] N_def [symmetric])
qed

lemma mq_pop_list:
  assumes wf: "mq_wf q" and some: "\<not> mq_empty q"
  shows "mq_wf (snd (mq_pop q))" and "mq_list q = fst (mq_pop q) # mq_list (snd (mq_pop q))"
    and "mq_capacity (snd (mq_pop q)) = mq_capacity q"
proof -
  define C where "C = unat (mq_capacity q)"
  define H where "H = unat (mq_head q)"
  define N where "N = unat (mq_count q)"
  have "mq_count q \<noteq> 0" using some by (simp add: mq_empty_def)
  then have b: "length (mq_ring q) = C" "C < 2147483648" "0 < N" "N \<le> C" "H < C"
    using wf mq_nonempty_ring [OF wf] by (auto simp: mq_wf_def C_def H_def N_def word_pos_unat)
  have n: "unat (mq_count q - 1) = N - 1"
    using b by (subst unat_minus_nowrap) (simp_all add: N_def)
  have "unat (mq_head q + 1) = H + 1"
    using b by (subst unat_plus_u32) (simp_all add: H_def [symmetric])
  then have h: "unat ((mq_head q + 1) mod mq_capacity q) = (H + 1) mod C"
    by (simp add: unat_mod C_def)
  have lt: "Suc H mod C < C" using b by simp
  show "mq_wf (snd (mq_pop q))" "mq_capacity (snd (mq_pop q)) = mq_capacity q"
    using b n h lt by (simp_all add: mq_pop_def mq_wf_def C_def [symmetric])
  obtain N' where N': "N = Suc N'" using b(3) gr0_implies_Suc by blast
  show "mq_list q = fst (mq_pop q) # mq_list (snd (mq_pop q))"
    using b n h ring_list_pop [of "mq_ring q" H N']
    by (simp add: mq_pop_def mq_list_def H_def [symmetric] N_def [symmetric] N')
qed


section \<open>Waiting receivers and senders\<close>

text \<open>
  The condition variables \<^verbatim>\<open>notEmpty\<close> and \<^verbatim>\<open>notFull\<close>, seen from the threads that wait on each: every completed
  send is an operation on the receivers' side with the wake of \<open>send_body\<close>, every completed receive one on the senders'
  side with the wake of \<open>receive_body\<close>; a wake on the other condition variable is none on this one. \<open>what\<close> gives the
  flags and the message with which each thread sends.
\<close>

datatype recv_op = Send_done u32 os_message | Receive_now

definition recv_ops :: "(host_queue, recv_op) monitor_ops" where
  "recv_ops = \<lparr>mo_ready = (\<lambda>q. \<not> mq_empty q), mo_take = (\<lambda>t q. snd (snd (receive_body q))),
     mo_op = (\<lambda>opn q. case opn of Send_done flags msg \<Rightarrow> if mq_full q then q else snd (send_body flags msg q)
       | Receive_now \<Rightarrow> if mq_empty q then q else snd (snd (receive_body q))),
     mo_wake = (\<lambda>opn q. case opn of Send_done flags msg \<Rightarrow> if mq_full q then Wake_none else fst (send_body flags msg q)
       | Receive_now \<Rightarrow> Wake_none)\<rparr>"

datatype send_op = Receive_done | Send_now u32 os_message

definition send_ops :: "(tid \<Rightarrow> u32 \<times> os_message) \<Rightarrow> (host_queue, send_op) monitor_ops" where
  "send_ops what = \<lparr>mo_ready = (\<lambda>q. \<not> mq_full q), mo_take = (\<lambda>t q. snd (send_body (fst (what t)) (snd (what t)) q)),
     mo_op = (\<lambda>opn q. case opn of Receive_done \<Rightarrow> if mq_empty q then q else snd (snd (receive_body q))
       | Send_now flags msg \<Rightarrow> if mq_full q then q else snd (send_body flags msg q)),
     mo_wake = (\<lambda>opn q. case opn of Receive_done \<Rightarrow> if mq_empty q then Wake_none else fst (receive_body q)
       | Send_now flags msg \<Rightarrow> Wake_none)\<rparr>"

lemmas mq_bodies = send_body_def receive_body_def

lemma mq_push_count: "mq_wf q \<Longrightarrow> \<not> mq_full q \<Longrightarrow> length (mq_list (mq_push flags msg q)) = Suc (length (mq_list q))"
  by (simp add: mq_push_list)

lemma mq_pop_count: "mq_wf q \<Longrightarrow> \<not> mq_empty q \<Longrightarrow> Suc (length (mq_list (snd (mq_pop q)))) = length (mq_list q)"
  using mq_pop_list(2) [of q] by (metis length_Cons)

definition recv_avail :: "host_queue \<Rightarrow> enat" where
  "recv_avail q = enat (length (mq_list q))"

definition send_avail :: "host_queue \<Rightarrow> enat" where
  "send_avail q = enat (unat (mq_capacity q) - length (mq_list q))"

interpretation recv: no_lost_wakeup recv_ops mq_wf recv_avail
proof unfold_locales
  fix q opn t
  assume wf: "mq_wf q"
  note l = mq_push_count [OF wf] mq_pop_count [OF wf]
  show "mo_ready recv_ops q \<longleftrightarrow> recv_avail q \<noteq> 0"
    by (simp add: recv_ops_def mq_bodies recv_avail_def mq_empty_list zero_enat_def)
  show "mq_wf (mo_op recv_ops opn q)"
    using wf by (cases opn) (simp_all add: recv_ops_def mq_bodies mq_push_list mq_pop_list)
  show "mq_wf (mo_take recv_ops t q)" "recv_avail (mo_take recv_ops t q) \<le> recv_avail q - 1"
    if "mo_ready recv_ops q"
    using wf that l(2) by (simp_all add: recv_ops_def mq_bodies mq_pop_list recv_avail_def one_enat_def)
  show "recv_avail (mo_op recv_ops opn q) \<le> recv_avail q" if "mo_wake recv_ops opn q = Wake_none"
    using that l(2) by (cases opn) (auto simp: recv_ops_def mq_bodies recv_avail_def split: if_splits)
  show "recv_avail (mo_op recv_ops opn q) \<le> recv_avail q + 1" if "mo_wake recv_ops opn q = Wake_one"
    using that l(1) by (cases opn) (auto simp: recv_ops_def mq_bodies recv_avail_def one_enat_def split: if_splits)
qed

interpretation send: no_lost_wakeup "send_ops what" mq_wf send_avail for what
proof unfold_locales
  fix q opn t
  assume wf: "mq_wf q"
  note l = mq_push_count [OF wf] mq_pop_count [OF wf]
  have cap: "length (mq_list q) \<le> unat (mq_capacity q)" using wf by (simp add: mq_wf_def mq_list_def)
  show "mo_ready (send_ops what) q \<longleftrightarrow> send_avail q \<noteq> 0"
    using cap by (auto simp: send_ops_def mq_bodies send_avail_def mq_full_list [OF wf] zero_enat_def)
  show "mq_wf (mo_op (send_ops what) opn q)"
    using wf by (cases opn) (simp_all add: send_ops_def mq_bodies mq_push_list mq_pop_list)
  show "mq_wf (mo_take (send_ops what) t q)" "send_avail (mo_take (send_ops what) t q) \<le> send_avail q - 1"
    if "mo_ready (send_ops what) q"
    using wf that l(1) by (simp_all add: send_ops_def mq_bodies mq_push_list send_avail_def one_enat_def)
  show "send_avail (mo_op (send_ops what) opn q) \<le> send_avail q" if "mo_wake (send_ops what) opn q = Wake_none"
    using that l(1) by (cases opn) (auto simp: send_ops_def mq_bodies send_avail_def mq_push_list [OF wf] split: if_splits)
  show "send_avail (mo_op (send_ops what) opn q) \<le> send_avail q + 1" if "mo_wake (send_ops what) opn q = Wake_one"
    using that l(2) cap
    by (cases opn) (auto simp: send_ops_def mq_bodies send_avail_def mq_pop_list [OF wf] one_enat_def split: if_splits)
qed

section \<open>Sequences of calls\<close>

text \<open>
  Calls on the queue \<open>k\<close>, by any threads, in the order in which they hold its lock; a call that would have to wait
  has no effect (it is made again later). The result is the messages accepted, those received, and the table.
\<close>

datatype mq_call = Mq_send os_message u32 | Mq_receive u32 | Mq_peek

fun mq_run :: "ptr \<Rightarrow> mq_call list \<Rightarrow> host_queue table \<Rightarrow> os_message list \<times> os_message list \<times> host_queue table" where
  "mq_run k [] tab = ([], [], tab)"
| "mq_run k (Mq_send msg flags # cs) tab =
     (case OSSendMessage k (Some msg) flags tab of
        None \<Rightarrow> mq_run k cs tab
      | Some (r, tab') \<Rightarrow>
          let (sent, got, tab'') = mq_run k cs tab' in ((if r = 1 then msg # sent else sent), got, tab''))"
| "mq_run k (Mq_receive flags # cs) tab =
     (case OSReceiveMessage k 1 flags tab of
        None \<Rightarrow> mq_run k cs tab
      | Some (r, m, tab') \<Rightarrow>
          let (sent, got, tab'') = mq_run k cs tab' in (sent, (case m of Some msg \<Rightarrow> msg # got | None \<Rightarrow> got), tab''))"
| "mq_run k (Mq_peek # cs) tab = mq_run k cs (snd (snd (OSPeekMessage k 1 tab)))"

lemma send_live:
  "k \<noteq> null \<Longrightarrow> tab k = Some q \<Longrightarrow> OSSendMessage k (Some msg) flags tab =
     (if mq_full q then if flags AND 1 = 0 then Some (0, tab) else None
      else Some (1, ht_store k (mq_push flags msg q) tab))"
  by (simp add: OSSendMessage_def send_body_def ht_get_def Let_def)

lemma receive_live:
  "k \<noteq> null \<Longrightarrow> tab k = Some q \<Longrightarrow> p \<noteq> null \<Longrightarrow> OSReceiveMessage k p flags tab =
     (if mq_empty q then if flags AND 1 = 0 then Some (0, None, tab) else None
      else Some (1, Some (fst (mq_pop q)), ht_store k (snd (mq_pop q)) tab))"
  by (simp add: OSReceiveMessage_def receive_body_def ht_get_def Let_def case_prod_beta)

lemma peek_live:
  "k \<noteq> null \<Longrightarrow> tab k = Some q \<Longrightarrow> p \<noteq> null \<Longrightarrow> mq_wf q \<Longrightarrow> OSPeekMessage k p tab =
     (case mq_list q of [] \<Rightarrow> (0, None, tab) | m # ms \<Rightarrow> (1, Some m, tab))"
proof -
  assume k: "k \<noteq> null" "tab k = Some q" "p \<noteq> null" "mq_wf q"
  have "0 < mq_count q \<longleftrightarrow> mq_list q \<noteq> []"
    using mq_empty_list [of q] by (auto simp: mq_empty_def word_neq_0_conv)
  with k show ?thesis
    using mq_pop_list(2) [OF k(4)] mq_empty_list [of q]
    by (cases "mq_list q") (auto simp: OSPeekMessage_def ht_get_def Let_def mq_pop_def)
qed

fun low_priority :: "mq_call \<Rightarrow> bool" where
  "low_priority (Mq_send msg flags) \<longleftrightarrow> flags AND OS_MESSAGE_FLAGS_HIGH_PRIORITY = 0"
| "low_priority c \<longleftrightarrow> True"

lemma mq_run_list:
  assumes "k \<noteq> null" "mq_run k cs tab = (sent, got, tab')" "tab k = Some q" "mq_wf q"
  shows "\<exists>q'. tab' k = Some q' \<and> mq_wf q' \<and> mq_capacity q' = mq_capacity q \<and>
    mset sent + mset (mq_list q) = mset got + mset (mq_list q') \<and>
    (list_all low_priority cs \<longrightarrow> mq_list q @ sent = got @ mq_list q')"
  using assms(2-4)
proof (induction cs arbitrary: tab sent got q)
  case (Cons c cs)
  show ?case
  proof (cases c)
    case (Mq_send msg flags)
    show ?thesis
    proof (cases "mq_full q")
      case True
      with Cons.prems Mq_send have "mq_run k cs tab = (sent, got, tab')"
        by (auto simp: send_live [OF assms(1)] split: if_splits)
      from Cons.IH [OF this Cons.prems(2,3)] show ?thesis by auto
    next
      case False
      with Cons.prems Mq_send obtain sent1 where "sent = msg # sent1"
        and "mq_run k cs (ht_store k (mq_push flags msg q) tab) = (sent1, got, tab')"
        by (auto simp: send_live [OF assms(1)] split: prod.splits)
      with Cons.IH [of "ht_store k (mq_push flags msg q) tab" sent1 got "mq_push flags msg q"] show ?thesis
        using mq_push_list [OF Cons.prems(3) False, of flags msg] Mq_send by (auto split: if_splits)
    qed
  next
    case (Mq_receive flags)
    show ?thesis
    proof (cases "mq_empty q")
      case True
      with Cons.prems Mq_receive have "mq_run k cs tab = (sent, got, tab')"
        by (auto simp: receive_live [OF assms(1)] split: if_splits)
      from Cons.IH [OF this Cons.prems(2,3)] Mq_receive show ?thesis by auto
    next
      case False
      with Cons.prems Mq_receive obtain got1 where "got = fst (mq_pop q) # got1"
        and "mq_run k cs (ht_store k (snd (mq_pop q)) tab) = (sent, got1, tab')"
        by (auto simp: receive_live [OF assms(1)] split: prod.splits)
      with Cons.IH [of "ht_store k (snd (mq_pop q)) tab" sent got1 "snd (mq_pop q)"] show ?thesis
        using mq_pop_list [OF Cons.prems(3) False] Mq_receive by auto
    qed
  next
    case Mq_peek
    with Cons.prems have "mq_run k cs tab = (sent, got, tab')"
      by (auto simp: peek_live [OF assms(1)] split: list.splits)
    from Cons.IH [OF this Cons.prems(2,3)] Mq_peek show ?thesis by auto
  qed
qed auto

section \<open>Properties\<close>

text \<open>
  C9: Each operation on the ring is the operation of a bounded list: a send to a full queue is refused (or waits, if
  blocking), otherwise it appends the message, or puts it in front if it has high priority; a receive takes the first
  message, and waits or returns 0 on an empty queue; a peek returns the first message and changes nothing.
\<close>

theorem MessageQueue_refines_list:
  assumes "k \<noteq> null" and "p \<noteq> null" and "tab k = Some q" and "mq_wf q"
  shows "OSSendMessage k (Some msg) flags tab =
      (if length (mq_list q) = unat (mq_capacity q)
       then if flags AND OS_MESSAGE_FLAGS_BLOCKING = 0 then Some (0, tab) else None
       else Some (1, ht_store k (mq_push flags msg q) tab)) \<and>
    (length (mq_list q) < unat (mq_capacity q) \<longrightarrow> mq_wf (mq_push flags msg q) \<and> mq_list (mq_push flags msg q) =
       (if flags AND OS_MESSAGE_FLAGS_HIGH_PRIORITY \<noteq> 0 then msg # mq_list q else mq_list q @ [msg])) \<and>
    OSReceiveMessage k p flags tab =
      (case mq_list q of
         [] \<Rightarrow> if flags AND OS_MESSAGE_FLAGS_BLOCKING = 0 then Some (0, None, tab) else None
       | m # ms \<Rightarrow> Some (1, Some m, ht_store k (snd (mq_pop q)) tab)) \<and>
    (mq_list q \<noteq> [] \<longrightarrow> mq_wf (snd (mq_pop q)) \<and> mq_list (snd (mq_pop q)) = tl (mq_list q)) \<and>
    OSPeekMessage k p tab = (case mq_list q of [] \<Rightarrow> (0, None, tab) | m # ms \<Rightarrow> (1, Some m, tab))"
proof -
  note wf = assms(4)
  have s: "OSSendMessage k (Some msg) flags tab =
      (if length (mq_list q) = unat (mq_capacity q)
       then if flags AND OS_MESSAGE_FLAGS_BLOCKING = 0 then Some (0, tab) else None
       else Some (1, ht_store k (mq_push flags msg q) tab))"
    using send_live [where tab = tab, OF assms(1,3)] mq_full_list [OF wf] by simp
  have p: "mq_wf (mq_push flags msg q) \<and> mq_list (mq_push flags msg q) =
       (if flags AND OS_MESSAGE_FLAGS_HIGH_PRIORITY \<noteq> 0 then msg # mq_list q else mq_list q @ [msg])"
    if "length (mq_list q) < unat (mq_capacity q)"
    using mq_push_list [OF wf] mq_full_list [OF wf] that by simp
  have r: "OSReceiveMessage k p flags tab =
      (case mq_list q of
         [] \<Rightarrow> if flags AND OS_MESSAGE_FLAGS_BLOCKING = 0 then Some (0, None, tab) else None
       | m # ms \<Rightarrow> Some (1, Some m, ht_store k (snd (mq_pop q)) tab))"
    using receive_live [where tab = tab, OF assms(1,3,2)] mq_empty_list [of q] mq_pop_list(2) [OF wf]
    by (cases "mq_list q") auto
  have "mq_wf (snd (mq_pop q)) \<and> mq_list (snd (mq_pop q)) = tl (mq_list q)" if "mq_list q \<noteq> []"
    using mq_pop_list [OF wf] mq_empty_list [of q] that by simp
  with s p r show ?thesis using peek_live [where tab = tab, OF assms(1,3,2) wf] by simp
qed

definition mq_demo :: "host_queue table" where
  "mq_demo = OSInitMessageQueue 0x40 0 2 Map.empty"

definition msg_of :: "ptr \<Rightarrow> os_message" where
  "msg_of p = \<lparr>om_message = p, om_args = (0, 0, 0)\<rparr>"

lemma mq_demo_queue:
  "mq_demo 0x40 = Some \<lparr>mq_ring = [om_zero, om_zero], mq_head = 0, mq_count = 0, mq_capacity = 2\<rparr>"
proof -
  have "replicate 2 om_zero = [om_zero, om_zero]" by (simp add: numeral_2_eq_2)
  then show ?thesis by (simp add: mq_demo_def OSInitMessageQueue_def ht_update_eq mq_init_def)
qed

lemma mq_demo_wf: "mq_wf \<lparr>mq_ring = [om_zero, om_zero], mq_head = 0, mq_count = 0, mq_capacity = 2\<rparr>"
  by (simp add: mq_wf_def)

theorem MessageQueue_refines_list_witness:
  "\<exists>q1. OSSendMessage 0x40 (Some (msg_of 5)) 2 mq_demo = Some (1, ht_store 0x40 q1 mq_demo) \<and>
     mq_list q1 = [msg_of 5] \<and> fst (OSPeekMessage 0x40 1 mq_demo) = 0"
  using MessageQueue_refines_list [where tab = mq_demo and k = "0x40" and p = 1 and msg = "msg_of 5" and flags = 2,
      OF _ _ mq_demo_queue mq_demo_wf]
  by (auto simp: mq_list_def ring_list_def mq_push_def)

text \<open>
  Nothing is lost, duplicated or invented: over any sequence of calls by any threads, the messages accepted and
  those there before are the ones received and those left; without high priority they come out in the order in which
  they were accepted.
\<close>

theorem MessageQueue_fifo:
  assumes "k \<noteq> null" and "mq_run k cs tab = (sent, got, tab')" and "tab k = Some q" and "mq_wf q"
  shows "\<exists>q'. tab' k = Some q' \<and> mq_wf q' \<and> length (mq_list q') \<le> unat (mq_capacity q) \<and>
    mset sent + mset (mq_list q) = mset got + mset (mq_list q') \<and>
    (list_all low_priority cs \<longrightarrow> mq_list q @ sent = got @ mq_list q')"
proof -
  obtain q' where q': "tab' k = Some q'" "mq_wf q'" "mq_capacity q' = mq_capacity q"
    "mset sent + mset (mq_list q) = mset got + mset (mq_list q')"
    "list_all low_priority cs \<longrightarrow> mq_list q @ sent = got @ mq_list q'"
    using mq_run_list [OF assms] by blast
  have "length (mq_list q') \<le> unat (mq_capacity q)"
    using q'(2,3) by (simp add: mq_wf_def mq_list_def)
  with q' show ?thesis by blast
qed

theorem MessageQueue_fifo_witness:
  "\<exists>tab'. mq_run 0x40 [Mq_send (msg_of 1) 0, Mq_send (msg_of 2) 0, Mq_send (msg_of 3) 1, Mq_receive 1,
      Mq_send (msg_of 4) 0, Mq_receive 0] mq_demo = ([msg_of 1, msg_of 2, msg_of 4], [msg_of 1, msg_of 2], tab') \<and>
     (\<exists>q'. tab' 0x40 = Some q' \<and> mq_list q' = [msg_of 4])"
proof -
  let ?cs = "[Mq_send (msg_of 1) 0, Mq_send (msg_of 2) 0, Mq_send (msg_of 3) 1, Mq_receive 1,
      Mq_send (msg_of 4) 0, Mq_receive 0]"
  obtain tab' where r: "mq_run 0x40 ?cs mq_demo = ([msg_of 1, msg_of 2, msg_of 4], [msg_of 1, msg_of 2], tab')"
    by (simp add: mq_demo_queue OSSendMessage_def OSReceiveMessage_def mq_bodies ht_get_def mq_full_def word_le_nat_alt mq_empty_def mq_push_def
        mq_pop_def Let_def)
  show ?thesis
    using MessageQueue_fifo [where tab = mq_demo, OF _ r mq_demo_queue mq_demo_wf] r by (auto simp: mq_list_def ring_list_def)
qed

text \<open>
  C24: No wake-up is lost on either side: whatever the interleaving, when every awake receiver has run, a receiver
  sleeps only if the queue is empty, and when every awake sender has run, a sender sleeps only if it is full.
\<close>

theorem MessageQueue_no_lost_wakeup:
  assumes "mq_wf q"
  shows "(mon_run recv_ops as (mon_start q) = Some m \<and> mon_awake m = [] \<and> mon_asleep m \<noteq> [] \<longrightarrow>
      mq_list (mon_shared m) = []) \<and>
    (mon_run (send_ops what) bs (mon_start q) = Some n \<and> mon_awake n = [] \<and> mon_asleep n \<noteq> [] \<longrightarrow>
      mq_full (mon_shared n))"
  using recv.no_sleeper_forgotten [OF assms] send.no_sleeper_forgotten [OF assms]
  by (auto simp: recv_ops_def send_ops_def mq_empty_list)

theorem MessageQueue_no_lost_wakeup_witness:
  "\<exists>q m. mq_demo 0x40 = Some q \<and>
     mon_run recv_ops [M_enter 1, M_test 1, M_op (Send_done 0 (msg_of 3)) (Some 1), M_enter 2, M_test 2, M_test 1]
       (mon_start q) = Some m \<and> mon_done m = [2] \<and> mon_asleep m = [1] \<and> mq_list (mon_shared m) = []"
proof -
  let ?q = "\<lparr>mq_ring = [om_zero, om_zero], mq_head = 0, mq_count = 0, mq_capacity = 2\<rparr>"
  obtain m where m: "mon_run recv_ops [M_enter 1, M_test 1, M_op (Send_done 0 (msg_of 3)) (Some 1), M_enter 2,
      M_test 2, M_test 1] (mon_start ?q) = Some m" "mon_done m = [2]" "mon_asleep m = [1]" "mon_awake m = []"
    by (simp add: recv_ops_def mq_bodies mon_start_def mq_full_def mq_empty_def mq_push_def mq_pop_def Let_def)
  have "mq_list (mon_shared m) = []"
    using MessageQueue_no_lost_wakeup [OF mq_demo_wf, THEN conjunct1, THEN mp, OF conjI [OF m(1)]] m(3,4) by simp
  with m mq_demo_queue show ?thesis by blast
qed

end
