(* ===== verification/Calendar.thy ===== *)
theory Calendar
  imports Prelude "HOL-Library.Signed_Division"
begin

text \<open>
  The calendar arithmetic of \<^verbatim>\<open>source/time.cpp\<close>: \<^verbatim>\<open>daysFromCivil\<close> and \<^verbatim>\<open>civilFromDays\<close>, the closed formulas
  between a Gregorian date and the number of days since 1970-01-01. \<^verbatim>\<open>int64_t\<close> values are \<open>int\<close> (no computation here
  leaves 64 bits for a year that fits in 32), with C's truncating division \<open>sdiv\<close>; \<^verbatim>\<open>unsigned\<close> values are 32-bit
  words, whose wrap-around the code uses to subtract months. The reference is the calendar itself: the day after a
  date, by the lengths of the months and the leap year rule.
\<close>

section \<open>The code\<close>

definition daysFromCivil :: "int \<Rightarrow> u32 \<Rightarrow> u32 \<Rightarrow> int" where
  "daysFromCivil y0 m d =
     (let y = y0 - (if m \<le> 2 then 1 else 0);
          era = (if 0 \<le> y then y else y - 399) sdiv 400;
          yoe = (word_of_int (y - era * 400) :: u32);
          doy = (153 * (m + (if 2 < m then - 3 else 9)) + 2) div 5 + d - 1;
          doe = yoe * 365 + yoe div 4 - yoe div 100 + doy
      in era * 146097 + uint doe - 719468)"

definition int32_of :: "int \<Rightarrow> int" where
  "int32_of x = sint (word_of_int x :: s32)"

definition civilFromDays :: "int \<Rightarrow> int \<times> int \<times> int" where
  "civilFromDays z0 =
     (let z = z0 + 719468;
          era = (if 0 \<le> z then z else z - 146096) sdiv 146097;
          doe = (word_of_int (z - era * 146097) :: u32);
          yoe = (doe - doe div 1460 + doe div 36524 - doe div 146096) div 365;
          yr = uint yoe + era * 400;
          doy = doe - (365 * yoe + yoe div 4 - yoe div 100);
          mp = (5 * doy + 2) div 153;
          dd = doy - (153 * mp + 2) div 5 + 1;
          mm = mp + (if mp < 10 then 3 else - 9)
      in (int32_of (yr + (if mm \<le> 2 then 1 else 0)), uint mm, uint dd))"

section \<open>The calendar\<close>

definition leap :: "int \<Rightarrow> bool" where
  "leap y \<longleftrightarrow> 4 dvd y \<and> (\<not> 100 dvd y \<or> 400 dvd y)"

definition month_length :: "int \<Rightarrow> nat \<Rightarrow> nat" where
  "month_length y m =
     (if m = 2 then (if leap y then 29 else 28) else if m = 4 \<or> m = 6 \<or> m = 9 \<or> m = 11 then 30 else 31)"

definition valid_date :: "int \<Rightarrow> nat \<Rightarrow> nat \<Rightarrow> bool" where
  "valid_date y m d \<longleftrightarrow> 1 \<le> m \<and> m \<le> 12 \<and> 1 \<le> d \<and> d \<le> month_length y m"

definition next_date :: "int \<Rightarrow> nat \<Rightarrow> nat \<Rightarrow> int \<times> nat \<times> nat" where
  "next_date y m d =
     (if d < month_length y m then (y, m, d + 1)
      else if m < 12 then (y, m + 1, 1)
      else (y + 1, 1, 1))"

section \<open>Years that start in March\<close>

text \<open>
  The formulas count years from March: month \<open>mp\<close> is 0 for March and 11 for February, so that the leap day is the
  last of the year. \<open>year_days y\<close> is the number of days from the start of year 0 to that of year \<open>y\<close>.
\<close>

definition march_year :: "int \<Rightarrow> nat \<Rightarrow> int" where
  "march_year y m = (if m \<le> 2 then y - 1 else y)"

definition march_month :: "nat \<Rightarrow> nat" where
  "march_month m = (if 2 < m then m - 3 else m + 9)"

definition year_days :: "int \<Rightarrow> int" where
  "year_days y = 365 * y + y div 4 - y div 100 + y div 400"

definition month_days :: "nat \<Rightarrow> nat" where
  "month_days mp = (153 * mp + 2) div 5"

definition days :: "int \<Rightarrow> nat \<Rightarrow> nat \<Rightarrow> int" where
  "days y m d = year_days (march_year y m) + int (month_days (march_month m)) + int d - 1 - 719468"

lemma floor_sdiv:
  assumes "0 < k" "j = k - 1"
  shows "(if 0 \<le> x then x else x - j) sdiv k = x div (k :: int)"
proof (cases "0 \<le> x")
  case True
  with assms show ?thesis by (cases "x = 0") (simp_all add: signed_divide_int_def sgn_if)
next
  case False
  define q where "q = (k - 1 - x) div k"
  have "k * q \<le> k - 1 - x" "k - 1 - x < k * q + k"
    using assms(1) pos_mod_bound [OF assms(1), of "k - 1 - x"] pos_mod_sign [OF assms(1), of "k - 1 - x"]
      mult_div_mod_eq [of k "k - 1 - x"] unfolding q_def by linarith+
  then have "x div k = - q"
    by (intro int_div_pos_eq [where r = "x + k * q"]) simp_all
  moreover have "(x - j) sdiv k = - q"
    using False assms(1) by (simp add: assms(2) signed_divide_int_def sgn_if q_def algebra_simps)
  ultimately show ?thesis using False by simp
qed

lemma dvd_next_div: "0 < k \<Longrightarrow> (y + 1) div k = y div k + (if k dvd y + 1 then 1 else 0)" for k :: int
proof (cases "k dvd y + 1")
  case True
  assume "0 < k"
  from True obtain q where q: "y + 1 = k * q" by (elim dvdE)
  then have "y div k = q - 1"
    using \<open>0 < k\<close> by (intro int_div_pos_eq [where r = "k - 1"]) (auto simp: algebra_simps)
  with True q \<open>0 < k\<close> show ?thesis by simp
next
  case False
  assume k: "0 < k"
  have "(y + 1) mod k \<noteq> 0" using False by (simp add: dvd_eq_mod_eq_0)
  then have "0 < (y + 1) mod k" "(y + 1) mod k < k"
    using pos_mod_sign [OF k, of "y + 1"] pos_mod_bound [OF k, of "y + 1"] by linarith+
  then have "y div k = (y + 1) div k"
    using mult_div_mod_eq [of k "y + 1"]
    by (intro int_div_pos_eq [where r = "(y + 1) mod k - 1"]) linarith+
  with False show ?thesis by simp
qed

lemma leap_steps:
  fixes y a b c a' b' c' :: int
  assumes "a' = a + (if P then 1 else 0)" "b' = b + (if Q then 1 else 0)" "c' = c + (if R then 1 else 0)"
    and "Q \<Longrightarrow> P" "R \<Longrightarrow> Q"
  shows "365 * (y + 1) + a' - b' + c' = 365 * y + a - b + c + 365 + (if P \<and> (\<not> Q \<or> R) then 1 else 0)"
  using assms by (cases P; cases Q; cases R) simp_all

lemma year_days_next: "year_days (y + 1) = year_days y + 365 + (if leap (y + 1) then 1 else 0)"
  unfolding year_days_def leap_def
proof (rule leap_steps)
  show "4 dvd y + 1" if "100 dvd y + 1" using that by (rule dvd_trans [rotated]) simp
  show "100 dvd y + 1" if "400 dvd y + 1" using that by (rule dvd_trans [rotated]) simp
qed (rule dvd_next_div; simp)+

lemma month_cases:
  assumes "1 \<le> m" "m \<le> 12"
  obtains "m = 1" | "m = 2" | "m = 3" | "m = 4" | "m = 5" | "m = 6" | "m = 7" | "m = 8" | "m = 9" | "m = 10"
    | "m = 11" | "m = (12 :: nat)"
proof -
  have "m = 1 \<or> m = 2 \<or> m = 3 \<or> m = 4 \<or> m = 5 \<or> m = 6 \<or> m = 7 \<or> m = 8 \<or> m = 9 \<or> m = 10 \<or> m = 11 \<or> m = 12"
    using assms by (auto simp: numeral_eq_Suc le_Suc_eq)
  with that show thesis by blast
qed

lemma month_days_next:
  assumes "1 \<le> m" "m \<le> 12" "m \<noteq> 2"
  shows "month_days (march_month (if m < 12 then m + 1 else 1)) = month_days (march_month m) + month_length y m"
  using assms(1, 2) assms(3)
  by (cases rule: month_cases) (simp_all add: month_days_def march_month_def month_length_def)

text \<open>The closed formula follows the calendar, and counts from 1970-01-01.\<close>

lemma days_next:
  assumes "valid_date y m d"
  shows "(case next_date y m d of (y', m', d') \<Rightarrow> days y' m' d') = days y m d + 1"
proof -
  have m: "1 \<le> m" "m \<le> 12" "1 \<le> d" "d \<le> month_length y m" using assms by (auto simp: valid_date_def)
  consider "d < month_length y m" | "d = month_length y m" "m = 2"
    | "d = month_length y m" "m \<noteq> 2" "m < 12" | "d = month_length y m" "m = 12"
    using m by linarith
  then show ?thesis
  proof cases
    case 1
    then show ?thesis by (simp add: next_date_def days_def)
  next
    case 2
    then show ?thesis
      using year_days_next [of "y - 1"]
      by (simp add: next_date_def days_def march_year_def march_month_def month_days_def month_length_def)
  next
    case 3
    then have "march_year y (m + 1) = march_year y m" using m by (auto simp: march_year_def)
    with 3 show ?thesis
      using month_days_next [of m y] m by (simp add: next_date_def days_def)
  next
    case 4
    then show ?thesis
      using month_days_next [of 12 y] by (simp add: next_date_def days_def march_year_def)
  qed
qed

lemma days_epoch: "days 1970 1 1 = 0"
  by (simp add: days_def year_days_def month_days_def march_year_def march_month_def)

section \<open>The code computes the closed formula\<close>


lemma year_days_split:
  assumes "0 \<le> yoe" "yoe < 400"
  shows "year_days (yoe + 400 * e) = 146097 * e + (365 * yoe + yoe div 4 - yoe div 100)"
proof -
  have four: "(yoe + 400 * e) div 4 = 100 * e + yoe div 4"
    using div_mult_self2 [of 4 yoe "100 * e"] by simp
  have hundred: "(yoe + 400 * e) div 100 = 4 * e + yoe div 100"
    using div_mult_self2 [of 100 yoe "4 * e"] by simp
  have all: "(yoe + 400 * e) div 400 = e" using assms by (intro int_div_pos_eq) simp_all
  have "365 * (yoe + 400 * e) + (100 * e + a) - (4 * e + b) + e = 146097 * e + (365 * yoe + a - b)" for a b :: int
    by simp
  then show ?thesis unfolding year_days_def four hundred all by blast
qed

text \<open>32-bit arithmetic that stays in range is integer arithmetic.\<close>

lemma u32_of_int: "0 \<le> i \<Longrightarrow> i < 4294967296 \<Longrightarrow> uint (word_of_int i :: u32) = i"
  by (simp add: uint_word_of_int take_bit_int_eq_self)

lemma u32_div:
  "0 \<le> i \<Longrightarrow> i < 4294967296 \<Longrightarrow> 0 < k \<Longrightarrow> k < 4294967296 \<Longrightarrow>
     (word_of_int i :: u32) div word_of_int k = word_of_int (i div k)"
  by (simp add: word_div_def uint_word_of_int take_bit_int_eq_self)

lemma u32_ops:
  "(word_of_int a + word_of_int b :: u32) = word_of_int (a + b)"
  "(word_of_int a - word_of_int b :: u32) = word_of_int (a - b)"
  "(word_of_int a * word_of_int b :: u32) = word_of_int (a * b)"
  by simp_all

lemma doy_word:
  assumes "1 \<le> m" "m \<le> 12" 
  shows "(153 * ((of_nat m :: u32) + (if 2 < (of_nat m :: u32) then - 3 else 9)) + 2) div 5
     = word_of_int (int (month_days (march_month m)))"
  using assms by (cases rule: month_cases) (simp_all add: month_days_def march_month_def)

lemma month_days_le: "mp \<le> 11 \<Longrightarrow> month_days mp \<le> 337"
 by (simp add: month_days_def)

lemma march_month_le: "1 \<le> m \<Longrightarrow> m \<le> 12 \<Longrightarrow> march_month m \<le> 11"
  by (auto simp: march_month_def)

lemma of_nat_le_2: "m \<le> 12 \<Longrightarrow> (of_nat m :: u32) \<le> 2 \<longleftrightarrow> m \<le> 2"
  by (simp add: word_le_nat_alt unat_of_nat)

lemma month_length_le: "month_length y m \<le> 31" by (simp add: month_length_def)

lemma div_bounds: "0 < k \<Longrightarrow> x div k * k \<le> x \<and> x < x div k * k + k" for k :: int
  using div_mult_mod_eq [of x k] pos_mod_sign [of k x] pos_mod_bound [of k x] by linarith

lemma yoe_range:
  assumes "0 \<le> yoe" "yoe < (400 :: int)"
  shows "0 \<le> 365 * yoe + yoe div 4 - yoe div 100 \<and> 365 * yoe + yoe div 4 - yoe div 100 < 146097"
proof -
  obtain a b where ab: "a = yoe div 4" "b = yoe div 100" by blast
  have "a * 4 \<le> yoe" "yoe < a * 4 + 4" "b * 100 \<le> yoe" "yoe < b * 100 + 100"
    using div_bounds [of 4 yoe] div_bounds [of 100 yoe] unfolding ab by simp_all
  then show ?thesis using assms unfolding ab [symmetric] by linarith
qed

lemma daysFromCivil_eq:
  assumes "valid_date y m d"
  shows "daysFromCivil y (of_nat m) (of_nat d) = days y m d"
proof -
  have v: "1 \<le> m" "m \<le> 12" "1 \<le> d" "d \<le> 31"
    using assms month_length_le [of y m] by (auto simp: valid_date_def)
  define Y e where "Y = march_year y m mod 400" and "e = march_year y m div 400"
  have Y: "0 \<le> Y" "Y < 400" "march_year y m = Y + 400 * e"
    unfolding Y_def e_def by simp_all
  have e: "(if 0 \<le> march_year y m then march_year y m else march_year y m - 399) sdiv 400 = e"
    using floor_sdiv [of 400 399 "march_year y m"] unfolding e_def by simp
  define n where "n = int (month_days (march_month m)) + int d - 1"
  have n: "0 \<le> n" "n \<le> 367"
    using v month_days_le [OF march_month_le, of m] unfolding n_def by linarith+
  have ymd: "(if (of_nat m :: u32) \<le> 2 then 1 else 0) = (if m \<le> 2 then 1 else (0 :: int))"
    using v by (simp add: of_nat_le_2)
  have my: "y - (if m \<le> 2 then 1 else 0) = march_year y m" by (simp add: march_year_def)
  have yy: "march_year y m - e * 400 = Y" using Y(3) by simp
  have "daysFromCivil y (of_nat m) (of_nat d)
     = e * 146097 + uint (word_of_int Y * 365 + word_of_int Y div 4 - word_of_int Y div 100
         + (word_of_int (int (month_days (march_month m))) + of_nat d - 1) :: u32) - 719468"
    unfolding daysFromCivil_def Let_def ymd doy_word [OF v(1,2)] my e yy by (rule refl)
  also have "(word_of_int Y * 365 + word_of_int Y div 4 - word_of_int Y div 100
         + (word_of_int (int (month_days (march_month m))) + of_nat d - 1) :: u32)
     = word_of_int (365 * Y + Y div 4 - Y div 100 + n)"
    using u32_div [of Y 4] u32_div [of Y 100] Y(1,2) by (simp add: n_def)
  also have "uint \<dots> = 365 * Y + Y div 4 - Y div 100 + n"
    using yoe_range [OF Y(1,2)] n by (intro u32_of_int) simp_all
  finally show ?thesis using year_days_split [OF Y(1,2), of e] unfolding days_def Y(3) n_def by simp
qed

lemma year_of_day_digits:
  fixes c q s n :: int
  assumes c: "0 \<le> c" "c \<le> 3" and q: "0 \<le> q" "q \<le> 24" and s: "0 \<le> s" "s \<le> 3" and n: "0 \<le> n"
    and last: "n < 365 \<or> n = 365 \<and> s = 3 \<and> (q < 24 \<or> c = 3)"
    and doe: "doe = 36524 * c + 1461 * q + 365 * s + n"
  shows "(doe - doe div 1460 + doe div 36524 - doe div 146096) div 365 = 100 * c + 4 * q + s"
    and "0 \<le> doe" "doe < 146097"
proof -
  show "0 \<le> doe" "doe < 146097" using c q s n last doe by linarith+
  show "(doe - doe div 1460 + doe div 36524 - doe div 146096) div 365 = 100 * c + 4 * q + s"
  proof (cases "doe = 146096")
    case True
    then have "c = 3" "q = 24" "s = 3" using c q s n last doe by linarith+
    with True show ?thesis by simp
  next
    case False
    have "doe div 36524 = c"
      using c q s n last doe False by (intro int_div_pos_eq [where r = "1461 * q + 365 * s + n"]) linarith+
    moreover have "doe div 146096 = 0"
      using \<open>0 \<le> doe\<close> \<open>doe < 146097\<close> False by (intro int_div_pos_eq [where r = doe]) linarith+
    moreover have "doe div 1460 = 25 * c + q + (if 24 * c + q + 365 * s + n < 1460 then 0 else 1)"
    proof (cases "24 * c + q + 365 * s + n < 1460")
      case True
      then show ?thesis
        using c q s n doe by (intro int_div_pos_eq [where r = "24 * c + q + 365 * s + n"]) simp_all
    next
      case False
      then show ?thesis
        using c q s n last doe by (intro int_div_pos_eq [where r = "24 * c + q + 365 * s + n - 1460"]) auto
    qed
    ultimately show ?thesis
      using c q s n last unfolding doe
      by (intro int_div_pos_eq [where r = "n - (if 24 * c + q + 365 * s + n < 1460 then 0 else 1)"]) auto
  qed
qed

lemma year_of_day:
  fixes yoe doe n :: int
  assumes y: "0 \<le> yoe" "yoe < 400" and n: "0 \<le> n" "n < 365 \<or> n = 365 \<and> leap (yoe + 1)"
    and doe: "doe = 365 * yoe + yoe div 4 - yoe div 100 + n"
  shows "(doe - doe div 1460 + doe div 36524 - doe div 146096) div 365 = yoe" and "0 \<le> doe" "doe < 146097"
proof -
  define r where "r = yoe mod 100"
  define c q s where "c = yoe div 100" and "q = r div 4" and "s = r mod 4"
  have r: "0 \<le> r" "r < 100" unfolding r_def by simp_all
  have "c * 100 \<le> yoe" "yoe < c * 100 + 100" "q * 4 \<le> r" "r < q * 4 + 4" "0 \<le> s" "s < 4"
    using div_bounds [of 100 yoe] div_bounds [of 4 r] unfolding c_def q_def s_def by simp_all
  then have b: "0 \<le> c" "c \<le> 3" "0 \<le> q" "q \<le> 24" "0 \<le> s" "s \<le> 3" using y r by linarith+
  have yoe: "yoe = 100 * c + 4 * q + s"
    using mult_div_mod_eq [of 100 yoe] mult_div_mod_eq [of 4 r] unfolding c_def q_def s_def r_def by simp
  have "yoe div 4 = 25 * c + q" using yoe b by (intro int_div_pos_eq [where r = s]) simp_all
  then have "doe = 36524 * c + 1461 * q + 365 * s + n" unfolding doe c_def [symmetric] using yoe by simp
  moreover have "n < 365 \<or> n = 365 \<and> s = 3 \<and> (q < 24 \<or> c = 3)"
  proof (cases "n < 365")
    case False
    with n have l: "n = 365" "4 dvd yoe + 1" "100 dvd yoe + 1 \<Longrightarrow> 400 dvd yoe + 1" by (auto simp: leap_def)
    have "yoe + 1 = 4 * (25 * c + q) + (s + 1)" using yoe by simp
    with l(2) have "4 dvd s + 1" by (metis dvd_add_right_iff dvd_triv_left)
    with b have s: "s = 3" by (auto dest: zdvd_imp_le)
    have "c = 3" if "q = 24"
    proof -
      have "yoe + 1 = 100 * (c + 1)" using yoe s that by simp
      with l(3) have "400 dvd 100 * (c + 1)" by simp
      then have "4 dvd c + 1" using dvd_mult_cancel_left [of 100 4 "c + 1"] by simp
      with b show ?thesis by (auto dest: zdvd_imp_le)
    qed
    then have "q < 24 \<or> c = 3" using b(4) by (cases "q = 24") simp_all
    with l(1) s show ?thesis by blast
  qed simp
  ultimately show "(doe - doe div 1460 + doe div 36524 - doe div 146096) div 365 = yoe" "0 \<le> doe" "doe < 146097"
    using year_of_day_digits [OF b n(1), of doe] yoe by simp_all
qed


lemma leap_period: "leap (y + 400 * e) \<longleftrightarrow> leap y"
proof -
  have "k dvd y + 400 * e \<longleftrightarrow> k dvd y" if "k dvd 400" for k :: int
    using dvd_mult2 [OF that, of e] by (simp add: dvd_add_left_iff)
  then show ?thesis by (simp add: leap_def)
qed

lemma day_of_year:
  assumes "valid_date y m d" "n = int (month_days (march_month m)) + int d - 1"
  shows "0 \<le> n" "n < 365 \<or> n = 365 \<and> leap (march_year y m + 1)" "(5 * n + 2) div 153 = int (march_month m)"
proof -
  have v: "1 \<le> m" "m \<le> 12" "1 \<le> d" "d \<le> month_length y m" using assms(1) by (auto simp: valid_date_def)
  show "0 \<le> n" using v(3) by (simp add: assms(2))
  show "n < 365 \<or> n = 365 \<and> leap (march_year y m + 1)"
    using v(1,2) v(3,4)
    by (cases rule: month_cases)
      (auto simp: assms(2) month_days_def march_month_def march_year_def month_length_def split: if_splits)
  show "(5 * n + 2) div 153 = int (march_month m)"
    using v(1,2) v(3,4)
    by (intro int_div_pos_eq [where r = "5 * n + 2 - 153 * int (march_month m)"]; cases rule: month_cases)
      (auto simp: assms(2) month_days_def march_month_def month_length_def split: if_splits)
qed

lemma civilFromDays_eq:
  assumes v: "valid_date y m d" and y: "- 2147483648 \<le> y" "y < 2147483648"
  shows "civilFromDays (days y m d) = (y, int m, int d)"
proof -
  have m: "1 \<le> m" "m \<le> 12" "1 \<le> d" "d \<le> 31"
    using v month_length_le [of y m] by (auto simp: valid_date_def)
  define n where "n = int (month_days (march_month m)) + int d - 1"
  note n = day_of_year [OF v n_def]
  define Y e where "Y = march_year y m mod 400" and "e = march_year y m div 400"
  have Y: "0 \<le> Y" "Y < 400" "march_year y m = Y + 400 * e" unfolding Y_def e_def by simp_all
  define doe where "doe = 365 * Y + Y div 4 - Y div 100 + n"
  have "n < 365 \<or> n = 365 \<and> leap (Y + 1)"
    using n(2) leap_period [of "Y + 1" e] unfolding Y(3) by (simp add: algebra_simps)
  note doe = year_of_day [OF Y(1,2) n(1) this doe_def]
  have z: "days y m d + 719468 = doe + 146097 * e"
    unfolding days_def Y(3) year_days_split [OF Y(1,2)] doe_def n_def by simp
  have era: "(if 0 \<le> doe + 146097 * e then doe + 146097 * e else doe + 146097 * e - 146096) sdiv 146097 = e"
    using floor_sdiv [of 146097 146096 "doe + 146097 * e"] doe(2,3)
      int_div_pos_eq [of "doe + 146097 * e" 146097 e doe] by simp
  have rest: "doe + 146097 * e - e * 146097 = doe" by simp
  let ?yoe = "doe - doe div 1460 + doe div 36524 - doe div 146096"
  have "0 \<le> doe div 1460" "doe div 1460 \<le> doe" "0 \<le> doe div 36524" "doe div 36524 \<le> doe"
    "0 \<le> doe div 146096" "doe div 146096 \<le> doe div 36524"
    using doe(2) zdiv_mono2 [of doe 1 1460] zdiv_mono2 [of doe 1 36524] zdiv_mono2 [of doe 36524 146096]
    by (simp_all add: pos_imp_zdiv_nonneg_iff)
  then have "0 \<le> ?yoe" "?yoe < 4294967296" using doe(2,3) by linarith+
  then have yoe: "((word_of_int doe :: u32) - word_of_int doe div 1460 + word_of_int doe div 36524 - word_of_int doe div 146096) div 365
    = word_of_int Y"
    using u32_div [of doe 1460] u32_div [of doe 36524] u32_div [of doe 146096] u32_div [of ?yoe 365] doe by simp
  have doy: "(word_of_int doe :: u32) - (365 * word_of_int Y + word_of_int Y div 4 - word_of_int Y div 100) = word_of_int n"
    using u32_div [of Y 4] u32_div [of Y 100] Y(1,2) by (simp add: doe_def)
  have mp: "(5 * (word_of_int n :: u32) + 2) div 153 = of_nat (march_month m)"
    using u32_div [of "5 * n + 2" 153] n by auto
  have mm: "(of_nat (march_month m) :: u32) + (if (of_nat (march_month m) :: u32) < 10 then 3 else - 9) = of_nat m"
    using m(1,2) by (cases rule: month_cases) (simp_all add: march_month_def)
  have "(153 * (of_nat (march_month m) :: u32) + 2) div 5 = of_nat (month_days (march_month m))"
    using m(1,2) by (cases rule: month_cases) (simp_all add: march_month_def month_days_def)
  then have dd: "(word_of_int n :: u32) - (153 * of_nat (march_month m) + 2) div 5 + 1 = of_nat d"
    by (simp add: n_def)
  have yy: "uint (word_of_int Y :: u32) + e * 400 + (if (of_nat m :: u32) \<le> 2 then 1 else 0) = y"
    using Y u32_of_int [of Y] of_nat_le_2 [OF m(2)] by (simp add: march_year_def split: if_splits)
  have "uint (of_nat m :: u32) = int m" "uint (of_nat d :: u32) = int d"
    using m u32_of_int [of "int m"] u32_of_int [of "int d"] by simp_all
  moreover have "int32_of y = y"
    using y by (simp add: int32_of_def sint_sbintrunc' signed_take_bit_int_eq_self)
  ultimately show ?thesis
    unfolding civilFromDays_def Let_def z era rest yoe doy mp mm dd yy by simp
qed

text \<open>Every day has a date.\<close>

definition prev_date :: "int \<Rightarrow> nat \<Rightarrow> nat \<Rightarrow> int \<times> nat \<times> nat" where
  "prev_date y m d =
     (if 1 < d then (y, m, d - 1) else if 1 < m then (y, m - 1, month_length y (m - 1)) else (y - 1, 12, 31))"

lemma valid_next: "valid_date y m d \<Longrightarrow> (case next_date y m d of (y', m', d') \<Rightarrow> valid_date y' m' d')"
  by (auto simp: next_date_def valid_date_def month_length_def split: if_splits)

lemma valid_prev:
  assumes "valid_date y m d" "prev_date y m d = (y', m', d')"
  shows "valid_date y' m' d'" "next_date y' m' d' = (y, m, d)"
proof -
  have v: "1 \<le> m" "m \<le> 12" "1 \<le> d" "d \<le> month_length y m" using assms(1) by (auto simp: valid_date_def)
  have l: "28 \<le> month_length z k" "month_length z 12 = 31" for z k by (simp_all add: month_length_def)
  consider "1 < d" | "d = 1" "1 < m" | "d = 1" "m = 1" using v by linarith
  then have "valid_date y' m' d' \<and> next_date y' m' d' = (y, m, d)"
  proof cases
    case 1
    then show ?thesis using v assms(2) by (auto simp: prev_date_def next_date_def valid_date_def)
  next
    case 2
    then show ?thesis using v assms(2) l(1) [of y "m - 1"] by (auto simp: prev_date_def next_date_def valid_date_def)
  next
    case 3
    then show ?thesis using v assms(2) l(2) [of "y - 1"] by (auto simp: prev_date_def next_date_def valid_date_def)
  qed
  then show "valid_date y' m' d'" "next_date y' m' d' = (y, m, d)" by blast+
qed

lemma days_onto:
  obtains y m d where "valid_date y m d" "days y m d = z"
proof -
  have "\<exists>y m d. valid_date y m d \<and> days y m d = z"
  proof (induction z rule: int_induct [where k = 0])
    case base
    show ?case using days_epoch by (intro exI [of _ 1970] exI [of _ 1]) (simp add: valid_date_def month_length_def)
  next
    case (step1 i)
    then obtain y m d where "valid_date y m d" "days y m d = i" by blast
    with days_next [of y m d] valid_next [of y m d] show ?case by (cases "next_date y m d") auto
  next
    case (step2 i)
    then obtain y m d where v: "valid_date y m d" "days y m d = i" by blast
    obtain y' m' d' where p: "prev_date y m d = (y', m', d')" by (cases "prev_date y m d")
    note valid_prev [OF v(1) p]
    with days_next [of y' m' d'] v(2) show ?case by auto
  qed
  with that show thesis by blast
qed

text \<open>Years of dates are bounded by their days: at least 365 to a year, at most 366.\<close>

lemma year_bound:
  assumes "valid_date y m d" "- 700000000000 \<le> days y m d" "days y m d \<le> 700000000000"
  shows "- 2147483648 \<le> y" "y < 2147483648"
proof -
  have v: "1 \<le> m" "m \<le> 12" "1 \<le> d" "d \<le> 31"
    using assms(1) month_length_le [of y m] by (auto simp: valid_date_def)
  define n where "n = int (month_days (march_month m)) + int d - 1"
  have n: "0 \<le> n" "n \<le> 365" using day_of_year [OF assms(1) n_def] by auto
  define x where "x = march_year y m"
  obtain a b c where abc: "a = x div 4" "b = x div 100" "c = x div 400" by blast
  have "a * 4 \<le> x" "x < a * 4 + 4" "b * 100 \<le> x" "x < b * 100 + 100" "c * 400 \<le> x" "x < c * 400 + 400"
    using div_bounds [of 4 x] div_bounds [of 100 x] div_bounds [of 400 x] unfolding abc by simp_all
  moreover have "days y m d = 365 * x + a - b + c + n - 719468"
    unfolding days_def year_days_def abc x_def n_def by simp
  ultimately have "- 2147483647 \<le> x" "x < 2147483647" using assms(2,3) n by linarith+
  then show "- 2147483648 \<le> y" "y < 2147483648" unfolding x_def march_year_def by (auto split: if_splits)
qed

section \<open>Properties\<close>

text \<open>
  C31: daysFromCivil counts the days of the calendar: 1970-01-01 is day 0, and the date that follows a valid date
  (next day, first of the next month, first of the next year, with the Gregorian leap years) has the next number,
  for every year, the negative ones included, although months are shifted with 32-bit unsigned wrap-around.
\<close>

theorem daysFromCivil_calendar:
  assumes "valid_date y m d"
  shows "daysFromCivil 1970 1 1 = 0
    \<and> (case next_date y m d of (y', m', d') \<Rightarrow>
          daysFromCivil y' (of_nat m') (of_nat d') = daysFromCivil y (of_nat m) (of_nat d) + 1)"
proof -
  have "valid_date 1970 1 1" by (simp add: valid_date_def month_length_def)
  then have "daysFromCivil 1970 1 1 = 0" using daysFromCivil_eq [of 1970 1 1] days_epoch by simp
  then show ?thesis
    using valid_next [OF assms] days_next [OF assms] daysFromCivil_eq [OF assms]
    by (cases "next_date y m d") (simp add: daysFromCivil_eq)
qed

theorem daysFromCivil_calendar_witness:
  "daysFromCivil 2000 3 1 = daysFromCivil 2000 2 29 + 1"
  using daysFromCivil_calendar [of 2000 2 29] by (simp add: valid_date_def month_length_def leap_def next_date_def)

text \<open>
  C12: civilFromDays and daysFromCivil are inverse to each other. Every valid date whose year fits the 32-bit field is
  recovered from its day number, and every day number (up to 1.9 billion years on both sides) gives a valid date whose
  number it is.
\<close>

theorem civil_days_roundtrip:
  "(\<forall>y m d. valid_date y m d \<and> - 2147483648 \<le> y \<and> y < 2147483648 \<longrightarrow>
      civilFromDays (daysFromCivil y (of_nat m) (of_nat d)) = (y, int m, int d))
    \<and> (\<forall>z. - 700000000000 \<le> z \<and> z \<le> 700000000000 \<longrightarrow>
        (\<exists>y m d. civilFromDays z = (y, int m, int d) \<and> valid_date y m d
          \<and> daysFromCivil y (of_nat m) (of_nat d) = z))"
proof (intro conjI allI impI; elim conjE)
  fix y m d
  assume v: "valid_date y m d" and y: "- 2147483648 \<le> y" "y < 2147483648"
  show "civilFromDays (daysFromCivil y (of_nat m) (of_nat d)) = (y, int m, int d)"
    unfolding daysFromCivil_eq [OF v] by (rule civilFromDays_eq [OF v y])
next
  fix z :: int
  assume z: "- 700000000000 \<le> z" "z \<le> 700000000000"
  obtain y m d where v: "valid_date y m d" and d: "days y m d = z" by (rule days_onto)
  have "- 2147483648 \<le> y" "y < 2147483648" using year_bound [OF v] z d by simp_all
  from civilFromDays_eq [OF v this] v daysFromCivil_eq [OF v] d
  show "\<exists>y m d. civilFromDays z = (y, int m, int d) \<and> valid_date y m d
      \<and> daysFromCivil y (of_nat m) (of_nat d) = z" by blast
qed

theorem civil_days_roundtrip_witness:
  "civilFromDays (daysFromCivil (- 44) 3 15) = (- 44, 3, 15) \<and> (\<exists>y m d. civilFromDays 20000 = (y, int m, int d))"
  using civil_days_roundtrip [THEN conjunct1, rule_format, of "- 44" 3 15]
    civil_days_roundtrip [THEN conjunct2, rule_format, of 20000]
  by (auto simp: valid_date_def month_length_def)

end
