(* ===== verification/Time.thy ===== *)
theory Time
  imports Calendar
begin

text \<open>
  \<^verbatim>\<open>source/time.cpp\<close> and \<^verbatim>\<open>source/systeminfo.cpp\<close>: the guest's clock on top of the host's. The host counter
  \<^verbatim>\<open>armGetSystemTick\<close> and the answer of \<^verbatim>\<open>timeGetCurrentTime\<close> (\<open>None\<close> when it fails) are arguments. \<^verbatim>\<open>OSTime\<close> is a
  64-bit word where the code only adds and subtracts, and \<open>int\<close> in the calendar conversions. Those to a calendar stay
  inside 64 bits for every 64-bit time; those back to ticks do not, and each of their operations is written with the
  width of its C++ type.
\<close>

section \<open>The clock\<close>

definition kWiiUBusClockHz :: u32 where "kWiiUBusClockHz = 248625000"
definition kWiiUCoreClockHz :: u32 where "kWiiUCoreClockHz = 1243125000"
definition kWiiUTimerHz :: u64 where "kWiiUTimerHz = ucast (kWiiUBusClockHz div 4)"
definition kUnixToCafeEpoch :: u64 where "kUnixToCafeEpoch = 946684800"

definition systemTimeTicks :: "u64 \<Rightarrow> s64" where
  "systemTimeTicks tick = (tick * 3315) div 1024"

definition computeBaseTime :: "u64 option \<Rightarrow> u64 \<Rightarrow> s64" where
  "computeBaseTime clock tick =
     (case clock of
        None \<Rightarrow> 0
      | Some unixSeconds \<Rightarrow> (unixSeconds - kUnixToCafeEpoch) * kWiiUTimerHz - systemTimeTicks tick)"

record OSSystemInfo =
  busClockSpeed :: u32
  coreClockSpeed :: u32
  baseTime :: s64
  unknown_bytes :: "u8 list"

record info_world =
  g_info :: OSSystemInfo
  g_ready :: bool

definition OSGetSystemInfo :: "u64 option \<Rightarrow> u64 \<Rightarrow> info_world \<Rightarrow> info_world" where
  "OSGetSystemInfo clock tick w =
     (if \<not> g_ready w then
        w\<lparr>g_info := \<lparr>busClockSpeed = kWiiUBusClockHz, coreClockSpeed = kWiiUCoreClockHz,
            baseTime = computeBaseTime clock tick, unknown_bytes = replicate (length (unknown_bytes (g_info w))) 0\<rparr>,
          g_ready := True\<rparr>
      else w)"

definition OSGetTitleID :: u64 where "OSGetTitleID = 0"

definition OSGetSystemTime :: "u64 \<Rightarrow> s64" where "OSGetSystemTime tick = systemTimeTicks tick"

text \<open>The counter is read once when the information is created, and again for the sum: \<open>tick\<close> and \<open>tick'\<close>.\<close>

definition OSGetTime :: "u64 option \<Rightarrow> u64 \<Rightarrow> u64 \<Rightarrow> info_world \<Rightarrow> s64 \<times> info_world" where
  "OSGetTime clock tick tick' w =
     (let w' = OSGetSystemInfo clock tick w in (baseTime (g_info w') + OSGetSystemTime tick', w'))"

definition OSGetSystemTick :: "u64 \<Rightarrow> s32" where
  "OSGetSystemTick tick = ucast (OSGetSystemTime tick)"

definition OSGetTick :: "u64 option \<Rightarrow> u64 \<Rightarrow> u64 \<Rightarrow> info_world \<Rightarrow> s32 \<times> info_world" where
  "OSGetTick clock tick tick' w = (case OSGetTime clock tick tick' w of (t, w') \<Rightarrow> (ucast t, w'))"

text \<open>
  C++17 evaluates the right-hand side of an assignment first: the counter is read (\<open>tick\<close>) before the information is
  created (\<open>tick'\<close>).
\<close>

definition SetAbsoluteSystemTime :: "u64 option \<Rightarrow> u64 \<Rightarrow> u64 \<Rightarrow> s64 \<Rightarrow> info_world \<Rightarrow> s32 \<times> info_world" where
  "SetAbsoluteSystemTime clock tick tick' time w =
     (let t = OSGetSystemTime tick; w' = OSGetSystemInfo clock tick' w
      in (1, w'\<lparr>g_info := g_info w'\<lparr>baseTime := time - t\<rparr>\<rparr>))"

text \<open>The nanoseconds \<^verbatim>\<open>svcSleepThread\<close> is called with, if it is called.\<close>

definition OSSleepTicks :: "s64 \<Rightarrow> u64 option" where
  "OSSleepTicks ticks = (if ticks \<le>s 0 then None else Some (ticks * 32000 div 1989))"

section \<open>Calendar time\<close>

record OSCalendarTime =
  tm_sec :: int
  tm_min :: int
  tm_hour :: int
  tm_mday :: int
  tm_mon :: int
  tm_year :: int
  tm_wday :: int
  tm_yday :: int
  tm_msec :: int
  tm_usec :: int

abbreviation (input) hz :: int where "hz \<equiv> 62156250"

definition OSTicksToCalendarTime :: "int \<Rightarrow> OSCalendarTime option \<Rightarrow> OSCalendarTime option" where
  "OSTicksToCalendarTime time ct =
     (case ct of None \<Rightarrow> None | Some _ \<Rightarrow>
        (let secs0 = time sdiv hz; rem0 = time smod hz;
             rem = (if rem0 < 0 then rem0 + hz else rem0);
             secs = (if rem0 < 0 then secs0 - 1 else secs0);
             unixSecs = secs + 946684800;
             days0 = unixSecs sdiv 86400; sod0 = unixSecs smod 86400;
             sod = (if sod0 < 0 then sod0 + 86400 else sod0);
             days = (if sod0 < 0 then days0 - 1 else days0);
             (y, m, d) = civilFromDays days;
             usec = (word_of_int rem :: u64) * 1000000 div 62156250
         in Some \<lparr>tm_sec = int32_of (sod smod 60), tm_min = int32_of ((sod smod 3600) sdiv 60),
              tm_hour = int32_of (sod sdiv 3600), tm_mday = d, tm_mon = m - 1, tm_year = y,
              tm_wday = int32_of (((days smod 7) + 11) smod 7), tm_yday = int32_of (days - daysFromCivil y 1 1),
              tm_msec = int32_of (uint (usec div 1000)), tm_usec = int32_of (uint (usec mod 1000))\<rparr>))"

text \<open>
  What an \<^verbatim>\<open>int64_t\<close> operation yields: the value kept in 64 bits. An overflow is undefined in C++; the processor wraps
  around. Products of two \<^verbatim>\<open>int32_t\<close> values are computed in 32 bits.
\<close>

definition int64_of :: "int \<Rightarrow> int" where
  "int64_of x = sint (word_of_int x :: s64)"

definition OSCalendarTimeToTicks :: "OSCalendarTime option \<Rightarrow> int" where
  "OSCalendarTimeToTicks ct =
     (case ct of None \<Rightarrow> 0 | Some ct \<Rightarrow>
        (let days = daysFromCivil (tm_year ct) (word_of_int (tm_mon ct + 1)) (word_of_int (tm_mday ct));
             unixSecs = int64_of (int64_of (int64_of (int64_of (days * 86400) + int32_of (tm_hour ct * 3600))
               + int32_of (tm_min ct * 60)) + tm_sec ct);
             cafeSecs = int64_of (unixSecs - 946684800);
             ticks = int64_of (cafeSecs * hz)
         in int64_of (ticks + int64_of (int64_of (int64_of (tm_msec ct * 1000) + tm_usec ct) * hz) sdiv 1000000)))"

section \<open>Floor division\<close>

text \<open>The code's adjustment of C's truncating division gives the floor and the least non-negative remainder.\<close>

lemma floor_adjust:
  fixes x k :: int
  assumes "0 < k"
  shows "(if x smod k < 0 then x sdiv k - 1 else x sdiv k) = x div k"
    and "(if x smod k < 0 then x smod k + k else x smod k) = x mod k"
proof -
  define q r where "q = (if x smod k < 0 then x sdiv k - 1 else x sdiv k)"
    and "r = (if x smod k < 0 then x smod k + k else x smod k)"
  have "x sdiv k * k + x smod k = x" by (rule sdiv_mult_smod_eq)
  then have x: "x = k * q + r" by (simp add: q_def r_def algebra_simps)
  have "\<bar>x smod k\<bar> < k" using assms by (simp add: signed_modulo_int_def abs_mult)
  then have r: "0 \<le> r" "r < k" by (auto simp: r_def)
  show "(if x smod k < 0 then x sdiv k - 1 else x sdiv k) = x div k"
    unfolding q_def [symmetric] using x r by (intro int_div_pos_eq [symmetric]) simp_all
  show "(if x smod k < 0 then x smod k + k else x smod k) = x mod k"
    unfolding r_def [symmetric] using x r by (intro int_mod_pos_eq [symmetric]) simp_all
qed

lemma sdiv_smod_nonneg: "0 \<le> x \<Longrightarrow> 0 < k \<Longrightarrow> x sdiv k = x div k \<and> x smod k = x mod k" for x k :: int
  by (simp add: signed_divide_int_def signed_modulo_int_def sgn_if)

lemma int32_of_id: "- 2147483648 \<le> x \<Longrightarrow> x < 2147483648 \<Longrightarrow> int32_of x = x"
  by (simp add: int32_of_def sint_sbintrunc' signed_take_bit_int_eq_self)

lemma int64_of_id: "- 9223372036854775808 \<le> x \<Longrightarrow> x < 9223372036854775808 \<Longrightarrow> int64_of x = x"
  by (simp add: int64_of_def sint_sbintrunc' signed_take_bit_int_eq_self)

text \<open>The conversion, with floor division: the code computes this.\<close>

definition calendar_of :: "int \<Rightarrow> OSCalendarTime" where
  "calendar_of time =
     (let unixSecs = time div hz + 946684800; days = unixSecs div 86400; sod = unixSecs mod 86400;
          (y, m, d) = civilFromDays days; usec = time mod hz * 1000000 div hz
      in \<lparr>tm_sec = sod mod 60, tm_min = sod mod 3600 div 60, tm_hour = sod div 3600, tm_mday = d, tm_mon = m - 1,
           tm_year = y, tm_wday = (days + 4) mod 7, tm_yday = days - daysFromCivil y 1 1,
           tm_msec = usec div 1000, tm_usec = usec mod 1000\<rparr>)"

lemma weekday: "((x smod 7) + 11) smod 7 = (x + 4) mod (7 :: int)"
proof -
  have b: "\<bar>x smod 7\<bar> < 7" by (simp add: signed_modulo_int_def abs_mult)
  have "x = 7 * (x sdiv 7) + x smod 7" using sdiv_mult_smod_eq [of x 7] by simp
  then have "(x + 4) mod 7 = (7 * (x sdiv 7) + (x smod 7 + 4)) mod 7" by (metis add.assoc)
  also have "\<dots> = (x smod 7 + 4) mod 7" by simp
  also have "\<dots> = (x smod 7 + 11) mod 7" using mod_add_self2 [of "x smod 7 + 4" 7] by (simp add: add.commute)
  finally show ?thesis using b sdiv_smod_nonneg [of "x smod 7 + 11" 7] by simp
qed

lemma u64_div:
  "0 \<le> i \<Longrightarrow> i < 18446744073709551616 \<Longrightarrow> 0 < k \<Longrightarrow> k < 18446744073709551616 \<Longrightarrow>
     uint ((word_of_int i :: u64) div word_of_int k) = i div k"
  by (simp add: uint_div uint_word_of_int take_bit_int_eq_self)

lemma year_start:
  assumes "valid_date y m d"
  shows "0 \<le> days y m d - daysFromCivil y 1 1" "days y m d - daysFromCivil y 1 1 \<le> 365"
proof -
  have v: "1 \<le> m" "m \<le> 12" "1 \<le> d" "d \<le> month_length y m" using assms by (auto simp: valid_date_def)
  have first: "daysFromCivil y 1 1 = days y 1 1"
    using daysFromCivil_eq [of y 1 1] by (simp add: valid_date_def month_length_def)
  have year: "year_days y = year_days (y - 1) + 365 + (if leap y then 1 else 0)"
    using year_days_next [of "y - 1"] by simp
  have "0 \<le> days y m d - daysFromCivil y 1 1 \<and> days y m d - daysFromCivil y 1 1 \<le> 365"
    using v(1,2) v(3,4) year
    by (cases rule: month_cases)
      (auto simp: first days_def march_year_def march_month_def month_days_def month_length_def split: if_splits)
  then show "0 \<le> days y m d - daysFromCivil y 1 1" "days y m d - daysFromCivil y 1 1 \<le> 365" by blast+
qed

text \<open>What is left over: quotients by numerals are generalised first, linear arithmetic does the rest.\<close>

lemma sod_parts:
  assumes "0 \<le> s" "s < (86400 :: int)"
  shows "0 \<le> s div 3600" "s div 3600 < 24" "0 \<le> s mod 3600 div 60" "s mod 3600 div 60 < 60"
    "0 \<le> s mod 60" "s mod 60 < 60" "s div 3600 * 3600 + s mod 3600 div 60 * 60 + s mod 60 = s"
proof -
  define h r where "h = s div 3600" and "r = s mod 3600"
  define q p where "q = r div 60" and "p = r mod 60"
  have b: "h * 3600 \<le> s" "s < h * 3600 + 3600" "0 \<le> r" "r < 3600" "q * 60 \<le> r" "r < q * 60 + 60" "0 \<le> p" "p < 60"
    using div_bounds [of 3600 s] div_bounds [of 60 r] unfolding h_def r_def q_def p_def by simp_all
  have s: "s = h * 3600 + r" "r = q * 60 + p" unfolding h_def r_def q_def p_def by simp_all
  have "s mod 60 = p" using s b by (intro int_mod_pos_eq [where q = "60 * h + q"]) simp_all
  then show "0 \<le> s div 3600" "s div 3600 < 24" "0 \<le> s mod 3600 div 60" "s mod 3600 div 60 < 60"
    "0 \<le> s mod 60" "s mod 60 < 60" "s div 3600 * 3600 + s mod 3600 div 60 * 60 + s mod 60 = s"
    unfolding h_def [symmetric] r_def [symmetric] q_def [symmetric] using s b assms by linarith+
qed

lemma usec_parts:
  assumes "0 \<le> r" "r < hz" and "u = r * 1000000 div hz"
  shows "0 \<le> u" "u < 1000000" "u * hz \<le> r * 1000000" "r * 1000000 < u * hz + hz"
  using div_bounds [of hz "r * 1000000"] assms unfolding assms(3) [symmetric] by linarith+

lemma days_of_time:
  assumes "- 9223372036854775808 \<le> time" "time < 9223372036854775808"
  shows "- 700000000000 \<le> (time div hz + 946684800) div 86400" "(time div hz + 946684800) div 86400 \<le> 700000000000"
proof -
  define s where "s = time div hz"
  define x where "x = (s + 946684800) div 86400"
  have "s * hz \<le> time" "time < s * hz + hz" "x * 86400 \<le> s + 946684800" "s + 946684800 < x * 86400 + 86400"
    using div_bounds [of hz time] div_bounds [of 86400 "s + 946684800"] unfolding s_def x_def by simp_all
  then show "- 700000000000 \<le> (time div hz + 946684800) div 86400" "(time div hz + 946684800) div 86400 \<le> 700000000000"
    unfolding s_def [symmetric] x_def [symmetric] using assms by linarith+
qed

lemma OSTicksToCalendarTime_eq:
  assumes "- 9223372036854775808 \<le> time" "time < 9223372036854775808"
  shows "OSTicksToCalendarTime time (Some c) = Some (calendar_of time)"
proof -
  define s where "s = time div hz + 946684800"
  define r where "r = time mod hz"
  define z where "z = s div 86400"
  define w where "w = s mod 86400"
  obtain y m d where v: "valid_date y m d" and yd: "days y m d = z" by (rule days_onto)
  have z: "- 700000000000 \<le> z" "z \<le> 700000000000" using days_of_time [OF assms] unfolding z_def s_def by simp_all
  then have y: "- 2147483648 \<le> y" "y < 2147483648" using year_bound [OF v] yd by simp_all
  have civ: "civilFromDays z = (y, int m, int d)" using civilFromDays_eq [OF v y] yd by simp
  have w: "0 \<le> w" "w < 86400" unfolding w_def by simp_all
  note p = sod_parts [OF w]
  have r: "0 \<le> r" "r < hz" unfolding r_def by simp_all
  have ru: "(word_of_int r :: u64) * 1000000 = word_of_int (r * 1000000)" by simp
  define u where "u = r * 1000000 div hz"
  note u = usec_parts [OF r u_def]
  have uw: "uint ((word_of_int r :: u64) * 1000000 div 62156250) = u"
    using u64_div [of "r * 1000000" hz] r unfolding u_def ru by simp
  then have usec: "(word_of_int r :: u64) * 1000000 div 62156250 = word_of_int u" by (metis word_of_int_uint)
  have ums: "uint ((word_of_int u :: u64) div 1000) = u div 1000" "uint ((word_of_int u :: u64) mod 1000) = u mod 1000"
    using u by (simp_all add: uint_div uint_mod uint_word_of_int take_bit_int_eq_self)
  have um: "0 \<le> u div 1000" "u div 1000 < 1000" "0 \<le> u mod 1000" "u mod 1000 < 1000"
    using u(1,2) div_bounds [of 1000 u] by (simp_all add: pos_imp_zdiv_nonneg_iff)
  have fields: "int32_of (w smod 60) = w mod 60" "int32_of ((w smod 3600) sdiv 60) = w mod 3600 div 60"
    "int32_of (w sdiv 3600) = w div 3600" "int32_of (((z smod 7) + 11) smod 7) = (z + 4) mod 7"
    "int32_of (z - daysFromCivil y 1 1) = z - daysFromCivil y 1 1"
    "int32_of (u div 1000) = u div 1000" "int32_of (u mod 1000) = u mod 1000"
  proof -
    have "w smod 60 = w mod 60" "w smod 3600 = w mod 3600" "w sdiv 3600 = w div 3600"
      using sdiv_smod_nonneg w(1) by simp_all
    moreover have "(w mod 3600) sdiv 60 = w mod 3600 div 60" using sdiv_smod_nonneg by simp
    moreover have "0 \<le> (z + 4) mod 7" "(z + 4) mod 7 < 7" by simp_all
    moreover note year_start [OF v] yd
    ultimately show "int32_of (w smod 60) = w mod 60" "int32_of ((w smod 3600) sdiv 60) = w mod 3600 div 60"
      "int32_of (w sdiv 3600) = w div 3600" "int32_of (((z smod 7) + 11) smod 7) = (z + 4) mod 7"
      "int32_of (z - daysFromCivil y 1 1) = z - daysFromCivil y 1 1"
      "int32_of (u div 1000) = u div 1000" "int32_of (u mod 1000) = u mod 1000"
      using p um unfolding weekday by (simp_all only:) (rule int32_of_id; linarith)+
  qed
  show ?thesis
    unfolding OSTicksToCalendarTime_def Let_def option.case floor_adjust [of hz, simplified] floor_adjust [of 86400, simplified]
      s_def [symmetric] z_def [symmetric] w_def [symmetric] r_def [symmetric] civ prod.case usec ums fields
    unfolding calendar_of_def Let_def s_def [symmetric] z_def [symmetric] w_def [symmetric] r_def [symmetric]
      u_def [symmetric] civ prod.case ..
qed

text \<open>Back to ticks: no operation overflows when the start of the time's second is a 64-bit value.\<close>

lemma OSCalendarTimeToTicks_eq:
  assumes t: "- 9223372036854775808 \<le> time" "time < 9223372036854775808"
    and safe: "- 9223372036854775808 \<le> time div hz * hz"
  shows "OSCalendarTimeToTicks (Some (calendar_of time)) =
    time div hz * hz + (time mod hz * 1000000 div hz) * hz div 1000000"
proof -
  define q where "q = time div hz"
  define r where "r = time mod hz"
  define z where "z = (q + 946684800) div 86400"
  define w where "w = (q + 946684800) mod 86400"
  define u where "u = r * 1000000 div hz"
  obtain y m d where v: "valid_date y m d" and yd: "days y m d = z" by (rule days_onto)
  have z: "- 700000000000 \<le> z" "z \<le> 700000000000" using days_of_time [OF t] unfolding z_def q_def by simp_all
  then have y: "- 2147483648 \<le> y" "y < 2147483648" using year_bound [OF v] yd by simp_all
  have civ: "civilFromDays z = (y, int m, int d)" using civilFromDays_eq [OF v y] yd by simp
  have w: "0 \<le> w" "w < 86400" unfolding w_def by simp_all
  have r: "0 \<le> r" "r < hz" unfolding r_def by simp_all
  note u = usec_parts [OF r u_def]
  define h n s where "h = w div 3600" and "n = w mod 3600 div 60" and "s = w mod 60"
  have p: "0 \<le> h" "h < 24" "0 \<le> n" "n < 60" "0 \<le> s" "s < 60" "h * 3600 + n * 60 + s = w"
    using sod_parts [OF w] unfolding h_def n_def s_def by simp_all
  have sec: "z * 86400 + h * 3600 + n * 60 + s = q + 946684800"
    using p(7) div_mult_mod_eq [of "q + 946684800" 86400] unfolding z_def w_def by linarith
  define f where "f = u * hz div 1000000"
  have f: "0 \<le> f" "f * 1000000 \<le> u * hz" using u(1) div_bounds [of 1000000 "u * hz"] unfolding f_def by simp_all
  have qr: "q * hz + r = time" unfolding q_def r_def by simp
  have ct: "calendar_of time = \<lparr>tm_sec = s, tm_min = n, tm_hour = h, tm_mday = int d, tm_mon = int m - 1, tm_year = y,
      tm_wday = (z + 4) mod 7, tm_yday = z - daysFromCivil y 1 1, tm_msec = u div 1000, tm_usec = u mod 1000\<rparr>"
    unfolding calendar_of_def Let_def q_def [symmetric] z_def [symmetric] w_def [symmetric] r_def [symmetric]
      u_def [symmetric] civ prod.case h_def n_def s_def ..
  have um: "0 \<le> u div 1000" "u div 1000 < 1000" using u(1,2) div_bounds [of 1000 u] by (simp_all add: pos_imp_zdiv_nonneg_iff)
  define k l where "k = u div 1000" and "l = u mod 1000"
  have kl: "k * 1000 + l = u" "0 \<le> k" "k < 1000" using um unfolding k_def l_def by simp_all
  have "int64_of (z * 86400) = z * 86400" "int32_of (h * 3600) = h * 3600" "int32_of (n * 60) = n * 60"
    "int64_of (z * 86400 + h * 3600) = z * 86400 + h * 3600"
    "int64_of (z * 86400 + h * 3600 + n * 60) = z * 86400 + h * 3600 + n * 60"
    "int64_of (q + 946684800) = q + 946684800" "int64_of q = q"
    using z p sec by - (rule int64_of_id int32_of_id; linarith)+
  moreover have "int64_of (k * 1000) = k * 1000" "int64_of u = u" "int64_of (u * hz) = u * hz"
    using u(1,2) kl by - (rule int64_of_id; linarith)+
  moreover have "int64_of (q * hz) = q * hz" "int64_of (q * hz + f) = q * hz + f"
    using safe t f u qr r unfolding q_def [symmetric] by - (rule int64_of_id; linarith)+
  moreover have "(u * hz) sdiv 1000000 = f" using sdiv_smod_nonneg [of "u * hz" 1000000] u(1) by (simp add: f_def)
  moreover have "daysFromCivil y (word_of_int (int m - 1 + 1)) (word_of_int (int d)) = z"
    using daysFromCivil_eq [OF v] yd by simp
  moreover have "q + 946684800 - 946684800 = q" by simp
  ultimately show ?thesis
    unfolding q_def [symmetric] r_def [symmetric] u_def [symmetric] f_def [symmetric] ct k_def [symmetric] l_def [symmetric]
      OSCalendarTimeToTicks_def Let_def option.case OSCalendarTime.select_convs
    by (simp only: sec kl)
qed

section \<open>Properties\<close>

lemma weekday_shift: "z = k + 10957 \<Longrightarrow> (z + 4) mod 7 = (k + 6) mod (7 :: int)"
  using mod_mult_self2 [of "k + 6" 7 1565] by (simp add: add.commute add.left_commute)

text \<open>
  C32: For every 64-bit time, OSTicksToCalendarTime yields a real date and a time of day in range (days in the year and in
  the month by the calendar, the weekday a Saturday for 2000-01-01 and one further each day). For every time whose
  second starts inside the 64-bit range, which is all but the lowest partial second, OSCalendarTimeToTicks of that
  calendar is the same time but for the fraction of a microsecond the calendar cannot express: at most 63 ticks less,
  never more. Both conversions ignore a null pointer.
\<close>

theorem OSTicksToCalendarTime_roundtrip:
  assumes "- 9223372036854775808 \<le> time" "time < 9223372036854775808"
  shows "\<exists>ct. OSTicksToCalendarTime time (Some c) = Some ct
    \<and> valid_date (tm_year ct) (nat (tm_mon ct + 1)) (nat (tm_mday ct)) \<and> 0 \<le> tm_mon ct
    \<and> tm_hour ct \<in> {0..<24} \<and> tm_min ct \<in> {0..<60} \<and> tm_sec ct \<in> {0..<60}
    \<and> tm_msec ct \<in> {0..<1000} \<and> tm_usec ct \<in> {0..<1000} \<and> tm_yday ct \<in> {0..365}
    \<and> tm_wday ct = (time div (86400 * 62156250) + 6) mod 7
    \<and> (- 9223372036854775808 \<le> time div 62156250 * 62156250 \<longrightarrow>
        OSCalendarTimeToTicks (Some ct) \<le> time \<and> time \<le> OSCalendarTimeToTicks (Some ct) + 63)
    \<and> OSTicksToCalendarTime time None = None \<and> OSCalendarTimeToTicks None = 0"
proof -
  define s where "s = time div hz + 946684800"
  define r where "r = time mod hz"
  define z where "z = s div 86400"
  define w where "w = s mod 86400"
  define u where "u = r * 1000000 div hz"
  obtain y m d where v: "valid_date y m d" and yd: "days y m d = z" by (rule days_onto)
  have z: "- 700000000000 \<le> z" "z \<le> 700000000000" using days_of_time [OF assms] unfolding z_def s_def by simp_all
  then have y: "- 2147483648 \<le> y" "y < 2147483648" using year_bound [OF v] yd by simp_all
  have civ: "civilFromDays z = (y, int m, int d)" using civilFromDays_eq [OF v y] yd by simp
  have w: "0 \<le> w" "w < 86400" unfolding w_def by simp_all
  have r: "0 \<le> r" "r < hz" unfolding r_def by simp_all
  note p = sod_parts [OF w] and u = usec_parts [OF r u_def]
  have ct: "calendar_of time = \<lparr>tm_sec = w mod 60, tm_min = w mod 3600 div 60, tm_hour = w div 3600,
      tm_mday = int d, tm_mon = int m - 1, tm_year = y, tm_wday = (z + 4) mod 7,
      tm_yday = z - daysFromCivil y 1 1, tm_msec = u div 1000, tm_usec = u mod 1000\<rparr>"
    unfolding calendar_of_def Let_def s_def [symmetric] z_def [symmetric] w_def [symmetric] r_def [symmetric]
      u_def [symmetric] civ prod.case ..
  define f where "f = u * hz div 1000000"
  have f: "f * 1000000 \<le> u * hz" "u * hz < f * 1000000 + 1000000"
    using div_bounds [of 1000000 "u * hz"] unfolding f_def by simp_all
  define q where "q = time div hz"
  have "q * hz + r = time" unfolding r_def q_def by simp
  moreover have "OSCalendarTimeToTicks (Some (calendar_of time)) = q * hz + f" if "- 9223372036854775808 \<le> time div 62156250 * 62156250"
    using OSCalendarTimeToTicks_eq [OF assms that] unfolding q_def f_def u_def r_def .
  ultimately have conv: "- 9223372036854775808 \<le> time div 62156250 * 62156250 \<longrightarrow>
      OSCalendarTimeToTicks (Some (calendar_of time)) \<le> time \<and> time \<le> OSCalendarTimeToTicks (Some (calendar_of time)) + 63"
    using f u by auto
  have "z = q div 86400 + 10957"
    using div_mult_self2 [of 86400 q 10957] unfolding z_def s_def q_def by simp
  also have "q div 86400 = time div (86400 * hz)" unfolding q_def by (subst zdiv_zmult2_eq [symmetric]) simp_all
  finally have wd: "(z + 4) mod 7 = (time div (86400 * hz) + 6) mod 7" by (rule weekday_shift)
  note yr = year_start [OF v, unfolded yd]
  have um: "0 \<le> u div 1000" "u div 1000 < 1000" "0 \<le> u mod 1000" "u mod 1000 < 1000"
    using u(1,2) div_bounds [of 1000 u] by (simp_all add: pos_imp_zdiv_nonneg_iff)
  have "1 \<le> m" using v by (simp add: valid_date_def)
  then have "valid_date (tm_year (calendar_of time)) (nat (tm_mon (calendar_of time) + 1)) (nat (tm_mday (calendar_of time)))
      \<and> 0 \<le> tm_mon (calendar_of time)"
    using v unfolding ct by simp
  moreover have "tm_hour (calendar_of time) \<in> {0..<24}" "tm_min (calendar_of time) \<in> {0..<60}" "tm_sec (calendar_of time) \<in> {0..<60}"
    "tm_msec (calendar_of time) \<in> {0..<1000}" "tm_usec (calendar_of time) \<in> {0..<1000}" "tm_yday (calendar_of time) \<in> {0..365}"
    "tm_wday (calendar_of time) = (time div (86400 * hz) + 6) mod 7"
    unfolding ct by (simp_all only: OSCalendarTime.select_convs atLeastLessThan_iff atLeastAtMost_iff p um yr wd simp_thms)
  moreover have "OSTicksToCalendarTime time None = None" "OSCalendarTimeToTicks None = 0"
    by (simp_all add: OSTicksToCalendarTime_def OSCalendarTimeToTicks_def)
  ultimately show ?thesis using OSTicksToCalendarTime_eq [OF assms, of c] conv by (intro exI [of _ "calendar_of time"]) simp
qed

definition calendar_blank :: OSCalendarTime where
  "calendar_blank = \<lparr>tm_sec = 0, tm_min = 0, tm_hour = 0, tm_mday = 0, tm_mon = 0, tm_year = 0, tm_wday = 0, tm_yday = 0,
     tm_msec = 0, tm_usec = 0\<rparr>"

theorem OSTicksToCalendarTime_roundtrip_witness:
  "\<exists>ct. OSTicksToCalendarTime (- 1) (Some calendar_blank) = Some ct \<and> tm_wday ct = 5
     \<and> OSCalendarTimeToTicks (Some ct) \<le> - 1 \<and> - 64 \<le> OSCalendarTimeToTicks (Some ct)"
  using OSTicksToCalendarTime_roundtrip [of "- 1" calendar_blank] by auto

text \<open>
  In the lowest partial second the product \<^verbatim>\<open>cafeSecs * hz\<close> overflows: the calendar of the lowest time converts back, with
  the processor's wrap-around, to a time far in the future.
\<close>

lemma OSCalendarTimeToTicks_overflows:
  "OSCalendarTimeToTicks (Some (calendar_of (- 9223372036854775808))) = 9223372036854775757"
  by code_simp

subsection \<open>The running clock\<close>

text \<open>The conversion of the host counter is exact as long as its product with 3315 fits 64 bits.\<close>

lemma systemTimeTicks_nat: "unat t * 3315 < 2 ^ 64 \<Longrightarrow> unat (systemTimeTicks t) = unat t * 3315 div 1024"
  by (simp add: systemTimeTicks_def unat_div unat_mult_lem [THEN iffD1])

text \<open>
  C34: the guest's clock. For nine years of uptime (of 366 days) the guest's tick counter is the host's scaled by
  3315/1024 and rounded down, so it never runs back and advances 62156250 times in each second; the time the guest reads
  is the one it last set plus the ticks since, or the host clock's at the first use when it never set one, and the
  32-bit counters are its low halves. The first host tick that no longer fits makes the counter fall back to zero.
\<close>

theorem OSGetTime_running:
  assumes "unat t < 9 * 366 * 86400 * 19200000" "t \<le> t'" "unat t' < 9 * 366 * 86400 * 19200000"
  shows "unat (OSGetSystemTime t) = unat t * 3315 div 1024 \<and> OSGetSystemTime t \<le> OSGetSystemTime t'
    \<and> unat (OSGetSystemTime (t + 19200000)) = unat (OSGetSystemTime t) + 62156250
    \<and> OSGetSystemTime 5564628679852052 = 0
    \<and> (case SetAbsoluteSystemTime clock t t a w of (r, w1) \<Rightarrow>
        r = 1 \<and> OSGetTime clock' t0 t' w1 = (a + (OSGetSystemTime t' - OSGetSystemTime t), w1))
    \<and> (\<not> g_ready w \<longrightarrow> fst (OSGetTime (Some unix) t t' w)
        = (unix - 946684800) * 62156250 + (OSGetSystemTime t' - OSGetSystemTime t))
    \<and> fst (OSGetTick clock t t' w) = ucast (fst (OSGetTime clock t t' w))"
proof -
  have b: "unat t * 3315 < 2 ^ 64" "unat t' * 3315 < 2 ^ 64" using assms by simp_all
  note ticks = systemTimeTicks_nat [OF b(1)] systemTimeTicks_nat [OF b(2)]
  have "unat t \<le> unat t'" using assms(2) by (simp add: word_le_nat_alt)
  then have mono: "OSGetSystemTime t \<le> OSGetSystemTime t'"
    by (simp add: OSGetSystemTime_def word_le_nat_alt ticks div_le_mono)
  have later: "unat (t + 19200000) = unat t + 19200000" using assms(1) by (subst unat_plus_u64) simp_all
  then have "(unat t + 19200000) * 3315 < 2 ^ 64" using assms(1) by simp
  then have "unat (systemTimeTicks (t + 19200000)) = (unat t * 3315 + 62156250 * 1024) div 1024"
    using systemTimeTicks_nat [of "t + 19200000"] unfolding later by (simp add: algebra_simps)
  also have "\<dots> = unat (systemTimeTicks t) + 62156250" unfolding ticks by simp
  finally have second: "unat (OSGetSystemTime (t + 19200000)) = unat (OSGetSystemTime t) + 62156250"
    by (simp add: OSGetSystemTime_def)
  have wrap: "OSGetSystemTime 5564628679852052 = 0" by (simp add: OSGetSystemTime_def systemTimeTicks_def)
  have set: "case SetAbsoluteSystemTime clock t t a w of (r, w1) \<Rightarrow>
        r = 1 \<and> OSGetTime clock' t0 t' w1 = (a + (OSGetSystemTime t' - OSGetSystemTime t), w1)"
    by (simp add: SetAbsoluteSystemTime_def OSGetTime_def OSGetSystemInfo_def Let_def)
  have first: "\<not> g_ready w \<longrightarrow> fst (OSGetTime (Some unix) t t' w)
        = (unix - 946684800) * 62156250 + (OSGetSystemTime t' - OSGetSystemTime t)"
    by (simp add: OSGetTime_def OSGetSystemInfo_def Let_def computeBaseTime_def kUnixToCafeEpoch_def kWiiUTimerHz_def
        kWiiUBusClockHz_def OSGetSystemTime_def)
  have low: "fst (OSGetTick clock t t' w) = ucast (fst (OSGetTime clock t t' w))"
    by (simp add: OSGetTick_def split: prod.splits)
  show ?thesis using ticks(1) mono second wrap set first low unfolding OSGetSystemTime_def by blast
qed

definition info_start :: info_world where
  "info_start = \<lparr>g_info = \<lparr>busClockSpeed = 0, coreClockSpeed = 0, baseTime = 0, unknown_bytes = []\<rparr>, g_ready = False\<rparr>"

theorem OSGetTime_running_witness:
  "OSGetSystemTime 0 \<le> OSGetSystemTime 1024 \<and> fst (OSGetTime (Some 946684801) 0 1024 info_start) = 62159565"
  using OSGetTime_running [where t = 0 and t' = 1024 and w = info_start and unix = 946684801]
  by (simp add: info_start_def OSGetSystemTime_def systemTimeTicks_def)

end
