(* ===== verification/FileSystem.thy ===== *)
theory FileSystem
  imports Prelude
begin

text \<open>
  The model of \<^verbatim>\<open>source/filesystem.cpp\<close>: numbered handles over the host's \<^verbatim>\<open>FILE*\<close> and \<^verbatim>\<open>DIR*\<close>, one current
  directory and one last error for each client, and the translation of guest paths by a table of prefixes. The C
  library is a parameter, a record of functions on a host state of any type; every call the code makes is one of its
  fields, with the result the code looks at. A null pointer is \<open>0\<close>, or \<open>None\<close> for a string or a structure; what the
  code stores through an out parameter is returned as an option, \<open>None\<close> when nothing is stored. The body of each
  function is one step (\<^verbatim>\<open>g_lock\<close>).
\<close>

section \<open>The C library\<close>

datatype whence = SEEK_SET | SEEK_END

record 'h libc =
  c_fopen :: "string \<Rightarrow> string \<Rightarrow> 'h \<Rightarrow> ptr \<times> 'h"
  c_fclose :: "ptr \<Rightarrow> 'h \<Rightarrow> 'h"
  c_fread :: "ptr \<Rightarrow> u32 \<Rightarrow> u32 \<Rightarrow> ptr \<Rightarrow> memory \<Rightarrow> 'h \<Rightarrow> u64 \<times> memory \<times> 'h"
  c_fwrite :: "ptr \<Rightarrow> u32 \<Rightarrow> u32 \<Rightarrow> ptr \<Rightarrow> memory \<Rightarrow> 'h \<Rightarrow> u64 \<times> 'h"
  c_fseek :: "ptr \<Rightarrow> s64 \<Rightarrow> whence \<Rightarrow> 'h \<Rightarrow> s32 \<times> 'h"
  c_ftell :: "ptr \<Rightarrow> 'h \<Rightarrow> s64 \<times> 'h"
  c_isdir :: "string \<Rightarrow> 'h \<Rightarrow> bool"
  c_opendir :: "string \<Rightarrow> 'h \<Rightarrow> ptr \<times> 'h"
  c_readdir :: "ptr \<Rightarrow> 'h \<Rightarrow> string option \<times> 'h"
  c_closedir :: "ptr \<Rightarrow> 'h \<Rightarrow> 'h"
  c_mkdir :: "string \<Rightarrow> 'h \<Rightarrow> s32 \<times> 'h"
  c_remove :: "string \<Rightarrow> 'h \<Rightarrow> s32 \<times> 'h"
  c_rmdir :: "string \<Rightarrow> 'h \<Rightarrow> s32 \<times> 'h"
  c_rename :: "string \<Rightarrow> string \<Rightarrow> 'h \<Rightarrow> s32 \<times> 'h"

section \<open>Codes\<close>

text \<open>A status is the C enumeration or, from the calls that read and write, a count that was cast to it: a number.\<close>

type_synonym FSStatus = s32

abbreviation (input) FS_STATUS_OK :: FSStatus where "FS_STATUS_OK \<equiv> 0"
abbreviation (input) FS_STATUS_END :: FSStatus where "FS_STATUS_END \<equiv> - 2"
abbreviation (input) FS_STATUS_EXISTS :: FSStatus where "FS_STATUS_EXISTS \<equiv> - 5"
abbreviation (input) FS_STATUS_NOT_FOUND :: FSStatus where "FS_STATUS_NOT_FOUND \<equiv> - 6"
abbreviation (input) FS_STATUS_NOT_FILE :: FSStatus where "FS_STATUS_NOT_FILE \<equiv> - 7"
abbreviation (input) FS_STATUS_ACCESS_ERROR :: FSStatus where "FS_STATUS_ACCESS_ERROR \<equiv> - 9"
abbreviation (input) FS_STATUS_PERMISSION_ERROR :: FSStatus where "FS_STATUS_PERMISSION_ERROR \<equiv> - 10"
abbreviation (input) FS_STATUS_STORAGE_FULL :: FSStatus where "FS_STATUS_STORAGE_FULL \<equiv> - 12"
abbreviation (input) FS_STATUS_FATAL_ERROR :: FSStatus where "FS_STATUS_FATAL_ERROR \<equiv> - 0x400"

datatype FSError = FS_ERROR_OK | FS_ERROR_NOT_INIT | FS_ERROR_END_OF_DIR | FS_ERROR_END_OF_FILE | FS_ERROR_ALREADY_EXISTS
  | FS_ERROR_NOT_FOUND | FS_ERROR_NOT_EMPTY | FS_ERROR_ACCESS_ERROR | FS_ERROR_PERMISSION_ERROR | FS_ERROR_STORAGE_FULL
  | FS_ERROR_INVALID_PARAM | FS_ERROR_INVALID_PATH | FS_ERROR_INVALID_CLIENTHANDLE | FS_ERROR_INVALID_FILEHANDLE
  | FS_ERROR_INVALID_DIRHANDLE | FS_ERROR_MEDIA_ERROR

datatype FSVolumeState = FS_VOLUME_STATE_INITIAL | FS_VOLUME_STATE_READY | FS_VOLUME_STATE_NO_MEDIA | FS_VOLUME_STATE_INVALID

definition statusToError :: "FSStatus \<Rightarrow> FSError" where
  "statusToError s =
     (if s = FS_STATUS_OK then FS_ERROR_OK
      else if s = FS_STATUS_END then FS_ERROR_END_OF_FILE
      else if s = FS_STATUS_NOT_FOUND then FS_ERROR_NOT_FOUND
      else if s = FS_STATUS_EXISTS then FS_ERROR_ALREADY_EXISTS
      else if s = FS_STATUS_PERMISSION_ERROR then FS_ERROR_PERMISSION_ERROR
      else if s = FS_STATUS_ACCESS_ERROR then FS_ERROR_ACCESS_ERROR
      else if s = FS_STATUS_STORAGE_FULL then FS_ERROR_STORAGE_FULL
      else FS_ERROR_MEDIA_ERROR)"

section \<open>Slots\<close>

text \<open>
  \<^verbatim>\<open>HostFile\<close> and \<^verbatim>\<open>HostDir\<close> have the same shape, and the two vectors of them the same operations: handle \<open>n\<close> is
  element \<open>n - 1\<close>, 0 is never a handle, and the first unused element is reused before the vector grows.
\<close>

record host_slot =
  hs_ptr :: ptr
  hs_used :: bool

definition slot_for :: "host_slot list \<Rightarrow> u32 \<Rightarrow> ptr option" where
  "slot_for xs h =
     (if h = 0 \<or> length xs < unat h then None
      else let x = xs ! unat (h - 1) in if hs_used x then Some (hs_ptr x) else None)"

fun first_unused :: "host_slot list \<Rightarrow> nat \<Rightarrow> nat option" where
  "first_unused [] i = None"
| "first_unused (x # xs) i = (if \<not> hs_used x then Some i else first_unused xs (i + 1))"

definition slot_take :: "ptr \<Rightarrow> host_slot list \<Rightarrow> u32 \<times> host_slot list" where
  "slot_take p xs =
     (case first_unused xs 0 of
        Some i \<Rightarrow> (of_nat (i + 1), xs[i := \<lparr>hs_ptr = p, hs_used = True\<rparr>])
      | None \<Rightarrow> (let xs' = xs @ [\<lparr>hs_ptr = null, hs_used = False\<rparr>]; slot = of_nat (length xs') :: u32
                in (slot, xs'[unat (slot - 1) := \<lparr>hs_ptr = p, hs_used = True\<rparr>])))"

definition slot_drop :: "u32 \<Rightarrow> host_slot list \<Rightarrow> host_slot list" where
  "slot_drop h xs = xs[unat (h - 1) := \<lparr>hs_ptr = null, hs_used = False\<rparr>]"

fun close_all :: "(ptr \<Rightarrow> 'h \<Rightarrow> 'h) \<Rightarrow> host_slot list \<Rightarrow> 'h \<Rightarrow> 'h" where
  "close_all cl [] h = h"
| "close_all cl (x # xs) h = close_all cl xs (if hs_used x \<and> hs_ptr x \<noteq> null then cl (hs_ptr x) h else h)"

section \<open>State\<close>

record host_client =
  cwd :: string
  lastError :: FSError

definition client_init :: host_client where
  "client_init = \<lparr>cwd = [], lastError = FS_ERROR_OK\<rparr>"

record 'h fs_world =
  g_files :: "host_slot list"
  g_dirs :: "host_slot list"
  g_clients :: u32
  g_init :: bool
  g_mappings :: "(string \<times> string) list"
  g_clientState :: "ptr \<Rightarrow> host_client option"
  fs_mem :: memory
  fs_host :: 'h

definition fs_start :: "memory \<Rightarrow> 'h \<Rightarrow> 'h fs_world" where
  "fs_start m h = \<lparr>g_files = [], g_dirs = [], g_clients = 0, g_init = False, g_mappings = [],
     g_clientState = (\<lambda>_. None), fs_mem = m, fs_host = h\<rparr>"

text \<open>\<^verbatim>\<open>g_clientState[client]\<close>: the entry, created when there is none.\<close>

definition client_state :: "ptr \<Rightarrow> 'h fs_world \<Rightarrow> host_client" where
  "client_state c w = (case g_clientState w c of Some s \<Rightarrow> s | None \<Rightarrow> client_init)"

definition set_client :: "ptr \<Rightarrow> host_client \<Rightarrow> 'h fs_world \<Rightarrow> 'h fs_world" where
  "set_client c s w = w\<lparr>g_clientState := (g_clientState w)(c \<mapsto> s)\<rparr>"

definition fs_record :: "ptr \<Rightarrow> FSStatus \<Rightarrow> 'h fs_world \<Rightarrow> FSStatus \<times> 'h fs_world" where
  "fs_record c s w =
     (s, if c \<noteq> null then set_client c ((client_state c w)\<lparr>lastError := statusToError s\<rparr>) w else w)"

definition fileFor :: "u32 \<Rightarrow> 'h fs_world \<Rightarrow> ptr option" where
  "fileFor h w = slot_for (g_files w) h"

definition dirFor :: "u32 \<Rightarrow> 'h fs_world \<Rightarrow> ptr option" where
  "dirFor h w = slot_for (g_dirs w) h"

section \<open>Paths\<close>

fun map_path :: "(string \<times> string) list \<Rightarrow> string \<Rightarrow> string" where
  "map_path [] p = p"
| "map_path ((wiiu, host) # ms) p =
     (if take (length wiiu) p = wiiu then host @ drop (length wiiu) p else map_path ms p)"

definition resolve :: "ptr \<Rightarrow> string \<Rightarrow> 'h fs_world \<Rightarrow> string" where
  "resolve client p w =
     (if p \<noteq> [] \<and> hd p \<noteq> CHR ''/'' then
        (case g_clientState w client of
           None \<Rightarrow> p
         | Some s \<Rightarrow>
             if cwd s \<noteq> [] then
               (if last (cwd s) \<noteq> CHR ''/'' then cwd s @ ''/'' else cwd s) @ p
             else p)
      else p)"

definition translate :: "ptr \<Rightarrow> string option \<Rightarrow> 'h fs_world \<Rightarrow> string" where
  "translate client path w =
     (case path of None \<Rightarrow> [] | Some p \<Rightarrow> map_path (g_mappings w) (resolve client p w))"

definition AddVolumeMapping :: "string option \<Rightarrow> string option \<Rightarrow> 'h fs_world \<Rightarrow> 'h fs_world" where
  "AddVolumeMapping wiiu host w =
     (case (wiiu, host) of
        (Some a, Some b) \<Rightarrow> w\<lparr>g_mappings := g_mappings w @ [(a, b)]\<rparr>
      | _ \<Rightarrow> w)"

definition ClearVolumeMappings :: "'h fs_world \<Rightarrow> 'h fs_world" where
  "ClearVolumeMappings w = w\<lparr>g_mappings := []\<rparr>"

section \<open>Sessions\<close>

definition FSInit :: "'h fs_world \<Rightarrow> 'h fs_world" where
  "FSInit w = w\<lparr>g_init := True\<rparr>"

definition FSShutdown :: "'h libc \<Rightarrow> 'h fs_world \<Rightarrow> 'h fs_world" where
  "FSShutdown L w =
     (let h1 = close_all (c_fclose L) (g_files w) (fs_host w);
          h2 = close_all (c_closedir L) (g_dirs w) h1
      in w\<lparr>g_files := [], g_clients := 0, g_init := False, g_dirs := [], g_clientState := (\<lambda>_. None), fs_host := h2\<rparr>)"

definition FSAddClient :: "ptr \<Rightarrow> 'h fs_world \<Rightarrow> FSStatus \<times> 'h fs_world" where
  "FSAddClient client w =
     (if client = null then (FS_STATUS_FATAL_ERROR, w) else (FS_STATUS_OK, w\<lparr>g_clients := g_clients w + 1\<rparr>))"

definition FSDelClient :: "ptr \<Rightarrow> 'h fs_world \<Rightarrow> FSStatus \<times> 'h fs_world" where
  "FSDelClient client w =
     (if client = null then (FS_STATUS_FATAL_ERROR, w)
      else (FS_STATUS_OK, if g_clients w \<noteq> 0 then w\<lparr>g_clients := g_clients w - 1\<rparr> else w))"

definition FSGetClientNum :: "'h fs_world \<Rightarrow> u32" where
  "FSGetClientNum w = g_clients w"

definition FSInitCmdBlock :: "ptr \<Rightarrow> 'h fs_world \<Rightarrow> 'h fs_world" where
  "FSInitCmdBlock block w = w"

section \<open>Files\<close>

definition FSOpenFile ::
  "'h libc \<Rightarrow> ptr \<Rightarrow> string option \<Rightarrow> string option \<Rightarrow> ptr \<Rightarrow> 'h fs_world \<Rightarrow> (FSStatus \<times> u32 option) \<times> 'h fs_world" where
  "FSOpenFile L client path mode handle w =
     (case (path, mode) of
        (Some _, Some md) \<Rightarrow>
          if handle = null then ((FS_STATUS_FATAL_ERROR, None), w)
          else
            (let hostPath = translate client path w;
                 (fp, h) = c_fopen L hostPath md (fs_host w);
                 w1 = w\<lparr>fs_host := h\<rparr>
             in if fp = null then
                  (let why = (if c_isdir L hostPath h then FS_STATUS_NOT_FILE else FS_STATUS_NOT_FOUND);
                       (s, w2) = fs_record client why w1
                   in ((s, None), w2))
                else
                  (let (slot, fs) = slot_take fp (g_files w1);
                       (s, w2) = fs_record client FS_STATUS_OK (w1\<lparr>g_files := fs\<rparr>)
                   in ((s, Some slot), w2)))
      | _ \<Rightarrow> ((FS_STATUS_FATAL_ERROR, None), w))"

definition FSCloseFile :: "'h libc \<Rightarrow> ptr \<Rightarrow> u32 \<Rightarrow> 'h fs_world \<Rightarrow> FSStatus \<times> 'h fs_world" where
  "FSCloseFile L client handle w =
     (case fileFor handle w of
        None \<Rightarrow> (FS_STATUS_FATAL_ERROR, w)
      | Some fp \<Rightarrow>
          (FS_STATUS_OK,
           w\<lparr>fs_host := (if fp \<noteq> null then c_fclose L fp (fs_host w) else fs_host w),
             g_files := slot_drop handle (g_files w)\<rparr>))"

definition FSReadFile ::
  "'h libc \<Rightarrow> ptr \<Rightarrow> ptr \<Rightarrow> u32 \<Rightarrow> u32 \<Rightarrow> u32 \<Rightarrow> 'h fs_world \<Rightarrow> FSStatus \<times> 'h fs_world" where
  "FSReadFile L client buffer n cnt handle w =
     (if buffer = null \<or> n = 0 then (FS_STATUS_FATAL_ERROR, w)
      else case fileFor handle w of
        None \<Rightarrow> (FS_STATUS_FATAL_ERROR, w)
      | Some fp \<Rightarrow>
          (case c_fread L buffer n cnt fp (fs_mem w) (fs_host w) of
             (k, m, h) \<Rightarrow> (ucast k, w\<lparr>fs_mem := m, fs_host := h\<rparr>)))"

definition FSReadFileWithPos ::
  "'h libc \<Rightarrow> ptr \<Rightarrow> ptr \<Rightarrow> u32 \<Rightarrow> u32 \<Rightarrow> u32 \<Rightarrow> u32 \<Rightarrow> 'h fs_world \<Rightarrow> FSStatus \<times> 'h fs_world" where
  "FSReadFileWithPos L client buffer n cnt pos handle w =
     (case fileFor handle w of
        None \<Rightarrow> (FS_STATUS_FATAL_ERROR, w)
      | Some fp \<Rightarrow>
          (case c_fseek L fp (ucast pos) SEEK_SET (fs_host w) of
             (r, h) \<Rightarrow> if r \<noteq> 0 then (FS_STATUS_FATAL_ERROR, w\<lparr>fs_host := h\<rparr>)
                       else FSReadFile L client buffer n cnt handle (w\<lparr>fs_host := h\<rparr>)))"

definition FSGetPosFile ::
  "'h libc \<Rightarrow> ptr \<Rightarrow> u32 \<Rightarrow> ptr \<Rightarrow> 'h fs_world \<Rightarrow> (FSStatus \<times> u32 option) \<times> 'h fs_world" where
  "FSGetPosFile L client handle pos w =
     (if pos = null then ((FS_STATUS_FATAL_ERROR, None), w)
      else case fileFor handle w of
        None \<Rightarrow> ((FS_STATUS_FATAL_ERROR, None), w)
      | Some fp \<Rightarrow>
          (case c_ftell L fp (fs_host w) of
             (p, h) \<Rightarrow> if p <s 0 then ((FS_STATUS_FATAL_ERROR, None), w\<lparr>fs_host := h\<rparr>)
                       else ((FS_STATUS_OK, Some (ucast p)), w\<lparr>fs_host := h\<rparr>)))"

definition FSSetPosFile :: "'h libc \<Rightarrow> ptr \<Rightarrow> u32 \<Rightarrow> u32 \<Rightarrow> 'h fs_world \<Rightarrow> FSStatus \<times> 'h fs_world" where
  "FSSetPosFile L client handle pos w =
     (case fileFor handle w of
        None \<Rightarrow> (FS_STATUS_FATAL_ERROR, w)
      | Some fp \<Rightarrow>
          (case c_fseek L fp (ucast pos) SEEK_SET (fs_host w) of
             (r, h) \<Rightarrow> (if r = 0 then FS_STATUS_OK else FS_STATUS_FATAL_ERROR, w\<lparr>fs_host := h\<rparr>)))"

record FSStat =
  st_flags :: u32
  st_mode :: u32
  st_owner :: u32
  st_group :: u32
  st_size :: u32
  st_allocSize :: u32
  st_quotaSize :: u64
  st_entryId :: u32
  st_created :: u64
  st_modified :: u64
  st_unknown :: "u8 list"

definition stat_zero :: FSStat where
  "stat_zero = \<lparr>st_flags = 0, st_mode = 0, st_owner = 0, st_group = 0, st_size = 0, st_allocSize = 0, st_quotaSize = 0,
     st_entryId = 0, st_created = 0, st_modified = 0, st_unknown = replicate 0x30 0\<rparr>"

definition FSGetStatFile ::
  "'h libc \<Rightarrow> ptr \<Rightarrow> u32 \<Rightarrow> ptr \<Rightarrow> 'h fs_world \<Rightarrow> (FSStatus \<times> FSStat option) \<times> 'h fs_world" where
  "FSGetStatFile L client handle stat w =
     (if stat = null then ((FS_STATUS_FATAL_ERROR, None), w)
      else case fileFor handle w of
        None \<Rightarrow> ((FS_STATUS_FATAL_ERROR, None), w)
      | Some fp \<Rightarrow>
          (let (here, h1) = c_ftell L fp (fs_host w)
           in if here <s 0 then ((FS_STATUS_FATAL_ERROR, None), w\<lparr>fs_host := h1\<rparr>)
              else
                (let (r, h2) = c_fseek L fp 0 SEEK_END h1
                 in if r \<noteq> 0 then ((FS_STATUS_FATAL_ERROR, None), w\<lparr>fs_host := h2\<rparr>)
                    else
                      (let (eof, h3) = c_ftell L fp h2;
                           (_, h4) = c_fseek L fp here SEEK_SET h3
                       in if eof <s 0 then ((FS_STATUS_FATAL_ERROR, None), w\<lparr>fs_host := h4\<rparr>)
                          else ((FS_STATUS_OK, Some (stat_zero\<lparr>st_size := ucast eof, st_allocSize := ucast eof\<rparr>)),
                                w\<lparr>fs_host := h4\<rparr>)))))"

definition FSWriteFile ::
  "'h libc \<Rightarrow> ptr \<Rightarrow> ptr \<Rightarrow> u32 \<Rightarrow> u32 \<Rightarrow> u32 \<Rightarrow> 'h fs_world \<Rightarrow> FSStatus \<times> 'h fs_world" where
  "FSWriteFile L client buffer n cnt handle w =
     (if buffer = null \<or> n = 0 then (FS_STATUS_FATAL_ERROR, w)
      else case fileFor handle w of
        None \<Rightarrow> (FS_STATUS_FATAL_ERROR, w)
      | Some fp \<Rightarrow>
          (case c_fwrite L buffer n cnt fp (fs_mem w) (fs_host w) of
             (k, h) \<Rightarrow> (ucast k, w\<lparr>fs_host := h\<rparr>)))"

section \<open>Directories\<close>

definition FSChangeDir :: "ptr \<Rightarrow> string option \<Rightarrow> 'h fs_world \<Rightarrow> FSStatus \<times> 'h fs_world" where
  "FSChangeDir client path w =
     (case path of
        None \<Rightarrow> (FS_STATUS_FATAL_ERROR, w)
      | Some p \<Rightarrow>
          if client = null then (FS_STATUS_FATAL_ERROR, w)
          else (FS_STATUS_OK, set_client client ((client_state client w)\<lparr>cwd := p\<rparr>) w))"

definition FSGetCwd :: "ptr \<Rightarrow> ptr \<Rightarrow> u32 \<Rightarrow> 'h fs_world \<Rightarrow> (FSStatus \<times> string option) \<times> 'h fs_world" where
  "FSGetCwd client returnedPath n w =
     (if client = null \<or> returnedPath = null \<or> n = 0 then ((FS_STATUS_FATAL_ERROR, None), w)
      else ((FS_STATUS_OK, Some (snprintf_s (unat n) (cwd (client_state client w)))),
            set_client client (client_state client w) w))"

definition FSOpenDir ::
  "'h libc \<Rightarrow> ptr \<Rightarrow> string option \<Rightarrow> ptr \<Rightarrow> 'h fs_world \<Rightarrow> (FSStatus \<times> u32 option) \<times> 'h fs_world" where
  "FSOpenDir L client path handle w =
     (if path = None \<or> handle = null then ((FS_STATUS_FATAL_ERROR, None), w)
      else
        (let (dp, h) = c_opendir L (translate client path w) (fs_host w);
             w1 = w\<lparr>fs_host := h\<rparr>
         in if dp = null then (let (s, w2) = fs_record client FS_STATUS_NOT_FOUND w1 in ((s, None), w2))
            else (let (slot, ds) = slot_take dp (g_dirs w1) in ((FS_STATUS_OK, Some slot), w1\<lparr>g_dirs := ds\<rparr>))))"

record FSDirectoryEntry =
  de_info :: FSStat
  de_name :: string

definition FSReadDir ::
  "'h libc \<Rightarrow> ptr \<Rightarrow> u32 \<Rightarrow> ptr \<Rightarrow> 'h fs_world \<Rightarrow> (FSStatus \<times> FSDirectoryEntry option) \<times> 'h fs_world" where
  "FSReadDir L client handle entry w =
     (if entry = null then ((FS_STATUS_FATAL_ERROR, None), w)
      else case dirFor handle w of
        None \<Rightarrow> ((FS_STATUS_FATAL_ERROR, None), w)
      | Some dp \<Rightarrow>
          (case c_readdir L dp (fs_host w) of
             (None, h) \<Rightarrow> ((FS_STATUS_END, None), w\<lparr>fs_host := h\<rparr>)
           | (Some nm, h) \<Rightarrow>
               ((FS_STATUS_OK, Some \<lparr>de_info = stat_zero, de_name = snprintf_s 256 nm\<rparr>), w\<lparr>fs_host := h\<rparr>)))"

definition FSCloseDir :: "'h libc \<Rightarrow> ptr \<Rightarrow> u32 \<Rightarrow> 'h fs_world \<Rightarrow> FSStatus \<times> 'h fs_world" where
  "FSCloseDir L client handle w =
     (case dirFor handle w of
        None \<Rightarrow> (FS_STATUS_FATAL_ERROR, w)
      | Some dp \<Rightarrow>
          (FS_STATUS_OK,
           w\<lparr>fs_host := (if dp \<noteq> null then c_closedir L dp (fs_host w) else fs_host w),
             g_dirs := slot_drop handle (g_dirs w)\<rparr>))"

definition FSMakeDir :: "'h libc \<Rightarrow> ptr \<Rightarrow> string option \<Rightarrow> 'h fs_world \<Rightarrow> FSStatus \<times> 'h fs_world" where
  "FSMakeDir L client path w =
     (if path = None then (FS_STATUS_FATAL_ERROR, w)
      else case c_mkdir L (translate client path w) (fs_host w) of
        (r, h) \<Rightarrow> (if r \<noteq> 0 then FS_STATUS_FATAL_ERROR else FS_STATUS_OK, w\<lparr>fs_host := h\<rparr>))"

definition FSRemove :: "'h libc \<Rightarrow> ptr \<Rightarrow> string option \<Rightarrow> 'h fs_world \<Rightarrow> FSStatus \<times> 'h fs_world" where
  "FSRemove L client path w =
     (if path = None then (FS_STATUS_FATAL_ERROR, w)
      else
        (let host = translate client path w; (r, h1) = c_remove L host (fs_host w)
         in if r = 0 then fs_record client FS_STATUS_OK (w\<lparr>fs_host := h1\<rparr>)
            else
              (let (r2, h2) = c_rmdir L host h1
               in if r2 = 0 then fs_record client FS_STATUS_OK (w\<lparr>fs_host := h2\<rparr>)
                  else fs_record client FS_STATUS_NOT_FOUND (w\<lparr>fs_host := h2\<rparr>))))"

definition FSRename ::
  "'h libc \<Rightarrow> ptr \<Rightarrow> string option \<Rightarrow> string option \<Rightarrow> 'h fs_world \<Rightarrow> FSStatus \<times> 'h fs_world" where
  "FSRename L client oldPath newPath w =
     (if oldPath = None \<or> newPath = None then (FS_STATUS_FATAL_ERROR, w)
      else case c_rename L (translate client oldPath w) (translate client newPath w) (fs_host w) of
        (r, h) \<Rightarrow> fs_record client (if r = 0 then FS_STATUS_OK else FS_STATUS_FATAL_ERROR) (w\<lparr>fs_host := h\<rparr>))"

section \<open>Errors and mounts\<close>

definition FSGetLastError :: "ptr \<Rightarrow> 'h fs_world \<Rightarrow> FSError" where
  "FSGetLastError client w =
     (if client = null then FS_ERROR_INVALID_CLIENTHANDLE
      else case g_clientState w client of None \<Rightarrow> FS_ERROR_OK | Some s \<Rightarrow> lastError s)"

definition FSGetLastErrorCodeForViewer :: "ptr \<Rightarrow> 'h fs_world \<Rightarrow> FSError" where
  "FSGetLastErrorCodeForViewer client w = FSGetLastError client w"

definition FSGetMountSource ::
  "ptr \<Rightarrow> u32 \<Rightarrow> ptr \<Rightarrow> 'h fs_world \<Rightarrow> (FSStatus \<times> u8 list option) \<times> 'h fs_world" where
  "FSGetMountSource client ty out w =
     (if out = null then (let (s, w') = fs_record client FS_STATUS_FATAL_ERROR w in ((s, None), w'))
      else (let (s, w') = fs_record client FS_STATUS_OK w in ((s, Some ((replicate 0x300 0)[0 := ucast ty])), w')))"

definition FSMount :: "ptr \<Rightarrow> u8 list option \<Rightarrow> string option \<Rightarrow> 'h fs_world \<Rightarrow> FSStatus \<times> 'h fs_world" where
  "FSMount client source target w =
     (case (source, target) of
        (Some s, Some t) \<Rightarrow>
          (let hostRoot = (if s ! 0 = 1 then ''/'' else ''/'')
           in fs_record client FS_STATUS_OK (AddVolumeMapping target (Some hostRoot) w))
      | _ \<Rightarrow> fs_record client FS_STATUS_FATAL_ERROR w)"

definition FSGetVolumeState :: "ptr \<Rightarrow> FSVolumeState" where
  "FSGetVolumeState client = FS_VOLUME_STATE_READY"

definition FSSetStateChangeNotification :: "ptr \<Rightarrow> ptr \<Rightarrow> 'h fs_world \<Rightarrow> 'h fs_world" where
  "FSSetStateChangeNotification client info w = w"

section \<open>Asynchronous calls\<close>

text \<open>
  The work is done at once; the callback, if there is one, is called before the function returns. The model returns the
  call that is made: the callback with the client, the command block, the status and the low half of its parameter.
\<close>

record FSAsyncData =
  ad_callback :: ptr
  ad_param :: ptr
  ad_ioMsgQueue :: ptr

type_synonym async_call = "ptr \<times> ptr \<times> ptr \<times> FSStatus \<times> u32"

definition completeAsync :: "ptr \<Rightarrow> ptr \<Rightarrow> FSStatus \<Rightarrow> FSAsyncData option \<Rightarrow> FSStatus \<times> async_call list" where
  "completeAsync client block r ad =
     (case ad of
        None \<Rightarrow> (r, [])
      | Some a \<Rightarrow> (r, if ad_callback a \<noteq> null then [(ad_callback a, client, block, r, ucast (ad_param a))] else []))"

definition FSOpenFileAsync where
  "FSOpenFileAsync L client block path mode handle ad w =
     (case FSOpenFile L client path mode handle w of
        ((s, out), w') \<Rightarrow> (completeAsync client block s ad, out, w'))"

definition FSCloseFileAsync where
  "FSCloseFileAsync L client block handle ad w =
     (case FSCloseFile L client handle w of (s, w') \<Rightarrow> (completeAsync client block s ad, w'))"

definition FSReadFileWithPosAsync where
  "FSReadFileWithPosAsync L client block buffer n cnt pos handle ad w =
     (case FSReadFileWithPos L client buffer n cnt pos handle w of (s, w') \<Rightarrow> (completeAsync client block s ad, w'))"

definition FSWriteFileWithPosAsync where
  "FSWriteFileWithPosAsync L client block buffer n cnt pos handle ad w =
     (case fileFor handle w of
        None \<Rightarrow> (completeAsync client block FS_STATUS_FATAL_ERROR ad, w)
      | Some fp \<Rightarrow>
          (case c_fseek L fp (ucast (pos :: u32)) SEEK_SET (fs_host w) of
             (r, h) \<Rightarrow>
               if r \<noteq> 0 then (completeAsync client block FS_STATUS_FATAL_ERROR ad, w\<lparr>fs_host := h\<rparr>)
               else (case FSWriteFile L client buffer n cnt handle (w\<lparr>fs_host := h\<rparr>) of
                       (s, w') \<Rightarrow> (completeAsync client block s ad, w'))))"

definition FSGetStatFileAsync where
  "FSGetStatFileAsync L client block handle stat ad w =
     (case FSGetStatFile L client handle stat w of ((s, out), w') \<Rightarrow> (completeAsync client block s ad, out, w'))"

definition FSOpenDirAsync where
  "FSOpenDirAsync L client block path handle ad w =
     (case FSOpenDir L client path handle w of ((s, out), w') \<Rightarrow> (completeAsync client block s ad, out, w'))"

definition FSReadDirAsync where
  "FSReadDirAsync L client block handle entry ad w =
     (case FSReadDir L client handle entry w of ((s, out), w') \<Rightarrow> (completeAsync client block s ad, out, w'))"

definition FSCloseDirAsync where
  "FSCloseDirAsync L client block handle ad w =
     (case FSCloseDir L client handle w of (s, w') \<Rightarrow> (completeAsync client block s ad, w'))"

end
