(* ===== verification/FsSlots.thy ===== *)
theory FsSlots
  imports FileSystem
begin

text \<open>
  The handle tables of \<^verbatim>\<open>source/filesystem.cpp\<close>: what a handle names, as an interface of its own, and the
  correspondence between the used slots and the host's open streams.
\<close>

section \<open>Pools of handles\<close>

text \<open>
  What the operations rely on: taking a handle leaves every other one alone and gives one that named nothing, dropping
  it ends exactly that one.
\<close>

datatype pool_act = Take ptr | Drop u32

locale handle_pool =
  fixes find :: "'s \<Rightarrow> u32 \<Rightarrow> ptr option"
    and take_h :: "ptr \<Rightarrow> 's \<Rightarrow> u32 \<times> 's"
    and drop_h :: "u32 \<Rightarrow> 's \<Rightarrow> 's"
    and room :: "'s \<Rightarrow> bool"
  assumes take_fresh: "room s \<Longrightarrow> take_h p s = (h, s') \<Longrightarrow> h \<noteq> 0 \<and> find s h = None \<and> find s' h = Some p"
    and take_other: "room s \<Longrightarrow> take_h p s = (h, s') \<Longrightarrow> k \<noteq> h \<Longrightarrow> find s' k = find s k"
    and drop_this: "find s h = Some p \<Longrightarrow> find (drop_h h s) h = None"
    and drop_other: "find s h = Some p \<Longrightarrow> k \<noteq> h \<Longrightarrow> find (drop_h h s) k = find s k"
begin

fun run :: "pool_act list \<Rightarrow> 's \<Rightarrow> 's option" where
  "run [] s = Some s"
| "run (Take p # as) s = (if room s then run as (snd (take_h p s)) else None)"
| "run (Drop h # as) s = (if find s h = None then run as s else run as (drop_h h s))"

lemma handle_kept:
  assumes "find s k = Some q" "run as s = Some s'" "Drop k \<notin> set as"
  shows "find s' k = Some q"
  using assms
proof (induction as s rule: run.induct)
  case (2 p as s)
  obtain h t where t: "take_h p s = (h, t)" by fastforce
  from 2 have room: "room s" by (auto split: if_splits)
  from take_fresh [OF room t] 2 have "k \<noteq> h" by auto
  with 2 have "find t k = Some q" using take_other [OF room t, of k] by simp
  with 2 t show ?case by (auto split: if_splits)
next
  case (3 h as s)
  then show ?case using drop_other [of s h _ k] by (auto split: if_splits)
qed simp

lemma run_append: "run as s = Some t \<Longrightarrow> run (as @ bs) s = run bs t"
  by (induction as s rule: run.induct) (auto split: if_splits)

lemma handle_taken:
  assumes "room s" "take_h p s = (h, s')" "run as s' = Some t" "Drop h \<notin> set as"
  shows "find t h = Some p" "find (drop_h h t) h = None"
  using handle_kept [OF _ assms(3,4)] take_fresh [OF assms(1,2)] drop_this by auto

end

section \<open>Slots\<close>

definition used_ptrs :: "host_slot list \<Rightarrow> ptr list" where
  "used_ptrs xs = map hs_ptr (filter hs_used xs)"

lemma used_ptrs_simps [simp]:
  "used_ptrs [] = []" "used_ptrs (x # xs) = (if hs_used x then hs_ptr x # used_ptrs xs else used_ptrs xs)"
  "used_ptrs (xs @ ys) = used_ptrs xs @ used_ptrs ys"
  by (simp_all add: used_ptrs_def)

lemma first_unused_Some:
  "first_unused xs k = Some i \<Longrightarrow> k \<le> i \<and> i - k < length xs \<and> \<not> hs_used (xs ! (i - k))"
proof (induction xs k rule: first_unused.induct)
  case (2 x xs k)
  show ?case
  proof (cases "hs_used x")
    case True
    with 2 have "k + 1 \<le> i \<and> i - (k + 1) < length xs \<and> \<not> hs_used (xs ! (i - (k + 1)))" by simp
    moreover from this have "(x # xs) ! (i - k) = xs ! (i - (k + 1))" by (subst nth_Cons_pos) simp_all
    ultimately show ?thesis by auto
  qed (use 2 in simp)
qed simp

lemma first_unused_None: "first_unused xs k = None \<longleftrightarrow> (\<forall>x \<in> set xs. hs_used x)"
  by (induction xs k rule: first_unused.induct) auto

lemma used_ptrs_split:
  assumes "i < length xs"
  shows "used_ptrs xs = used_ptrs (take i xs) @ (if hs_used (xs ! i) then [hs_ptr (xs ! i)] else []) @ used_ptrs (drop (Suc i) xs)"
    and "used_ptrs (xs[i := x]) = used_ptrs (take i xs) @ (if hs_used x then [hs_ptr x] else []) @ used_ptrs (drop (Suc i) xs)"
proof -
  show "used_ptrs xs = used_ptrs (take i xs) @ (if hs_used (xs ! i) then [hs_ptr (xs ! i)] else []) @ used_ptrs (drop (Suc i) xs)"
    by (subst id_take_nth_drop [OF assms]) simp
  show "used_ptrs (xs[i := x]) = used_ptrs (take i xs) @ (if hs_used x then [hs_ptr x] else []) @ used_ptrs (drop (Suc i) xs)"
    by (subst upd_conv_take_nth_drop [OF assms]) simp
qed

text \<open>A handle is an index plus one.\<close>

lemma unat_pred: "h \<noteq> 0 \<Longrightarrow> unat (h - 1 :: u32) = unat h - 1"
  by (simp add: unat_minus_one)

lemma slot_for_eq: "slot_for xs h = (if h = 0 \<or> length xs < unat h \<or> \<not> hs_used (xs ! (unat h - 1)) then None
    else Some (hs_ptr (xs ! (unat h - 1))))"
  by (auto simp: slot_for_def Let_def unat_pred)

lemma slot_for_used: "slot_for xs h = Some p \<Longrightarrow> p \<in> set (used_ptrs xs)"
  by (auto simp: slot_for_eq used_ptrs_def word_pos_unat split: if_splits)

lemma slot_take_shape:
  assumes "length xs < 2 ^ 31" "slot_take p xs = (h, xs')"
  obtains i where "h = of_nat (Suc i)" "unat h = Suc i" "i \<le> length xs"
    "xs' = (if i < length xs then xs[i := \<lparr>hs_ptr = p, hs_used = True\<rparr>] else xs @ [\<lparr>hs_ptr = p, hs_used = True\<rparr>])"
    "i < length xs \<longrightarrow> \<not> hs_used (xs ! i)" "i = length xs \<longrightarrow> (\<forall>x \<in> set xs. hs_used x)"
proof -
  have small: "unat (of_nat (Suc i) :: u32) = Suc i" if "i \<le> length xs" for i
    using that assms(1) by (simp add: unat_of_nat del: of_nat_Suc)
  show thesis
  proof (cases "first_unused xs 0")
    case (Some i)
    with first_unused_Some [OF Some] assms(2) show thesis
      by (intro that [of i]) (auto simp: slot_take_def small [unfolded of_nat_Suc])
  next
    case None
    have "unat (of_nat (length xs) :: u32) = length xs" using assms(1) by (simp add: unat_of_nat)
    with None assms(2) first_unused_None [of xs 0] show thesis
      by (intro that [of "length xs"]) (auto simp: slot_take_def Let_def small [unfolded of_nat_Suc])
  qed
qed

definition slot_room :: "host_slot list \<Rightarrow> bool" where
  "slot_room xs \<longleftrightarrow> length xs < 2 ^ 31"

interpretation slots: handle_pool slot_for slot_take slot_drop slot_room
proof
  fix s :: "host_slot list" and p h s'
  assume room: "slot_room s" and t: "slot_take p s = (h, s')"
  from room have len: "length s < 2 ^ 31" by (simp add: slot_room_def)
  obtain i where i: "h = of_nat (Suc i)" "unat h = Suc i" "i \<le> length s"
    "s' = (if i < length s then s[i := \<lparr>hs_ptr = p, hs_used = True\<rparr>] else s @ [\<lparr>hs_ptr = p, hs_used = True\<rparr>])"
    "i < length s \<longrightarrow> \<not> hs_used (s ! i)" "i = length s \<longrightarrow> (\<forall>x \<in> set s. hs_used x)"
    by (rule slot_take_shape [OF len t])
  then have "h \<noteq> 0" by auto
  with i show "h \<noteq> 0 \<and> slot_for s h = None \<and> slot_for s' h = Some p"
    by (auto simp: slot_for_eq nth_append)
  fix k :: u32
  assume "k \<noteq> h"
  then have "unat k \<noteq> Suc i" using i(2) by (metis word_unat_eq_iff)
  moreover have "0 < unat k" if "k \<noteq> 0" using that by (simp add: unat_gt_0)
  ultimately show "slot_for s' k = slot_for s k"
    unfolding slot_for_eq i(4) by (cases "k = 0"; cases "i < length s") (use i(3) in \<open>auto simp: nth_append\<close>)
next
  fix s :: "host_slot list" and h p
  assume f: "slot_for s h = Some p"
  then have h: "h \<noteq> 0" "unat h \<le> length s" by (auto simp: slot_for_eq split: if_splits)
  then have h': "0 < unat h" by (simp add: unat_gt_0)
  with h show "slot_for (slot_drop h s) h = None" by (auto simp: slot_for_eq slot_drop_def unat_pred)
  fix k :: u32
  assume "k \<noteq> h"
  then have "k \<noteq> 0 \<Longrightarrow> unat k - 1 \<noteq> unat h - 1"
    using h' by (metis One_nat_def Suc_pred unat_gt_0 word_unat_eq_iff)
  then show "slot_for (slot_drop h s) k = slot_for s k"
    using h by (auto simp: slot_for_eq slot_drop_def unat_pred)
qed

section \<open>Slots and open streams\<close>

text \<open>The used slots name exactly the streams that are open on the host, each once.\<close>

definition slots_ok :: "host_slot list \<Rightarrow> ptr set \<Rightarrow> bool" where
  "slots_ok xs S \<longleftrightarrow> distinct (used_ptrs xs) \<and> set (used_ptrs xs) = S \<and> null \<notin> S \<and> length xs < 2 ^ 31"

lemma slots_ok_start: "slots_ok [] {}"
  by (simp add: slots_ok_def)

lemma slots_ok_for: "slots_ok xs S \<Longrightarrow> slot_for xs h = Some p \<Longrightarrow> p \<in> S \<and> p \<noteq> null"
  using slot_for_used by (auto simp: slots_ok_def)

lemma used_ptr_mem: "i < length xs \<Longrightarrow> hs_used (xs ! i) \<Longrightarrow> hs_ptr (xs ! i) \<in> set (used_ptrs xs)"
  by (auto simp: used_ptrs_def)

lemma used_ptrs_inj:
  assumes "distinct (used_ptrs xs)" "i < length xs" "j < length xs" "hs_used (xs ! i)" "hs_used (xs ! j)"
    "hs_ptr (xs ! i) = hs_ptr (xs ! j)"
  shows "i = j"
  using assms
proof (induction xs arbitrary: i j)
  case (Cons x xs)
  show ?case
  proof (cases "i = 0 \<or> j = 0")
    case True
    then show ?thesis
      using Cons.prems used_ptr_mem [of "i - 1" xs] used_ptr_mem [of "j - 1" xs]
      by (cases i; cases j) (auto split: if_splits)
  next
    case False
    then show ?thesis using Cons.prems Cons.IH [of "i - 1" "j - 1"] by (cases i; cases j) (auto split: if_splits)
  qed
qed simp

lemma slot_for_inj:
  assumes "slots_ok xs S" "slot_for xs h = Some p" "slot_for xs k = Some p"
  shows "h = k"
proof -
  have b: "0 < unat h" "0 < unat k" "unat h \<le> length xs" "unat k \<le> length xs"
    "hs_used (xs ! (unat h - 1))" "hs_used (xs ! (unat k - 1))" "hs_ptr (xs ! (unat h - 1)) = hs_ptr (xs ! (unat k - 1))"
    using assms(2,3) by (auto simp: slot_for_eq unat_gt_0 split: if_splits)
  then have "unat h - 1 = unat k - 1"
    using assms(1) by (intro used_ptrs_inj [of xs]) (auto simp: slots_ok_def)
  with b(1,2) show ?thesis by (simp add: word_unat_eq_iff)
qed

lemma slots_ok_named:
  assumes "slots_ok xs S" "p \<in> S"
  shows "\<exists>!h. slot_for xs h = Some p"
proof -
  from assms obtain i where i: "i < length xs" "hs_used (xs ! i)" "hs_ptr (xs ! i) = p"
    by (auto simp: slots_ok_def used_ptrs_def in_set_conv_nth)
  have "length xs < 2 ^ 31" using assms(1) by (simp add: slots_ok_def)
  with i(1) have u: "unat (of_nat (Suc i) :: u32) = Suc i" by (simp add: unat_of_nat del: of_nat_Suc)
  then have "(of_nat (Suc i) :: u32) \<noteq> 0" by (metis nat.distinct(1) unsigned_0)
  with u i have "slot_for xs (of_nat (Suc i)) = Some p" by (simp add: slot_for_eq del: of_nat_Suc)
  with slot_for_inj [OF assms(1)] show ?thesis by blast
qed

lemma slots_ok_take:
  assumes ok: "slots_ok xs S" and p: "p \<notin> S" "p \<noteq> null" "card (insert p S) < 2 ^ 31"
    and t: "slot_take p xs = (h, xs')"
  shows "slots_ok xs' (insert p S)"
proof -
  have x: "distinct (used_ptrs xs)" "set (used_ptrs xs) = S" "null \<notin> S" "length xs < 2 ^ 31"
    using ok by (auto simp: slots_ok_def)
  obtain i where i: "i \<le> length xs"
    "xs' = (if i < length xs then xs[i := \<lparr>hs_ptr = p, hs_used = True\<rparr>] else xs @ [\<lparr>hs_ptr = p, hs_used = True\<rparr>])"
    "i < length xs \<longrightarrow> \<not> hs_used (xs ! i)" "i = length xs \<longrightarrow> (\<forall>x \<in> set xs. hs_used x)"
    using slot_take_shape [OF x(4) t] by metis
  show ?thesis
  proof (cases "i < length xs")
    case True
    note split = used_ptrs_split(1) [OF True] used_ptrs_split(2) [OF True, of "\<lparr>hs_ptr = p, hs_used = True\<rparr>"]
    show ?thesis using x p split i(2,3) True by (auto simp: slots_ok_def)
  next
    case False
    with i have "used_ptrs xs = map hs_ptr xs" by (simp add: used_ptrs_def)
    with x have "card S = length xs" by (metis distinct_card length_map)
    moreover have "card (insert p S) = Suc (card S)" using p(1) x(2) by (simp add: card_insert_if)
    ultimately show ?thesis using x p i(2) False by (auto simp: slots_ok_def)
  qed
qed

lemma slots_ok_drop:
  assumes ok: "slots_ok xs S" and f: "slot_for xs h = Some p"
  shows "slots_ok (slot_drop h xs) (S - {p})"
proof -
  have h: "h \<noteq> 0" "unat h \<le> length xs" "hs_used (xs ! (unat h - 1))" "p = hs_ptr (xs ! (unat h - 1))"
    using f by (auto simp: slot_for_eq split: if_splits)
  then have i: "unat h - 1 < length xs" by (metis diff_less less_le_trans unat_gt_0 zero_less_one le_neq_implies_less less_imp_diff_less not_le)
  note split = used_ptrs_split(1) [OF i] used_ptrs_split(2) [OF i, of "\<lparr>hs_ptr = null, hs_used = False\<rparr>"]
  show ?thesis using ok split h by (auto simp: slots_ok_def slot_drop_def unat_pred)
qed

lemma close_all_ok:
  assumes "\<And>p h. p \<in> op h \<Longrightarrow> op (cl p h) = op h - {p}"
  shows "distinct (used_ptrs xs) \<Longrightarrow> set (used_ptrs xs) \<subseteq> op h \<Longrightarrow> null \<notin> op h \<Longrightarrow>
    op (close_all cl xs h) = op h - set (used_ptrs xs)"
proof (induction xs arbitrary: h)
  case (Cons x xs)
  show ?case
  proof (cases "hs_used x")
    case True
    with Cons.prems have x: "hs_ptr x \<in> op h" "hs_ptr x \<noteq> null" "hs_ptr x \<notin> set (used_ptrs xs)"
      "distinct (used_ptrs xs)" "set (used_ptrs xs) \<subseteq> op h" by auto
    have "op (cl (hs_ptr x) h) = op h - {hs_ptr x}" using x(1) by (rule assms)
    moreover from this have "op (close_all cl xs (cl (hs_ptr x) h)) = op (cl (hs_ptr x) h) - set (used_ptrs xs)"
      using x Cons.prems(3) by (intro Cons.IH) auto
    ultimately show ?thesis using True x(2) by (simp only: close_all.simps used_ptrs_simps) auto
  qed (use Cons in simp)
qed simp

end
