(* ===== verification/FsApi.thy ===== *)
theory FsApi
  imports FsSlots
begin

text \<open>
  The properties of \<^verbatim>\<open>source/filesystem.cpp\<close>: handles and the host streams behind them over any sequence of calls, the
  translation of paths, and the last error of each client.
\<close>

section \<open>What the C library promises\<close>

text \<open>
  \<open>op h\<close> and \<open>dop h\<close> are the streams and the directory streams that are open in host state \<open>h\<close>. Opening gives a
  stream that was not open, closing an open one closes it, and nothing else opens or closes any. A process has fewer
  than \<open>2\<close>^\<open>31\<close> open streams (descriptors are non-negative \<^verbatim>\<open>int\<close>s). Nothing is promised for a call on a stream that is
  not open.
\<close>

definition opens :: "('h \<Rightarrow> ptr set) \<Rightarrow> ('h \<Rightarrow> ptr set) \<Rightarrow> 'h \<Rightarrow> ptr \<times> 'h \<Rightarrow> bool" where
  "opens S T h r \<longleftrightarrow> T (snd r) = T h \<and>
     (if fst r = null then S (snd r) = S h
      else fst r \<notin> S h \<and> S (snd r) = insert (fst r) (S h) \<and> card (S (snd r)) < 2 ^ 31)"

definition quiet :: "('h \<Rightarrow> ptr set) \<Rightarrow> ('h \<Rightarrow> ptr set) \<Rightarrow> 'h \<Rightarrow> 'h \<Rightarrow> bool" where
  "quiet op dop h h' \<longleftrightarrow> op h' = op h \<and> dop h' = dop h"

definition libc_laws :: "'h libc \<Rightarrow> ('h \<Rightarrow> ptr set) \<Rightarrow> ('h \<Rightarrow> ptr set) \<Rightarrow> bool" where
  "libc_laws L op dop \<longleftrightarrow>
     (\<forall>p m h. opens op dop h (c_fopen L p m h)) \<and>
     (\<forall>p h. opens dop op h (c_opendir L p h)) \<and>
     (\<forall>f h. f \<in> op h \<longrightarrow> op (c_fclose L f h) = op h - {f} \<and> dop (c_fclose L f h) = dop h) \<and>
     (\<forall>d h. d \<in> dop h \<longrightarrow> dop (c_closedir L d h) = dop h - {d} \<and> op (c_closedir L d h) = op h) \<and>
     (\<forall>b n k f m h. f \<in> op h \<longrightarrow> quiet op dop h (snd (snd (c_fread L b n k f m h)))) \<and>
     (\<forall>b n k f m h. f \<in> op h \<longrightarrow> quiet op dop h (snd (c_fwrite L b n k f m h))) \<and>
     (\<forall>f x y h. f \<in> op h \<longrightarrow> quiet op dop h (snd (c_fseek L f x y h))) \<and>
     (\<forall>f h. f \<in> op h \<longrightarrow> quiet op dop h (snd (c_ftell L f h))) \<and>
     (\<forall>d h. d \<in> dop h \<longrightarrow> quiet op dop h (snd (c_readdir L d h))) \<and>
     (\<forall>p h. quiet op dop h (snd (c_mkdir L p h))) \<and>
     (\<forall>p h. quiet op dop h (snd (c_remove L p h))) \<and>
     (\<forall>p h. quiet op dop h (snd (c_rmdir L p h))) \<and>
     (\<forall>p q h. quiet op dop h (snd (c_rename L p q h)))"

lemma libc_opens:
  assumes "libc_laws L op dop"
  shows "opens op dop h (c_fopen L p m h)" "opens dop op h (c_opendir L p h)"
  using assms by (simp_all add: libc_laws_def)

lemma libc_closes:
  assumes "libc_laws L op dop"
  shows "f \<in> op h \<Longrightarrow> op (c_fclose L f h) = op h - {f}" "f \<in> op h \<Longrightarrow> dop (c_fclose L f h) = dop h"
    "d \<in> dop h \<Longrightarrow> dop (c_closedir L d h) = dop h - {d}" "d \<in> dop h \<Longrightarrow> op (c_closedir L d h) = op h"
  using assms by (simp_all add: libc_laws_def)

lemma libc_quiet_snd:
  assumes "libc_laws L op dop"
  shows "f \<in> op h \<Longrightarrow> quiet op dop h (snd (snd (c_fread L b n k f m h)))"
    "f \<in> op h \<Longrightarrow> quiet op dop h (snd (c_fwrite L b n k f m h))"
    "f \<in> op h \<Longrightarrow> quiet op dop h (snd (c_fseek L f x y h))"
    "f \<in> op h \<Longrightarrow> quiet op dop h (snd (c_ftell L f h))"
    "d \<in> dop h \<Longrightarrow> quiet op dop h (snd (c_readdir L d h))"
    "quiet op dop h (snd (c_mkdir L p h))" "quiet op dop h (snd (c_remove L p h))"
    "quiet op dop h (snd (c_rmdir L p h))" "quiet op dop h (snd (c_rename L p q h))"
  using assms by (simp_all add: libc_laws_def)

lemma libc_quiet:
  assumes "libc_laws L op dop"
  shows "f \<in> op h \<Longrightarrow> c_fread L b n k f m h = (r1, m1, h1) \<Longrightarrow> quiet op dop h h1"
    "f \<in> op h \<Longrightarrow> c_fwrite L b n k f m h = (r1, h1) \<Longrightarrow> quiet op dop h h1"
    "f \<in> op h \<Longrightarrow> c_fseek L f x y h = (r2, h1) \<Longrightarrow> quiet op dop h h1"
    "f \<in> op h \<Longrightarrow> c_ftell L f h = (r3, h1) \<Longrightarrow> quiet op dop h h1"
    "d \<in> dop h \<Longrightarrow> c_readdir L d h = (r4, h1) \<Longrightarrow> quiet op dop h h1"
    "c_mkdir L p h = (r5, h1) \<Longrightarrow> quiet op dop h h1" "c_remove L p h = (r5, h1) \<Longrightarrow> quiet op dop h h1"
    "c_rmdir L p h = (r5, h1) \<Longrightarrow> quiet op dop h h1" "c_rename L p q h = (r5, h1) \<Longrightarrow> quiet op dop h h1"
  using libc_quiet_snd(1) [OF assms, of f h b n k m] libc_quiet_snd(2) [OF assms, of f h b n k m]
    libc_quiet_snd(3) [OF assms, of f h x y] libc_quiet_snd(4) [OF assms, of f h] libc_quiet_snd(5) [OF assms, of d h]
    libc_quiet_snd(6) [OF assms, of h p] libc_quiet_snd(7) [OF assms, of h p] libc_quiet_snd(8) [OF assms, of h p]
    libc_quiet_snd(9) [OF assms, of h p q]
  by simp_all

section \<open>Sequences of calls\<close>

datatype fs_call =
    CAddMapping "string option" "string option" | CClearMappings | CInit | CShutdown
  | CAddClient ptr | CDelClient ptr
  | COpenFile ptr "string option" "string option" ptr | CCloseFile ptr u32
  | CReadFile ptr ptr u32 u32 u32 | CReadFileWithPos ptr ptr u32 u32 u32 u32
  | CGetPosFile ptr u32 ptr | CSetPosFile ptr u32 u32 | CGetStatFile ptr u32 ptr
  | CWriteFile ptr ptr u32 u32 u32 | CWriteFileWithPosAsync ptr ptr ptr u32 u32 u32 u32 "FSAsyncData option"
  | CChangeDir ptr "string option" | CGetCwd ptr ptr u32
  | COpenDir ptr "string option" ptr | CReadDir ptr u32 ptr | CCloseDir ptr u32
  | CMakeDir ptr "string option" | CRemove ptr "string option" | CRename ptr "string option" "string option"
  | CGetMountSource ptr u32 ptr | CMount ptr "u8 list option" "string option"

fun fs_step :: "'h libc \<Rightarrow> fs_call \<Rightarrow> 'h fs_world \<Rightarrow> 'h fs_world" where
  "fs_step L (CAddMapping a b) w = AddVolumeMapping a b w"
| "fs_step L CClearMappings w = ClearVolumeMappings w"
| "fs_step L CInit w = FSInit w"
| "fs_step L CShutdown w = FSShutdown L w"
| "fs_step L (CAddClient c) w = snd (FSAddClient c w)"
| "fs_step L (CDelClient c) w = snd (FSDelClient c w)"
| "fs_step L (COpenFile c p m h) w = snd (FSOpenFile L c p m h w)"
| "fs_step L (CCloseFile c h) w = snd (FSCloseFile L c h w)"
| "fs_step L (CReadFile c b n k h) w = snd (FSReadFile L c b n k h w)"
| "fs_step L (CReadFileWithPos c b n k p h) w = snd (FSReadFileWithPos L c b n k p h w)"
| "fs_step L (CGetPosFile c h p) w = snd (FSGetPosFile L c h p w)"
| "fs_step L (CSetPosFile c h p) w = snd (FSSetPosFile L c h p w)"
| "fs_step L (CGetStatFile c h s) w = snd (FSGetStatFile L c h s w)"
| "fs_step L (CWriteFile c b n k h) w = snd (FSWriteFile L c b n k h w)"
| "fs_step L (CWriteFileWithPosAsync c bl b n k p h ad) w = snd (FSWriteFileWithPosAsync L c bl b n k p h ad w)"
| "fs_step L (CChangeDir c p) w = snd (FSChangeDir c p w)"
| "fs_step L (CGetCwd c b n) w = snd (FSGetCwd c b n w)"
| "fs_step L (COpenDir c p h) w = snd (FSOpenDir L c p h w)"
| "fs_step L (CReadDir c h e) w = snd (FSReadDir L c h e w)"
| "fs_step L (CCloseDir c h) w = snd (FSCloseDir L c h w)"
| "fs_step L (CMakeDir c p) w = snd (FSMakeDir L c p w)"
| "fs_step L (CRemove c p) w = snd (FSRemove L c p w)"
| "fs_step L (CRename c p q) w = snd (FSRename L c p q w)"
| "fs_step L (CGetMountSource c t m) w = snd (FSGetMountSource c t m w)"
| "fs_step L (CMount c s t) w = snd (FSMount c s t w)"

primrec fs_run :: "'h libc \<Rightarrow> fs_call list \<Rightarrow> 'h fs_world \<Rightarrow> 'h fs_world" where
  "fs_run L [] w = w"
| "fs_run L (c # cs) w = fs_run L cs (fs_step L c w)"

text \<open>The other asynchronous calls change the state as their synchronous versions do, and make the callback once.\<close>

lemma async_step:
  "snd (FSOpenFileAsync L c bl p m hp ad w) = (snd (fst (FSOpenFile L c p m hp w)), fs_step L (COpenFile c p m hp) w)"
  "snd (FSCloseFileAsync L c bl h ad w) = fs_step L (CCloseFile c h) w"
  "snd (FSReadFileWithPosAsync L c bl b n k pos h ad w) = fs_step L (CReadFileWithPos c b n k pos h) w"
  "snd (FSGetStatFileAsync L c bl h s ad w) = (snd (fst (FSGetStatFile L c h s w)), fs_step L (CGetStatFile c h s) w)"
  "snd (FSOpenDirAsync L c bl p hp ad w) = (snd (fst (FSOpenDir L c p hp w)), fs_step L (COpenDir c p hp) w)"
  "snd (FSReadDirAsync L c bl h e ad w) = (snd (fst (FSReadDir L c h e w)), fs_step L (CReadDir c h e) w)"
  "snd (FSCloseDirAsync L c bl h ad w) = fs_step L (CCloseDir c h) w"
  by (simp_all add: FSOpenFileAsync_def FSCloseFileAsync_def FSReadFileWithPosAsync_def FSGetStatFileAsync_def
      FSOpenDirAsync_def FSReadDirAsync_def FSCloseDirAsync_def split: prod.splits)

section \<open>What a call does to the handles\<close>

text \<open>
  A call acts on the two handle tables through their pools: \<open>fs_acts w w'\<close> says that the tables and the host's streams
  stay in step.
\<close>

definition fs_ok :: "('h \<Rightarrow> ptr set) \<Rightarrow> ('h \<Rightarrow> ptr set) \<Rightarrow> 'h fs_world \<Rightarrow> bool" where
  "fs_ok op dop w \<longleftrightarrow> slots_ok (g_files w) (op (fs_host w)) \<and> slots_ok (g_dirs w) (dop (fs_host w))"

definition fs_same :: "('h \<Rightarrow> ptr set) \<Rightarrow> ('h \<Rightarrow> ptr set) \<Rightarrow> 'h fs_world \<Rightarrow> 'h fs_world \<Rightarrow> bool" where
  "fs_same op dop w w' \<longleftrightarrow> g_files w' = g_files w \<and> g_dirs w' = g_dirs w \<and> quiet op dop (fs_host w) (fs_host w')"

lemma quiet_refl [simp]: "quiet op dop h h" by (simp add: quiet_def)

lemma quiet_trans: "quiet op dop h h1 \<Longrightarrow> quiet op dop h1 h2 \<Longrightarrow> quiet op dop h h2" by (simp add: quiet_def)

lemma quiet_op: "quiet op dop h h1 \<Longrightarrow> f \<in> op h \<Longrightarrow> f \<in> op h1" by (simp add: quiet_def)

lemma fs_same_ok: "fs_same op dop w w' \<Longrightarrow> fs_ok op dop w \<Longrightarrow> fs_ok op dop w'"
  by (simp add: fs_same_def fs_ok_def quiet_def)

lemma fs_record_same [simp]:
  "g_files (snd (fs_record c s w)) = g_files w" "g_dirs (snd (fs_record c s w)) = g_dirs w"
  "fs_host (snd (fs_record c s w)) = fs_host w" "fst (fs_record c s w) = s"
  by (simp_all add: fs_record_def set_client_def)

lemma fs_ok_file: "fs_ok op dop w \<Longrightarrow> fileFor h w = Some f \<Longrightarrow> f \<in> op (fs_host w) \<and> f \<noteq> null"
  unfolding fs_ok_def fileFor_def using slots_ok_for by blast

lemma fs_ok_dir: "fs_ok op dop w \<Longrightarrow> dirFor h w = Some d \<Longrightarrow> d \<in> dop (fs_host w) \<and> d \<noteq> null"
  unfolding fs_ok_def dirFor_def using slots_ok_for by blast

lemma same_read:
  assumes "libc_laws L op dop" "fs_ok op dop w"
  shows "fs_same op dop w (snd (FSReadFile L c b n k h w))"
  using fs_ok_file [OF assms(2)] libc_quiet(1) [OF assms(1)]
  by (force simp: FSReadFile_def fs_same_def split: option.splits prod.splits)

lemma same_write:
  assumes "libc_laws L op dop" "fs_ok op dop w"
  shows "fs_same op dop w (snd (FSWriteFile L c b n k h w))"
  using fs_ok_file [OF assms(2)] libc_quiet(2) [OF assms(1)]
  by (force simp: FSWriteFile_def fs_same_def split: option.splits prod.splits)

lemma fs_same_trans: "fs_same op dop w w1 \<Longrightarrow> fs_same op dop w1 w2 \<Longrightarrow> fs_same op dop w w2"
  by (simp add: fs_same_def quiet_def)

lemma same_seek:
  assumes "libc_laws L op dop" "fs_ok op dop w" "fileFor h w = Some f" "c_fseek L f x y (fs_host w) = (r, h1)"
  shows "fs_same op dop w (w\<lparr>fs_host := h1\<rparr>)"
  using fs_ok_file [OF assms(2,3)] libc_quiet(3) [OF assms(1) _ assms(4)] by (simp add: fs_same_def)

lemma same_read_pos:
  assumes "libc_laws L op dop" "fs_ok op dop w"
  shows "fs_same op dop w (snd (FSReadFileWithPos L c b n k pos h w))"
proof (cases "fileFor h w")
  case None
  then show ?thesis by (simp add: FSReadFileWithPos_def fs_same_def)
next
  case (Some f)
  obtain r h1 where s: "c_fseek L f (ucast pos) SEEK_SET (fs_host w) = (r, h1)" by fastforce
  note 1 = same_seek [OF assms Some s]
  from Some s 1 fs_same_trans [OF 1 same_read [OF assms(1) fs_same_ok [OF 1 assms(2)]]] show ?thesis
    by (simp add: FSReadFileWithPos_def)
qed

lemma same_write_pos:
  assumes "libc_laws L op dop" "fs_ok op dop w"
  shows "fs_same op dop w (snd (FSWriteFileWithPosAsync L c bl b n k pos h ad w))"
proof (cases "fileFor h w")
  case None
  then show ?thesis by (simp add: FSWriteFileWithPosAsync_def fs_same_def)
next
  case (Some f)
  obtain r h1 where s: "c_fseek L f (ucast pos) SEEK_SET (fs_host w) = (r, h1)" by fastforce
  note 1 = same_seek [OF assms Some s]
  from Some s 1 fs_same_trans [OF 1 same_write [OF assms(1) fs_same_ok [OF 1 assms(2)]]] show ?thesis
    by (simp add: FSWriteFileWithPosAsync_def case_prod_unfold)
qed

lemma same_stat:
  assumes "libc_laws L op dop" "fs_ok op dop w"
  shows "fs_same op dop w (snd (FSGetStatFile L c h st w))"
proof (cases "fileFor h w")
  case None
  then show ?thesis by (simp add: FSGetStatFile_def fs_same_def)
next
  case (Some f)
  then have f: "f \<in> op (fs_host w)" using fs_ok_file [OF assms(2)] by blast
  obtain here h1 where 1: "c_ftell L f (fs_host w) = (here, h1)" by fastforce
  obtain r h2 where 2: "c_fseek L f 0 SEEK_END h1 = (r, h2)" by fastforce
  obtain eof h3 where 3: "c_ftell L f h2 = (eof, h3)" by fastforce
  obtain r' h4 where 4: "c_fseek L f here SEEK_SET h3 = (r', h4)" by fastforce
  note q1 = libc_quiet(4) [OF assms(1) f 1]
  note q2 = quiet_trans [OF q1 libc_quiet(3) [OF assms(1) quiet_op [OF q1 f] 2]]
  note q3 = quiet_trans [OF q2 libc_quiet(4) [OF assms(1) quiet_op [OF q2 f] 3]]
  note q4 = quiet_trans [OF q3 libc_quiet(3) [OF assms(1) quiet_op [OF q3 f] 4]]
  show ?thesis using Some 1 2 3 4 q1 q2 q3 q4 by (simp add: FSGetStatFile_def fs_same_def)
qed

lemma same_pos:
  assumes "libc_laws L op dop" "fs_ok op dop w"
  shows "fs_same op dop w (snd (FSGetPosFile L c h p w))" "fs_same op dop w (snd (FSSetPosFile L c h pos w))"
proof -
  have "fs_same op dop w (snd (FSGetPosFile L c h p w)) \<and> fs_same op dop w (snd (FSSetPosFile L c h pos w))"
  proof (cases "fileFor h w")
    case (Some f)
    then have f: "f \<in> op (fs_host w)" using fs_ok_file [OF assms(2)] by blast
    obtain r h1 where s: "c_fseek L f (ucast pos) SEEK_SET (fs_host w) = (r, h1)" by fastforce
    obtain x h2 where t: "c_ftell L f (fs_host w) = (x, h2)" by fastforce
    from Some s t libc_quiet(3) [OF assms(1) f s] libc_quiet(4) [OF assms(1) f t]
    show ?thesis by (simp add: FSGetPosFile_def FSSetPosFile_def fs_same_def)
  qed (simp add: FSGetPosFile_def FSSetPosFile_def fs_same_def)
  then show "fs_same op dop w (snd (FSGetPosFile L c h p w))" "fs_same op dop w (snd (FSSetPosFile L c h pos w))"
    by blast+
qed

lemma same_dir:
  assumes "libc_laws L op dop" "fs_ok op dop w"
  shows "fs_same op dop w (snd (FSReadDir L c h e w))" "fs_same op dop w (snd (FSMakeDir L c p w))"
    "fs_same op dop w (snd (FSRemove L c p w))" "fs_same op dop w (snd (FSRename L c p q w))"
proof -
  show "fs_same op dop w (snd (FSReadDir L c h e w))"
  proof (cases "dirFor h w")
    case (Some d)
    obtain r h1 where r: "c_readdir L d (fs_host w) = (r, h1)" by fastforce
    have "quiet op dop (fs_host w) h1" using libc_quiet(5) [OF assms(1) _ r] fs_ok_dir [OF assms(2) Some] by blast
    with Some r show ?thesis by (cases r) (simp_all add: FSReadDir_def fs_same_def)
  qed (simp add: FSReadDir_def fs_same_def)
  obtain r h1 where m: "c_mkdir L (translate c p w) (fs_host w) = (r, h1)" by fastforce
  show "fs_same op dop w (snd (FSMakeDir L c p w))"
    using m libc_quiet(6) [OF assms(1) m] by (simp add: FSMakeDir_def fs_same_def)
  obtain r' h' where rn: "c_rename L (translate c p w) (translate c q w) (fs_host w) = (r', h')" by fastforce
  show "fs_same op dop w (snd (FSRename L c p q w))"
    using rn libc_quiet(9) [OF assms(1) rn] by (simp add: FSRename_def fs_same_def)
  obtain r h1 where 1: "c_remove L (translate c p w) (fs_host w) = (r, h1)" by fastforce
  obtain r2 h2 where 2: "c_rmdir L (translate c p w) h1 = (r2, h2)" by fastforce
  note q = libc_quiet(7) [OF assms(1) 1] quiet_trans [OF libc_quiet(7) [OF assms(1) 1] libc_quiet(8) [OF assms(1) 2]]
  show "fs_same op dop w (snd (FSRemove L c p w))" using 1 2 q by (simp add: FSRemove_def Let_def fs_same_def)
qed

lemma same_record: "fs_same op dop w w' \<Longrightarrow> fs_same op dop w (snd (fs_record c s w'))"
  by (simp add: fs_same_def)

lemma same_state:
  "fs_same op dop w (AddVolumeMapping a b w)" "fs_same op dop w (ClearVolumeMappings w)" "fs_same op dop w (FSInit w)"
  "fs_same op dop w (snd (FSAddClient c w))" "fs_same op dop w (snd (FSDelClient c w))"
  "fs_same op dop w (snd (FSChangeDir c p w))" "fs_same op dop w (snd (FSGetCwd c bf k w))"
  by (simp_all add: fs_same_def AddVolumeMapping_def ClearVolumeMappings_def FSInit_def FSAddClient_def FSDelClient_def
      FSChangeDir_def FSGetCwd_def set_client_def split: option.splits)

lemma same_mount:
  "fs_same op dop w (snd (FSGetMountSource c t m w))" "fs_same op dop w (snd (FSMount c s tg w))"
proof -
  have self: "fs_same op dop w w" by (simp add: fs_same_def)
  show "fs_same op dop w (snd (FSGetMountSource c t m w))"
    using same_record [OF self] by (simp add: FSGetMountSource_def case_prod_unfold Let_def)
  show "fs_same op dop w (snd (FSMount c s tg w))"
    using same_record [OF self] same_record [OF same_state(1)]
    by (cases s; cases tg) (simp_all add: FSMount_def Let_def)
qed

text \<open>Every call but opening, closing and shutting down leaves handles and streams alone.\<close>

definition opens_or_closes :: "fs_call \<Rightarrow> bool" where
  "opens_or_closes c \<longleftrightarrow> (case c of COpenFile _ _ _ _ \<Rightarrow> True | CCloseFile _ _ \<Rightarrow> True | COpenDir _ _ _ \<Rightarrow> True
     | CCloseDir _ _ \<Rightarrow> True | CShutdown \<Rightarrow> True | _ \<Rightarrow> False)"

lemma fs_step_same:
  assumes "libc_laws L op dop" "fs_ok op dop w" "\<not> opens_or_closes c"
  shows "fs_same op dop w (fs_step L c w)"
  using assms(3) same_read [OF assms(1,2)] same_write [OF assms(1,2)] same_read_pos [OF assms(1,2)]
    same_write_pos [OF assms(1,2)] same_stat [OF assms(1,2)] same_pos [OF assms(1,2)] same_dir [OF assms(1,2)]
  by (cases c) (simp_all add: opens_or_closes_def same_state same_mount)

lemma open_file_shape:
  assumes "libc_laws L op dop" "fs_ok op dop w"
  obtains (closed) "fs_same op dop w (snd (FSOpenFile L c p m h w))" "snd (fst (FSOpenFile L c p m h w)) = None"
      "fst (fst (FSOpenFile L c p m h w)) \<noteq> 0"
  | (opened) f slot where "fst (FSOpenFile L c p m h w) = (0, Some slot)"
      "slot_take f (g_files w) = (slot, g_files (snd (FSOpenFile L c p m h w)))"
      "f \<notin> op (fs_host w)" "f \<noteq> null" "op (fs_host (snd (FSOpenFile L c p m h w))) = insert f (op (fs_host w))"
      "card (insert f (op (fs_host w))) < 2 ^ 31"
      "g_dirs (snd (FSOpenFile L c p m h w)) = g_dirs w"
      "dop (fs_host (snd (FSOpenFile L c p m h w))) = dop (fs_host w)"
proof (cases "p = None \<or> m = None \<or> h = null")
  case True
  then show thesis by (intro closed) (auto simp: FSOpenFile_def fs_same_def split: option.splits)
next
  case False
  then obtain p' m' where pm: "p = Some p'" "m = Some m'" "h \<noteq> null" by auto
  obtain f h1 where o: "c_fopen L (translate c (Some p') w) m' (fs_host w) = (f, h1)" by fastforce
  obtain slot fs where t: "slot_take f (g_files w) = (slot, fs)" by fastforce
  note ol = libc_opens(1) [OF assms(1), of "fs_host w" "translate c (Some p') w" m', unfolded o opens_def fst_conv snd_conv]
  show thesis
  proof (cases "f = null")
    case True
    with pm o ol show thesis
      by (intro closed) (auto simp: FSOpenFile_def Let_def fs_same_def quiet_def case_prod_unfold)
  next
    case False
    with pm o t ol show thesis
      by (intro opened [of slot f]) (auto simp: FSOpenFile_def Let_def case_prod_unfold)
  qed
qed

lemma open_dir_shape:
  assumes "libc_laws L op dop" "fs_ok op dop w"
  obtains (closed) "fs_same op dop w (snd (FSOpenDir L c p h w))" "snd (fst (FSOpenDir L c p h w)) = None"
      "fst (fst (FSOpenDir L c p h w)) \<noteq> 0"
  | (opened) d slot where "fst (FSOpenDir L c p h w) = (0, Some slot)"
      "slot_take d (g_dirs w) = (slot, g_dirs (snd (FSOpenDir L c p h w)))"
      "d \<notin> dop (fs_host w)" "d \<noteq> null" "dop (fs_host (snd (FSOpenDir L c p h w))) = insert d (dop (fs_host w))"
      "card (insert d (dop (fs_host w))) < 2 ^ 31"
      "g_files (snd (FSOpenDir L c p h w)) = g_files w"
      "op (fs_host (snd (FSOpenDir L c p h w))) = op (fs_host w)"
proof (cases "p = None \<or> h = null")
  case True
  then show thesis by (intro closed) (auto simp: FSOpenDir_def fs_same_def)
next
  case False
  obtain d h1 where o: "c_opendir L (translate c p w) (fs_host w) = (d, h1)" by fastforce
  obtain slot ds where t: "slot_take d (g_dirs w) = (slot, ds)" by fastforce
  note ol = libc_opens(2) [OF assms(1), of "fs_host w" "translate c p w", unfolded o opens_def fst_conv snd_conv]
  show thesis
  proof (cases "d = null")
    case True
    with False o ol show thesis
      by (intro closed) (auto simp: FSOpenDir_def Let_def fs_same_def quiet_def case_prod_unfold)
  next
    case d: False
    with False o t ol show thesis
      by (intro opened [of slot d]) (auto simp: FSOpenDir_def Let_def case_prod_unfold)
  qed
qed

lemma close_ok:
  assumes "libc_laws L op dop" "fs_ok op dop w"
  shows "fs_ok op dop (snd (FSCloseFile L c h w))" "fs_ok op dop (snd (FSCloseDir L c h w))"
proof -
  show "fs_ok op dop (snd (FSCloseFile L c h w))"
  proof (cases "fileFor h w")
    case (Some f)
    with fs_ok_file [OF assms(2) Some] slots_ok_drop [of "g_files w" "op (fs_host w)" h f] assms(2)
      libc_closes(1,2) [OF assms(1), of f "fs_host w"]
    show ?thesis by (auto simp: FSCloseFile_def fs_ok_def fileFor_def)
  qed (use assms(2) in \<open>simp add: FSCloseFile_def\<close>)
  show "fs_ok op dop (snd (FSCloseDir L c h w))"
  proof (cases "dirFor h w")
    case (Some d)
    with fs_ok_dir [OF assms(2) Some] slots_ok_drop [of "g_dirs w" "dop (fs_host w)" h d] assms(2)
      libc_closes(3,4) [OF assms(1), of d "fs_host w"]
    show ?thesis by (auto simp: FSCloseDir_def fs_ok_def dirFor_def)
  qed (use assms(2) in \<open>simp add: FSCloseDir_def\<close>)
qed

lemma shutdown_closes:
  assumes laws: "libc_laws L op dop" and ok: "fs_ok op dop w"
  shows "op (fs_host (FSShutdown L w)) = {}" "dop (fs_host (FSShutdown L w)) = {}" "fs_ok op dop (FSShutdown L w)"
proof -
  let ?h = "close_all (c_fclose L) (g_files w) (fs_host w)"
  have f: "distinct (used_ptrs (g_files w))" "set (used_ptrs (g_files w)) = op (fs_host w)" "null \<notin> op (fs_host w)"
    and d: "distinct (used_ptrs (g_dirs w))" "set (used_ptrs (g_dirs w)) = dop (fs_host w)" "null \<notin> dop (fs_host w)"
    using ok by (auto simp: fs_ok_def slots_ok_def)
  have 1: "op ?h = {}"
    using close_all_ok [of op "c_fclose L", OF libc_closes(1) [OF laws]] f by simp
  have 2: "dop (close_all (c_fclose L) xs h) = dop h" if "set (used_ptrs xs) \<subseteq> op h" "distinct (used_ptrs xs)" for xs h
    using that
  proof (induction xs arbitrary: h)
    case (Cons x xs)
    then show ?case using libc_closes(1,2) [OF laws, of "hs_ptr x" h] by (cases "hs_used x") auto
  qed simp
  have 3: "op (close_all (c_closedir L) xs h) = op h" if "set (used_ptrs xs) \<subseteq> dop h" "distinct (used_ptrs xs)" for xs h
    using that
  proof (induction xs arbitrary: h)
    case (Cons x xs)
    then show ?case using libc_closes(3,4) [OF laws, of "hs_ptr x" h] by (cases "hs_used x") auto
  qed simp
  have dh: "dop ?h = dop (fs_host w)" using 2 f by simp
  then have 4: "dop (close_all (c_closedir L) (g_dirs w) ?h) = {}"
    using close_all_ok [of dop "c_closedir L", OF libc_closes(3) [OF laws]] d by simp
  have 5: "op (close_all (c_closedir L) (g_dirs w) ?h) = {}" using 3 1 d dh by simp
  from 4 5 show "op (fs_host (FSShutdown L w)) = {}" "dop (fs_host (FSShutdown L w)) = {}" "fs_ok op dop (FSShutdown L w)"
    by (simp_all add: FSShutdown_def Let_def fs_ok_def slots_ok_start)
qed

lemma fs_step_ok:
  assumes "libc_laws L op dop" "fs_ok op dop w"
  shows "fs_ok op dop (fs_step L c w)"
proof (cases c)
  case (COpenFile cl p m h)
  show ?thesis
    using assms
  proof (cases rule: open_file_shape [where c = cl and p = p and m = m and h = h])
    case closed
    then show ?thesis using fs_same_ok assms(2) COpenFile by simp
  next
    case (opened f slot)
    then show ?thesis using slots_ok_take [of "g_files w" "op (fs_host w)" f] assms(2) COpenFile
      by (simp add: fs_ok_def)
  qed
next
  case (COpenDir cl p h)
  show ?thesis
    using assms
  proof (cases rule: open_dir_shape [where c = cl and p = p and h = h])
    case closed
    then show ?thesis using fs_same_ok assms(2) COpenDir by simp
  next
    case (opened d slot)
    then show ?thesis using slots_ok_take [of "g_dirs w" "dop (fs_host w)" d] assms(2) COpenDir
      by (simp add: fs_ok_def)
  qed
qed (use fs_same_ok [OF fs_step_same [OF assms, of c] assms(2)] close_ok [OF assms] shutdown_closes [OF assms]
      in \<open>simp_all add: opens_or_closes_def\<close>)

lemma fs_run_ok:
  assumes "libc_laws L op dop"
  shows "fs_ok op dop w \<Longrightarrow> fs_ok op dop (fs_run L cs w)"
  by (induction cs arbitrary: w) (simp_all add: fs_step_ok [OF assms])

lemma fs_step_files:
  assumes "libc_laws L op dop" "fs_ok op dop w" "c \<noteq> CShutdown"
  shows "\<exists>as. slots.run as (g_files w) = Some (g_files (fs_step L c w)) \<and> (\<forall>k. Drop k \<in> set as \<longrightarrow> (\<exists>cl. c = CCloseFile cl k))"
proof (cases "opens_or_closes c")
  case False
  then show ?thesis using fs_step_same [OF assms(1,2) False] by (intro exI [of _ "[]"]) (simp add: fs_same_def)
next
  case True
  consider (op) cl p m h where "c = COpenFile cl p m h" | (cl) cl h where "c = CCloseFile cl h"
    | (od) cl p h where "c = COpenDir cl p h" | (cd) cl h where "c = CCloseDir cl h"
    using True assms(3) by (cases c) (auto simp: opens_or_closes_def)
  then show ?thesis
  proof cases
    case (op cl p m h)
    have len: "slot_room (g_files w)" using assms(2) by (simp add: fs_ok_def slots_ok_def slot_room_def)
    show ?thesis
      using assms(1,2)
    proof (cases rule: open_file_shape [where c = cl and p = p and m = m and h = h])
      case closed
      then show ?thesis using op by (intro exI [of _ "[]"]) (simp add: fs_same_def)
    next
      case (opened f slot)
      then show ?thesis using op len by (intro exI [of _ "[Take f]"]) simp
    qed
  next
    case (cl c' h)
    then show ?thesis
      by (intro exI [of _ "[Drop h]"]) (simp add: FSCloseFile_def fileFor_def split: option.splits)
  next
    case (od cl p h)
    show ?thesis
      using assms(1,2)
    proof (cases rule: open_dir_shape [where c = cl and p = p and h = h])
      case closed
      then show ?thesis using od by (intro exI [of _ "[]"]) (simp add: fs_same_def)
    next
      case (opened f slot)
      then show ?thesis using od by (intro exI [of _ "[]"]) simp
    qed
  next
    case (cd cl h)
    then show ?thesis by (intro exI [of _ "[]"]) (simp add: FSCloseDir_def split: option.splits)
  qed
qed

lemma fs_run_files:
  assumes "libc_laws L op dop" "fs_ok op dop w" "CShutdown \<notin> set cs"
  shows "\<exists>as. slots.run as (g_files w) = Some (g_files (fs_run L cs w))
    \<and> (\<forall>k. Drop k \<in> set as \<longrightarrow> (\<exists>cl. CCloseFile cl k \<in> set cs))"
  using assms(2,3)
proof (induction cs arbitrary: w)
  case (Cons c cs)
  obtain as where a: "slots.run as (g_files w) = Some (g_files (fs_step L c w))"
    "\<forall>k. Drop k \<in> set as \<longrightarrow> (\<exists>cl. c = CCloseFile cl k)"
    using fs_step_files [OF assms(1) Cons.prems(1), of c] Cons.prems(2) by auto
  obtain bs where b: "slots.run bs (g_files (fs_step L c w)) = Some (g_files (fs_run L cs (fs_step L c w)))"
    "\<forall>k. Drop k \<in> set bs \<longrightarrow> (\<exists>cl. CCloseFile cl k \<in> set cs)"
    using Cons.IH [OF fs_step_ok [OF assms(1) Cons.prems(1), of c]] Cons.prems(2) by auto
  show ?case using slots.run_append [OF a(1), of bs] a(2) b by (intro exI [of _ "as @ bs"]) auto
qed (auto intro: exI [of _ "[]"])

section \<open>Properties\<close>

text \<open>A small host for the witnesses: three streams, never any data.\<close>

definition toy_open :: "ptr list \<Rightarrow> ptr" where
  "toy_open xs = (case filter (\<lambda>p. p \<notin> set xs) [100, 200, 300] of [] \<Rightarrow> null | p # _ \<Rightarrow> p)"

definition toy_libc :: "(ptr list \<times> ptr list) libc" where
  "toy_libc = \<lparr>
     c_fopen = (\<lambda>p m h. let f = toy_open (fst h) in (f, if f = null then h else (f # fst h, snd h))),
     c_fclose = (\<lambda>f h. (filter (\<lambda>x. x \<noteq> f) (fst h), snd h)),
     c_fread = (\<lambda>b n k f m h. (0, m, h)), c_fwrite = (\<lambda>b n k f m h. (ucast k, h)),
     c_fseek = (\<lambda>f x y h. (0, h)), c_ftell = (\<lambda>f h. (7, h)), c_isdir = (\<lambda>p h. True),
     c_opendir = (\<lambda>p h. let f = toy_open (snd h) in (f, if f = null then h else (fst h, f # snd h))),
     c_readdir = (\<lambda>d h. (None, h)), c_closedir = (\<lambda>f h. (fst h, filter (\<lambda>x. x \<noteq> f) (snd h))),
     c_mkdir = (\<lambda>p h. (0, h)), c_remove = (\<lambda>p h. (0, h)), c_rmdir = (\<lambda>p h. (0, h)), c_rename = (\<lambda>p q h. (0, h))\<rparr>"

definition toy_op :: "ptr list \<times> ptr list \<Rightarrow> ptr set" where "toy_op h = set (fst h) \<inter> {100, 200, 300}"
definition toy_dop :: "ptr list \<times> ptr list \<Rightarrow> ptr set" where "toy_dop h = set (snd h) \<inter> {100, 200, 300}"

lemma toy_open_fresh:
  assumes "toy_open xs \<noteq> null"
  shows "toy_open xs \<notin> set xs" "toy_open xs \<in> {100, 200, 300}"
  using assms by (auto simp: toy_open_def split: if_splits)

lemma toy_card: "card (insert p (S \<inter> {100, 200, 300 :: ptr})) < 2 ^ 31"
proof -
  have "card (insert p (S \<inter> {100, 200, 300})) \<le> card (insert p {100, 200, 300})" by (intro card_mono) auto
  also have "\<dots> \<le> 4" by (rule card_insert_le_m1) simp_all
  finally show ?thesis by simp
qed

lemma toy_laws: "libc_laws toy_libc toy_op toy_dop"
proof -
  have o: "opens toy_op toy_dop h (c_fopen toy_libc p m h)" "opens toy_dop toy_op h (c_opendir toy_libc p h)" for p m h
    using toy_open_fresh [of "fst h"] toy_open_fresh [of "snd h"]
      toy_card [of "toy_open (fst h)" "set (fst h)"] toy_card [of "toy_open (snd h)" "set (snd h)"]
    by (auto simp: opens_def toy_libc_def toy_op_def toy_dop_def Let_def)
  then show ?thesis by (auto simp: libc_laws_def toy_libc_def toy_op_def toy_dop_def quiet_def)
qed





lemma last_error_frame [simp]:
  "FSGetLastError k (w\<lparr>fs_host := h\<rparr>) = FSGetLastError k w" "FSGetLastError k (w\<lparr>fs_mem := mm\<rparr>) = FSGetLastError k w"
  "FSGetLastError k (w\<lparr>g_files := fs\<rparr>) = FSGetLastError k w" "FSGetLastError k (w\<lparr>g_dirs := ds\<rparr>) = FSGetLastError k w"
  "FSGetLastError k (w\<lparr>g_clients := n\<rparr>) = FSGetLastError k w" "FSGetLastError k (w\<lparr>g_init := b\<rparr>) = FSGetLastError k w"
  "FSGetLastError k (w\<lparr>g_mappings := ms\<rparr>) = FSGetLastError k w"
  by (simp_all add: FSGetLastError_def)

lemma last_error_cwd [simp]:
  "FSGetLastError k (set_client c (client_state c w) w) = FSGetLastError k w"
  "FSGetLastError k (set_client c ((client_state c w)\<lparr>cwd := d\<rparr>) w) = FSGetLastError k w"
  by (auto simp: FSGetLastError_def set_client_def client_state_def client_init_def split: option.splits)



text \<open>
  C2: over every sequence of file system calls with any arguments, the used handles name exactly the streams that are
  open on the host, each stream by exactly one handle, so the C library is never called on a stream that is closed or
  null, none is closed twice and none leaks; FSShutdown leaves none open.
\<close>

theorem FS_streams_balanced:
  assumes "libc_laws L op dop" "op h = {}" "dop h = {}"
  shows "(\<forall>k f. fileFor k (fs_run L cs (fs_start m h)) = Some f \<longrightarrow> f \<in> op (fs_host (fs_run L cs (fs_start m h))))
    \<and> (\<forall>k d. dirFor k (fs_run L cs (fs_start m h)) = Some d \<longrightarrow> d \<in> dop (fs_host (fs_run L cs (fs_start m h))))
    \<and> (\<forall>f \<in> op (fs_host (fs_run L cs (fs_start m h))). f \<noteq> null \<and> (\<exists>!k. fileFor k (fs_run L cs (fs_start m h)) = Some f))
    \<and> (\<forall>d \<in> dop (fs_host (fs_run L cs (fs_start m h))). d \<noteq> null \<and> (\<exists>!k. dirFor k (fs_run L cs (fs_start m h)) = Some d))
    \<and> op (fs_host (FSShutdown L (fs_run L cs (fs_start m h)))) = {}
    \<and> dop (fs_host (FSShutdown L (fs_run L cs (fs_start m h)))) = {}"
proof -
  define w where "w = fs_run L cs (fs_start m h)"
  have "fs_ok op dop (fs_start m h)" using assms by (simp add: fs_ok_def fs_start_def slots_ok_start)
  then have ok: "fs_ok op dop w" unfolding w_def by (rule fs_run_ok [OF assms(1)])
  then have "slots_ok (g_files w) (op (fs_host w))" "slots_ok (g_dirs w) (dop (fs_host w))" by (simp_all add: fs_ok_def)
  note named = slots_ok_named [OF this(1)] slots_ok_named [OF this(2)]
  moreover have "null \<notin> op (fs_host w)" "null \<notin> dop (fs_host w)" using ok by (simp_all add: fs_ok_def slots_ok_def)
  ultimately show ?thesis
    using fs_ok_file [OF ok] fs_ok_dir [OF ok] shutdown_closes [OF assms(1) ok]
    unfolding w_def [symmetric] fileFor_def dirFor_def by (intro conjI) (blast+ | metis)+
qed

definition toy_calls :: "fs_call list" where
  "toy_calls = [COpenFile 1 (Some ''/a'') (Some ''rb'') 8, COpenFile 1 (Some ''/b'') (Some ''wb'') 8, CCloseFile 1 1,
     COpenDir 1 (Some ''/d'') 8, COpenFile 1 (Some ''/c'') (Some ''rb'') 8]"

theorem FS_streams_balanced_witness:
  "(\<exists>!k. fileFor k (fs_run toy_libc toy_calls (fs_start (\<lambda>_. 0) ([], []))) = Some 200)
    \<and> toy_op (fs_host (FSShutdown toy_libc (fs_run toy_libc toy_calls (fs_start (\<lambda>_. 0) ([], []))))) = {}"
proof -
  have o: "200 \<in> toy_op (fs_host (fs_run toy_libc toy_calls (fs_start (\<lambda>_. 0) ([], []))))"
    by (simp add: toy_calls_def fs_start_def FSOpenFile_def FSOpenDir_def FSCloseFile_def toy_libc_def toy_open_def Let_def
        translate_def slot_take_def slot_drop_def fileFor_def slot_for_def fs_record_def set_client_def toy_op_def)
  from FS_streams_balanced [OF toy_laws, of "([], [])" toy_calls "\<lambda>_. 0"]
  show ?thesis using o by (simp add: toy_op_def toy_dop_def)
qed

text \<open>
  C11: a handle that FSOpenFile returns names a stream that was not open before and that no other handle names. It keeps
  naming that stream, open and unshared, through every later sequence of calls that neither shuts down nor closes that
  handle; FSCloseFile closes exactly that stream, and the handle is then refused until it is given out again.
\<close>

theorem FSOpenFile_handle_owned:
  assumes "libc_laws L op dop" "op h = {}" "dop h = {}"
    and "FSOpenFile L c p md hp (fs_run L cs (fs_start m h)) = ((s, Some k), w')"
    and "CShutdown \<notin> set cs'" "\<forall>c'. CCloseFile c' k \<notin> set cs'"
  shows "\<exists>f. f \<notin> op (fs_host (fs_run L cs (fs_start m h))) \<and> fileFor k (fs_run L cs (fs_start m h)) = None
    \<and> fileFor k (fs_run L cs' w') = Some f \<and> f \<in> op (fs_host (fs_run L cs' w'))
    \<and> (\<forall>k'. fileFor k' (fs_run L cs' w') = Some f \<longrightarrow> k' = k)
    \<and> (case FSCloseFile L c' k (fs_run L cs' w') of (r, w'') \<Rightarrow>
         r = 0 \<and> op (fs_host w'') = op (fs_host (fs_run L cs' w')) - {f} \<and> fileFor k w'' = None
         \<and> FSCloseFile L c' k w'' = (- 0x400, w''))"
proof -
  define w where "w = fs_run L cs (fs_start m h)"
  have "fs_ok op dop (fs_start m h)" using assms(2,3) by (simp add: fs_ok_def fs_start_def slots_ok_start)
  then have ok: "fs_ok op dop w" unfolding w_def by (rule fs_run_ok [OF assms(1)])
  note open' = assms(4) [folded w_def]
  obtain f where f: "slot_take f (g_files w) = (k, g_files w')" "f \<notin> op (fs_host w)"
    using assms(1) ok open' by (cases rule: open_file_shape [where c = c and p = p and m = md and h = hp]) auto
  have room: "slot_room (g_files w)" using ok by (simp add: fs_ok_def slots_ok_def slot_room_def)
  have "w' = fs_step L (COpenFile c p md hp) w" using open' by simp
  then have ok': "fs_ok op dop w'" using fs_step_ok [OF assms(1) ok, of "COpenFile c p md hp"] by (simp only:)
  obtain as where as: "slots.run as (g_files w') = Some (g_files (fs_run L cs' w'))" "Drop k \<notin> set as"
    using fs_run_files [OF assms(1) ok' assms(5)] assms(6) by blast
  note taken = slots.handle_taken [OF room f(1) as]
  have ok2: "fs_ok op dop (fs_run L cs' w')" by (rule fs_run_ok [OF assms(1) ok'])
  have now: "fileFor k (fs_run L cs' w') = Some f" using taken(1) by (simp add: fileFor_def)
  have was: "fileFor k w = None" using slots.take_fresh [OF room f(1)] by (simp add: fileFor_def)
  have fo: "f \<in> op (fs_host (fs_run L cs' w'))" "f \<noteq> null" using fs_ok_file [OF ok2 now] by simp_all
  have only: "\<forall>k'. fileFor k' (fs_run L cs' w') = Some f \<longrightarrow> k' = k"
    using slot_for_inj now ok2 unfolding fs_ok_def fileFor_def by blast
  define w2 where "w2 = snd (FSCloseFile L c' k (fs_run L cs' w'))"
  have cl: "FSCloseFile L c' k (fs_run L cs' w') = (0, w2)" using now by (simp add: w2_def FSCloseFile_def)
  have "fileFor k w2 = None" using taken(2) now by (simp add: w2_def FSCloseFile_def fileFor_def)
  moreover have "op (fs_host w2) = op (fs_host (fs_run L cs' w')) - {f}"
    using now fo libc_closes(1) [OF assms(1)] by (simp add: w2_def FSCloseFile_def)
  moreover have "FSCloseFile L c' k w2 = (- 0x400, w2)" using \<open>fileFor k w2 = None\<close> by (simp add: FSCloseFile_def)
  ultimately have closed: "case FSCloseFile L c' k (fs_run L cs' w') of (r, w'') \<Rightarrow>
         r = 0 \<and> op (fs_host w'') = op (fs_host (fs_run L cs' w')) - {f} \<and> fileFor k w'' = None
         \<and> FSCloseFile L c' k w'' = (- 0x400, w'')"
    unfolding cl prod.case by blast
  show ?thesis
    unfolding w_def [symmetric] by (rule exI [of _ f]) (intro conjI f(2) was now fo(1) only closed)
qed

theorem FSOpenFile_handle_owned_witness:
  "\<exists>f. fileFor 1 (fs_run toy_libc [COpenFile 1 (Some ''/b'') (Some ''wb'') 8, CCloseFile 1 2]
      (snd (FSOpenFile toy_libc 1 (Some ''/a'') (Some ''rb'') 8 (fs_start (\<lambda>_. 0) ([], []))))) = Some f"
proof -
  have first: "FSOpenFile toy_libc 1 (Some ''/a'') (Some ''rb'') 8 (fs_run toy_libc [] (fs_start (\<lambda>_. 0) ([], [])))
    = ((0, Some 1), snd (FSOpenFile toy_libc 1 (Some ''/a'') (Some ''rb'') 8 (fs_start (\<lambda>_. 0) ([], []))))"
    by (simp add: fs_start_def FSOpenFile_def toy_libc_def toy_open_def Let_def translate_def slot_take_def fs_record_def)
  have none: "toy_op ([], []) = {}" "toy_dop ([], []) = {}" by (simp_all add: toy_op_def toy_dop_def)
  have later: "CShutdown \<notin> set [COpenFile 1 (Some ''/b'') (Some ''wb'') 8, CCloseFile 1 2]"
    "\<forall>c'. CCloseFile c' 1 \<notin> set [COpenFile 1 (Some ''/b'') (Some ''wb'') 8, CCloseFile 1 2]" by simp_all
  from FSOpenFile_handle_owned [where c' = 1, OF toy_laws none first later] obtain f where "fileFor 1 (fs_run toy_libc [COpenFile 1 (Some ''/b'') (Some ''wb'') 8, CCloseFile 1 2]
      (snd (FSOpenFile toy_libc 1 (Some ''/a'') (Some ''rb'') 8 (fs_start (\<lambda>_. 0) ([], []))))) = Some f"
    by blast
  then show ?thesis ..
qed

text \<open>
  C35: how guest paths reach the host. When no earlier mapping matches, the path behind a mapped prefix goes to that
  mapping's host root, also when it is relative to the directory the client changed to; a volume mounted by FSMount
  leads to the root of the host. The prefix is matched as text, not by components: whatever follows it is taken over, so
  a mapping of ''/vol/content'' also captures ''/vol/content2''.
\<close>

theorem FS_volume_paths:
  assumes "g_mappings w = ms @ (a, b) # ms'" "\<forall>(x, y) \<in> set ms. take (length x) (a @ r) \<noteq> x" "a \<noteq> []" "hd a = CHR ''/''"
  shows "translate c (Some (a @ r)) w = b @ r
    \<and> (c \<noteq> null \<longrightarrow> r = d @ ''/'' @ p \<longrightarrow> (d = [] \<or> last d \<noteq> CHR ''/'') \<longrightarrow> last a \<noteq> CHR ''/''
        \<longrightarrow> p \<noteq> [] \<longrightarrow> hd p \<noteq> CHR ''/''
        \<longrightarrow> translate c (Some p) (snd (FSChangeDir c (Some (a @ d)) w)) = b @ r)
    \<and> ((\<forall>(x, y) \<in> set (g_mappings w). take (length x) (t @ r) \<noteq> x) \<longrightarrow> t \<noteq> [] \<longrightarrow> hd t = CHR ''/''
        \<longrightarrow> translate c (Some (t @ r)) (snd (FSMount c (Some src) (Some t) w)) = ''/'' @ r)"
proof -
  have map: "map_path (ms @ (a, b) # ms') (a @ r) = b @ r" if "\<forall>(x, y) \<in> set ms. take (length x) (a @ r) \<noteq> x"
    for ms ms' :: "(string \<times> string) list" and a b r
    using that by (induction ms) auto
  have mappings: "g_mappings (snd (FSChangeDir c (Some q) w)) = g_mappings w" for q
    by (simp add: FSChangeDir_def set_client_def)
  have mounted: "g_mappings (snd (FSMount c (Some src) (Some t) w)) = g_mappings w @ [(t, ''/'')]"
    by (simp add: FSMount_def AddVolumeMapping_def fs_record_def set_client_def Let_def)
  have abs: "translate c (Some (a @ r)) w = b @ r"
    using map [OF assms(2)] assms by (simp add: translate_def resolve_def)
  moreover have "translate c (Some p) (snd (FSChangeDir c (Some (a @ d)) w)) = b @ r"
    if "c \<noteq> null" "r = d @ ''/'' @ p" "d = [] \<or> last d \<noteq> CHR ''/''" "last a \<noteq> CHR ''/''" "p \<noteq> []" "hd p \<noteq> CHR ''/''"
  proof -
    have "resolve c p (snd (FSChangeDir c (Some (a @ d)) w)) = a @ r"
      using that assms(3) by (auto simp: resolve_def FSChangeDir_def set_client_def last_append split: if_splits)
    then show ?thesis using map [OF assms(2)] assms(1) mappings by (simp add: translate_def)
  qed
  moreover have "translate c (Some (t @ r)) (snd (FSMount c (Some src) (Some t) w)) = ''/'' @ r"
    if "\<forall>(x, y) \<in> set (g_mappings w). take (length x) (t @ r) \<noteq> x" "t \<noteq> []" "hd t = CHR ''/''"
    using map [OF that(1), of "''/''" "[]"] that mounted by (simp add: translate_def resolve_def)
  ultimately show ?thesis by blast
qed

theorem FS_volume_paths_witness:
  "translate 1 (Some ''/vol/content2/x'')
     (AddVolumeMapping (Some ''/vol/content'') (Some ''/sd/game'') (fs_start (\<lambda>_. 0) ([], [])) :: (ptr list \<times> ptr list) fs_world)
   = ''/sd/game2/x''"
  using FS_volume_paths [where a = "''/vol/content''" and b = "''/sd/game''" and r = "''2/x''" and ms = "[]" and ms' = "[]"
      and w = "AddVolumeMapping (Some ''/vol/content'') (Some ''/sd/game'') (fs_start (\<lambda>_. 0) ([], [])) :: (ptr list \<times> ptr list) fs_world"
      and c = 1]
  by (simp add: AddVolumeMapping_def fs_start_def)



end
