(* ===== verification/Thread.thy ===== *)
theory Thread
  imports HandleTable Alignment "HOL-Library.Signed_Division"
begin

text \<open>
  The threads of \<^verbatim>\<open>source/thread.cpp\<close>. A \<^verbatim>\<open>HostThread\<close> lives in the table under the address of the guest's \<^verbatim>\<open>OSThread\<close>
  and is never erased, so \<^verbatim>\<open>t_current\<close>, a pointer to one, is that address. libnx and the kernel calls are a
  parameter, a record of functions on a kernel state of any type; function pointers of the guest are addresses.
  A thread that runs is seen in two steps, the entry of the trampoline and the return of the guest's function;
  \<^verbatim>\<open>threadExit\<close> does not return, which is the value \<open>True\<close> of the calls that make it.
\<close>

section \<open>State\<close>

record 'k thread_api =
  th_create :: "ptr \<Rightarrow> u64 \<Rightarrow> int \<Rightarrow> int \<Rightarrow> 'k \<Rightarrow> bool \<times> 'k"
  th_start :: "ptr \<Rightarrow> 'k \<Rightarrow> bool \<times> 'k"
  th_wait :: "ptr \<Rightarrow> 'k \<Rightarrow> bool \<times> 'k"
  th_close :: "ptr \<Rightarrow> 'k \<Rightarrow> 'k"
  th_priority :: "'k \<Rightarrow> int option"
  th_core :: "'k \<Rightarrow> u32"
  th_main :: ptr

abbreviation (input) OS_THREAD_ATTRIB_AFFINITY_CPU0 :: u8 where "OS_THREAD_ATTRIB_AFFINITY_CPU0 \<equiv> 1"
abbreviation (input) OS_THREAD_ATTRIB_AFFINITY_CPU1 :: u8 where "OS_THREAD_ATTRIB_AFFINITY_CPU1 \<equiv> 2"
abbreviation (input) OS_THREAD_ATTRIB_AFFINITY_ANY :: "'a :: len word" where "OS_THREAD_ATTRIB_AFFINITY_ANY \<equiv> 7"
abbreviation (input) OS_THREAD_ATTRIB_DETACHED :: u8 where "OS_THREAD_ATTRIB_DETACHED \<equiv> 8"

record host_thread =
  th_guest :: ptr
  th_entry :: ptr
  th_argc :: s32
  th_argv :: ptr
  guestStack :: ptr
  guestStackSize :: u32
  exitResult :: s32
  suspendCount :: s32
  th_cleanup :: ptr
  th_created :: bool
  th_started :: bool
  th_detached :: bool
  cafePriority :: s32
  cafeAffinity :: u32
  th_name :: ptr
  th_deallocator :: ptr
  cancelRequested :: bool
  cancelEnabled :: bool

definition thread_init :: host_thread where
  "thread_init = \<lparr>th_guest = null, th_entry = null, th_argc = 0, th_argv = null, guestStack = null, guestStackSize = 0,
     exitResult = 0, suspendCount = 0, th_cleanup = null, th_created = False, th_started = False, th_detached = False,
     cafePriority = 16, cafeAffinity = OS_THREAD_ATTRIB_AFFINITY_ANY, th_name = null, th_deallocator = null,
     cancelRequested = False, cancelEnabled = True\<rparr>"

record 'k thread_world =
  g_threads :: "host_thread table"
  t_current :: "tid \<Rightarrow> ptr option"
  t_specific :: "tid \<Rightarrow> ptr list"
  tw_kernel :: 'k

abbreviation (input) kPageSize :: u64 where "kPageSize \<equiv> 0x1000"
abbreviation (input) kMinHostStack :: u64 where "kMinHostStack \<equiv> 0x10000"
abbreviation (input) kThreadSpecificSlots :: int where "kThreadSpecificSlots \<equiv> 16"

definition thread_start_world :: "'k \<Rightarrow> 'k thread_world" where
  "thread_start_world k = \<lparr>g_threads = Map.empty, t_current = (\<lambda>_. None), t_specific = (\<lambda>_. replicate 16 null), tw_kernel = k\<rparr>"

text \<open>A getter and a setter through the pointer that \<^verbatim>\<open>get\<close> returns.\<close>

definition thread_of :: "ptr \<Rightarrow> 'k thread_world \<Rightarrow> host_thread" where
  "thread_of thread w = ht_host thread_init thread (g_threads w)"

definition set_thread :: "ptr \<Rightarrow> host_thread \<Rightarrow> 'k thread_world \<Rightarrow> 'k thread_world" where
  "set_thread thread h w = w\<lparr>g_threads := ht_store thread h (g_threads w)\<rparr>"

section \<open>Parameters of a host thread\<close>

definition mapPriority :: "int option \<Rightarrow> int \<Rightarrow> int" where
  "mapPriority kprio cafe0 =
     (let processPrio = (case kprio of None \<Rightarrow> 0x2C | Some p \<Rightarrow> p);
          cafe1 = (if cafe0 < 0 then 0 else cafe0);
          cafe = (if 31 < cafe1 then 31 else cafe1);
          span = 0x3F - processPrio
      in processPrio + (cafe * span) sdiv 31)"

definition mapAffinity :: "u8 \<Rightarrow> int" where
  "mapAffinity attr =
     (let mask = attr AND OS_THREAD_ATTRIB_AFFINITY_ANY
      in if mask = 0 \<or> mask = OS_THREAD_ATTRIB_AFFINITY_ANY then - 2
         else if mask AND OS_THREAD_ATTRIB_AFFINITY_CPU0 \<noteq> 0 then 0
         else if mask AND OS_THREAD_ATTRIB_AFFINITY_CPU1 \<noteq> 0 then 1
         else 2)"

definition hostStackSize :: "u32 \<Rightarrow> u64" where
  "hostStackSize guest =
     (let sz = (if ucast guest < kMinHostStack then kMinHostStack else ucast guest)
      in (sz + kPageSize - 1) AND NOT (kPageSize - 1))"

section \<open>Life of a thread\<close>

definition OSCreateThread ::
  "'k thread_api \<Rightarrow> ptr \<Rightarrow> ptr \<Rightarrow> s32 \<Rightarrow> ptr \<Rightarrow> ptr \<Rightarrow> u32 \<Rightarrow> s32 \<Rightarrow> u8 \<Rightarrow> 'k thread_world \<Rightarrow> s32 \<times> 'k thread_world" where
  "OSCreateThread L thread entry argc argv stack stackSize priority attributes w =
     (let h = (thread_of thread w)\<lparr>th_entry := entry, th_argc := argc, th_argv := argv, guestStack := stack,
            guestStackSize := stackSize, exitResult := 0, suspendCount := 1, th_started := False,
            th_detached := (attributes AND OS_THREAD_ATTRIB_DETACHED \<noteq> 0), th_guest := thread, cafePriority := priority,
            cafeAffinity := ucast (attributes AND OS_THREAD_ATTRIB_AFFINITY_ANY), th_name := null, th_deallocator := null, th_cleanup := null\<rparr>;
          prio = mapPriority (th_priority L (tw_kernel w)) (sint priority);
          stackSz = hostStackSize stackSize;
          cpu = mapAffinity attributes;
          (rc1, k1) = th_create L thread stackSz prio cpu (tw_kernel w);
          (rc, k2) = (if \<not> rc1 \<and> cpu \<noteq> - 2 then th_create L thread stackSz prio (- 2) k1 else (rc1, k1))
      in (if rc then 1 else 0, set_thread thread (h\<lparr>th_created := rc\<rparr>) (w\<lparr>tw_kernel := k2\<rparr>)))"

definition OSResumeThread :: "'k thread_api \<Rightarrow> ptr \<Rightarrow> 'k thread_world \<Rightarrow> s32 \<times> 'k thread_world" where
  "OSResumeThread L thread w =
     (let h = thread_of thread w;
          previous = suspendCount h;
          h1 = (if 0 <s suspendCount h then h\<lparr>suspendCount := suspendCount h - 1\<rparr> else h)
      in if suspendCount h1 = 0 \<and> th_created h1 \<and> \<not> th_started h1 then
           (case th_start L thread (tw_kernel w) of
              (rc, k) \<Rightarrow> (previous, set_thread thread (if rc then h1\<lparr>th_started := True\<rparr> else h1) (w\<lparr>tw_kernel := k\<rparr>)))
         else (previous, set_thread thread h1 w))"

definition OSSuspendThread :: "ptr \<Rightarrow> 'k thread_world \<Rightarrow> s32 \<times> 'k thread_world" where
  "OSSuspendThread thread w =
     (let h = thread_of thread w
      in (suspendCount h, set_thread thread (h\<lparr>suspendCount := suspendCount h + 1\<rparr>) w))"

text \<open>
  \<^verbatim>\<open>OSJoinThread\<close> waits between its tests and its last part: \<open>OSJoinThread_enter\<close> says whether it waits, and
  \<open>OSJoinThread_leave\<close> is what follows, in the state at that moment. The exit code is \<open>None\<close> when none is stored.
\<close>

definition OSJoinThread_enter :: "ptr \<Rightarrow> 'k thread_world \<Rightarrow> bool \<times> 'k thread_world" where
  "OSJoinThread_enter thread w =
     (let h = thread_of thread w
      in (\<not> (\<not> th_created h \<or> \<not> th_started h \<or> th_detached h), set_thread thread h w))"

definition OSJoinThread_leave ::
  "'k thread_api \<Rightarrow> ptr \<Rightarrow> ptr \<Rightarrow> 'k thread_world \<Rightarrow> (s32 \<times> s32 option) \<times> 'k thread_world" where
  "OSJoinThread_leave L thread threadResult w =
     (let h = thread_of thread w; (rc, k) = th_wait L thread (tw_kernel w)
      in if \<not> rc then ((0, None), w\<lparr>tw_kernel := k\<rparr>)
         else
           ((1, if threadResult \<noteq> null then Some (exitResult h) else None),
            set_thread thread (h\<lparr>th_started := False, th_created := False\<rparr>) (w\<lparr>tw_kernel := th_close L thread k\<rparr>)))"

definition OSJoinThread ::
  "'k thread_api \<Rightarrow> ptr \<Rightarrow> ptr \<Rightarrow> 'k thread_world \<Rightarrow> (s32 \<times> s32 option) \<times> 'k thread_world" where
  "OSJoinThread L thread threadResult w =
     (case OSJoinThread_enter thread w of
        (waits, w') \<Rightarrow> if waits then OSJoinThread_leave L thread threadResult w' else ((0, None), w'))"

text \<open>The trampoline: \<open>trampoline_leave\<close> gives the calls it makes after the guest's function has returned \<open>r\<close>.\<close>

definition trampoline_enter :: "tid \<Rightarrow> ptr \<Rightarrow> 'k thread_world \<Rightarrow> 'k thread_world" where
  "trampoline_enter t thread w = w\<lparr>t_current := (t_current w)(t \<mapsto> thread)\<rparr>"

definition trampoline_leave :: "ptr \<Rightarrow> s32 \<Rightarrow> 'k thread_world \<Rightarrow> (ptr \<times> ptr \<times> ptr) list \<times> 'k thread_world" where
  "trampoline_leave thread r w =
     (let h = (thread_of thread w)\<lparr>exitResult := r\<rparr>
      in ((if th_cleanup h \<noteq> null then [(th_cleanup h, th_guest h, guestStack h)] else [])
            @ (if th_deallocator h \<noteq> null then [(th_deallocator h, th_guest h, guestStack h)] else []),
          set_thread thread h w))"

definition OSExitThread :: "tid \<Rightarrow> s32 \<Rightarrow> 'k thread_world \<Rightarrow> bool \<times> 'k thread_world" where
  "OSExitThread t r w =
     (case t_current w t of
        None \<Rightarrow> (True, w)
      | Some k \<Rightarrow> (True, set_thread k ((thread_of k w)\<lparr>exitResult := r\<rparr>) w))"

definition OSGetCurrentThread :: "'k thread_api \<Rightarrow> tid \<Rightarrow> 'k thread_world \<Rightarrow> ptr \<times> 'k thread_world" where
  "OSGetCurrentThread L t w =
     (case t_current w t of
        Some k \<Rightarrow> (th_guest (thread_of k w), w)
      | None \<Rightarrow>
          (let h = thread_of (th_main L) w
           in (th_main L,
               set_thread (th_main L)
                 (if th_guest h = null then h\<lparr>th_guest := th_main L, th_created := True, th_started := True\<rparr> else h) w)))"

definition OSGetCoreId :: "'k thread_api \<Rightarrow> 'k thread_world \<Rightarrow> u32" where
  "OSGetCoreId L w = (let i = th_core L (tw_kernel w) in if 2 < i then 2 else i)"

section \<open>Attributes\<close>

definition OSSetThreadCleanupCallback :: "ptr \<Rightarrow> ptr \<Rightarrow> 'k thread_world \<Rightarrow> ptr \<times> 'k thread_world" where
  "OSSetThreadCleanupCallback thread callback w =
     (let h = thread_of thread w in (th_cleanup h, set_thread thread (h\<lparr>th_cleanup := callback\<rparr>) w))"

definition OSGetThreadPriority :: "ptr \<Rightarrow> 'k thread_world \<Rightarrow> s32 \<times> 'k thread_world" where
  "OSGetThreadPriority thread w = (let h = thread_of thread w in (cafePriority h, set_thread thread h w))"

definition OSSetThreadPriority :: "ptr \<Rightarrow> s32 \<Rightarrow> 'k thread_world \<Rightarrow> s32 \<times> 'k thread_world" where
  "OSSetThreadPriority thread priority w = (1, set_thread thread ((thread_of thread w)\<lparr>cafePriority := priority\<rparr>) w)"

definition OSGetThreadAffinity :: "ptr \<Rightarrow> 'k thread_world \<Rightarrow> u32 \<times> 'k thread_world" where
  "OSGetThreadAffinity thread w = (let h = thread_of thread w in (cafeAffinity h, set_thread thread h w))"

definition OSSetThreadAffinity :: "ptr \<Rightarrow> u32 \<Rightarrow> 'k thread_world \<Rightarrow> s32 \<times> 'k thread_world" where
  "OSSetThreadAffinity thread affinity w =
     (1, set_thread thread ((thread_of thread w)\<lparr>cafeAffinity := affinity AND OS_THREAD_ATTRIB_AFFINITY_ANY\<rparr>) w)"

definition OSGetThreadName :: "ptr \<Rightarrow> 'k thread_world \<Rightarrow> ptr \<times> 'k thread_world" where
  "OSGetThreadName thread w = (let h = thread_of thread w in (th_name h, set_thread thread h w))"

definition OSSetThreadName :: "ptr \<Rightarrow> ptr \<Rightarrow> 'k thread_world \<Rightarrow> 'k thread_world" where
  "OSSetThreadName thread name w = set_thread thread ((thread_of thread w)\<lparr>th_name := name\<rparr>) w"

definition OSGetThreadSpecific :: "tid \<Rightarrow> s32 \<Rightarrow> 'k thread_world \<Rightarrow> ptr" where
  "OSGetThreadSpecific t i w =
     (if sint i < 0 \<or> kThreadSpecificSlots \<le> sint i then null else t_specific w t ! nat (sint i))"

definition OSSetThreadSpecific :: "tid \<Rightarrow> s32 \<Rightarrow> ptr \<Rightarrow> 'k thread_world \<Rightarrow> 'k thread_world" where
  "OSSetThreadSpecific t i v w =
     (if sint i < 0 \<or> kThreadSpecificSlots \<le> sint i then w
      else w\<lparr>t_specific := (t_specific w)(t := (t_specific w t)[nat (sint i) := v])\<rparr>)"

definition OSSetThreadDeallocator :: "ptr \<Rightarrow> ptr \<Rightarrow> 'k thread_world \<Rightarrow> ptr \<times> 'k thread_world" where
  "OSSetThreadDeallocator thread f w =
     (let h = thread_of thread w in (th_deallocator h, set_thread thread (h\<lparr>th_deallocator := f\<rparr>) w))"

section \<open>Cancellation\<close>

definition OSCancelThread :: "ptr \<Rightarrow> 'k thread_world \<Rightarrow> 'k thread_world" where
  "OSCancelThread thread w =
     (if thread \<noteq> null then set_thread thread ((thread_of thread w)\<lparr>cancelRequested := True\<rparr>) w else w)"

definition OSTestThreadCancel :: "tid \<Rightarrow> 'k thread_world \<Rightarrow> bool" where
  "OSTestThreadCancel t w =
     (case t_current w t of
        None \<Rightarrow> False
      | Some k \<Rightarrow> cancelRequested (thread_of k w) \<and> cancelEnabled (thread_of k w))"

definition OSSetThreadCancelState :: "tid \<Rightarrow> s32 \<Rightarrow> 'k thread_world \<Rightarrow> s32 \<times> 'k thread_world" where
  "OSSetThreadCancelState t state w =
     (case t_current w t of
        None \<Rightarrow> (1, w)
      | Some k \<Rightarrow>
          (let h = thread_of k w
           in (if cancelEnabled h then 1 else 0, set_thread k (h\<lparr>cancelEnabled := (state \<noteq> 0)\<rparr>) w)))"

definition OSDetachThread :: "ptr \<Rightarrow> 'k thread_world \<Rightarrow> 'k thread_world" where
  "OSDetachThread thread w =
     (if thread \<noteq> null then set_thread thread ((thread_of thread w)\<lparr>th_detached := True\<rparr>) w else w)"

definition OSGetStackPointer :: "ptr \<Rightarrow> u32" where
  "OSGetStackPointer sp = ucast sp"

definition OSBlockThreadsOnExit :: "'k thread_world \<Rightarrow> 'k thread_world" where
  "OSBlockThreadsOnExit w = w"

definition OSIsThreadTerminated :: "ptr \<Rightarrow> 'k thread_world \<Rightarrow> s32 \<times> 'k thread_world" where
  "OSIsThreadTerminated thread w =
     (let h = thread_of thread w in (if th_created h \<and> \<not> th_started h then 1 else 0, set_thread thread h w))"

end
