(* ===== verification/ThreadLife.thy ===== *)
theory ThreadLife
  imports Thread
begin

text \<open>
  The properties of \<^verbatim>\<open>source/thread.cpp\<close>: the well-formedness of its state over any sequence of calls and thread
  events, when a thread starts, what is passed to the host, and what the flags of a thread say.
\<close>

section \<open>What the host is given\<close>

lemma mapPriority_bounds:
  assumes "0 \<le> p" "p \<le> 0x3F"
  shows "p \<le> mapPriority (Some p) c" "mapPriority (Some p) c \<le> 0x3F"
    "c \<le> 0 \<Longrightarrow> mapPriority (Some p) c = p" "31 \<le> c \<Longrightarrow> mapPriority (Some p) c = 0x3F"
    "c \<le> d \<Longrightarrow> mapPriority (Some p) c \<le> mapPriority (Some p) d"
proof -
  define cl where "cl x = (if 31 < (if x < 0 then 0 else x) then 31 else if x < 0 then 0 else x)" for x :: int
  have m: "mapPriority (Some p) x = p + cl x * (0x3F - p) div 31" for x
    using assms by (simp add: mapPriority_def cl_def signed_divide_int_def sgn_if Let_def)
  have r: "0 \<le> cl x" "cl x \<le> 31" for x by (simp_all add: cl_def)
  have up: "cl x * (0x3F - p) div 31 \<le> cl y * (0x3F - p) div 31" if "cl x \<le> cl y" for x y
    using that assms by (intro zdiv_mono1 mult_right_mono) simp_all
  show "31 \<le> c \<Longrightarrow> mapPriority (Some p) c = 0x3F" using assms by (simp add: m cl_def)
  show "c \<le> 0 \<Longrightarrow> mapPriority (Some p) c = p" by (simp add: m cl_def)
  show "c \<le> d \<Longrightarrow> mapPriority (Some p) c \<le> mapPriority (Some p) d" using up [of c d] by (simp add: m cl_def)
  show "p \<le> mapPriority (Some p) c" using r(1) [of c] assms by (simp add: m pos_imp_zdiv_nonneg_iff)
  have "mapPriority (Some p) c \<le> mapPriority (Some p) 31" using up [of c 31] r(2) [of c] by (simp add: m cl_def)
  then show "mapPriority (Some p) c \<le> 0x3F" using assms by (simp add: m cl_def)
qed

lemma mapAffinity_range: "mapAffinity a \<in> {- 2, 0, 1, 2}"
  by (simp add: mapAffinity_def Let_def)

section \<open>Sequences of calls\<close>

datatype thread_call =
    TCreate ptr ptr s32 ptr ptr u32 s32 u8 | TResume ptr | TSuspend ptr | TJoin ptr ptr
  | TEnter tid ptr | TLeave ptr s32 | TExit tid s32 | TCurrent tid
  | TSetCleanup ptr ptr | TGetPriority ptr | TSetPriority ptr s32 | TGetAffinity ptr | TSetAffinity ptr u32
  | TGetName ptr | TSetName ptr ptr | TSetSpecific tid s32 ptr | TSetDeallocator ptr ptr
  | TCancel ptr | TCancelState tid s32 | TDetach ptr | TIsTerminated ptr

fun thread_step :: "'k thread_api \<Rightarrow> thread_call \<Rightarrow> 'k thread_world \<Rightarrow> 'k thread_world" where
  "thread_step L (TCreate k e ac av st sz p a) w = snd (OSCreateThread L k e ac av st sz p a w)"
| "thread_step L (TResume k) w = snd (OSResumeThread L k w)"
| "thread_step L (TSuspend k) w = snd (OSSuspendThread k w)"
| "thread_step L (TJoin k r) w = snd (OSJoinThread L k r w)"
| "thread_step L (TEnter t k) w = trampoline_enter t k w"
| "thread_step L (TLeave k r) w = snd (trampoline_leave k r w)"
| "thread_step L (TExit t r) w = snd (OSExitThread t r w)"
| "thread_step L (TCurrent t) w = snd (OSGetCurrentThread L t w)"
| "thread_step L (TSetCleanup k f) w = snd (OSSetThreadCleanupCallback k f w)"
| "thread_step L (TGetPriority k) w = snd (OSGetThreadPriority k w)"
| "thread_step L (TSetPriority k p) w = snd (OSSetThreadPriority k p w)"
| "thread_step L (TGetAffinity k) w = snd (OSGetThreadAffinity k w)"
| "thread_step L (TSetAffinity k a) w = snd (OSSetThreadAffinity k a w)"
| "thread_step L (TGetName k) w = snd (OSGetThreadName k w)"
| "thread_step L (TSetName k n) w = OSSetThreadName k n w"
| "thread_step L (TSetSpecific t i v) w = OSSetThreadSpecific t i v w"
| "thread_step L (TSetDeallocator k f) w = snd (OSSetThreadDeallocator k f w)"
| "thread_step L (TCancel k) w = OSCancelThread k w"
| "thread_step L (TCancelState t s) w = snd (OSSetThreadCancelState t s w)"
| "thread_step L (TDetach k) w = OSDetachThread k w"
| "thread_step L (TIsTerminated k) w = snd (OSIsThreadTerminated k w)"

primrec thread_run :: "'k thread_api \<Rightarrow> thread_call list \<Rightarrow> 'k thread_world \<Rightarrow> 'k thread_world" where
  "thread_run L [] w = w"
| "thread_run L (c # cs) w = thread_run L cs (thread_step L c w)"

lemma thread_run_append: "thread_run L (xs @ ys) w = thread_run L ys (thread_run L xs w)"
  by (induction xs arbitrary: w) simp_all

lemma thread_of_set [simp]:
  "thread_of k (set_thread k' h w) = (if k = k' then h else thread_of k w)"
  "thread_of k (w\<lparr>tw_kernel := q\<rparr>) = thread_of k w" "thread_of k (w\<lparr>t_current := c\<rparr>) = thread_of k w"
  "thread_of k (w\<lparr>t_specific := s\<rparr>) = thread_of k w"
  by (simp_all add: thread_of_def set_thread_def)

lemma set_thread_frame [simp]:
  "t_current (set_thread k h w) = t_current w" "t_specific (set_thread k h w) = t_specific w"
  by (simp_all add: set_thread_def)

lemmas thread_op_defs = OSResumeThread_def OSSuspendThread_def OSJoinThread_def OSJoinThread_enter_def
  OSJoinThread_leave_def trampoline_enter_def trampoline_leave_def OSExitThread_def OSGetCurrentThread_def
  OSSetThreadCleanupCallback_def OSGetThreadPriority_def OSSetThreadPriority_def OSGetThreadAffinity_def
  OSSetThreadAffinity_def OSGetThreadName_def OSSetThreadName_def OSSetThreadSpecific_def OSSetThreadDeallocator_def
  OSCancelThread_def OSSetThreadCancelState_def OSDetachThread_def OSIsThreadTerminated_def

lemma create_thread_of:
  "thread_of k (snd (OSCreateThread L k e ac av st sz p a w)) =
     (thread_of k w)\<lparr>th_entry := e, th_argc := ac, th_argv := av, guestStack := st, guestStackSize := sz, exitResult := 0,
        suspendCount := 1, th_started := False, th_detached := (a AND 8 \<noteq> 0), th_guest := k, cafePriority := p,
        cafeAffinity := ucast (a AND 7), th_name := null, th_deallocator := null, th_cleanup := null,
        th_created := (fst (OSCreateThread L k e ac av st sz p a w) = 1)\<rparr>"
  "k' \<noteq> k \<Longrightarrow> thread_of k' (snd (OSCreateThread L k e ac av st sz p a w)) = thread_of k' w"
  "t_specific (snd (OSCreateThread L k e ac av st sz p a w)) = t_specific w"
  "t_current (snd (OSCreateThread L k e ac av st sz p a w)) = t_current w"
  by (simp_all add: OSCreateThread_def Let_def case_prod_unfold)

section \<open>Well-formed states\<close>

definition thread_ok :: "int \<Rightarrow> ptr \<Rightarrow> host_thread \<Rightarrow> bool" where
  "thread_ok n k h \<longleftrightarrow> (th_started h \<longrightarrow> th_created h) \<and> 0 \<le> sint (suspendCount h) \<and> sint (suspendCount h) \<le> n
     \<and> cafeAffinity h \<le> 7 \<and> (th_guest h = null \<or> th_guest h = k)"

definition thread_world_ok :: "int \<Rightarrow> 'k thread_world \<Rightarrow> bool" where
  "thread_world_ok n w \<longleftrightarrow> (\<forall>k. thread_ok n k (thread_of k w)) \<and> (\<forall>t. length (t_specific w t) = 16)"

lemma and_7_le: "(a AND 7 :: 'a :: len word) \<le> 7"
  by (rule word_and_le1)

lemma affinity_ok: "(ucast (a AND 7 :: u8) :: u32) \<le> 7"
  using and_7_le [of a] by (simp add: word_le_nat_alt unsigned_ucast_eq take_bit_nat_eq_self)

lemma thread_ok_mono: "thread_ok n k h \<Longrightarrow> thread_ok (n + 1) k h"
  by (simp add: thread_ok_def)

lemma world_ok_set: "thread_world_ok n w \<Longrightarrow> thread_ok n k h \<Longrightarrow> thread_world_ok n (set_thread k h w)"
  by (simp add: thread_world_ok_def)

lemma world_ok_frame [simp]:
  "thread_world_ok n (w\<lparr>tw_kernel := q\<rparr>) = thread_world_ok n w" "thread_world_ok n (w\<lparr>t_current := c\<rparr>) = thread_world_ok n w"
  by (simp_all add: thread_world_ok_def)

lemma world_ok_thread: "thread_world_ok n w \<Longrightarrow> thread_ok n k (thread_of k w)"
  by (simp add: thread_world_ok_def)

lemma resume_ok:
  assumes "thread_world_ok n w"
  shows "thread_world_ok n (snd (OSResumeThread L k w))"
proof -
  let ?h = "thread_of k w"
  have h: "thread_ok n k ?h" using assms by (rule world_ok_thread)
  have "sint (suspendCount ?h - 1) = sint (suspendCount ?h) - 1" if "0 <s suspendCount ?h"
    using that by (intro sint_s32_pred) (simp add: word_sless_alt)
  with h have dec: "thread_ok n k (?h\<lparr>suspendCount := suspendCount ?h - 1\<rparr>)" if "0 <s suspendCount ?h"
    using that by (simp add: thread_ok_def word_sless_alt)
  define h1 where "h1 = (if 0 <s suspendCount ?h then ?h\<lparr>suspendCount := suspendCount ?h - 1\<rparr> else ?h)"
  have h1: "thread_ok n k h1" using h dec by (simp add: h1_def)
  have "thread_ok n k (h1\<lparr>th_started := True\<rparr>)" if "th_created h1" using h1 that by (simp add: thread_ok_def)
  then show ?thesis
    using assms h1 unfolding OSResumeThread_def Let_def h1_def [symmetric]
    by (auto intro!: world_ok_set split: prod.split)
qed

lemma thread_step_ok:
  assumes "thread_world_ok n w" "1 \<le> n" "n < 2147483647"
  shows "thread_world_ok (n + 1) (thread_step L c w)"
proof -
  have up: "thread_world_ok (n + 1) w" using assms(1) thread_ok_mono by (simp add: thread_world_ok_def)
  have keep: "thread_world_ok (n + 1) (set_thread k h w')"
    if "thread_ok (n + 1) k (thread_of k w) \<Longrightarrow> thread_ok (n + 1) k h" "thread_world_ok (n + 1) w'" for k h w'
    using that world_ok_set world_ok_thread [OF up] by blast
  have susp: "thread_ok (n + 1) k ((thread_of k w)\<lparr>suspendCount := suspendCount (thread_of k w) + 1\<rparr>)" for k
    using world_ok_thread [OF assms(1), of k] assms(3) by (simp add: thread_ok_def sint_s32_Suc)
  show ?thesis
  proof (cases c)
    case (TCreate k e ac av st sz p a)
    have "thread_ok (n + 1) k' (thread_of k' (snd (OSCreateThread L k e ac av st sz p a w)))" for k'
      using world_ok_thread [OF up, of k'] assms(2)
      by (cases "k' = k") (simp_all add: create_thread_of thread_ok_def affinity_ok)
    with up TCreate show ?thesis by (simp add: thread_world_ok_def create_thread_of)
  next
    case (TResume k)
    then show ?thesis using resume_ok [OF up] by simp
  next
    case (TSetSpecific t i v)
    then show ?thesis using up by (auto simp: thread_world_ok_def OSSetThreadSpecific_def)
  qed (use susp up in \<open>auto simp: thread_op_defs Let_def case_prod_unfold split: option.split
      intro!: keep intro: world_ok_set simp: thread_ok_def and_7_le\<close>)
qed

lemma thread_run_ok:
  "thread_world_ok n w \<Longrightarrow> 1 \<le> n \<Longrightarrow> n + int (length cs) < 2147483647 \<Longrightarrow>
     thread_world_ok (n + int (length cs)) (thread_run L cs w)"
proof (induction cs arbitrary: n w)
  case (Cons c cs)
  then have "thread_world_ok (n + 1 + int (length cs)) (thread_run L cs (thread_step L c w))"
    using thread_step_ok [of n w L c] by (intro Cons.IH) simp_all
  then show ?case by (simp add: algebra_simps)
qed simp

lemma start_world_ok: "thread_world_ok 1 (thread_start_world q)"
  by (simp add: thread_world_ok_def thread_start_world_def thread_of_def thread_ok_def thread_init_def)

section \<open>Starting\<close>

text \<open>How a sequence of calls moves the suspend count of thread \<open>k\<close>, and the calls that leave its life alone.\<close>

definition resumes :: "ptr \<Rightarrow> thread_call list \<Rightarrow> nat" where
  "resumes k cs = count_list cs (TResume k)"

definition suspends :: "ptr \<Rightarrow> thread_call list \<Rightarrow> nat" where
  "suspends k cs = count_list cs (TSuspend k)"

definition no_birth :: "'k thread_api \<Rightarrow> ptr \<Rightarrow> thread_call \<Rightarrow> bool" where
  "no_birth L k c \<longleftrightarrow>
     (case c of TCreate k' _ _ _ _ _ _ _ \<Rightarrow> k' \<noteq> k | TJoin k' _ \<Rightarrow> k' \<noteq> k | TCurrent _ \<Rightarrow> th_main L \<noteq> k | _ \<Rightarrow> True)"

lemma life_frame:
  assumes "no_birth L k c" "c \<noteq> TResume k" "c \<noteq> TSuspend k"
  shows "th_created (thread_of k (thread_step L c w)) = th_created (thread_of k w)
    \<and> th_started (thread_of k (thread_step L c w)) = th_started (thread_of k w)
    \<and> suspendCount (thread_of k (thread_step L c w)) = suspendCount (thread_of k w)"
  using assms
  by (cases c) (auto simp: no_birth_def create_thread_of thread_op_defs Let_def case_prod_unfold split: option.split)

text \<open>While no prefix resumes more often than it suspends, the thread waits, one above the difference.\<close>

lemma waiting_thread:
  assumes w: "th_created (thread_of k w)" "\<not> th_started (thread_of k w)" "suspendCount (thread_of k w) = 1"
    and ok: "\<forall>q. fst (th_start L k q)" "\<forall>c \<in> set cs. no_birth L k c" "length cs < 2147483646"
    and pre: "\<forall>i < length cs. resumes k (take i cs) \<le> suspends k (take i cs)"
  shows "th_created (thread_of k (thread_run L cs w))
    \<and> (th_started (thread_of k (thread_run L cs w)) \<longleftrightarrow> suspends k cs < resumes k cs)
    \<and> sint (suspendCount (thread_of k (thread_run L cs w))) = 1 + int (suspends k cs) - int (resumes k cs)"
  using ok(2,3) pre
proof (induction cs rule: rev_induct)
  case Nil
  then show ?case using w by (simp add: resumes_def suspends_def)
next
  case (snoc c cs)
  have "resumes k (take i cs) \<le> suspends k (take i cs)" if "i < length cs" for i
    using snoc.prems(3) [rule_format, of i] that by simp
  with snoc have IH: "th_created (thread_of k (thread_run L cs w))"
    "th_started (thread_of k (thread_run L cs w)) \<longleftrightarrow> suspends k cs < resumes k cs"
    "sint (suspendCount (thread_of k (thread_run L cs w))) = 1 + int (suspends k cs) - int (resumes k cs)"
    by simp_all
  let ?w = "thread_run L cs w"
  have le: "resumes k cs \<le> suspends k cs" using snoc.prems(3) [rule_format, of "length cs"] by simp
  have bound: "suspends k cs \<le> length cs" by (simp add: suspends_def count_le_length)
  have no: "no_birth L k c" using snoc.prems(1) by simp
  have run: "thread_run L (cs @ [c]) w = thread_step L c ?w" by (simp add: thread_run_append)
  consider "c = TResume k" | "c = TSuspend k" | "c \<noteq> TResume k" "c \<noteq> TSuspend k" by blast
  then show ?case
  proof cases
    case 1
    then have cnt: "resumes k (cs @ [c]) = Suc (resumes k cs)" "suspends k (cs @ [c]) = suspends k cs"
      by (simp_all add: resumes_def suspends_def)
    have pos: "0 <s suspendCount (thread_of k ?w)" using IH(3) le by (simp add: word_sless_alt)
    have dec: "sint (suspendCount (thread_of k ?w) - 1) = int (suspends k cs) - int (resumes k cs)"
      using IH(3) le by (subst sint_s32_pred) simp_all
    then have zero: "suspendCount (thread_of k ?w) - 1 = 0 \<longleftrightarrow> resumes k cs = suspends k cs"
      by (metis diff_eq_eq add_0 of_nat_eq_iff sint_0_iff)
    show ?thesis
      using 1 IH le cnt pos dec zero ok(1) unfolding run
      by (auto simp: OSResumeThread_def Let_def case_prod_unfold)
  next
    case 2
    then have cnt: "resumes k (cs @ [c]) = resumes k cs" "suspends k (cs @ [c]) = Suc (suspends k cs)"
      by (simp_all add: resumes_def suspends_def)
    have "sint (suspendCount (thread_of k ?w) + 1) = sint (suspendCount (thread_of k ?w)) + 1"
      using IH(3) bound snoc.prems(2) by (intro sint_s32_Suc) simp
    then show ?thesis using 2 IH le cnt unfolding run by (simp add: OSSuspendThread_def Let_def)
  next
    case 3
    then have cnt: "resumes k (cs @ [c]) = resumes k cs" "suspends k (cs @ [c]) = suspends k cs"
      by (simp_all add: resumes_def suspends_def)
    show ?thesis using life_frame [OF no 3, of ?w] IH cnt unfolding run by simp
  qed
qed

section \<open>Properties\<close>

text \<open>
  C37: over every sequence of thread calls and thread events (fewer than 2147483645 of them) the host's view of every
  thread stays well formed: a started thread was created, the suspend count is never negative and never wraps, the
  affinity mask names existing cores only, the thread knows its own guest address, and each thread keeps its 16 private
  slots.
\<close>

theorem thread_run_well_formed:
  assumes "length cs < 2147483645"
  shows "(\<forall>k. let h = thread_of k (thread_run L cs (thread_start_world q)) in
            (th_started h \<longrightarrow> th_created h) \<and> 0 \<le> sint (suspendCount h) \<and> sint (suspendCount h) \<le> 1 + int (length cs)
            \<and> cafeAffinity h \<le> 7 \<and> (th_guest h = null \<or> th_guest h = k))
    \<and> (\<forall>t. length (t_specific (thread_run L cs (thread_start_world q)) t) = 16)"
  using thread_run_ok [OF start_world_ok, where cs = cs and L = L] assms
  by (simp add: thread_world_ok_def thread_ok_def Let_def)

definition easy_api :: "unit thread_api" where
  "easy_api = \<lparr>th_create = (\<lambda>p s r c q. (True, q)), th_start = (\<lambda>p q. (True, q)), th_wait = (\<lambda>p q. (True, q)),
     th_close = (\<lambda>p q. q), th_priority = (\<lambda>q. None), th_core = (\<lambda>q. 3), th_main = 99\<rparr>"

theorem thread_run_well_formed_witness:
  "0 \<le> sint (suspendCount (thread_of 4 (thread_run easy_api [TCreate 4 1 0 0 0 64 16 15, TResume 4, TResume 4] (thread_start_world ()))))"
  using thread_run_well_formed [of "[TCreate 4 1 0 0 0 64 16 15, TResume 4, TResume 4]" easy_api "()"]
  by (simp only: Let_def) simp

text \<open>
  C14: a thread is created suspended and starts at exactly the right call. Through any interleaving of calls that neither
  create nor join it again, it has not started while it was resumed no more often than it was suspended, and it starts
  in the first OSResumeThread beyond that; each OSResumeThread returns the count it found.
\<close>

theorem OSResumeThread_starts:
  assumes "OSCreateThread L k e ac av st sz p a w0 = (1, w)" "\<forall>q. fst (th_start L k q)"
    and "\<forall>c \<in> set cs. no_birth L k c" "length cs < 2147483646"
    and "\<forall>i < length cs. resumes k (take i cs) \<le> suspends k (take i cs)"
  shows "(th_started (thread_of k (thread_run L cs w)) \<longleftrightarrow> suspends k cs < resumes k cs)
    \<and> sint (suspendCount (thread_of k (thread_run L cs w))) = 1 + int (suspends k cs) - int (resumes k cs)
    \<and> fst (OSResumeThread L k (thread_run L cs w)) = suspendCount (thread_of k (thread_run L cs w))"
proof -
  have "th_created (thread_of k w)" "\<not> th_started (thread_of k w)" "suspendCount (thread_of k w) = 1"
    using create_thread_of(1) [of k L e ac av st sz p a w0] assms(1) by simp_all
  from waiting_thread [OF this assms(2-)] show ?thesis by (simp add: OSResumeThread_def Let_def case_prod_unfold)
qed

theorem OSResumeThread_starts_witness:
  "th_started (thread_of 4 (thread_run easy_api [TSuspend 4, TResume 4, TCancel 7, TResume 4]
     (snd (OSCreateThread easy_api 4 1 0 0 0 64 16 15 (thread_start_world ())))))"
proof -
  have created: "OSCreateThread easy_api 4 1 0 0 0 64 16 15 (thread_start_world ())
    = (1, snd (OSCreateThread easy_api 4 1 0 0 0 64 16 15 (thread_start_world ())))"
    by (simp add: OSCreateThread_def Let_def easy_api_def)
  have "\<forall>q. fst (th_start easy_api 4 q)" by (simp add: easy_api_def)
  moreover have "\<forall>c \<in> set [TSuspend 4, TResume 4, TCancel 7, TResume 4]. no_birth easy_api 4 c" by (simp add: no_birth_def)
  moreover have "\<forall>i < length [TSuspend 4, TResume 4, TCancel 7, TResume 4].
      resumes 4 (take i [TSuspend 4, TResume 4, TCancel 7, TResume 4])
      \<le> suspends 4 (take i [TSuspend 4, TResume 4, TCancel 7, TResume 4])"
    by (simp add: All_less_Suc resumes_def suspends_def)
  ultimately show ?thesis
    using OSResumeThread_starts [OF created, of "[TSuspend 4, TResume 4, TCancel 7, TResume 4]"]
    by (simp add: resumes_def suspends_def)
qed

text \<open>
  OSIsThreadTerminated answers the opposite of its name. It says 1 for a thread that was just created and waits for
  its first OSResumeThread, and 0 once the thread runs, when its function has returned, and after it was joined.
\<close>

theorem OSIsThreadTerminated_inverted:
  assumes "OSCreateThread L k e ac av st sz p a w0 = (1, w)" "fst (th_start L k (tw_kernel w))"
  shows "fst (OSIsThreadTerminated k w) = 1
    \<and> fst (OSIsThreadTerminated k (snd (OSResumeThread L k w))) = 0
    \<and> fst (OSIsThreadTerminated k (snd (trampoline_leave k r (snd (OSResumeThread L k w))))) = 0
    \<and> fst (OSIsThreadTerminated k (snd (OSJoinThread L k m (snd (trampoline_leave k r (snd (OSResumeThread L k w))))))) = 0"
proof -
  have w: "th_created (thread_of k w)" "\<not> th_started (thread_of k w)" "suspendCount (thread_of k w) = 1"
    using create_thread_of(1) [of k L e ac av st sz p a w0] assms(1) by simp_all
  have pos: "0 <s (1 :: s32)" by (simp add: word_sless_alt)
  define w1 where "w1 = snd (OSResumeThread L k w)"
  have w1: "th_created (thread_of k w1)" "th_started (thread_of k w1)"
    using w pos assms(2) by (simp_all add: w1_def OSResumeThread_def Let_def case_prod_unfold)
  have "th_created (thread_of k (snd (trampoline_leave k r w1)))" "th_started (thread_of k (snd (trampoline_leave k r w1)))"
    using w1 by (simp_all add: trampoline_leave_def Let_def)
  with w w1 show ?thesis
    unfolding w1_def [symmetric]
    by (simp add: OSIsThreadTerminated_def OSJoinThread_def OSJoinThread_enter_def OSJoinThread_leave_def Let_def case_prod_unfold)
qed

theorem OSIsThreadTerminated_inverted_witness:
  "fst (OSIsThreadTerminated 4 (snd (OSCreateThread easy_api 4 1 0 0 0 64 16 15 (thread_start_world ())))) = 1"
proof -
  have "OSCreateThread easy_api 4 1 0 0 0 64 16 15 (thread_start_world ())
    = (1, snd (OSCreateThread easy_api 4 1 0 0 0 64 16 15 (thread_start_world ())))"
    by (simp add: OSCreateThread_def Let_def easy_api_def)
  from OSIsThreadTerminated_inverted [OF this] show ?thesis by (simp add: easy_api_def)
qed

text \<open>
  A cancelled thread structure stays cancelled. OSCreateThread does not reset the request: after any calls that leave
  the cancel states alone, a thread created in structure \<open>k\<close> ends at its first OSTestThreadCancel exactly when
  OSCancelThread was ever called for \<open>k\<close>, even if that was for a thread that has long been joined.
\<close>

theorem OSCreateThread_keeps_cancel:
  assumes "k \<noteq> null" "\<forall>t s. TCancelState t s \<notin> set cs"
  shows "OSTestThreadCancel t
      (trampoline_enter t k (snd (OSCreateThread L k e ac av st sz p a (thread_run L cs (thread_start_world q)))))
    \<longleftrightarrow> TCancel k \<in> set cs"
proof -
  have step: "cancelRequested (thread_of k (thread_step L c w)) = (c = TCancel k \<or> cancelRequested (thread_of k w))
      \<and> cancelEnabled (thread_of k (thread_step L c w)) = cancelEnabled (thread_of k w)"
    if "\<forall>t s. c \<noteq> TCancelState t s" for c and w :: "'a thread_world"
    using that assms(1)
    by (cases c; cases "thread_of k w")
      (auto simp: OSCreateThread_def thread_op_defs Let_def case_prod_unfold split: option.split)
  have "cancelRequested (thread_of k (thread_run L cs w)) = (TCancel k \<in> set cs \<or> cancelRequested (thread_of k w))
      \<and> cancelEnabled (thread_of k (thread_run L cs w)) = cancelEnabled (thread_of k w)" for w
    using assms(2)
  proof (induction cs arbitrary: w)
    case (Cons c cs)
    then show ?case using step [of c w] by auto
  qed simp
  then show ?thesis
    by (simp add: OSTestThreadCancel_def trampoline_enter_def create_thread_of)
      (simp add: thread_start_world_def thread_of_def thread_init_def)
qed

theorem OSCreateThread_keeps_cancel_witness:
  "OSTestThreadCancel 5 (trampoline_enter 5 4 (snd (OSCreateThread easy_api 4 1 0 0 0 64 16 7
     (thread_run easy_api [TCreate 4 1 0 0 0 64 16 7, TCancel 4, TResume 4, TJoin 4 0] (thread_start_world ())))))"
  using OSCreateThread_keeps_cancel [of 4 "[TCreate 4 1 0 0 0 64 16 7, TCancel 4, TResume 4, TJoin 4 0]" 5 easy_api 1 0 0 0 64 16 7 "()"]
  by (simp del: thread_run.simps)

end
