(* ===== verification/Alarm.thy ===== *)
theory Alarm
  imports Prelude
begin

text \<open>
  The alarms of \<^verbatim>\<open>source/alarm.cpp\<close>: one table of alarms and one scheduler thread. \<^verbatim>\<open>std::map\<close> is the list of its
  entries in the order of their addresses. What \<^verbatim>\<open>OSGetTime\<close> returns is an argument (\<open>now\<close>); times are 64-bit words
  compared as signed numbers. The functions hold the lock throughout, so each is one step; the scheduler's loop is
  two kinds of steps, a pass over the table with the lock held, and the calls of the callbacks it collected, one by
  one and without the lock, so that other threads run between them. A new pass is made only when no callback is left.
\<close>

section \<open>State\<close>

record host_alarm =
  ha_due :: s64
  ha_interval :: s64
  ha_callback :: ptr
  ha_userData :: ptr
  ha_group :: u32
  ha_armed :: bool

definition alarm_init :: host_alarm where
  "alarm_init = \<lparr>ha_due = 0, ha_interval = 0, ha_callback = null, ha_userData = null, ha_group = 0, ha_armed = False\<rparr>"

type_synonym alarm_map = "(ptr \<times> host_alarm) list"

fun am_put :: "ptr \<Rightarrow> host_alarm \<Rightarrow> alarm_map \<Rightarrow> alarm_map" where
  "am_put k h [] = [(k, h)]"
| "am_put k h ((k', h') # es) =
     (if k < k' then (k, h) # (k', h') # es else if k = k' then (k, h) # es else (k', h') # am_put k h es)"

text \<open>\<open>al_pending\<close> are the callbacks a pass has collected and that are still to be called, \<open>al_fired\<close> those called so far.\<close>

record alarm_world =
  al_map :: alarm_map
  al_started :: bool
  al_inited :: bool
  al_pending :: "(ptr \<times> ptr) list"
  al_fired :: "(ptr \<times> ptr) list"

definition alarm_start :: alarm_world where
  "alarm_start = \<lparr>al_map = [], al_started = False, al_inited = False, al_pending = [], al_fired = []\<rparr>"

definition alarm_find :: "ptr \<Rightarrow> alarm_world \<Rightarrow> host_alarm option" where
  "alarm_find a w = map_of (al_map w) a"

text \<open>\<^verbatim>\<open>g_alarms[alarm]\<close>, the entry that is created when there is none, and a write to it.\<close>

definition alarm_entry :: "ptr \<Rightarrow> alarm_world \<Rightarrow> host_alarm" where
  "alarm_entry a w = (case alarm_find a w of Some h \<Rightarrow> h | None \<Rightarrow> alarm_init)"

definition alarm_put :: "ptr \<Rightarrow> host_alarm \<Rightarrow> alarm_world \<Rightarrow> alarm_world" where
  "alarm_put a h w = w\<lparr>al_map := am_put a h (al_map w)\<rparr>"

definition alarm_ensureInit :: "alarm_world \<Rightarrow> alarm_world" where
  "alarm_ensureInit w = w\<lparr>al_inited := True\<rparr>"

text \<open>\<open>ok\<close>: the thread could be created and started.\<close>

definition ensureThread :: "bool \<Rightarrow> alarm_world \<Rightarrow> alarm_world" where
  "ensureThread ok w = (if al_started w then w else w\<lparr>al_started := ok\<rparr>)"

section \<open>The scheduler\<close>

fun sched_pass :: "s64 \<Rightarrow> alarm_map \<Rightarrow> s64 \<Rightarrow> (ptr \<times> ptr) list \<times> alarm_map \<times> s64" where
  "sched_pass now [] nearest = ([], [], nearest)"
| "sched_pass now ((k, h) # es) nearest =
     (if \<not> ha_armed h then (case sched_pass now es nearest of (due, es', n) \<Rightarrow> (due, (k, h) # es', n))
      else
        (let h1 = (if ha_due h \<le>s now then
                     (if 0 <s ha_interval h then h\<lparr>ha_due := now + ha_interval h\<rparr> else h\<lparr>ha_armed := False\<rparr>)
                   else h);
             nearest1 = (if ha_armed h1 \<and> (nearest = 0 \<or> ha_due h1 <s nearest) then ha_due h1 else nearest);
             (due, es', n) = sched_pass now es nearest1
         in ((if ha_due h \<le>s now then (k, ha_callback h) # due else due), (k, h1) # es', n)))"

definition sched_collect :: "s64 \<Rightarrow> alarm_world \<Rightarrow> alarm_world" where
  "sched_collect now w =
     (if al_started w \<and> al_pending w = [] then
        (case sched_pass now (al_map w) 0 of (due, m, _) \<Rightarrow> w\<lparr>al_map := m, al_pending := due\<rparr>)
      else w)"

definition sched_fire :: "alarm_world \<Rightarrow> alarm_world" where
  "sched_fire w =
     (case al_pending w of
        [] \<Rightarrow> w
      | (k, f) # ds \<Rightarrow> w\<lparr>al_pending := ds, al_fired := (if f \<noteq> null then al_fired w @ [(k, f)] else al_fired w)\<rparr>)"

text \<open>
  What the scheduler waits for when nothing was due: \<open>None\<close> to be woken, \<open>Some ns\<close> at most that long. \<open>now\<close> is read anew.
\<close>

definition sched_wait :: "s64 \<Rightarrow> s64 \<Rightarrow> u64 option" where
  "sched_wait nearest now =
     (if nearest = 0 then None
      else (let delta = nearest - now in Some (if 0 <s delta then delta * 32000 div 1989 else 0)))"

section \<open>The functions\<close>

definition OSCreateAlarm :: "ptr \<Rightarrow> alarm_world \<Rightarrow> alarm_world" where
  "OSCreateAlarm alarm w = (if alarm = null then w else alarm_put alarm alarm_init (alarm_ensureInit w))"

definition OSCreateAlarmEx :: "ptr \<Rightarrow> ptr \<Rightarrow> alarm_world \<Rightarrow> alarm_world" where
  "OSCreateAlarmEx alarm name w = OSCreateAlarm alarm w"

definition OSSetAlarm :: "bool \<Rightarrow> s64 \<Rightarrow> ptr \<Rightarrow> s64 \<Rightarrow> ptr \<Rightarrow> alarm_world \<Rightarrow> s32 \<times> alarm_world" where
  "OSSetAlarm ok now alarm time callback w =
     (if alarm = null then (0, w)
      else
        (let w1 = alarm_ensureInit w;
             h = alarm_entry alarm w1;
             w2 = alarm_put alarm (h\<lparr>ha_due := now + time, ha_interval := 0, ha_callback := callback, ha_armed := True\<rparr>) w1
         in (1, ensureThread ok w2)))"

definition OSSetPeriodicAlarm ::
  "bool \<Rightarrow> s64 \<Rightarrow> ptr \<Rightarrow> s64 \<Rightarrow> s64 \<Rightarrow> ptr \<Rightarrow> alarm_world \<Rightarrow> s32 \<times> alarm_world" where
  "OSSetPeriodicAlarm ok now alarm start interval callback w =
     (if alarm = null then (0, w)
      else
        (let w1 = alarm_ensureInit w;
             h = alarm_entry alarm w1;
             w2 = alarm_put alarm
               (h\<lparr>ha_due := now + start, ha_interval := interval, ha_callback := callback, ha_armed := True\<rparr>) w1
         in (1, ensureThread ok w2)))"

definition OSCancelAlarm :: "ptr \<Rightarrow> alarm_world \<Rightarrow> s32 \<times> alarm_world" where
  "OSCancelAlarm alarm w =
     (if alarm = null then (0, w)
      else
        (let w1 = alarm_ensureInit w
         in case alarm_find alarm w1 of
              None \<Rightarrow> (0, w1)
            | Some h \<Rightarrow> (if ha_armed h then 1 else 0, alarm_put alarm (h\<lparr>ha_armed := False\<rparr>) w1)))"

definition OSCancelAlarms :: "u32 \<Rightarrow> alarm_world \<Rightarrow> alarm_world" where
  "OSCancelAlarms g w =
     (let w1 = alarm_ensureInit w
      in w1\<lparr>al_map := map (\<lambda>(k, h). (k, if ha_group h = g then h\<lparr>ha_armed := False\<rparr> else h)) (al_map w1)\<rparr>)"

definition OSSetAlarmTag :: "ptr \<Rightarrow> u32 \<Rightarrow> alarm_world \<Rightarrow> alarm_world" where
  "OSSetAlarmTag alarm g w =
     (if alarm = null then w
      else (let w1 = alarm_ensureInit w in alarm_put alarm ((alarm_entry alarm w1)\<lparr>ha_group := g\<rparr>) w1))"

definition OSSetAlarmUserData :: "ptr \<Rightarrow> ptr \<Rightarrow> alarm_world \<Rightarrow> alarm_world" where
  "OSSetAlarmUserData alarm data w =
     (if alarm = null then w
      else (let w1 = alarm_ensureInit w in alarm_put alarm ((alarm_entry alarm w1)\<lparr>ha_userData := data\<rparr>) w1))"

definition OSGetAlarmUserData :: "ptr \<Rightarrow> alarm_world \<Rightarrow> ptr \<times> alarm_world" where
  "OSGetAlarmUserData alarm w =
     (if alarm = null then (null, w)
      else
        (let w1 = alarm_ensureInit w
         in (case alarm_find alarm w1 of Some h \<Rightarrow> ha_userData h | None \<Rightarrow> null, w1)))"

text \<open>
  The shutdown waits for the scheduler, which first calls what it has collected; then nothing is left.
\<close>

definition fire_pending :: "(ptr \<times> ptr) list \<Rightarrow> (ptr \<times> ptr) list" where
  "fire_pending ds = filter (\<lambda>(k, f). f \<noteq> null) ds"

definition coreinitNxAlarmShutdown :: "alarm_world \<Rightarrow> alarm_world" where
  "coreinitNxAlarmShutdown w =
     (if \<not> al_inited w then w
      else
        (let w1 = (if al_started w
                   then w\<lparr>al_started := False, al_pending := [], al_fired := al_fired w @ fire_pending (al_pending w)\<rparr>
                   else w)
         in w1\<lparr>al_map := []\<rparr>))"

section \<open>Interleavings\<close>

datatype alarm_ev =
    ACreate ptr | ASet bool s64 ptr s64 ptr | ASetPeriodic bool s64 ptr s64 s64 ptr
  | ACancel ptr | ACancelGroup u32 | ATag ptr u32 | AUser ptr ptr
  | APass s64 | AFire

fun alarm_step :: "alarm_ev \<Rightarrow> alarm_world \<Rightarrow> alarm_world" where
  "alarm_step (ACreate a) w = OSCreateAlarm a w"
| "alarm_step (ASet ok now a t f) w = snd (OSSetAlarm ok now a t f w)"
| "alarm_step (ASetPeriodic ok now a t i f) w = snd (OSSetPeriodicAlarm ok now a t i f w)"
| "alarm_step (ACancel a) w = snd (OSCancelAlarm a w)"
| "alarm_step (ACancelGroup g) w = OSCancelAlarms g w"
| "alarm_step (ATag a g) w = OSSetAlarmTag a g w"
| "alarm_step (AUser a d) w = OSSetAlarmUserData a d w"
| "alarm_step (APass now) w = sched_collect now w"
| "alarm_step AFire w = sched_fire w"

primrec alarm_run :: "alarm_ev list \<Rightarrow> alarm_world \<Rightarrow> alarm_world" where
  "alarm_run [] w = w"
| "alarm_run (e # es) w = alarm_run es (alarm_step e w)"

text \<open>
  \<^verbatim>\<open>OSWaitAlarm\<close> polls, and sleeps for a millisecond between two polls: \<open>naps\<close> is what the other threads do in each nap.
  \<open>None\<close>: it is still waiting when the last one is over.
\<close>

fun OSWaitAlarm :: "ptr \<Rightarrow> alarm_ev list list \<Rightarrow> alarm_world \<Rightarrow> (s32 \<times> alarm_world) option" where
  "OSWaitAlarm alarm naps w =
     (if alarm = null then Some (0, w)
      else
        (let w1 = alarm_ensureInit w;
             armed = (case alarm_find alarm w1 of Some h \<Rightarrow> ha_armed h | None \<Rightarrow> False)
         in if \<not> armed then Some (1, w1)
            else case naps of [] \<Rightarrow> None | es # naps' \<Rightarrow> OSWaitAlarm alarm naps' (alarm_run es w1)))"

declare OSWaitAlarm.simps [simp del]

end
