(* ===== verification/AlarmSched.thy ===== *)
theory AlarmSched
  imports Alarm
begin

text \<open>
  The properties of \<^verbatim>\<open>source/alarm.cpp\<close>: what one pass of the scheduler does, and what the callbacks and the waiting
  threads see over every interleaving of the scheduler with other threads.
\<close>

section \<open>The table\<close>

definition am_sorted :: "alarm_map \<Rightarrow> bool" where
  "am_sorted m \<longleftrightarrow> sorted_wrt (<) (map fst m)"

lemma am_put_keys: "set (map fst (am_put k h m)) = insert k (set (map fst m))"
  by (induction k h m rule: am_put.induct) auto

lemma am_put_sorted: "am_sorted m \<Longrightarrow> am_sorted (am_put k h m)"
proof (induction k h m rule: am_put.induct)
  case (2 k h k' h' es)
  then show ?case
    using am_put_keys [of k h es] by (auto simp: am_sorted_def)
qed (simp add: am_sorted_def)

lemma am_put_find: "am_sorted m \<Longrightarrow> map_of (am_put k h m) = (map_of m)(k \<mapsto> h)"
proof (induction k h m rule: am_put.induct)
  case (2 k h k' h' es)
  then have "am_sorted es" "\<forall>x \<in> set (map fst es). k' < x" by (auto simp: am_sorted_def)
  with 2 show ?case by (auto simp: fun_eq_iff)
qed simp

text \<open>What a pass does to one alarm.\<close>

definition is_due :: "s64 \<Rightarrow> host_alarm \<Rightarrow> bool" where
  "is_due now h \<longleftrightarrow> ha_armed h \<and> ha_due h \<le>s now"

definition advance :: "s64 \<Rightarrow> host_alarm \<Rightarrow> host_alarm" where
  "advance now h =
     (if is_due now h then
        (if 0 <s ha_interval h then h\<lparr>ha_due := now + ha_interval h\<rparr> else h\<lparr>ha_armed := False\<rparr>)
      else h)"

fun next_due :: "host_alarm list \<Rightarrow> s64 \<Rightarrow> s64" where
  "next_due [] n = n"
| "next_due (h # hs) n = next_due hs (if ha_armed h \<and> (n = 0 \<or> ha_due h <s n) then ha_due h else n)"

lemma sched_pass_eq:
  "sched_pass now m n =
     (map (\<lambda>(k, h). (k, ha_callback h)) (filter (\<lambda>(k, h). is_due now h) m),
      map (\<lambda>(k, h). (k, advance now h)) m,
      next_due (map (advance now \<circ> snd) m) n)"
  by (induction now m n rule: sched_pass.induct)
    (auto simp: is_due_def advance_def Let_def split: prod.split)

lemma next_due_min:
  assumes "\<forall>h \<in> set hs. ha_armed h \<longrightarrow> ha_due h \<noteq> 0"
  shows "next_due hs n = n \<and> (\<forall>h \<in> set hs. ha_armed h \<longrightarrow> n \<noteq> 0 \<and> n \<le>s ha_due h)
    \<or> (\<exists>h \<in> set hs. ha_armed h \<and> next_due hs n = ha_due h) \<and> (n = 0 \<or> next_due hs n <s n)
      \<and> (\<forall>h \<in> set hs. ha_armed h \<longrightarrow> next_due hs n \<le>s ha_due h)"
  using assms
proof (induction hs n rule: next_due.induct)
  case (2 h hs n)
  define n' where "n' = (if ha_armed h \<and> (n = 0 \<or> ha_due h <s n) then ha_due h else n)"
  have IH: "next_due hs n' = n' \<and> (\<forall>h \<in> set hs. ha_armed h \<longrightarrow> n' \<noteq> 0 \<and> n' \<le>s ha_due h)
    \<or> (\<exists>h \<in> set hs. ha_armed h \<and> next_due hs n' = ha_due h) \<and> (n' = 0 \<or> next_due hs n' <s n')
      \<and> (\<forall>h \<in> set hs. ha_armed h \<longrightarrow> next_due hs n' \<le>s ha_due h)"
    using 2 unfolding n'_def by simp
  have nx: "next_due (h # hs) n = next_due hs n'" by (simp add: n'_def)
  have h0: "ha_armed h \<longrightarrow> ha_due h \<noteq> 0" using 2(2) by simp
  show ?case
    unfolding nx using IH h0
    by (auto simp: n'_def word_sless_alt word_sle_eq split: if_splits)
qed simp

text \<open>A wait never lasts longer than until the time it is for, whatever the multiplication in 64 bits makes of it.\<close>

lemma sched_wait_bound:
  "case sched_wait nearest now of
     None \<Rightarrow> nearest = 0
   | Some ns \<Rightarrow> if 0 <s nearest - now then unat ns * 1989 \<le> unat (nearest - now) * 32000 else ns = 0"
proof -
  define d where "d = nearest - now"
  have "unat (d * 32000 div 1989) * 1989 \<le> unat (d * 32000)" by (simp add: unat_div)
  also have "\<dots> \<le> unat d * 32000" by (simp add: unat_word_ariths mod_less_eq_dividend)
  finally show ?thesis unfolding d_def by (simp add: sched_wait_def Let_def)
qed

section \<open>One alarm over time\<close>

definition alarm_ok :: "alarm_world \<Rightarrow> bool" where
  "alarm_ok w \<longleftrightarrow> am_sorted (al_map w)"

text \<open>How often a callback of \<open>a\<close> was collected: the calls made and those still to be made.\<close>

definition shots :: "ptr \<Rightarrow> alarm_world \<Rightarrow> nat" where
  "shots a w = length (filter (\<lambda>(k, f). k = a \<and> f \<noteq> null) (al_fired w @ al_pending w))"

lemma alarm_sorted: "alarm_ok w \<Longrightarrow> am_sorted (al_map w)"
  by (simp add: alarm_ok_def)

lemma alarm_find_put [simp]:
  "alarm_ok w \<Longrightarrow> alarm_find a (alarm_put k h w) = (if a = k then Some h else alarm_find a w)"
  by (simp add: alarm_ok_def alarm_find_def alarm_put_def am_put_find)

lemma alarm_ok_put [simp]: "alarm_ok w \<Longrightarrow> alarm_ok (alarm_put k h w)"
  by (simp add: alarm_ok_def alarm_put_def am_put_sorted)

lemma alarm_put_frame [simp]:
  "al_pending (alarm_put k h w) = al_pending w" "al_fired (alarm_put k h w) = al_fired w"
  "al_started (alarm_put k h w) = al_started w"
  by (simp_all add: alarm_put_def)

lemma alarm_init_frame [simp]:
  "al_pending (alarm_ensureInit w) = al_pending w" "al_fired (alarm_ensureInit w) = al_fired w"
  "al_started (alarm_ensureInit w) = al_started w" "alarm_find a (alarm_ensureInit w) = alarm_find a w"
  "alarm_entry a (alarm_ensureInit w) = alarm_entry a w" "alarm_ok (alarm_ensureInit w) = alarm_ok w"
  "al_map (alarm_ensureInit w) = al_map w"
  by (simp_all add: alarm_ensureInit_def alarm_find_def alarm_entry_def alarm_ok_def)

lemma ensureThread_frame [simp]:
  "al_pending (ensureThread b w) = al_pending w" "al_fired (ensureThread b w) = al_fired w"
  "al_started (ensureThread b w) = (al_started w \<or> b)" "alarm_find a (ensureThread b w) = alarm_find a w"
  "alarm_ok (ensureThread b w) = alarm_ok w"
  by (simp_all add: ensureThread_def alarm_find_def alarm_ok_def)

lemma alarm_update_frame [simp]:
  "alarm_ok (w\<lparr>al_map := m\<rparr>) = am_sorted m" "alarm_ok (w\<lparr>al_pending := ds\<rparr>) = alarm_ok w"
  "alarm_ok (w\<lparr>al_fired := fs\<rparr>) = alarm_ok w" "alarm_find a (w\<lparr>al_map := m\<rparr>) = map_of m a"
  "alarm_find a (w\<lparr>al_pending := ds\<rparr>) = alarm_find a w" "alarm_find a (w\<lparr>al_fired := fs\<rparr>) = alarm_find a w"
  by (simp_all add: alarm_ok_def alarm_find_def)

lemmas alarm_op_defs = OSCreateAlarm_def OSSetAlarm_def OSSetPeriodicAlarm_def OSCancelAlarm_def OSCancelAlarms_def
  OSSetAlarmTag_def OSSetAlarmUserData_def

lemma am_sorted_map: "am_sorted (map (\<lambda>(k, h). (k, f h)) m) = am_sorted m"
  by (simp add: am_sorted_def comp_def case_prod_unfold)

lemma map_of_advance: "map_of (map (\<lambda>(k, h). (k, f h)) m) a = map_option f (map_of m a)"
  by (induction m) auto

lemma alarm_step_ok: "alarm_ok w \<Longrightarrow> alarm_ok (alarm_step e w)"
proof (cases e)
  case (ACancelGroup g)
  have "map (\<lambda>(k, h). (k, if ha_group h = g then h\<lparr>ha_armed := False\<rparr> else h)) = map (\<lambda>(k, h). (k, (\<lambda>h. if ha_group h = g then h\<lparr>ha_armed := False\<rparr> else h) h))"
    by simp
  then show "alarm_ok w \<Longrightarrow> alarm_ok (alarm_step e w)"
    using am_sorted_map [of "\<lambda>h. if ha_group h = g then h\<lparr>ha_armed := False\<rparr> else h" "al_map w"] ACancelGroup
    by (simp add: OSCancelAlarms_def alarm_ok_def)
qed (auto simp: alarm_op_defs sched_collect_def sched_fire_def sched_pass_eq Let_def am_sorted_map alarm_sorted split: option.split list.split)

lemma alarm_run_ok: "alarm_ok w \<Longrightarrow> alarm_ok (alarm_run es w)"
  by (induction es arbitrary: w) (simp_all add: alarm_step_ok)

lemma alarm_start_ok: "alarm_ok alarm_start"
  by (simp add: alarm_ok_def alarm_start_def am_sorted_def)

lemma alarm_run_append: "alarm_run (xs @ ys) w = alarm_run ys (alarm_run xs w)"
  by (induction xs arbitrary: w) simp_all

lemma step_started: "al_started w \<Longrightarrow> al_started (alarm_step e w)"
  by (cases e) (auto simp: alarm_op_defs sched_collect_def sched_fire_def Let_def split: option.split list.split prod.split)

lemma run_started: "al_started w \<Longrightarrow> al_started (alarm_run es w)"
  by (induction es arbitrary: w) (simp_all add: step_started)

text \<open>The events that do not concern alarm \<open>a\<close>: no set, create or cancel of it, and no cancel of a whole group.\<close>

definition apart :: "ptr \<Rightarrow> alarm_ev \<Rightarrow> bool" where
  "apart a e \<longleftrightarrow>
     (case e of ACreate k \<Rightarrow> k \<noteq> a | ASet _ _ k _ _ \<Rightarrow> k \<noteq> a | ASetPeriodic _ _ k _ _ _ \<Rightarrow> k \<noteq> a | ACancel k \<Rightarrow> k \<noteq> a
      | ACancelGroup _ \<Rightarrow> False | _ \<Rightarrow> True)"

definition same_life :: "host_alarm \<Rightarrow> host_alarm \<Rightarrow> bool" where
  "same_life h h' \<longleftrightarrow> ha_armed h' = ha_armed h \<and> ha_due h' = ha_due h \<and> ha_interval h' = ha_interval h
     \<and> ha_callback h' = ha_callback h"

lemma shots_eq: "al_fired w' = al_fired w \<Longrightarrow> al_pending w' = al_pending w \<Longrightarrow> shots a w' = shots a w"
  by (simp add: shots_def)

lemma shots_fire: "shots a (sched_fire w) = shots a w"
  by (auto simp: shots_def sched_fire_def split: list.split)

lemma step_apart:
  assumes "alarm_ok w" "apart a e" "\<forall>n. e \<noteq> APass n" "alarm_find a w = Some h"
  shows "shots a (alarm_step e w) = shots a w \<and> (\<exists>h'. alarm_find a (alarm_step e w) = Some h' \<and> same_life h h')"
proof (cases e)
  case AFire
  then show ?thesis using shots_fire assms by (auto simp: sched_fire_def same_life_def split: list.split)
qed (use assms in \<open>auto simp: apart_def alarm_op_defs Let_def same_life_def alarm_entry_def intro!: shots_eq split: option.split\<close>)

lemma shots_pass:
  assumes "alarm_ok w" "al_started w" "al_pending w = []"
  shows "shots a (sched_collect n w) = shots a w
      + (case alarm_find a w of Some h \<Rightarrow> if is_due n h \<and> ha_callback h \<noteq> null then 1 else 0 | None \<Rightarrow> 0)"
    "alarm_find a (sched_collect n w) = map_option (advance n) (alarm_find a w)"
proof -
  have "length (filter (\<lambda>(k, f). k = a \<and> f \<noteq> null) (map (\<lambda>(k, h). (k, ha_callback h)) (filter (\<lambda>(k, h). is_due n h) m)))
      = (case map_of m a of Some h \<Rightarrow> if is_due n h \<and> ha_callback h \<noteq> null then 1 else 0 | None \<Rightarrow> 0)"
    if "am_sorted m" for m
    using that
  proof (induction m)
    case (Cons e m)
    obtain k h where e: "e = (k, h)" by (cases e)
    have s: "am_sorted m" "\<forall>x \<in> set (map fst m). k < x" using Cons.prems e by (auto simp: am_sorted_def)
    then have "k = a \<Longrightarrow> map_of m a = None" by (auto simp: map_of_eq_None_iff)
    with Cons.IH [OF s(1)] e show ?case by auto
  qed simp
  then show "shots a (sched_collect n w) = shots a w
      + (case alarm_find a w of Some h \<Rightarrow> if is_due n h \<and> ha_callback h \<noteq> null then 1 else 0 | None \<Rightarrow> 0)"
    using assms by (simp add: shots_def sched_collect_def sched_pass_eq alarm_ok_def alarm_find_def)
  show "alarm_find a (sched_collect n w) = map_option (advance n) (alarm_find a w)"
    using assms by (simp add: sched_collect_def sched_pass_eq map_of_advance alarm_find_def)
qed

lemma collect_idle: "\<not> (al_started w \<and> al_pending w = []) \<Longrightarrow> sched_collect n w = w"
  by (auto simp: sched_collect_def)

section \<open>Properties\<close>

text \<open>
  One pass of the scheduler, in every state that calls and passes can reach: it collects each alarm that is armed and
  due exactly once, in the order of the addresses, moves a periodic one to one interval after the pass, disarms a one-shot
  one and leaves all others alone. The time it waits for is the earliest of the alarms that stay armed, none when there is
  none, and the wait never lasts longer than until then.
\<close>

theorem sched_pass_exact:
  assumes "w = alarm_run es alarm_start"
    and "sched_pass now (al_map w) 0 = (due, m, nearest)"
  shows "sorted_wrt (<) (map fst due)
    \<and> (\<forall>k f. (k, f) \<in> set due \<longleftrightarrow> (\<exists>h. alarm_find k w = Some h \<and> ha_armed h \<and> ha_due h \<le>s now \<and> f = ha_callback h))
    \<and> (\<forall>k. map_of m k = map_option (\<lambda>h. if ha_armed h \<and> ha_due h \<le>s now then
               (if 0 <s ha_interval h then h\<lparr>ha_due := now + ha_interval h\<rparr> else h\<lparr>ha_armed := False\<rparr>) else h) (alarm_find k w))
    \<and> ((\<forall>(k, h) \<in> set m. ha_armed h \<longrightarrow> ha_due h \<noteq> 0) \<longrightarrow>
         (\<forall>(k, h) \<in> set m. ha_armed h \<longrightarrow> nearest \<noteq> 0 \<and> nearest \<le>s ha_due h)
         \<and> (nearest \<noteq> 0 \<longrightarrow> (\<exists>(k, h) \<in> set m. ha_armed h \<and> ha_due h = nearest)))
    \<and> (case sched_wait nearest now' of
         None \<Rightarrow> nearest = 0
       | Some ns \<Rightarrow> if 0 <s nearest - now' then unat ns * 1989 \<le> unat (nearest - now') * 32000 else ns = 0)"
proof -
  have ok: "am_sorted (al_map w)" using alarm_run_ok [OF alarm_start_ok] assms(1) by (simp add: alarm_ok_def)
  have due: "due = map (\<lambda>(k, h). (k, ha_callback h)) (filter (\<lambda>(k, h). is_due now h) (al_map w))"
    and m: "m = map (\<lambda>(k, h). (k, advance now h)) (al_map w)"
    and "nearest = next_due (map (advance now \<circ> snd) (al_map w)) 0"
    using assms(2) by (simp_all add: sched_pass_eq)
  then have nearest: "nearest = next_due (map snd m) 0" by (simp add: comp_def case_prod_unfold)
  have dist: "distinct (map fst (al_map w))" using ok by (simp add: am_sorted_def strict_sorted_iff)
  have "map fst due = map fst (filter (\<lambda>(k, h). is_due now h) (al_map w))" by (simp add: due comp_def case_prod_unfold)
  moreover have "sorted_wrt (\<lambda>x y. fst x < fst y) (filter (\<lambda>(k, h). is_due now h) (al_map w))"
    using ok by (simp add: am_sorted_def sorted_wrt_map sorted_wrt_filter)
  ultimately have sorted: "sorted_wrt (<) (map fst due)" by (simp add: sorted_wrt_map)
  have members: "(k, f) \<in> set due \<longleftrightarrow> (\<exists>h. alarm_find k w = Some h \<and> ha_armed h \<and> ha_due h \<le>s now \<and> f = ha_callback h)" for k f
    using dist by (auto simp: due alarm_find_def is_due_def image_iff)
  have after: "map_of m k = map_option (advance now) (alarm_find k w)" for k
    by (simp add: m map_of_advance alarm_find_def)
  have wait: "(\<forall>(k, h) \<in> set m. ha_armed h \<longrightarrow> nearest \<noteq> 0 \<and> nearest \<le>s ha_due h)
         \<and> (nearest \<noteq> 0 \<longrightarrow> (\<exists>(k, h) \<in> set m. ha_armed h \<and> ha_due h = nearest))"
    if "\<forall>(k, h) \<in> set m. ha_armed h \<longrightarrow> ha_due h \<noteq> 0"
    using next_due_min [of "map snd m" 0] that unfolding nearest by fastforce
  show ?thesis using sorted members after wait sched_wait_bound unfolding advance_def is_due_def by auto
qed

definition alarm_demo :: "alarm_ev list" where
  "alarm_demo = [ASet True 100 8 50 77, ASetPeriodic True 100 16 10 20 78]"

theorem sched_pass_exact_witness:
  "sched_pass 120 (al_map (alarm_run alarm_demo alarm_start)) 0
     = ([(16, 78)], al_map (alarm_run (alarm_demo @ [APass 120]) alarm_start), 140)
   \<and> sorted_wrt (<) (map fst [(16 :: ptr, 78 :: ptr)])"
proof -
  have p: "sched_pass 120 (al_map (alarm_run alarm_demo alarm_start)) 0
     = ([(16, 78)], al_map (alarm_run (alarm_demo @ [APass 120]) alarm_start), 140)"
    by (simp add: alarm_demo_def alarm_start_def OSSetAlarm_def OSSetPeriodicAlarm_def alarm_put_def alarm_ensureInit_def
        ensureThread_def alarm_entry_def alarm_find_def alarm_init_def sched_collect_def Let_def word_sle_eq word_sless_alt)
  from sched_pass_exact [OF refl p] p show ?thesis by simp
qed

text \<open>The state of a one-shot alarm between its setting and whatever comes: armed and not shot, or shot once.\<close>

lemma one_shot_run:
  assumes "alarm_ok w" "al_started w" "\<forall>e \<in> set es. apart a e"
    and "alarm_find a w = Some h" "ha_armed h" "ha_due h = d" "ha_interval h = 0" "ha_callback h = f" "shots a w = c"
  shows "(\<exists>h. alarm_find a (alarm_run es w) = Some h \<and> ha_armed h \<and> ha_due h = d \<and> ha_interval h = 0 \<and> ha_callback h = f
        \<and> shots a (alarm_run es w) = c
        \<and> (\<forall>xs n ys. es = xs @ APass n # ys \<longrightarrow> al_pending (alarm_run xs w) = [] \<longrightarrow> n <s d))
    \<or> (\<exists>h. alarm_find a (alarm_run es w) = Some h \<and> \<not> ha_armed h \<and> shots a (alarm_run es w) = c + (if f = null then 0 else 1)
        \<and> (\<exists>n. APass n \<in> set es \<and> d \<le>s n))"
  using assms(3)
proof (induction es rule: rev_induct)
  case Nil
  then show ?case using assms by auto
next
  case (snoc e es)
  let ?w = "alarm_run es w"
  have ok: "alarm_ok ?w" and st: "al_started ?w" using alarm_run_ok [OF assms(1)] run_started [OF assms(2)] by blast+
  have run: "alarm_run (es @ [e]) w = alarm_step e ?w" by (simp add: alarm_run_append)
  have e: "apart a e" using snoc.prems by simp
  from snoc.IH snoc.prems consider
    (armed) h where "alarm_find a ?w = Some h" "ha_armed h" "ha_due h = d" "ha_interval h = 0" "ha_callback h = f"
      "shots a ?w = c" "\<forall>xs n ys. es = xs @ APass n # ys \<longrightarrow> al_pending (alarm_run xs w) = [] \<longrightarrow> n <s d"
  | (shot) h where "alarm_find a ?w = Some h" "\<not> ha_armed h" "shots a ?w = c + (if f = null then 0 else 1)" "\<exists>n. APass n \<in> set es \<and> d \<le>s n"
    by auto
  then show ?case
  proof cases
    case (armed h)
    show ?thesis
    proof (cases "\<exists>n. e = APass n")
      case True
      then obtain n where n: "e = APass n" by blast
      show ?thesis
      proof (cases "al_pending ?w = [] \<and> d \<le>s n")
        case True
        then have "is_due n h" using armed by (simp add: is_due_def)
        with True armed shots_pass [OF ok st, of a n] n show ?thesis
          unfolding run by (intro disjI2) (auto simp: advance_def)
      next
        case False
        have same: "alarm_find a (sched_collect n ?w) = Some h \<and> shots a (sched_collect n ?w) = c"
        proof (cases "al_pending ?w = []")
          case True
          then have "\<not> is_due n h" using False armed by (simp add: is_due_def)
          then show ?thesis using shots_pass [OF ok st True] armed by (simp add: advance_def)
        next
          case False
          then show ?thesis using armed by (simp add: collect_idle)
        qed
        have "n' <s d" if "es @ [e] = xs @ APass n' # ys" "al_pending (alarm_run xs w) = []" for xs n' ys
        proof (cases ys rule: rev_cases)
          case Nil
          then have "es = xs" "n' = n" using that(1) n by simp_all
          then show ?thesis using False that(2) by (simp add: word_sless_alt word_sle_eq)
        next
          case (snoc zs z)
          with that have "es = xs @ APass n' # zs" by simp
          with that(2) armed(7) show ?thesis by blast
        qed
        with same armed n show ?thesis unfolding run by (intro disjI1) auto
      qed
    next
      case False
      then have "\<forall>n. e \<noteq> APass n" by blast
      from step_apart [OF ok e this armed(1)] obtain h' where
        h': "shots a (alarm_step e ?w) = c" "alarm_find a (alarm_step e ?w) = Some h'" "same_life h h'"
        using armed(6) by auto
      have "n' <s d" if "es @ [e] = xs @ APass n' # ys" "al_pending (alarm_run xs w) = []" for xs n' ys
        using that False armed(7) by (cases ys rule: rev_cases) auto
      with h' armed show ?thesis unfolding run by (intro disjI1) (auto simp: same_life_def)
    qed
  next
    case (shot h)
    have "\<exists>h'. alarm_find a (alarm_step e ?w) = Some h' \<and> \<not> ha_armed h' \<and> shots a (alarm_step e ?w) = c + (if f = null then 0 else 1)"
    proof (cases "\<exists>n. e = APass n")
      case True
      then obtain n where n: "e = APass n" by blast
      show ?thesis
      proof (cases "al_pending ?w = []")
        case True
        then show ?thesis using shots_pass [OF ok st True, of a n] shot n by (simp add: is_due_def advance_def)
      qed (use shot n in \<open>simp add: collect_idle\<close>)
    next
      case False
      then have "\<forall>n. e \<noteq> APass n" by blast
      from step_apart [OF ok e this shot(1)] shot show ?thesis by (auto simp: same_life_def)
    qed
    with shot(4) show ?thesis unfolding run by (intro disjI2) auto
  qed
qed

text \<open>
  C4: a one-shot alarm rings exactly once. After OSSetAlarm with its scheduler running, and through every interleaving of
  passes, callbacks and calls on other alarms, its callback is collected at most once; not at all while the passes come
  before the time the delay ends; and once a pass comes at or after that time, exactly once. The delay is relative to the
  time of the call.
\<close>

theorem OSSetAlarm_rings_once:
  assumes "w = alarm_run es0 alarm_start" "a \<noteq> null" "f \<noteq> null" "OSSetAlarm True now a t f w = (r, w1)"
    and "\<forall>e \<in> set es. apart a e"
  shows "r = 1 \<and> shots a (alarm_run es w1) \<le> shots a w + 1
    \<and> ((\<forall>n. APass n \<in> set es \<longrightarrow> n <s now + t) \<longrightarrow> shots a (alarm_run es w1) = shots a w)
    \<and> (\<forall>xs n ys. es = xs @ APass n # ys \<longrightarrow> al_pending (alarm_run xs w1) = [] \<longrightarrow> now + t \<le>s n
         \<longrightarrow> shots a (alarm_run es w1) = shots a w + 1)"
proof -
  have ok: "alarm_ok w" using alarm_run_ok [OF alarm_start_ok] assms(1) by simp
  define h where "h = (alarm_entry a w)\<lparr>ha_due := now + t, ha_interval := 0, ha_callback := f, ha_armed := True\<rparr>"
  have w1: "r = 1" "w1 = ensureThread True (alarm_put a h (alarm_ensureInit w))"
    using assms(2,4) by (auto simp: OSSetAlarm_def Let_def h_def)
  then have "alarm_ok w1" "al_started w1" "alarm_find a w1 = Some h" "shots a w1 = shots a w"
    using ok by (simp_all add: shots_def)
  from one_shot_run [OF this(1,2) assms(5) this(3) _ _ _ _ this(4), of "now + t" f] assms(3)
  consider (armed) "shots a (alarm_run es w1) = shots a w"
      "\<forall>xs n ys. es = xs @ APass n # ys \<longrightarrow> al_pending (alarm_run xs w1) = [] \<longrightarrow> n <s now + t"
    | (shot) n where "shots a (alarm_run es w1) = Suc (shots a w)" "APass n \<in> set es" "now + t \<le>s n"
    by (auto simp: h_def)
  then show ?thesis
  proof cases
    case armed
    have "False" if "es = xs @ APass n # ys" "al_pending (alarm_run xs w1) = []" "now + t \<le>s n" for xs n ys
      using armed(2) that by (metis word_sless_alt word_sle_eq linorder_not_less)
    then show ?thesis using armed(1) w1(1) by auto
  next
    case (shot n)
    then show ?thesis using w1(1) by (auto simp: word_sless_alt word_sle_eq)
  qed
qed

theorem OSSetAlarm_rings_once_witness:
  "shots 8 (alarm_run [APass 149, APass 150, APass 160, AFire] (snd (OSSetAlarm True 100 8 50 77 (alarm_run [] alarm_start)))) = 1"
proof -
  have "OSSetAlarm True 100 8 50 77 (alarm_run [] alarm_start) = (1, snd (OSSetAlarm True 100 8 50 77 (alarm_run [] alarm_start)))"
    by (simp add: OSSetAlarm_def Let_def)
  note once = OSSetAlarm_rings_once [OF refl _ _ this, of "[APass 149, APass 150, APass 160, AFire]"]
  have idle: "al_pending (alarm_run [APass 149] (snd (OSSetAlarm True 100 8 50 77 (alarm_run [] alarm_start)))) = []"
    by (simp add: alarm_start_def OSSetAlarm_def alarm_put_def alarm_ensureInit_def ensureThread_def alarm_entry_def
        alarm_find_def alarm_init_def sched_collect_def Let_def word_sle_eq)
  have "shots 8 (alarm_run [] alarm_start) = 0" by (simp add: shots_def alarm_start_def)
  moreover from once have "\<forall>xs n ys. [APass 149, APass 150, APass 160, AFire] = xs @ APass n # ys \<longrightarrow>
      al_pending (alarm_run xs (snd (OSSetAlarm True 100 8 50 77 (alarm_run [] alarm_start)))) = [] \<longrightarrow> 100 + 50 \<le>s n \<longrightarrow>
      shots 8 (alarm_run [APass 149, APass 150, APass 160, AFire] (snd (OSSetAlarm True 100 8 50 77 (alarm_run [] alarm_start))))
        = shots 8 (alarm_run [] alarm_start) + 1"
    by (simp only: apart_def) simp
  from this [rule_format, of "[APass 149]" 150 "[APass 160, AFire]"] idle
  have "shots 8 (alarm_run [APass 149, APass 150, APass 160, AFire] (snd (OSSetAlarm True 100 8 50 77 (alarm_run [] alarm_start))))
        = shots 8 (alarm_run [] alarm_start) + 1" by (simp only: append.simps) (simp add: word_sle_eq)
  ultimately show ?thesis by simp
qed

section \<open>Cancelling\<close>

text \<open>The event sets the alarm \<open>a\<close>.\<close>

fun sets_alarm :: "ptr \<Rightarrow> alarm_ev \<Rightarrow> bool" where
  "sets_alarm a (ASet ok now k t f) \<longleftrightarrow> k = a"
| "sets_alarm a (ASetPeriodic ok now k t i f) \<longleftrightarrow> k = a"
| "sets_alarm a e \<longleftrightarrow> False"

lemma group_disarms:
  "alarm_find a (OSCancelAlarms g w) = Some h' \<Longrightarrow> \<forall>h. alarm_find a w = Some h \<longrightarrow> \<not> ha_armed h \<Longrightarrow> \<not> ha_armed h'"
  by (auto simp: OSCancelAlarms_def alarm_find_def Let_def map_of_map alarm_ensureInit_def split: if_splits)

lemma idle_run:
  assumes "alarm_ok w" "\<forall>h. alarm_find a w = Some h \<longrightarrow> \<not> ha_armed h" "\<forall>e \<in> set es. \<not> sets_alarm a e"
  shows "shots a (alarm_run es w) = shots a w \<and> (\<forall>h. alarm_find a (alarm_run es w) = Some h \<longrightarrow> \<not> ha_armed h)"
  using assms
proof (induction es arbitrary: w)
  case (Cons e es)
  have "shots a (alarm_step e w) = shots a w \<and> (\<forall>h. alarm_find a (alarm_step e w) = Some h \<longrightarrow> \<not> ha_armed h)"
  proof (cases e)
    case (APass n)
    show ?thesis
    proof (cases "al_started w \<and> al_pending w = []")
      case True
      then show ?thesis
        using shots_pass [OF Cons.prems(1), of a n] Cons.prems(2) APass
        by (auto simp: is_due_def advance_def split: option.split)
    qed (use APass Cons.prems in \<open>simp add: collect_idle\<close>)
  next
    case AFire
    then show ?thesis using shots_fire Cons.prems(2) by (auto simp: sched_fire_def split: list.split)
  next
    case (ACancelGroup g)
    then show ?thesis
      using group_disarms [of a g w] Cons.prems(2) by (auto simp: OSCancelAlarms_def Let_def intro!: shots_eq)
  qed (use Cons.prems in \<open>auto simp: alarm_op_defs Let_def alarm_entry_def alarm_init_def intro!: shots_eq split: option.split\<close>)
  with Cons.IH [OF alarm_step_ok [OF Cons.prems(1), of e]] Cons.prems(3) show ?case by simp
qed simp

lemma fires_pending:
  "al_pending w = ds @ (a, f) # es \<Longrightarrow> f \<noteq> null \<Longrightarrow>
     \<exists>fs. al_fired (alarm_run (replicate (Suc (length ds)) AFire) w) = al_fired w @ fs @ [(a, f)]"
proof (induction ds arbitrary: w)
  case Nil
  then show ?case by (simp add: sched_fire_def)
next
  case (Cons d ds)
  obtain k g where d: "d = (k, g)" by (cases d)
  have "al_pending (sched_fire w) = ds @ (a, f) # es" using Cons.prems d by (simp add: sched_fire_def)
  from Cons.IH [OF this Cons.prems(2)] obtain fs where
    "al_fired (alarm_run (replicate (Suc (length ds)) AFire) (sched_fire w)) = al_fired (sched_fire w) @ fs @ [(a, f)]" by blast
  moreover have "\<exists>gs. al_fired (sched_fire w) = al_fired w @ gs" using Cons.prems d by (simp add: sched_fire_def)
  moreover have "alarm_run (replicate (Suc (length (d # ds))) AFire) w = alarm_run (replicate (Suc (length ds)) AFire) (sched_fire w)"
    by simp
  ultimately show ?case by (metis append.assoc)
qed

text \<open>
  A pass that ran just before the cancel may have taken the alarm's callback out of the table already, to call it without
  the lock. The cancel does not reach that one: it is still called after \<^verbatim>\<open>OSCancelAlarm\<close> has returned, for a periodic
  alarm even after the answer 1. The README says that cancelled alarms never fire.
\<close>

lemma cancel_world:
  assumes "alarm_ok w" "a \<noteq> null" "OSCancelAlarm a w = (r, w1)"
  shows "alarm_ok w1" "\<forall>h. alarm_find a w1 = Some h \<longrightarrow> \<not> ha_armed h" "shots a w1 = shots a w"
    "al_pending w1 = al_pending w" "al_fired w1 = al_fired w" "r = 1 \<longleftrightarrow> (\<exists>h. alarm_find a w = Some h \<and> ha_armed h)"
  using assms by (auto simp: OSCancelAlarm_def Let_def shots_def split: option.splits if_splits)

theorem OSCancelAlarm_in_flight:
  assumes "w = alarm_run es0 alarm_start" "a \<noteq> null" "OSCancelAlarm a w = (r, w1)"
    and "al_pending w = ds @ (a, f) # ds'" "f \<noteq> null"
  shows "\<exists>fs. al_fired (alarm_run (replicate (Suc (length ds)) AFire) w1) = al_fired w @ fs @ [(a, f)]"
proof -
  have "alarm_ok w" using alarm_run_ok [OF alarm_start_ok] assms(1) by simp
  note w1 = cancel_world [OF this assms(2,3)]
  show ?thesis using fires_pending [of w1 ds a f ds'] w1(4,5) assms(4,5) by simp
qed

lemma OSCancelAlarm_in_flight_demo:
  "fst (OSCancelAlarm 16 (alarm_run (alarm_demo @ [APass 120]) alarm_start)) = 1
   \<and> (\<exists>fs. al_fired (alarm_run [AFire] (snd (OSCancelAlarm 16 (alarm_run (alarm_demo @ [APass 120]) alarm_start)))) = fs @ [(16, 78)])"
proof -
  let ?w = "alarm_run (alarm_demo @ [APass 120]) alarm_start"
  have w: "al_pending ?w = [] @ (16, 78) # []" "fst (OSCancelAlarm 16 ?w) = 1"
    by (simp_all add: alarm_demo_def alarm_start_def OSSetAlarm_def OSSetPeriodicAlarm_def alarm_put_def alarm_ensureInit_def
        ensureThread_def alarm_entry_def alarm_find_def alarm_init_def sched_collect_def Let_def word_sle_eq word_sless_alt
        OSCancelAlarm_def)
  have "OSCancelAlarm 16 ?w = (fst (OSCancelAlarm 16 ?w), snd (OSCancelAlarm 16 ?w))" by simp
  from OSCancelAlarm_in_flight [OF refl _ this w(1)] w(2) show ?thesis by auto
qed

lemma fired_step: "\<exists>gs. al_fired (alarm_step e w) = al_fired w @ gs \<and> (\<forall>(k, f) \<in> set gs. f \<noteq> null)"
  by (cases e)
    (auto simp: alarm_op_defs alarm_put_def alarm_ensureInit_def ensureThread_def sched_collect_def sched_fire_def
      fire_pending_def Let_def split: option.split list.split prod.split)

lemma fired_run: "\<exists>gs. al_fired (alarm_run es w) = al_fired w @ gs \<and> (\<forall>(k, f) \<in> set gs. f \<noteq> null)"
proof (induction es arbitrary: w)
  case (Cons e es)
  obtain gs where "al_fired (alarm_step e w) = al_fired w @ gs" "\<forall>(k, f) \<in> set gs. f \<noteq> null"
    using fired_step by blast
  moreover obtain gs' where "al_fired (alarm_run es (alarm_step e w)) = al_fired (alarm_step e w) @ gs'"
    "\<forall>(k, f) \<in> set gs'. f \<noteq> null"
    using Cons.IH by blast
  ultimately show ?case by (intro exI [of _ "gs @ gs'"]) auto
qed simp

text \<open>
  C38: A cancelled alarm stops: whatever time passes and whatever calls any threads make, no pass collects its callback
  again until it is set again; the call says whether the alarm was armed; and when no pass had already taken
  the callback out to call it, the callback is never called after OSCancelAlarm, for a one-shot or a periodic alarm.
\<close>

theorem OSCancelAlarm_stops:
  assumes "w = alarm_run es0 alarm_start" "a \<noteq> null" "OSCancelAlarm a w = (r, w1)" "\<forall>e \<in> set es. \<not> sets_alarm a e"
  shows "shots a (alarm_run es w1) = shots a w
    \<and> (r = 1 \<longleftrightarrow> (\<exists>h. alarm_find a w = Some h \<and> ha_armed h))
    \<and> (a \<notin> fst ` set (al_pending w) \<longrightarrow>
         filter (\<lambda>(k, f). k = a) (al_fired (alarm_run es w1)) = filter (\<lambda>(k, f). k = a) (al_fired w))"
proof -
  have "alarm_ok w" using alarm_run_ok [OF alarm_start_ok] assms(1) by simp
  note w1 = cancel_world [OF this assms(2,3)]
  have same: "shots a (alarm_run es w1) = shots a w" using idle_run [OF w1(1,2) assms(4)] w1(3) by simp
  obtain gs where gs: "al_fired (alarm_run es w1) = al_fired w @ gs" "\<forall>(k, f) \<in> set gs. f \<noteq> null"
    using fired_run [of es w1] w1(5) by auto
  have "filter (\<lambda>(k, f). k = a) gs = []" if "a \<notin> fst ` set (al_pending w)"
  proof -
    have "shots a w = length (filter (\<lambda>(k, f). k = a \<and> f \<noteq> null) (al_fired w))"
      using that by (force simp: shots_def filter_empty_conv)
    moreover have "length (filter (\<lambda>(k, f). k = a \<and> f \<noteq> null) (al_fired w @ gs)) \<le> shots a (alarm_run es w1)"
      by (simp add: shots_def gs(1))
    ultimately have "filter (\<lambda>(k, f). k = a \<and> f \<noteq> null) gs = []" using same by simp
    then show ?thesis using gs(2) by (auto simp: filter_empty_conv)
  qed
  with gs(1) same w1(6) show ?thesis by simp
qed

text \<open>The periodic alarm of the demo, which has rung once, is cancelled; a later pass past its next time finds nothing.\<close>

theorem OSCancelAlarm_stops_witness:
  "let w = alarm_run (alarm_demo @ [APass 120, AFire]) alarm_start in
   filter (\<lambda>(k, f). k = 16) (al_fired w) = [(16, 78)] \<and> fst (OSCancelAlarm 16 w) = 1 \<and>
   filter (\<lambda>(k, f). k = 16) (al_fired (alarm_run [APass 100000, AFire, AFire] (snd (OSCancelAlarm 16 w)))) = [(16, 78)]"
proof -
  define w where "w = alarm_run (alarm_demo @ [APass 120, AFire]) alarm_start"
  have w: "al_pending w = []" "al_fired w = [(16, 78)]" "fst (OSCancelAlarm 16 w) = 1"
    by (simp_all add: w_def alarm_demo_def alarm_start_def OSSetAlarm_def OSSetPeriodicAlarm_def alarm_put_def alarm_ensureInit_def
        ensureThread_def alarm_entry_def alarm_find_def alarm_init_def sched_collect_def sched_fire_def Let_def word_sle_eq
        word_sless_alt OSCancelAlarm_def)
  have "OSCancelAlarm 16 w = (fst (OSCancelAlarm 16 w), snd (OSCancelAlarm 16 w))" by simp
  from OSCancelAlarm_stops [OF w_def _ this, of "[APass 100000, AFire, AFire]"] w
  show ?thesis by (simp add: w_def [symmetric] Let_def)
qed

section \<open>Waiting\<close>

lemma step_ensureInit: "alarm_step e (alarm_ensureInit w) = alarm_ensureInit (alarm_step e w)"
  by (cases e)
    (auto simp: alarm_op_defs alarm_ensureInit_def ensureThread_def alarm_put_def alarm_entry_def alarm_find_def
      sched_collect_def sched_fire_def Let_def split: option.split list.split prod.split)

lemma run_ensureInit: "alarm_run es (alarm_ensureInit w) = alarm_ensureInit (alarm_run es w)"
  by (induction es arbitrary: w) (simp_all add: step_ensureInit)

lemma wait_step:
  assumes "a \<noteq> null" "alarm_find a w = Some h" "ha_armed h"
  shows "OSWaitAlarm a (es # naps) w = OSWaitAlarm a naps (alarm_ensureInit (alarm_run es w))"
  using assms by (subst OSWaitAlarm.simps) (simp add: run_ensureInit)

lemma wait_done:
  assumes "a \<noteq> null" "\<forall>h. alarm_find a w = Some h \<longrightarrow> \<not> ha_armed h"
  shows "OSWaitAlarm a naps w = Some (1, alarm_ensureInit w)"
  using assms by (subst OSWaitAlarm.simps) (simp split: option.split)

lemma periodic_step:
  assumes "alarm_ok w" "apart a e" "\<exists>h. alarm_find a w = Some h \<and> ha_armed h \<and> 0 <s ha_interval h"
  shows "\<exists>h. alarm_find a (alarm_step e w) = Some h \<and> ha_armed h \<and> 0 <s ha_interval h"
proof (cases "\<exists>n. e = APass n")
  case True
  then obtain n where n: "e = APass n" by blast
  show ?thesis
  proof (cases "al_started w \<and> al_pending w = []")
    case True
    obtain h where h: "alarm_find a w = Some h" "ha_armed h" "0 <s ha_interval h" using assms(3) by blast
    have "alarm_find a (sched_collect n w) = Some (advance n h)" using shots_pass(2) [OF assms(1), of a n] True h by simp
    moreover have "ha_armed (advance n h) \<and> 0 <s ha_interval (advance n h)" using h by (simp add: advance_def)
    ultimately show ?thesis using n by simp
  qed (use n assms in \<open>simp add: collect_idle\<close>)
next
  case False
  with assms step_apart [OF assms(1,2)] show ?thesis by (fastforce simp: same_life_def)
qed

lemma periodic_run:
  "alarm_ok w \<Longrightarrow> \<forall>e \<in> set es. apart a e \<Longrightarrow> \<exists>h. alarm_find a w = Some h \<and> ha_armed h \<and> 0 <s ha_interval h \<Longrightarrow>
     \<exists>h. alarm_find a (alarm_run es w) = Some h \<and> ha_armed h \<and> 0 <s ha_interval h"
  by (induction es arbitrary: w) (simp_all add: periodic_step alarm_step_ok)

text \<open>
  C25: OSWaitAlarm returns. For a one-shot alarm it returns 1 at the latest in the poll after the first pass that comes at
  or after the alarm's time, whatever the other threads do in between, and at once when the alarm is not armed. On a
  periodic alarm, which a pass leaves armed, it does not return, however long it waits, until someone cancels the alarm.
\<close>

theorem OSWaitAlarm_returns:
  assumes "alarm_ok w" "al_started w" "a \<noteq> null" "\<forall>es \<in> set naps. \<forall>e \<in> set es. apart a e"
    and "alarm_find a w = Some h" "ha_armed h"
  shows "(ha_interval h = 0 \<longrightarrow> naps = ns @ (xs @ APass n # ys) # ns' \<longrightarrow>
       al_pending (alarm_run xs (alarm_run (concat ns) w)) = [] \<longrightarrow> ha_due h \<le>s n \<longrightarrow> (\<exists>w'. OSWaitAlarm a naps w = Some (1, w')))
    \<and> (0 <s ha_interval h \<longrightarrow> OSWaitAlarm a naps w = None)"
proof (intro conjI impI)
  assume iv: "ha_interval h = 0" and naps: "naps = ns @ (xs @ APass n # ys) # ns'"
    and idle: "al_pending (alarm_run xs (alarm_run (concat ns) w)) = []" and n: "ha_due h \<le>s n"
  from assms iv idle n show "\<exists>w'. OSWaitAlarm a naps w = Some (1, w')"
    unfolding naps
  proof (induction ns arbitrary: w h)
    case Nil
    let ?es = "xs @ APass n # ys"
    from one_shot_run [OF Nil.prems(1,2) _ Nil.prems(5,6) refl Nil.prems(7) refl refl, of ?es] Nil.prems(4,8,9)
    have "\<forall>h. alarm_find a (alarm_ensureInit (alarm_run ?es w)) = Some h \<longrightarrow> \<not> ha_armed h"
      by (fastforce simp: word_sless_alt word_sle_eq)
    with wait_done [OF Nil.prems(3) this] wait_step [OF Nil.prems(3,5,6)] show ?case by simp
  next
    case (Cons e ns)
    let ?w = "alarm_ensureInit (alarm_run e w)"
    have w: "alarm_ok ?w" "al_started ?w"
      using alarm_run_ok [OF Cons.prems(1)] run_started [OF Cons.prems(2)] by simp_all
    have step: "OSWaitAlarm a ((e # ns) @ (xs @ APass n # ys) # ns') w = OSWaitAlarm a (ns @ (xs @ APass n # ys) # ns') ?w"
      using wait_step [OF Cons.prems(3,5,6)] by simp
    from one_shot_run [OF Cons.prems(1,2) _ Cons.prems(5,6) refl Cons.prems(7) refl refl, of e] Cons.prems(4)
    consider (armed) h' where "alarm_find a ?w = Some h'" "ha_armed h'" "ha_due h' = ha_due h" "ha_interval h' = 0"
      | (shot) "\<forall>h. alarm_find a ?w = Some h \<longrightarrow> \<not> ha_armed h"
      by auto
    then show ?case
    proof cases
      case (armed h')
      have "al_pending (alarm_run xs (alarm_run (concat ns) ?w)) = []"
        using Cons.prems(8) by (simp add: run_ensureInit alarm_run_append)
      from Cons.IH [OF w Cons.prems(3) _ armed(1,2,4) this] armed(3) Cons.prems(4,9) step show ?thesis by simp
    next
      case shot
      from wait_done [OF Cons.prems(3) this] step show ?thesis by simp
    qed
  qed
next
  assume "0 <s ha_interval h"
  with assms(5,6) have "\<exists>h. alarm_find a w = Some h \<and> ha_armed h \<and> 0 <s ha_interval h" by blast
  with assms(1,4) show "OSWaitAlarm a naps w = None"
  proof (induction naps arbitrary: w)
    case Nil
    then show ?case using assms(3) by (subst OSWaitAlarm.simps) auto
  next
    case (Cons e naps)
    then obtain h' where h': "alarm_find a w = Some h'" "ha_armed h'" by blast
    have "OSWaitAlarm a naps (alarm_ensureInit (alarm_run e w)) = None"
      using Cons.IH [of "alarm_ensureInit (alarm_run e w)"] Cons.prems alarm_run_ok [OF Cons.prems(1), of e]
        periodic_run [OF Cons.prems(1), of e a] by simp
    then show ?case using wait_step [OF assms(3) h'] by simp
  qed
qed

theorem OSWaitAlarm_returns_witness:
  "(\<exists>w'. OSWaitAlarm 8 [[AFire], [APass 151]] (alarm_run alarm_demo alarm_start) = Some (1, w'))
   \<and> OSWaitAlarm 16 [[APass 110], [AFire], [APass 140]] (alarm_run alarm_demo alarm_start) = None"
proof -
  let ?w = "alarm_run alarm_demo alarm_start"
  have ok: "alarm_ok ?w" by (rule alarm_run_ok [OF alarm_start_ok])
  have w: "al_started ?w" "\<exists>h. alarm_find 8 ?w = Some h \<and> ha_armed h \<and> ha_interval h = 0 \<and> ha_due h = 150"
    "\<exists>h. alarm_find 16 ?w = Some h \<and> ha_armed h \<and> 0 <s ha_interval h" "al_pending (alarm_run [AFire] ?w) = []"
    by (simp_all add: alarm_demo_def alarm_start_def OSSetAlarm_def OSSetPeriodicAlarm_def alarm_put_def alarm_ensureInit_def
        ensureThread_def alarm_entry_def alarm_find_def alarm_init_def sched_fire_def Let_def word_sle_eq word_sless_alt)
  from w(2,3) obtain h k where h: "alarm_find 8 ?w = Some h" "ha_armed h" "ha_interval h = 0" "ha_due h = 150"
    and k: "alarm_find 16 ?w = Some k" "ha_armed k" "0 <s ha_interval k" by blast
  have a8: "\<forall>es \<in> set [[AFire], [APass 151]]. \<forall>e \<in> set es. apart 8 e"
    and a16: "\<forall>es \<in> set [[APass 110], [AFire], [APass 140]]. \<forall>e \<in> set es. apart 16 e" by (simp_all add: apart_def)
  have "\<exists>w'. OSWaitAlarm 8 [[AFire], [APass 151]] ?w = Some (1, w')"
    using OSWaitAlarm_returns [OF ok w(1) _ a8 h(1,2), of "[[AFire]]" "[]" 151 "[]" "[]"] h(3,4) w(4)
    by (simp add: word_sle_eq)
  moreover have "OSWaitAlarm 16 [[APass 110], [AFire], [APass 140]] ?w = None"
    using OSWaitAlarm_returns [OF ok w(1) _ a16 k(1,2)] k(3) by simp
  ultimately show ?thesis by blast
qed

end
