(* ===== verification/SymbolRegistry.thy ===== *)
theory SymbolRegistry
  imports Prelude
begin

text \<open>
  The table of exported symbols of \<^verbatim>\<open>source/symbol_registry.cpp\<close>, and the interface the dynamic loader has to it. Where
  the linker puts a symbol is an argument, the function \<open>addr\<close>; a null \<^verbatim>\<open>char *\<close> is \<open>None\<close>.
\<close>

datatype ExportKind = Function | Data

record ExportedSymbol =
  es_library :: string
  es_name :: string
  es_kind :: ExportKind

definition export_fn :: "string \<Rightarrow> ExportedSymbol" where
  "export_fn n = \<lparr>es_library = ''coreinit'', es_name = n, es_kind = Function\<rparr>"

definition export_data :: "string \<Rightarrow> ExportedSymbol" where
  "export_data n = \<lparr>es_library = ''coreinit'', es_name = n, es_kind = Data\<rparr>"

definition kExports :: "ExportedSymbol list" where
  "kExports = map export_fn
    [
     ''OSInitMutex'', ''OSInitMutexEx'', ''OSLockMutex'', ''OSUnlockMutex'', ''OSTryLockMutex'', ''OSInitCond'',
     ''OSInitCondEx'', ''OSWaitCond'', ''OSSignalCond'', ''OSGetTime'', ''OSGetSystemTime'', ''OSGetTick'',
     ''OSGetSystemTick'', ''OSSleepTicks'', ''OSCalendarTimeToTicks'', ''OSTicksToCalendarTime'',
     ''OSGetSystemInfo'', ''MEMCreateExpHeapEx'', ''MEMDestroyExpHeap'', ''MEMAllocFromExpHeapEx'',
     ''MEMFreeToExpHeap'', ''MEMGetBaseHeapHandle'', ''MEMCreateFrmHeapEx'', ''MEMAllocFromFrmHeapEx'',
     ''MEMFreeToFrmHeap'', ''FSInit'', ''FSAddClient'', ''FSInitCmdBlock'', ''FSOpenFile'', ''FSReadFile'',
     ''FSCloseFile'', ''OSInitEvent'', ''OSSignalEvent'', ''OSWaitEvent'', ''OSInitSemaphore'', ''OSWaitSemaphore'',
     ''OSSignalSemaphore'', ''OSReport'', ''OSFatal'', ''OSMemoryBarrier'', ''__ghsLock'', ''__ghsUnlock'',
     ''__gh_errno_ptr'', ''__gh_get_errno'', ''__gh_set_errno'', ''__ghs_flock_create'', ''__ghs_flock_file'',
     ''__ghs_funlock_file'', ''UCOpen'', ''UCClose'', ''UCReadSysConfig'', ''UCWriteSysConfig'', ''MCP_Open'',
     ''MCP_Close'', ''MCP_GetSysProdSettings'', ''OSYieldThread'', ''PPCSync'', ''OSCompareAndSwapAtomicEx64'',
     ''OSEnableHomeButtonMenu'', ''OSSetExceptionCallback'', ''ENVGetEnvironmentVariable'', ''OSDriver_Register'',
     ''OSDriver_Deregister'', ''FSOpenFileAsync'', ''FSReadFileWithPosAsync'', ''FSCloseFileAsync'',
     ''__ghs_mtx_init'', ''__ghs_mtx_lock'', ''__ghs_mtx_unlock'', ''MEMFindContainHeap''] @
   map export_data [
     ''MEMAllocFromDefaultHeap'', ''MEMAllocFromDefaultHeapEx'', ''MEMFreeToDefaultHeap'']"

fun find_symbol :: "ExportedSymbol list \<Rightarrow> string \<Rightarrow> string \<Rightarrow> ExportKind \<Rightarrow> string option" where
  "find_symbol [] lib n k = None"
| "find_symbol (e # es) lib n k =
     (if es_kind e = k \<and> es_library e = lib \<and> es_name e = n then Some (es_name e) else find_symbol es lib n k)"

definition findExportOfKind :: "(string \<Rightarrow> ptr) \<Rightarrow> string option \<Rightarrow> string option \<Rightarrow> ExportKind \<Rightarrow> ptr" where
  "findExportOfKind addr lib n k =
     (case (lib, n) of
        (Some l, Some m) \<Rightarrow> (case find_symbol kExports l m k of Some s \<Rightarrow> addr s | None \<Rightarrow> null)
      | _ \<Rightarrow> null)"

definition hasLibrary :: "string option \<Rightarrow> bool" where
  "hasLibrary lib = (case lib of None \<Rightarrow> False | Some l \<Rightarrow> list_ex (\<lambda>e. es_library e = l) kExports)"

definition exportCount :: nat where "exportCount = length kExports"

section \<open>The interface\<close>

text \<open>What the loader relies on: what is found belongs to a library that is there, and is the symbol of that name.\<close>

locale symbol_table =
  fixes has_lib :: "string \<Rightarrow> bool"
    and lookup :: "string \<Rightarrow> string \<Rightarrow> ExportKind \<Rightarrow> string option"
  assumes found_has: "lookup l n k = Some s \<Longrightarrow> has_lib l"
    and found_name: "lookup l n k = Some s \<Longrightarrow> s = n"
begin

lemma missing_library: "\<not> has_lib l \<Longrightarrow> lookup l n k = None"
  using found_has by (cases "lookup l n k") auto

end

lemma find_symbol_Some: "find_symbol es l n k = Some s \<longleftrightarrow> s = n \<and> \<lparr>es_library = l, es_name = n, es_kind = k\<rparr> \<in> set es"
  by (induction es) (auto split: if_splits)

lemma find_symbol_eq:
  "find_symbol es l n k = (if \<lparr>es_library = l, es_name = n, es_kind = k\<rparr> \<in> set es then Some n else None)"
  by (induction es) (auto split: if_splits)

lemma findExportOfKind_eq:
  "findExportOfKind addr (Some l) (Some n) k
     = (if \<lparr>es_library = l, es_name = n, es_kind = k\<rparr> \<in> set kExports then addr n else null)"
  by (simp add: findExportOfKind_def find_symbol_eq)

interpretation registry: symbol_table "\<lambda>l. hasLibrary (Some l)" "find_symbol kExports"
  by unfold_locales (auto simp: find_symbol_Some hasLibrary_def list_ex_iff intro: bexI [rotated])

lemma hasLibrary_iff: "hasLibrary lib \<longleftrightarrow> lib = Some ''coreinit''"
  by (auto simp: hasLibrary_def kExports_def export_fn_def export_data_def split: option.split)

end
