(* ===== verification/DynLoad.thy ===== *)
theory DynLoad
  imports SymbolRegistry
begin

text \<open>
  The dynamic loader of \<^verbatim>\<open>source/dynload.cpp\<close>: names of system libraries to handles with a reference count, and symbols of
  a handle to addresses. A handle is a pointer into the array of modules: \<open>Some i\<close> is the address of element \<open>i\<close>,
  where a pointer before or behind the array has an \<open>i\<close> out of range, and \<open>None\<close> is null; pointers into the middle of
  an element, which no call hands out, are not expressed. What is stored through an out
  parameter is returned: \<open>None\<close> when it is null, and nothing is stored.
\<close>

section \<open>State\<close>

datatype OSDynLoad_Error = OS_DYNLOAD_OK | OS_DYNLOAD_OUT_OF_MEMORY | OS_DYNLOAD_INVALID_MODULE_NAME_PTR
  | OS_DYNLOAD_INVALID_MODULE_NAME | OS_DYNLOAD_INVALID_ACQUIRE_PTR | OS_DYNLOAD_EMPTY_MODULE_NAME
  | OS_DYNLOAD_INVALID_ALLOCATOR_PTR | OS_DYNLOAD_MODULE_NOT_FOUND

datatype OSDynLoad_ExportType = OS_DYNLOAD_EXPORT_FUNC | OS_DYNLOAD_EXPORT_DATA

type_synonym OSDynLoad_Module = "int option"

record LoadedModule =
  lm_name :: string
  lm_refCount :: u32
  lm_used :: bool

abbreviation (input) kMaxModules :: nat where "kMaxModules \<equiv> 16"

record dynload_world =
  g_modules :: "LoadedModule list"
  g_allocFn :: ptr
  g_freeFn :: ptr

definition dynload_start :: dynload_world where
  "dynload_start = \<lparr>g_modules = replicate kMaxModules \<lparr>lm_name = [], lm_refCount = 0, lm_used = False\<rparr>,
     g_allocFn = null, g_freeFn = null\<rparr>"

definition asModule :: "OSDynLoad_Module \<Rightarrow> dynload_world \<Rightarrow> nat option" where
  "asModule m w =
     (case m of
        None \<Rightarrow> None
      | Some i \<Rightarrow>
          if i < 0 \<or> int kMaxModules - 1 < i then None
          else if lm_used (g_modules w ! nat i) then Some (nat i) else None)"

section \<open>Operations\<close>

text \<open>\<^verbatim>\<open>strstr(base, ".rpl")\<close> and the cut there.\<close>

fun cut_rpl :: "string \<Rightarrow> string" where
  "cut_rpl [] = []"
| "cut_rpl (c # cs) = (if take 4 (c # cs) = ''.rpl'' then [] else c # cut_rpl cs)"

definition module_base :: "string \<Rightarrow> string" where
  "module_base name = cut_rpl (snprintf_s 64 name)"

fun find_module :: "(LoadedModule \<Rightarrow> bool) \<Rightarrow> LoadedModule list \<Rightarrow> nat \<Rightarrow> nat option" where
  "find_module P [] i = None"
| "find_module P (m # ms) i = (if P m then Some i else find_module P ms (i + 1))"

definition OSDynLoad_Acquire ::
  "string option \<Rightarrow> ptr \<Rightarrow> dynload_world \<Rightarrow> (OSDynLoad_Error \<times> OSDynLoad_Module option) \<times> dynload_world" where
  "OSDynLoad_Acquire name outModule w =
     (if outModule = null then ((OS_DYNLOAD_INVALID_ACQUIRE_PTR, None), w)
      else case name of
        None \<Rightarrow> ((OS_DYNLOAD_INVALID_MODULE_NAME_PTR, Some None), w)
      | Some nm \<Rightarrow>
          if nm = [] then ((OS_DYNLOAD_EMPTY_MODULE_NAME, Some None), w)
          else
            (let base = module_base nm
             in if \<not> hasLibrary (Some base) then ((OS_DYNLOAD_MODULE_NOT_FOUND, Some None), w)
                else case find_module (\<lambda>m. lm_used m \<and> lm_name m = base) (g_modules w) 0 of
                  Some i \<Rightarrow>
                    (let m = g_modules w ! i
                     in ((OS_DYNLOAD_OK, Some (Some (int i))),
                         w\<lparr>g_modules := (g_modules w)[i := m\<lparr>lm_refCount := lm_refCount m + 1\<rparr>]\<rparr>))
                | None \<Rightarrow>
                    (case find_module (\<lambda>m. \<not> lm_used m) (g_modules w) 0 of
                       Some i \<Rightarrow>
                         ((OS_DYNLOAD_OK, Some (Some (int i))),
                          w\<lparr>g_modules := (g_modules w)[i := \<lparr>lm_name = snprintf_s 64 base, lm_refCount = 1, lm_used = True\<rparr>]\<rparr>)
                     | None \<Rightarrow> ((OS_DYNLOAD_OUT_OF_MEMORY, Some None), w))))"

definition OSDynLoad_FindExport ::
  "(string \<Rightarrow> ptr) \<Rightarrow> OSDynLoad_Module \<Rightarrow> OSDynLoad_ExportType \<Rightarrow> string option \<Rightarrow> ptr \<Rightarrow> dynload_world
     \<Rightarrow> OSDynLoad_Error \<times> ptr option" where
  "OSDynLoad_FindExport addr modul exportType name outAddr w =
     (if outAddr = null then (OS_DYNLOAD_INVALID_ACQUIRE_PTR, None)
      else if name = None then (OS_DYNLOAD_INVALID_MODULE_NAME_PTR, Some null)
      else case asModule modul w of
        None \<Rightarrow> (OS_DYNLOAD_MODULE_NOT_FOUND, Some null)
      | Some i \<Rightarrow>
          (let kind = (if exportType = OS_DYNLOAD_EXPORT_DATA then Data else Function);
               a = findExportOfKind addr (Some (lm_name (g_modules w ! i))) name kind
           in if a = null then (OS_DYNLOAD_MODULE_NOT_FOUND, Some null) else (OS_DYNLOAD_OK, Some a)))"

definition OSDynLoad_Release :: "OSDynLoad_Module \<Rightarrow> dynload_world \<Rightarrow> dynload_world" where
  "OSDynLoad_Release modul w =
     (case asModule modul w of
        None \<Rightarrow> w
      | Some i \<Rightarrow>
          (let m = g_modules w ! i
           in if 0 < lm_refCount m then
                (let r = lm_refCount m - 1; m' = m\<lparr>lm_refCount := r\<rparr>
                 in w\<lparr>g_modules := (g_modules w)[i := (if r = 0 then m'\<lparr>lm_used := False\<rparr> else m')]\<rparr>)
              else w))"

definition OSDynLoad_SetAllocator :: "ptr \<Rightarrow> ptr \<Rightarrow> dynload_world \<Rightarrow> OSDynLoad_Error \<times> dynload_world" where
  "OSDynLoad_SetAllocator allocFn freeFn w =
     (if allocFn = null \<or> freeFn = null then (OS_DYNLOAD_INVALID_ALLOCATOR_PTR, w)
      else (OS_DYNLOAD_OK, w\<lparr>g_allocFn := allocFn, g_freeFn := freeFn\<rparr>))"

definition OSDynLoad_GetAllocator :: "ptr \<Rightarrow> ptr \<Rightarrow> dynload_world \<Rightarrow> OSDynLoad_Error \<times> (ptr \<times> ptr) option" where
  "OSDynLoad_GetAllocator outAllocFn outFreeFn w =
     (if outAllocFn = null \<or> outFreeFn = null then (OS_DYNLOAD_INVALID_ALLOCATOR_PTR, None)
      else (OS_DYNLOAD_OK, Some (g_allocFn w, g_freeFn w)))"

definition OSDynLoad_GetNumberOfRPLs :: int where "OSDynLoad_GetNumberOfRPLs = 0"

definition OSDynLoad_GetRPLInfo :: "u32 \<Rightarrow> u32 \<Rightarrow> ptr \<Rightarrow> int" where
  "OSDynLoad_GetRPLInfo first n outInfo = 0"

text \<open>A module of a library that is not there resolves nothing, which is why the code refuses to acquire it.\<close>

lemma unknown_library_resolves_nothing: "\<not> hasLibrary (Some l) \<Longrightarrow> findExportOfKind addr (Some l) n k = null"
  by (cases n) (simp_all add: findExportOfKind_def registry.missing_library)

section \<open>A counter for each library\<close>

datatype dyn_call = DAcquire "string option" ptr | DRelease OSDynLoad_Module | DSetAllocator ptr ptr

fun dyn_step :: "dyn_call \<Rightarrow> dynload_world \<Rightarrow> dynload_world" where
  "dyn_step (DAcquire n p) w = snd (OSDynLoad_Acquire n p w)"
| "dyn_step (DRelease m) w = OSDynLoad_Release m w"
| "dyn_step (DSetAllocator a f) w = snd (OSDynLoad_SetAllocator a f w)"

primrec dyn_run :: "dyn_call list \<Rightarrow> dynload_world \<Rightarrow> dynload_world" where
  "dyn_run [] w = w"
| "dyn_run (c # cs) w = dyn_run cs (dyn_step c w)"

text \<open>
  The abstract loader: the library has one number, how often it is held; \<open>acquires\<close> says which acquisitions count.
\<close>

definition acquires :: "string option \<Rightarrow> ptr \<Rightarrow> bool" where
  "acquires n p \<longleftrightarrow> p \<noteq> null \<and> (case n of None \<Rightarrow> False | Some nm \<Rightarrow> nm \<noteq> [] \<and> module_base nm = ''coreinit'')"

fun held_step :: "dyn_call \<Rightarrow> nat \<Rightarrow> nat" where
  "held_step (DAcquire n p) c = (if acquires n p then c + 1 else c)"
| "held_step (DRelease m) c = (if m = Some 0 then c - 1 else c)"
| "held_step (DSetAllocator a f) c = c"

primrec held_run :: "dyn_call list \<Rightarrow> nat \<Rightarrow> nat" where
  "held_run [] c = c"
| "held_run (d # ds) c = held_run ds (held_step d c)"

definition dyn_abs :: "nat \<Rightarrow> dynload_world \<Rightarrow> bool" where
  "dyn_abs c w \<longleftrightarrow> length (g_modules w) = kMaxModules \<and> (\<forall>i. 0 < i \<longrightarrow> i < kMaxModules \<longrightarrow> \<not> lm_used (g_modules w ! i))
     \<and> (lm_used (g_modules w ! 0) \<longleftrightarrow> 0 < c)
     \<and> (0 < c \<longrightarrow> lm_name (g_modules w ! 0) = ''coreinit'' \<and> lm_refCount (g_modules w ! 0) = of_nat c)"

lemma find_module_head:
  "dyn_abs c w \<Longrightarrow> 0 < c \<Longrightarrow> find_module (\<lambda>m. lm_used m \<and> lm_name m = ''coreinit'') (g_modules w) 0 = Some 0"
  "dyn_abs c w \<Longrightarrow> \<not> 0 < c \<Longrightarrow> find_module (\<lambda>m. \<not> lm_used m) (g_modules w) 0 = Some 0"
  by (cases "g_modules w"; simp add: dyn_abs_def)+

lemma find_module_none:
  "\<forall>m \<in> set ms. \<not> P m \<Longrightarrow> find_module P ms i = None"
  by (induction P ms i rule: find_module.induct) simp_all

lemma dyn_abs_acquire:
  assumes "dyn_abs c w" "acquires n p"
  shows "fst (OSDynLoad_Acquire n p w) = (OS_DYNLOAD_OK, Some (Some 0))" "dyn_abs (c + 1) (snd (OSDynLoad_Acquire n p w))"
proof -
  obtain nm where n: "n = Some nm" "nm \<noteq> []" "module_base nm = ''coreinit''" "p \<noteq> null"
    using assms(2) by (auto simp: acquires_def split: option.splits)
  have nt: "snprintf_s 64 ''coreinit'' = ''coreinit''" by (simp add: snprintf_s_def)
  obtain m ms where m: "g_modules w = m # ms" using assms(1) by (cases "g_modules w") (simp_all add: dyn_abs_def)
  have unused: "\<forall>x \<in> set ms. \<not> lm_used x"
  proof
    fix x
    assume "x \<in> set ms"
    then obtain i where "i < length ms" "x = ms ! i" by (auto simp: in_set_conv_nth)
    with assms(1) m show "\<not> lm_used x" unfolding dyn_abs_def by (auto dest: spec [of _ "Suc i"])
  qed
  have "fst (OSDynLoad_Acquire n p w) = (OS_DYNLOAD_OK, Some (Some 0)) \<and> dyn_abs (c + 1) (snd (OSDynLoad_Acquire n p w))"
  proof (cases "0 < c")
    case True
    with n find_module_head(1) [OF assms(1) True] assms(1) show ?thesis
      by (simp add: OSDynLoad_Acquire_def hasLibrary_iff Let_def dyn_abs_def)
  next
    case False
    then have "find_module (\<lambda>m. lm_used m \<and> lm_name m = ''coreinit'') (g_modules w) 0 = None"
      using assms(1) m unused by (intro find_module_none) (auto simp: dyn_abs_def)
    with n nt find_module_head(2) [OF assms(1) False] assms(1) False show ?thesis
      by (simp add: OSDynLoad_Acquire_def hasLibrary_iff Let_def dyn_abs_def)
  qed
  then show "fst (OSDynLoad_Acquire n p w) = (OS_DYNLOAD_OK, Some (Some 0))" "dyn_abs (c + 1) (snd (OSDynLoad_Acquire n p w))"
    by blast+
qed

lemma acquire_refused:
  "\<not> acquires n p \<Longrightarrow> fst (fst (OSDynLoad_Acquire n p w)) \<noteq> OS_DYNLOAD_OK \<and> snd (OSDynLoad_Acquire n p w) = w"
  by (auto simp: acquires_def OSDynLoad_Acquire_def hasLibrary_iff Let_def split: option.splits)

lemma asModule_abs: "dyn_abs c w \<Longrightarrow> asModule m w = (if m = Some 0 \<and> 0 < c then Some 0 else None)"
proof (cases m)
  case (Some x)
  assume a: "dyn_abs c w"
  consider "x < 0 \<or> 15 < x" | "x = 0" | "0 < x" "x \<le> 15" by linarith
  then show ?thesis
  proof cases
    case 3
    then have "\<not> lm_used (g_modules w ! nat x)" using a by (simp add: dyn_abs_def)
    with 3 Some show ?thesis by (simp add: asModule_def)
  qed (use a Some in \<open>auto simp: asModule_def dyn_abs_def\<close>)
qed (simp add: asModule_def)

lemma dyn_abs_find:
  assumes "dyn_abs c w" "\<forall>s. addr s \<noteq> null" "q \<noteq> null"
  shows "OSDynLoad_FindExport addr m ty (Some s) q w =
    (if m = Some 0 \<and> 0 < c \<and> (if ty = OS_DYNLOAD_EXPORT_DATA then export_data s else export_fn s) \<in> set kExports
     then (OS_DYNLOAD_OK, Some (addr s)) else (OS_DYNLOAD_MODULE_NOT_FOUND, Some null))"
proof (cases "m = Some 0 \<and> 0 < c")
  case True
  then have "lm_name (g_modules w ! 0) = ''coreinit''" using assms(1) by (simp add: dyn_abs_def)
  with True assms(2,3) show ?thesis
    by (auto simp: OSDynLoad_FindExport_def asModule_abs [OF assms(1)] findExportOfKind_eq Let_def export_data_def export_fn_def)
qed (use assms(3) in \<open>auto simp: OSDynLoad_FindExport_def asModule_abs [OF assms(1)]\<close>)

lemma dyn_abs_release:
  assumes "dyn_abs c w" "c < 2 ^ 32"
  shows "dyn_abs (if m = Some 0 then c - 1 else c) (OSDynLoad_Release m w)"
proof (cases "m = Some 0 \<and> 0 < c")
  case True
  define x where "x = g_modules w ! 0"
  have x: "lm_refCount x = of_nat c" "lm_name x = ''coreinit''" "lm_used x"
    using assms(1) True by (simp_all add: dyn_abs_def x_def)
  have pos: "(0 :: u32) < of_nat c" using True assms(2) by (simp add: word_less_nat_alt unat_of_nat)
  have pred: "(of_nat c :: u32) - 1 = of_nat (c - 1)" using True by (simp add: of_nat_diff)
  have zero: "(of_nat (c - 1) :: u32) = 0 \<longleftrightarrow> c - 1 = 0"
    using assms(2) by (simp add: word_unat_eq_iff unat_of_nat)
  define x' where "x' = (if c - 1 = 0 then x\<lparr>lm_refCount := of_nat (c - 1), lm_used := False\<rparr>
    else x\<lparr>lm_refCount := of_nat (c - 1)\<rparr>)"
  have "OSDynLoad_Release m w = w\<lparr>g_modules := (g_modules w)[0 := x']\<rparr>"
    using True unfolding OSDynLoad_Release_def asModule_abs [OF assms(1)]
    by (simp only: if_True option.case Let_def x_def [symmetric] x(1) pos pred zero x'_def simp_thms if_cancel split: if_split)
  moreover have "dyn_abs (c - 1) (w\<lparr>g_modules := (g_modules w)[0 := x']\<rparr>)"
    using assms(1) x by (simp add: dyn_abs_def x'_def)
  ultimately show ?thesis using True by simp
qed (use assms(1) in \<open>auto simp: OSDynLoad_Release_def asModule_abs\<close>)

lemma dyn_step_abs:
  assumes "dyn_abs c w" "c < 2 ^ 32"
  shows "dyn_abs (held_step d c) (dyn_step d w)"
proof (cases d)
  case (DAcquire n p)
  then show ?thesis using dyn_abs_acquire(2) [OF assms(1)] acquire_refused [of n p w] assms(1) by simp
next
  case (DRelease m)
  then show ?thesis using dyn_abs_release [OF assms] by simp
next
  case (DSetAllocator a f)
  then show ?thesis using assms(1) by (simp add: OSDynLoad_SetAllocator_def dyn_abs_def)
qed

lemma held_step_le: "held_step d c \<le> c + 1"
  by (cases d) auto

lemma dyn_run_abs:
  "dyn_abs c w \<Longrightarrow> c + length ds < 2 ^ 32 \<Longrightarrow> dyn_abs (held_run ds c) (dyn_run ds w)"
proof (induction ds arbitrary: c w)
  case (Cons d ds)
  have "dyn_abs (held_step d c) (dyn_step d w)" using Cons.prems by (intro dyn_step_abs) simp_all
  with Cons.IH [of "held_step d c" "dyn_step d w"] held_step_le [of d c] Cons.prems(2) show ?case by simp
qed simp

lemma dyn_start_abs: "dyn_abs 0 dynload_start"
  by (simp add: dyn_abs_def dynload_start_def)

section \<open>Property\<close>

text \<open>
  C17: the loader is one reference count. Through every sequence of calls (fewer than 2^32) OSDynLoad_Acquire succeeds
  exactly for names that are "coreinit" before a ".rpl", always with the same handle and never for lack of a slot; the
  handle is good until it was released as often as it was acquired, further releases and releases of other pointers being
  ignored. While it is good, OSDynLoad_FindExport gives the address of exactly the symbols that are in the table with
  that name and kind, and after that nothing.
\<close>

theorem OSDynLoad_counts:
  assumes "length ds < 2 ^ 32" "\<forall>s. addr s \<noteq> null" "p \<noteq> null" "q \<noteq> null"
  shows "(fst (fst (OSDynLoad_Acquire n p (dyn_run ds dynload_start))) = OS_DYNLOAD_OK \<longleftrightarrow> acquires n p)
    \<and> (acquires n p \<longrightarrow> snd (fst (OSDynLoad_Acquire n p (dyn_run ds dynload_start))) = Some (Some 0))
    \<and> fst (fst (OSDynLoad_Acquire n p (dyn_run ds dynload_start))) \<noteq> OS_DYNLOAD_OUT_OF_MEMORY
    \<and> OSDynLoad_FindExport addr m ty (Some s) q (dyn_run ds dynload_start) =
        (if m = Some 0 \<and> 0 < held_run ds 0
            \<and> (if ty = OS_DYNLOAD_EXPORT_DATA then export_data s else export_fn s) \<in> set kExports
         then (OS_DYNLOAD_OK, Some (addr s)) else (OS_DYNLOAD_MODULE_NOT_FOUND, Some null))"
proof -
  let ?w = "dyn_run ds dynload_start"
  have abs: "dyn_abs (held_run ds 0) ?w" using dyn_run_abs [OF dyn_start_abs] assms(1) by simp
  have acq: "(fst (fst (OSDynLoad_Acquire n p ?w)) = OS_DYNLOAD_OK \<longleftrightarrow> acquires n p)
    \<and> (acquires n p \<longrightarrow> snd (fst (OSDynLoad_Acquire n p ?w)) = Some (Some 0))"
    using dyn_abs_acquire(1) [OF abs] acquire_refused [of n p ?w] by (cases "acquires n p") simp_all
  have mem: "fst (fst (OSDynLoad_Acquire n p ?w)) \<noteq> OS_DYNLOAD_OUT_OF_MEMORY"
  proof (cases "acquires n p")
    case True
    then show ?thesis using dyn_abs_acquire(1) [OF abs] by simp
  next
    case False
    then show ?thesis
      by (auto simp: acquires_def OSDynLoad_Acquire_def hasLibrary_iff Let_def split: option.splits)
  qed
  show ?thesis using acq mem dyn_abs_find [OF abs assms(2,4)] by blast
qed

theorem OSDynLoad_counts_witness:
  "OSDynLoad_FindExport (\<lambda>s. 4096) (Some 0) OS_DYNLOAD_EXPORT_FUNC (Some ''OSGetTime'') 8
     (dyn_run [DAcquire (Some ''coreinit.rpl'') 8, DAcquire (Some ''gx2'') 8, DRelease (Some 3)] dynload_start)
   = (OS_DYNLOAD_OK, Some 4096)"
  using OSDynLoad_counts [of "[DAcquire (Some ''coreinit.rpl'') 8, DAcquire (Some ''gx2'') 8, DRelease (Some 3)]" "\<lambda>s. 4096" 8 8
      None "Some 0" OS_DYNLOAD_EXPORT_FUNC "''OSGetTime''"]
  by (simp add: acquires_def module_base_def snprintf_s_def kExports_def export_fn_def)

end
