(* ===== verification/LockedCache.thy ===== *)
theory LockedCache
  imports Prelude
begin

text \<open>
  The locked cache of \<^verbatim>\<open>source/lockedcache.cpp\<close>: 16 KB of scratch memory, handed out in blocks of the C library's
  \<^verbatim>\<open>aligned_alloc\<close> (and given back with its \<^verbatim>\<open>free\<close>), with a synchronous copy in place of the DMA engine. What \<^verbatim>\<open>aligned_alloc\<close> answers is the argument
  \<open>aa\<close> of \<open>LCAlloc\<close>, a function of alignment and size; \<^verbatim>\<open>g_blocks\<close> is a map. The lock makes each call one step.
\<close>

section \<open>State and operations\<close>

record locked_cache =
  lc_blocks :: "ptr \<rightharpoonup> u32"
  lc_allocated :: u32
  lc_dmaEnabled :: bool
  lc_inited :: bool

definition lc_start :: locked_cache where
  "lc_start = \<lparr>lc_blocks = Map.empty, lc_allocated = 0, lc_dmaEnabled = True, lc_inited = False\<rparr>"

definition kLockedCacheSize :: u32 where
  "kLockedCacheSize = 16 * 1024"

definition kAlignment :: u64 where
  "kAlignment = 64"

definition lc_ensureInit :: "locked_cache \<Rightarrow> locked_cache" where
  "lc_ensureInit s = (if lc_inited s then s else s\<lparr>lc_inited := True\<rparr>)"

definition LCHardwareIsAvailable :: s32 where
  "LCHardwareIsAvailable = 1"

text \<open>The sum in the guard is a 32-bit one, as in the code; the rounded size is a \<^verbatim>\<open>size_t\<close>.\<close>

definition lc_rounded :: "u32 \<Rightarrow> u64" where
  "lc_rounded n = (ucast n + kAlignment - 1) AND NOT (kAlignment - 1)"

definition LCAlloc :: "(u64 \<Rightarrow> u64 \<Rightarrow> ptr) \<Rightarrow> u32 \<Rightarrow> locked_cache \<Rightarrow> ptr \<times> locked_cache" where
  "LCAlloc aa n s0 =
     (if n = 0 then (null, s0)
      else
        let s = lc_ensureInit s0 in
        if kLockedCacheSize < lc_allocated s + n then (null, s)
        else
          let p = aa kAlignment (lc_rounded n) in
          if p = null then (null, s)
          else (p, s\<lparr>lc_blocks := (lc_blocks s)(p \<mapsto> n), lc_allocated := lc_allocated s + n\<rparr>))"

definition LCDealloc :: "ptr \<Rightarrow> locked_cache \<Rightarrow> locked_cache" where
  "LCDealloc addr s0 =
     (if addr = null then s0
      else
        let s = lc_ensureInit s0 in
        case lc_blocks s addr of
          None \<Rightarrow> s
        | Some n \<Rightarrow> s\<lparr>lc_allocated := lc_allocated s - n, lc_blocks := (lc_blocks s)(addr := None)\<rparr>)"

definition LCGetMaxSize :: u32 where
  "LCGetMaxSize = kLockedCacheSize"

definition LCGetAllocatableSize :: "locked_cache \<Rightarrow> u32 \<times> locked_cache" where
  "LCGetAllocatableSize s0 = (let s = lc_ensureInit s0 in (kLockedCacheSize - lc_allocated s, s))"

definition LCGetUnallocated :: "locked_cache \<Rightarrow> u32 \<times> locked_cache" where
  "LCGetUnallocated s = LCGetAllocatableSize s"

definition LCIsDMAEnabled :: "locked_cache \<Rightarrow> s32" where
  "LCIsDMAEnabled s = (if lc_dmaEnabled s then 1 else 0)"

definition LCEnableDMA :: "locked_cache \<Rightarrow> s32 \<times> locked_cache" where
  "LCEnableDMA s = (1, s\<lparr>lc_dmaEnabled := True\<rparr>)"

definition LCDisableDMA :: "locked_cache \<Rightarrow> locked_cache" where
  "LCDisableDMA s = s\<lparr>lc_dmaEnabled := False\<rparr>"

definition LCGetDMAQueueLength :: u32 where
  "LCGetDMAQueueLength = 0"

text \<open>\<^verbatim>\<open>memcpy\<close> asks for regions that do not overlap; on those it is \<open>memmove\<close>.\<close>

definition LCLoadDMABlocks :: "ptr \<Rightarrow> ptr \<Rightarrow> u32 \<Rightarrow> memory \<Rightarrow> memory" where
  "LCLoadDMABlocks dst src n mem =
     (if dst \<noteq> null \<and> src \<noteq> null \<and> n \<noteq> 0 then memmove dst src (unat n) mem else mem)"

definition LCStoreDMABlocks :: "ptr \<Rightarrow> ptr \<Rightarrow> u32 \<Rightarrow> memory \<Rightarrow> memory" where
  "LCStoreDMABlocks dst src n mem =
     (if dst \<noteq> null \<and> src \<noteq> null \<and> n \<noteq> 0 then memmove dst src (unat n) mem else mem)"

definition LCWaitDMAQueue :: "u32 \<Rightarrow> locked_cache \<Rightarrow> locked_cache" where
  "LCWaitDMAQueue queueLength s = s"

section \<open>Sequences of calls\<close>

text \<open>Each allocation comes with the answer of \<^verbatim>\<open>aligned_alloc\<close>.\<close>

datatype lc_call =
    Lc_alloc "u64 \<Rightarrow> u64 \<Rightarrow> ptr" u32
  | Lc_dealloc ptr
  | Lc_query
  | Lc_dma bool

fun lc_step :: "lc_call \<Rightarrow> locked_cache \<Rightarrow> locked_cache" where
  "lc_step (Lc_alloc aa n) s = snd (LCAlloc aa n s)"
| "lc_step (Lc_dealloc p) s = LCDealloc p s"
| "lc_step Lc_query s = snd (LCGetUnallocated s)"
| "lc_step (Lc_dma on) s = (if on then snd (LCEnableDMA s) else LCDisableDMA s)"

primrec lc_run :: "lc_call list \<Rightarrow> locked_cache \<Rightarrow> locked_cache" where
  "lc_run [] s = s"
| "lc_run (c # cs) s = lc_run cs (lc_step c s)"

text \<open>
  What is asked of a call: \<^verbatim>\<open>aligned_alloc\<close> returns memory that is not already out, as the C standard says, and, what the
  code does not check, the size of a request stays below \<open>2 ^ 32 - 2 ^ 14\<close>.
\<close>

fun lc_fair :: "lc_call \<Rightarrow> locked_cache \<Rightarrow> bool" where
  "lc_fair (Lc_alloc aa n) s \<longleftrightarrow>
     unat n < 2 ^ 32 - 2 ^ 14 \<and> lc_blocks s (aa kAlignment (lc_rounded n)) = None"
| "lc_fair _ s \<longleftrightarrow> True"

primrec lc_fair_run :: "lc_call list \<Rightarrow> locked_cache \<Rightarrow> bool" where
  "lc_fair_run [] s \<longleftrightarrow> True"
| "lc_fair_run (c # cs) s \<longleftrightarrow> lc_fair c s \<and> lc_fair_run cs (lc_step c s)"

section \<open>The budget\<close>

definition lc_live :: "locked_cache \<Rightarrow> nat" where
  "lc_live s = (\<Sum>p\<in>dom (lc_blocks s). unat (the (lc_blocks s p)))"

definition lc_ok :: "locked_cache \<Rightarrow> bool" where
  "lc_ok s \<longleftrightarrow> finite (dom (lc_blocks s)) \<and> unat (lc_allocated s) = lc_live s \<and> lc_live s \<le> 16384"

lemma ensureInit_same [simp]:
  "lc_blocks (lc_ensureInit s) = lc_blocks s" "lc_allocated (lc_ensureInit s) = lc_allocated s"
  "lc_live (lc_ensureInit s) = lc_live s" "lc_ok (lc_ensureInit s) = lc_ok s"
  by (simp_all add: lc_ensureInit_def lc_live_def lc_ok_def)

lemma live_insert:
  assumes "finite (dom (lc_blocks s))" "lc_blocks s p = None"
  shows "lc_live (s\<lparr>lc_blocks := (lc_blocks s)(p \<mapsto> n), lc_allocated := a\<rparr>) = lc_live s + unat n"
proof -
  have "(\<Sum>q\<in>dom (lc_blocks s). unat (the (if q = p then Some n else lc_blocks s q))) =
      (\<Sum>q\<in>dom (lc_blocks s). unat (the (lc_blocks s q)))"
    using assms by (intro sum.cong) auto
  then show ?thesis using assms by (simp add: lc_live_def domIff)
qed

lemma live_remove:
  assumes "finite (dom (lc_blocks s))" "lc_blocks s p = Some n"
  shows "lc_live s = lc_live (s\<lparr>lc_allocated := a, lc_blocks := (lc_blocks s)(p := None)\<rparr>) + unat n"
proof -
  have "(\<Sum>q\<in>dom (lc_blocks s) - {p}. unat (the (if q = p then None else lc_blocks s q))) =
      (\<Sum>q\<in>dom (lc_blocks s) - {p}. unat (the (lc_blocks s q)))"
    by (intro sum.cong) auto
  moreover have "p \<in> dom (lc_blocks s)" using assms(2) by auto
  ultimately show ?thesis
    using sum.remove [OF assms(1), of p "\<lambda>q. unat (the (lc_blocks s q))"] assms(2) by (simp add: lc_live_def)
qed

lemma guard_exact:
  assumes "unat a \<le> 16384" "unat n < 2 ^ 32 - 2 ^ 14"
  shows "kLockedCacheSize < a + n \<longleftrightarrow> 16384 < unat a + unat n" "unat (a + n) = unat a + unat n"
proof -
  show "unat (a + n) = unat a + unat n" using assms by (intro unat_plus_u32) simp
  then show "kLockedCacheSize < a + n \<longleftrightarrow> 16384 < unat a + unat n"
    by (simp add: kLockedCacheSize_def word_less_nat_alt)
qed

lemma LCAlloc_ok:
  assumes "lc_ok s" "lc_fair (Lc_alloc aa n) s"
  shows "lc_ok (snd (LCAlloc aa n s))"
    and "fst (LCAlloc aa n s) \<noteq> null \<longleftrightarrow>
      n \<noteq> 0 \<and> lc_live s + unat n \<le> 16384 \<and> aa kAlignment (lc_rounded n) \<noteq> null"
    and "fst (LCAlloc aa n s) \<noteq> null \<Longrightarrow> lc_live (snd (LCAlloc aa n s)) = lc_live s + unat n"
proof -
  have b: "unat n < 2 ^ 32 - 2 ^ 14" using assms(2) by simp
  have a: "unat (lc_allocated s) \<le> 16384" using assms(1) by (simp add: lc_ok_def)
  note g = guard_exact [OF a b]
  have live: "unat (lc_allocated s) = lc_live s" "finite (dom (lc_blocks s))" using assms(1) by (auto simp: lc_ok_def)
  show "fst (LCAlloc aa n s) \<noteq> null \<longleftrightarrow>
      n \<noteq> 0 \<and> lc_live s + unat n \<le> 16384 \<and> aa kAlignment (lc_rounded n) \<noteq> null"
    using g live by (auto simp: LCAlloc_def Let_def)
  show "fst (LCAlloc aa n s) \<noteq> null \<Longrightarrow> lc_live (snd (LCAlloc aa n s)) = lc_live s + unat n"
    using live_insert [of "lc_ensureInit s"] live assms(2) by (auto simp: LCAlloc_def Let_def split: if_splits)
  then show "lc_ok (snd (LCAlloc aa n s))"
    using g live assms by (auto simp: LCAlloc_def Let_def lc_ok_def split: if_splits)
qed

lemma LCDealloc_ok:
  assumes "lc_ok s"
  shows "lc_ok (LCDealloc p s)"
proof (cases "lc_blocks s p")
  case (Some n)
  then show ?thesis
    using assms live_remove [of "lc_ensureInit s" p n "lc_allocated s - n"]
    by (auto simp: LCDealloc_def Let_def lc_ok_def unat_minus_nowrap)
qed (simp add: LCDealloc_def assms)

lemma lc_step_ok: "lc_ok s \<Longrightarrow> lc_fair c s \<Longrightarrow> lc_ok (lc_step c s)"
proof (cases c)
  case (Lc_alloc aa n)
  then show "lc_ok s \<Longrightarrow> lc_fair c s \<Longrightarrow> lc_ok (lc_step c s)" using LCAlloc_ok(1) [of s aa n] by simp
next
  case (Lc_dma on)
  then show "lc_ok s \<Longrightarrow> lc_ok (lc_step c s)"
    by (simp add: LCEnableDMA_def LCDisableDMA_def lc_ok_def lc_live_def)
qed (simp_all add: LCDealloc_ok LCGetUnallocated_def LCGetAllocatableSize_def Let_def)

lemma lc_run_ok: "lc_ok s \<Longrightarrow> lc_fair_run cs s \<Longrightarrow> lc_ok (lc_run cs s)"
  by (induction cs arbitrary: s) (auto simp: lc_step_ok)

lemma lc_start_ok: "lc_ok lc_start"
  by (simp add: lc_ok_def lc_start_def lc_live_def)

text \<open>
  C22: over every sequence of allocations and releases of requests below 2^32 - 2^14 bytes, the bytes of the blocks that
  are out and the size reported as allocatable add up to the 16 KB of the Espresso's locked cache, a request succeeds
  exactly when it is not empty, fits the reported size and aligned_alloc has memory, and releasing a block that was just
  allocated restores the reported size.
\<close>
theorem LCAlloc_budget:
  assumes "lc_fair_run cs lc_start" "s = lc_run cs lc_start" "lc_fair (Lc_alloc aa n) s"
  shows "lc_live s + unat (fst (LCGetAllocatableSize s)) = 16384 \<and>
    (fst (LCAlloc aa n s) \<noteq> null \<longleftrightarrow>
       n \<noteq> 0 \<and> n \<le> fst (LCGetAllocatableSize s) \<and> aa kAlignment (lc_rounded n) \<noteq> null) \<and>
    fst (LCGetAllocatableSize (LCDealloc (fst (LCAlloc aa n s)) (snd (LCAlloc aa n s)))) =
      fst (LCGetAllocatableSize s)"
proof -
  have ok: "lc_ok s" unfolding assms(2) by (rule lc_run_ok [OF lc_start_ok assms(1)])
  have u: "unat (fst (LCGetAllocatableSize s)) = 16384 - lc_live s"
    using ok by (simp add: LCGetAllocatableSize_def Let_def lc_ok_def kLockedCacheSize_def unat_minus_nowrap)
  have "fst (LCGetAllocatableSize (LCDealloc (fst (LCAlloc aa n s)) (snd (LCAlloc aa n s)))) =
      fst (LCGetAllocatableSize s)"
    by (simp add: LCGetAllocatableSize_def LCAlloc_def LCDealloc_def Let_def)
  moreover have "lc_live s \<le> 16384" using ok by (simp add: lc_ok_def)
  ultimately show ?thesis
    using u LCAlloc_ok(2) [OF ok assms(3)] by (auto simp: word_le_nat_alt)
qed

theorem LCAlloc_budget_witness:
  "lc_live (lc_run [Lc_alloc (\<lambda>_ _. 64) 16000] lc_start) +
     unat (fst (LCGetAllocatableSize (lc_run [Lc_alloc (\<lambda>_ _. 64) 16000] lc_start))) = 16384 \<and>
   fst (LCAlloc (\<lambda>_ _. 16384) 385 (lc_run [Lc_alloc (\<lambda>_ _. 64) 16000] lc_start)) = null"
  using LCAlloc_budget [of "[Lc_alloc (\<lambda>_ _. 64) 16000]" _ "\<lambda>_ _. 16384" 385, OF _ refl]
  by (simp add: LCGetAllocatableSize_def LCAlloc_def lc_start_def lc_ensureInit_def kLockedCacheSize_def Let_def)

text \<open>
  The guard of LCAlloc adds in 32 bits. A request that makes the sum wrap by no more than 16 KB passes it: the block
  is recorded, the total goes down and the reported size up.
\<close>
theorem LCAlloc_wraps:
  assumes "2 ^ 32 \<le> unat (lc_allocated s) + unat n" "unat (lc_allocated s) + unat n \<le> 2 ^ 32 + 2 ^ 14"
    and "aa kAlignment (lc_rounded n) = p" "p \<noteq> null"
  shows "fst (LCAlloc aa n s) = p \<and> lc_blocks (snd (LCAlloc aa n s)) p = Some n \<and>
    unat (lc_allocated (snd (LCAlloc aa n s))) = unat (lc_allocated s) + unat n - 2 ^ 32"
proof -
  have w: "unat (lc_allocated s + n) = unat (lc_allocated s) + unat n - 2 ^ 32"
    using assms by (subst unat_word_ariths(1)) (simp add: le_mod_geq mod_less)
  then have "\<not> kLockedCacheSize < lc_allocated s + n"
    using assms(2) by (simp add: word_less_nat_alt kLockedCacheSize_def)
  moreover have "n \<noteq> 0" using assms(1) unat_less_2p32 [of "lc_allocated s"] by (auto simp del: unat_less_2p32)
  ultimately show ?thesis using assms(3,4) w by (simp add: LCAlloc_def Let_def)
qed

theorem LCAlloc_wraps_witness:
  "let s = lc_run [Lc_alloc (\<lambda>_ _. 64) 4096] lc_start in
     fst (LCAlloc (\<lambda>_ _. 8192) 0xFFFFF000 s) = 8192 \<and> fst (LCGetAllocatableSize s) = 12288"
  using LCAlloc_wraps [of "lc_run [Lc_alloc (\<lambda>_ _. 64) 4096] lc_start" "0xFFFFF000" "\<lambda>_ _. 8192" 8192]
  by (simp add: LCGetAllocatableSize_def LCAlloc_def lc_start_def lc_ensureInit_def kLockedCacheSize_def Let_def)

end
