(* ===== verification/SpinLock.thy ===== *)
theory SpinLock
  imports Mutex
begin

text \<open>
  The spinlocks of \<^verbatim>\<open>source/spinlock.cpp\<close>: each is a libnx mutex, not recursive, in a table of its own. The libnx
  mutex is the parameter of theory \<open>Mutex\<close>. The timed attempt is a loop over the values \<^verbatim>\<open>armGetSystemTick\<close> returns
  after each failed try, each with what the other threads do to the table while this one sleeps.
\<close>

section \<open>Operations\<close>

record 'm host_spinlock =
  sl_lock :: 'm

definition sl_init :: "'m mutex_api \<Rightarrow> 'm host_spinlock" where
  "sl_init api = \<lparr>sl_lock = mutexInit api\<rparr>"

definition spin_acquire :: "'m mutex_api \<Rightarrow> tid \<Rightarrow> ptr \<Rightarrow> 'm host_spinlock table \<Rightarrow> (s32 \<times> 'm host_spinlock table) option" where
  "spin_acquire api t l tab =
     (if l = null then Some (0, tab)
      else
        let (h, tab') = ht_get (sl_init api) l tab in
        case mutexLock api t (sl_lock h) of
          None \<Rightarrow> None
        | Some m \<Rightarrow> Some (1, ht_store l (h\<lparr>sl_lock := m\<rparr>) tab'))"

definition spin_tryAcquire :: "'m mutex_api \<Rightarrow> tid \<Rightarrow> ptr \<Rightarrow> 'm host_spinlock table \<Rightarrow> s32 \<times> 'm host_spinlock table" where
  "spin_tryAcquire api t l tab =
     (if l = null then (0, tab)
      else
        let (h, tab') = ht_get (sl_init api) l tab;
            (got, m) = mutexTryLock api t (sl_lock h)
        in (if got then 1 else 0, ht_store l (h\<lparr>sl_lock := m\<rparr>) tab'))"

definition spin_deadline :: "u64 \<Rightarrow> s64 \<Rightarrow> u64" where
  "spin_deadline now timeout = now + (if 0 <s timeout then timeout else 0) * 1024 div 3315"

fun spin_timed_loop ::
    "'m mutex_api \<Rightarrow> tid \<Rightarrow> ptr \<Rightarrow> u64 \<Rightarrow> (u64 \<times> ('m host_spinlock table \<Rightarrow> 'm host_spinlock table)) list \<Rightarrow>
     'm host_spinlock table \<Rightarrow> (s32 \<times> 'm host_spinlock table) option" where
  "spin_timed_loop api t l deadline [] tab = None"
| "spin_timed_loop api t l deadline ((now, others) # tries) tab =
     (let (h, tab1) = ht_get (sl_init api) l tab;
          (got, m) = mutexTryLock api t (sl_lock h);
          tab2 = ht_store l (h\<lparr>sl_lock := m\<rparr>) tab1
      in if got then Some (1, tab2)
         else if deadline \<le> now then Some (0, tab2)
         else spin_timed_loop api t l deadline tries (others tab2))"

definition spin_tryAcquireTimeout ::
    "'m mutex_api \<Rightarrow> tid \<Rightarrow> ptr \<Rightarrow> s64 \<Rightarrow> u64 \<Rightarrow> (u64 \<times> ('m host_spinlock table \<Rightarrow> 'm host_spinlock table)) list \<Rightarrow>
     'm host_spinlock table \<Rightarrow> (s32 \<times> 'm host_spinlock table) option" where
  "spin_tryAcquireTimeout api t l timeout start tries tab =
     (if l = null then Some (0, tab)
      else spin_timed_loop api t l (spin_deadline start timeout) tries tab)"

definition spin_release :: "'m mutex_api \<Rightarrow> tid \<Rightarrow> ptr \<Rightarrow> 'm host_spinlock table \<Rightarrow> s32 \<times> 'm host_spinlock table" where
  "spin_release api t l tab =
     (if l = null then (0, tab)
      else
        let (h, tab') = ht_get (sl_init api) l tab
        in (1, ht_store l (h\<lparr>sl_lock := mutexUnlock api t (sl_lock h)\<rparr>) tab'))"

definition OSInitSpinLock :: "'m mutex_api \<Rightarrow> ptr \<Rightarrow> 'm host_spinlock table \<Rightarrow> 'm host_spinlock table" where
  "OSInitSpinLock api l tab = (if l \<noteq> null then snd (ht_get (sl_init api) l tab) else tab)"

text \<open>The exported names; the uninterruptible variants are the same functions.\<close>

definition OSAcquireSpinLock :: "'m mutex_api \<Rightarrow> tid \<Rightarrow> ptr \<Rightarrow> 'm host_spinlock table \<Rightarrow> (s32 \<times> 'm host_spinlock table) option" where
  [op_defs]: "OSAcquireSpinLock api t l tab = spin_acquire api t l tab"

definition OSTryAcquireSpinLock :: "'m mutex_api \<Rightarrow> tid \<Rightarrow> ptr \<Rightarrow> 'm host_spinlock table \<Rightarrow> s32 \<times> 'm host_spinlock table" where
  [op_defs]: "OSTryAcquireSpinLock api t l tab = spin_tryAcquire api t l tab"

definition OSReleaseSpinLock :: "'m mutex_api \<Rightarrow> tid \<Rightarrow> ptr \<Rightarrow> 'm host_spinlock table \<Rightarrow> s32 \<times> 'm host_spinlock table" where
  [op_defs]: "OSReleaseSpinLock api t l tab = spin_release api t l tab"

definition OSTryAcquireSpinLockWithTimeout ::
    "'m mutex_api \<Rightarrow> tid \<Rightarrow> ptr \<Rightarrow> s64 \<Rightarrow> u64 \<Rightarrow> (u64 \<times> ('m host_spinlock table \<Rightarrow> 'm host_spinlock table)) list \<Rightarrow>
     'm host_spinlock table \<Rightarrow> (s32 \<times> 'm host_spinlock table) option" where
  [op_defs]: "OSTryAcquireSpinLockWithTimeout api t l timeout start tries tab =
     spin_tryAcquireTimeout api t l timeout start tries tab"

definition OSUninterruptibleSpinLock_Acquire ::
    "'m mutex_api \<Rightarrow> tid \<Rightarrow> ptr \<Rightarrow> 'm host_spinlock table \<Rightarrow> (s32 \<times> 'm host_spinlock table) option" where
  [op_defs]: "OSUninterruptibleSpinLock_Acquire api t l tab = spin_acquire api t l tab"

definition OSUninterruptibleSpinLock_TryAcquire ::
    "'m mutex_api \<Rightarrow> tid \<Rightarrow> ptr \<Rightarrow> 'm host_spinlock table \<Rightarrow> s32 \<times> 'm host_spinlock table" where
  [op_defs]: "OSUninterruptibleSpinLock_TryAcquire api t l tab = spin_tryAcquire api t l tab"

definition OSUninterruptibleSpinLock_Release ::
    "'m mutex_api \<Rightarrow> tid \<Rightarrow> ptr \<Rightarrow> 'm host_spinlock table \<Rightarrow> s32 \<times> 'm host_spinlock table" where
  [op_defs]: "OSUninterruptibleSpinLock_Release api t l tab = spin_release api t l tab"

definition OSUninterruptibleSpinLock_TryAcquireWithTimeout ::
    "'m mutex_api \<Rightarrow> tid \<Rightarrow> ptr \<Rightarrow> s64 \<Rightarrow> u64 \<Rightarrow> (u64 \<times> ('m host_spinlock table \<Rightarrow> 'm host_spinlock table)) list \<Rightarrow>
     'm host_spinlock table \<Rightarrow> (s32 \<times> 'm host_spinlock table) option" where
  [op_defs]: "OSUninterruptibleSpinLock_TryAcquireWithTimeout api t l timeout start tries tab =
     spin_tryAcquireTimeout api t l timeout start tries tab"

section \<open>A lock that is not recursive\<close>

definition spin_holder :: "'m mutex_api \<Rightarrow> ('m \<Rightarrow> tid option) \<Rightarrow> ptr \<Rightarrow> 'm host_spinlock table \<Rightarrow> tid option" where
  "spin_holder api owner l tab = owner (sl_lock (ht_host (sl_init api) l tab))"

lemma spin_holder_store [simp]:
  "spin_holder api owner l (ht_store l' h tab) = (if l = l' then owner (sl_lock h) else spin_holder api owner l tab)"
  by (simp add: spin_holder_def)

lemma spin_acquire_spec:
  assumes "mutex_laws api owner" "l \<noteq> null"
  shows "spin_holder api owner l tab = None \<Longrightarrow>
      \<exists>tab'. spin_acquire api t l tab = Some (1, tab') \<and> spin_holder api owner l tab' = Some t"
    and "spin_holder api owner l tab \<noteq> None \<Longrightarrow> spin_acquire api t l tab = None"
proof -
  show "\<exists>tab'. spin_acquire api t l tab = Some (1, tab') \<and> spin_holder api owner l tab' = Some t"
    if free: "spin_holder api owner l tab = None"
  proof -
    obtain m where "mutexLock api t (sl_lock (ht_host (sl_init api) l tab)) = Some m" "owner m = Some t"
      by (rule mutex_lock_free [OF assms(1) free [unfolded spin_holder_def]])
    then show ?thesis using assms(2) by (simp add: spin_acquire_def ht_get_eq)
  qed
  show "spin_acquire api t l tab = None" if "spin_holder api owner l tab \<noteq> None"
    using that assms by (simp add: spin_acquire_def ht_get_eq spin_holder_def mutex_laws_simps)
qed

lemma spin_try_spec:
  assumes "mutex_laws api owner" "l \<noteq> null"
  shows "fst (spin_tryAcquire api t l tab) = (if spin_holder api owner l tab = None then 1 else 0)"
    and "spin_holder api owner l (snd (spin_tryAcquire api t l tab)) =
      (if spin_holder api owner l tab = None then Some t else spin_holder api owner l tab)"
  using mutex_laws_simps [OF assms(1)] assms(2)
  by (simp_all add: spin_tryAcquire_def ht_get_eq case_prod_beta Let_def) (simp_all add: spin_holder_def)

lemma spin_release_spec:
  assumes "mutex_laws api owner" "l \<noteq> null" "spin_holder api owner l tab = Some t"
  shows "spin_holder api owner l (snd (spin_release api t l tab)) = None" "fst (spin_release api t l tab) = 1"
  using mutex_laws_simps [OF assms(1)] assms(2,3)
  by (simp_all add: spin_release_def ht_get_eq) (simp_all add: spin_holder_def)

text \<open>
  Unlike the mutexes of theory \<open>Mutex\<close>, a spinlock is not recursive: its own holder waits as well, in the plain call
  for ever and in the timed one until the deadline.
\<close>

lemma spin_acquire_again:
  assumes "mutex_laws api owner" "l \<noteq> null" "spin_acquire api t l tab = Some (r, tab')"
  shows "spin_acquire api t l tab' = None" "fst (spin_tryAcquire api t l tab') = 0"
proof -
  have "spin_holder api owner l tab' \<noteq> None"
    using spin_acquire_spec [OF assms(1,2), of tab t] assms(3) by (cases "spin_holder api owner l tab") auto
  then show "spin_acquire api t l tab' = None" "fst (spin_tryAcquire api t l tab') = 0"
    using spin_acquire_spec(2) [OF assms(1,2)] spin_try_spec(1) [OF assms(1,2)] by auto
qed

section \<open>The timed attempt\<close>

lemma spin_loop_step:
  assumes "mutex_laws api owner" "l \<noteq> null"
  shows "spin_timed_loop api t l deadline ((now, others) # tries) tab =
    (let tab' = snd (spin_tryAcquire api t l tab) in
     if spin_holder api owner l tab = None then Some (1, tab')
     else if deadline \<le> now then Some (0, tab')
     else spin_timed_loop api t l deadline tries (others tab'))"
  using mutex_laws_simps [OF assms(1)] assms(2)
  by (simp add: spin_tryAcquire_def ht_get_eq case_prod_beta Let_def spin_holder_def)

lemma spin_loop_returns:
  assumes "mutex_laws api owner" "l \<noteq> null" "\<exists>att \<in> set tries. deadline \<le> fst att"
  shows "\<exists>r tab'. spin_timed_loop api t l deadline tries tab = Some (r, tab') \<and>
    (r = 1 \<and> spin_holder api owner l tab' = Some t \<or>
     r = 0 \<and> spin_holder api owner l tab' \<noteq> None \<and> (\<exists>att \<in> set tries. deadline \<le> fst att))"
  using assms(3)
proof (induction tries arbitrary: tab)
  case (Cons att tries)
  obtain now others where att: "att = (now, others)" by fastforce
  let ?tab = "snd (spin_tryAcquire api t l tab)"
  note step = spin_loop_step [OF assms(1,2), of t deadline now others tries tab]
  show ?case
  proof (cases "spin_holder api owner l tab = None \<or> deadline \<le> now")
    case True
    then show ?thesis
      using step spin_try_spec(2) [OF assms(1,2), of t tab] att by (auto simp: Let_def)
  next
    case False
    with Cons.prems att have "\<exists>att \<in> set tries. deadline \<le> fst att" by auto
    from Cons.IH [OF this, of "others ?tab"] False step att show ?thesis by (auto simp: Let_def)
  qed
qed simp

lemma spin_deadline_zero: "sint timeout \<le> 0 \<Longrightarrow> spin_deadline now timeout = now"
  by (simp add: spin_deadline_def word_sless_alt not_less)

text \<open>
  A timed attempt on a spinlock returns as soon as the clock shows its deadline, whatever the other threads do in
  between: 1 when the caller now holds the lock, 0 only when the lock is held and the deadline has passed; a free lock is
  taken at once, and a timeout that is not positive tries once.
\<close>
theorem OSTryAcquireSpinLockWithTimeout_returns:
  assumes "mutex_laws api owner" "l \<noteq> null" "\<exists>att \<in> set tries. spin_deadline start timeout \<le> fst att"
    and "tries = (now, others) # later" "start \<le> now"
  shows "\<exists>r tab'. OSTryAcquireSpinLockWithTimeout api t l timeout start tries tab = Some (r, tab') \<and>
    (r = 1 \<and> spin_holder api owner l tab' = Some t \<or> r = 0 \<and> spin_holder api owner l tab' \<noteq> None) \<and>
    (spin_holder api owner l tab = None \<longrightarrow> r = 1 \<and> tab' = snd (OSTryAcquireSpinLock api t l tab)) \<and>
    (sint timeout \<le> 0 \<longrightarrow> (r, tab') = OSTryAcquireSpinLock api t l tab)"
proof -
  obtain r tab' where r: "spin_timed_loop api t l (spin_deadline start timeout) tries tab = Some (r, tab')"
      "r = 1 \<and> spin_holder api owner l tab' = Some t \<or> r = 0 \<and> spin_holder api owner l tab' \<noteq> None"
    using spin_loop_returns [OF assms(1-3), of t tab] by blast
  have run: "OSTryAcquireSpinLockWithTimeout api t l timeout start tries tab = Some (r, tab')"
    using r(1) assms(2) by (simp add: OSTryAcquireSpinLockWithTimeout_def spin_tryAcquireTimeout_def)
  note step = r(1) [unfolded assms(4) spin_loop_step [OF assms(1,2)] Let_def]
  have free: "r = 1 \<and> tab' = snd (OSTryAcquireSpinLock api t l tab)" if "spin_holder api owner l tab = None"
    using step that by (simp add: OSTryAcquireSpinLock_def)
  have once: "(r, tab') = OSTryAcquireSpinLock api t l tab" if "sint timeout \<le> 0"
    using step spin_try_spec(1) [OF assms(1,2), of t tab] assms(5) spin_deadline_zero [OF that, of start]
    by (auto simp: OSTryAcquireSpinLock_def prod_eq_iff split: if_splits)
  show ?thesis using run r(2) free once by (intro exI [of _ r] exI [of _ tab']) simp
qed

text \<open>Thread 2 waits for the lock of thread 1, which releases it during the second sleep.\<close>

theorem OSTryAcquireSpinLockWithTimeout_returns_witness:
  "\<exists>r tab'. OSTryAcquireSpinLockWithTimeout owner_api 2 64 3315 100
       [(101, id), (102, \<lambda>s. snd (OSReleaseSpinLock owner_api 1 64 s)), (1200, id)]
       (snd (OSTryAcquireSpinLock owner_api 1 64 Map.empty)) = Some (r, tab') \<and> r = 1"
proof -
  let ?tries = "[(101, id), (102, \<lambda>s. snd (OSReleaseSpinLock owner_api 1 64 s)), (1200, id)]"
  have d: "spin_deadline 100 3315 = 1124" by (simp add: spin_deadline_def word_sless_alt)
  obtain r tab' where r: "OSTryAcquireSpinLockWithTimeout owner_api 2 64 3315 100 ?tries
      (snd (OSTryAcquireSpinLock owner_api 1 64 Map.empty)) = Some (r, tab')"
    using OSTryAcquireSpinLockWithTimeout_returns [OF owner_api_laws, of 64 ?tries 100 3315 101 id
        "tl ?tries" 2 "snd (OSTryAcquireSpinLock owner_api 1 64 Map.empty)"] d by auto
  then have "r = 1"
    by (simp add: op_defs spin_tryAcquireTimeout_def spin_tryAcquire_def spin_release_def owner_api_def sl_init_def
        ht_get_eq d)
  with r show ?thesis by blast
qed

end
