(* ===== verification/Ghs.thy ===== *)
theory Ghs
  imports SpinLock BaseHeap
begin

text \<open>
  The support of the Green Hills C library, \<^verbatim>\<open>source/ghs.cpp\<close>: one spinlock, a pool of 100 file locks named by
  index, \<^verbatim>\<open>errno\<close>, and mutexes allocated from the default heap. The file locks are mutexes of theory \<open>Mutex\<close> at the
  addresses of the array \<^verbatim>\<open>g_flocks\<close>; the addresses the linker gives to the statics are the argument \<open>L\<close>. newlib's
  \<^verbatim>\<open>__errno\<close> is a cell for each thread. \<^verbatim>\<open>None\<close> is a call that has to wait for a lock.

  The leading underscores of the names are dropped: \<open>ghs_flock_create\<close> is \<^verbatim>\<open>__ghs_flock_create\<close>.
\<close>

section \<open>State\<close>

record ghs_link =
  ga_ghsLock :: ptr
  ga_flockPoolMutex :: ptr
  ga_flocks :: ptr

definition kFlockMax :: u32 where
  "kFlockMax = 100"

definition sizeof_OSMutex :: u32 where
  "sizeof_OSMutex = 0x2C"

text \<open>\<^verbatim>\<open>&g_flocks[i]\<close>\<close>

definition flock_at :: "ghs_link \<Rightarrow> u32 \<Rightarrow> ptr" where
  "flock_at L i = ga_flocks L + ucast i * ucast sizeof_OSMutex"

record 'm ghs_world =
  gw_mutexes :: "'m host_mutex table"
  gw_spins :: "'m host_spinlock table"
  gw_flockInUse :: "u8 list"
  gw_freeFlockIdx :: u32
  gw_inited :: bool
  gw_errno :: "tid \<Rightarrow> s32"
  gw_cells :: "ptr \<Rightarrow> ptr"
  gw_heap :: base_world

definition ghs_start :: "base_world \<Rightarrow> 'm ghs_world" where
  "ghs_start b = \<lparr>gw_mutexes = Map.empty, gw_spins = Map.empty, gw_flockInUse = replicate 100 0,
     gw_freeFlockIdx = 0, gw_inited = False, gw_errno = (\<lambda>_. 0), gw_cells = (\<lambda>_. null), gw_heap = b\<rparr>"

definition ghs_ensureInit :: "'m mutex_api \<Rightarrow> ghs_link \<Rightarrow> 'm ghs_world \<Rightarrow> 'm ghs_world" where
  "ghs_ensureInit api L w =
     (if gw_inited w then w
      else w\<lparr>gw_spins := OSInitSpinLock api (ga_ghsLock L) (gw_spins w),
             gw_mutexes := OSInitMutex api (ga_flockPoolMutex L) (gw_mutexes w),
             gw_flockInUse := replicate (unat kFlockMax) 0,
             gw_freeFlockIdx := 0,
             gw_inited := True\<rparr>)"

section \<open>The lock of the library\<close>

definition ghsLock :: "'m mutex_api \<Rightarrow> ghs_link \<Rightarrow> tid \<Rightarrow> 'm ghs_world \<Rightarrow> 'm ghs_world option" where
  "ghsLock api L t w0 =
     (let w = ghs_ensureInit api L w0 in
      case OSUninterruptibleSpinLock_Acquire api t (ga_ghsLock L) (gw_spins w) of
        None \<Rightarrow> None
      | Some (_, tab) \<Rightarrow> Some (w\<lparr>gw_spins := tab\<rparr>))"

definition ghsUnlock :: "'m mutex_api \<Rightarrow> ghs_link \<Rightarrow> tid \<Rightarrow> 'm ghs_world \<Rightarrow> 'm ghs_world" where
  "ghsUnlock api L t w0 =
     (let w = ghs_ensureInit api L w0
      in w\<lparr>gw_spins := snd (OSUninterruptibleSpinLock_Release api t (ga_ghsLock L) (gw_spins w))\<rparr>)"

section \<open>File locks\<close>

text \<open>The search loop: the first index from \<open>i\<close> on whose flag is clear, or the end of the array.\<close>

fun first_clear :: "u8 list \<Rightarrow> u32 \<Rightarrow> u32" where
  "first_clear [] i = i"
| "first_clear (x # xs) i = (if x = 0 then i else first_clear xs (i + 1))"

text \<open>
  What a call of \<^verbatim>\<open>__ghs_flock_create\<close> does with its out parameter: nothing for a null one, an index, or nothing
  because \<^verbatim>\<open>OSPanic\<close> was called, whose handler may return.
\<close>

datatype flock_result = Fl_null | Fl_index u32 | Fl_panic

definition ghs_flock_create ::
    "'m mutex_api \<Rightarrow> ghs_link \<Rightarrow> tid \<Rightarrow> ptr \<Rightarrow> 'm ghs_world \<Rightarrow> (flock_result \<times> 'm ghs_world) option" where
  "ghs_flock_create api L t out w0 =
     (if out = null then Some (Fl_null, w0)
      else
        let w = ghs_ensureInit api L w0;
            pool = ga_flockPoolMutex L
        in
        case OSLockMutex api t pool (gw_mutexes w) of
          None \<Rightarrow> None
        | Some tab \<Rightarrow>
            let idx = (let i = gw_freeFlockIdx w in
                       if kFlockMax \<le> i \<or> gw_flockInUse w ! unat i \<noteq> 0
                       then first_clear (gw_flockInUse w) 0 else i)
            in if kFlockMax \<le> idx
               then Some (Fl_panic, w\<lparr>gw_mutexes := OSUnlockMutex api t pool tab\<rparr>)
               else
                 let tab' = OSInitMutex api (flock_at L idx) tab
                 in Some (Fl_index idx,
                      w\<lparr>gw_flockInUse := (gw_flockInUse w)[unat idx := 1],
                        gw_freeFlockIdx := idx + 1,
                        gw_mutexes := OSUnlockMutex api t pool tab'\<rparr>))"

definition ghs_flock_destroy :: "'m mutex_api \<Rightarrow> ghs_link \<Rightarrow> u32 \<Rightarrow> 'm ghs_world \<Rightarrow> 'm ghs_world" where
  "ghs_flock_destroy api L i w0 =
     (if kFlockMax \<le> i then w0
      else
        let w = ghs_ensureInit api L w0
        in w\<lparr>gw_flockInUse := (gw_flockInUse w)[unat i := 0], gw_freeFlockIdx := i\<rparr>)"

definition ghs_flock_file :: "'m mutex_api \<Rightarrow> ghs_link \<Rightarrow> tid \<Rightarrow> u32 \<Rightarrow> 'm ghs_world \<Rightarrow> 'm ghs_world option" where
  "ghs_flock_file api L t i w0 =
     (if kFlockMax \<le> i then Some w0
      else
        let w = ghs_ensureInit api L w0
        in map_option (\<lambda>tab. w\<lparr>gw_mutexes := tab\<rparr>) (OSLockMutex api t (flock_at L i) (gw_mutexes w)))"

definition ghs_funlock_file :: "'m mutex_api \<Rightarrow> ghs_link \<Rightarrow> tid \<Rightarrow> u32 \<Rightarrow> 'm ghs_world \<Rightarrow> 'm ghs_world" where
  "ghs_funlock_file api L t i w0 =
     (if kFlockMax \<le> i then w0
      else
        let w = ghs_ensureInit api L w0
        in w\<lparr>gw_mutexes := OSUnlockMutex api t (flock_at L i) (gw_mutexes w)\<rparr>)"

definition ghs_ftrylock_file :: "'m mutex_api \<Rightarrow> ghs_link \<Rightarrow> tid \<Rightarrow> u32 \<Rightarrow> 'm ghs_world \<Rightarrow> s32 \<times> 'm ghs_world" where
  "ghs_ftrylock_file api L t i w0 =
     (if kFlockMax \<le> i then (1234, w0)
      else
        let w = ghs_ensureInit api L w0;
            (r, tab) = OSTryLockMutex api t (flock_at L i) (gw_mutexes w)
        in (if r \<noteq> 0 then 0 else 1234, w\<lparr>gw_mutexes := tab\<rparr>))"

section \<open>errno\<close>

text \<open>The pointer \<^verbatim>\<open>__gh_errno_ptr\<close> returns is the calling thread's cell.\<close>

definition gh_errno_ptr :: "tid \<Rightarrow> tid" where
  "gh_errno_ptr t = t"

definition gh_get_errno :: "tid \<Rightarrow> 'm ghs_world \<Rightarrow> s32" where
  "gh_get_errno t w = gw_errno w (gh_errno_ptr t)"

definition gh_set_errno :: "tid \<Rightarrow> s32 \<Rightarrow> 'm ghs_world \<Rightarrow> 'm ghs_world" where
  "gh_set_errno t e w = w\<lparr>gw_errno := (gw_errno w)(gh_errno_ptr t := e)\<rparr>"

section \<open>Mutexes of the C++ runtime\<close>

text \<open>
  \<open>dh\<close> holds the function pointers of the default heap, which a game may have replaced, and \<open>m\<close> is the answer of
  \<^verbatim>\<open>malloc\<close> should the default heap have to be created. \<open>gw_cells\<close> is the memory the \<^verbatim>\<open>void **\<close> arguments point to.
\<close>

definition ghs_mtx_init :: "'m mutex_api \<Rightarrow> default_heap \<Rightarrow> ptr \<Rightarrow> ptr \<Rightarrow> 'm ghs_world \<Rightarrow> 'm ghs_world" where
  "ghs_mtx_init api dh m out w =
     (if out = null then w
      else
        let (p, b) = MEMAllocFromDefaultHeapEx dh m sizeof_OSMutex 8 (gw_heap w)
        in w\<lparr>gw_heap := b,
             gw_mutexes := (if p \<noteq> null then OSInitMutex api p (gw_mutexes w) else gw_mutexes w),
             gw_cells := (gw_cells w)(out := p)\<rparr>)"

definition ghs_mtx_dst :: "default_heap \<Rightarrow> ptr \<Rightarrow> ptr \<Rightarrow> 'm ghs_world \<Rightarrow> 'm ghs_world" where
  "ghs_mtx_dst dh m mutex w =
     (if mutex \<noteq> null \<and> gw_cells w mutex \<noteq> null
      then w\<lparr>gw_heap := MEMFreeToDefaultHeap dh m (gw_cells w mutex) (gw_heap w),
             gw_cells := (gw_cells w)(mutex := null)\<rparr>
      else w)"

definition ghs_mtx_lock :: "'m mutex_api \<Rightarrow> tid \<Rightarrow> ptr \<Rightarrow> 'm ghs_world \<Rightarrow> 'm ghs_world option" where
  "ghs_mtx_lock api t mutex w =
     (if mutex \<noteq> null \<and> gw_cells w mutex \<noteq> null
      then map_option (\<lambda>tab. w\<lparr>gw_mutexes := tab\<rparr>) (OSLockMutex api t (gw_cells w mutex) (gw_mutexes w))
      else Some w)"

definition ghs_mtx_unlock :: "'m mutex_api \<Rightarrow> tid \<Rightarrow> ptr \<Rightarrow> 'm ghs_world \<Rightarrow> 'm ghs_world" where
  "ghs_mtx_unlock api t mutex w =
     (if mutex \<noteq> null \<and> gw_cells w mutex \<noteq> null
      then w\<lparr>gw_mutexes := OSUnlockMutex api t (gw_cells w mutex) (gw_mutexes w)\<rparr>
      else w)"

section \<open>Sequences of calls\<close>

datatype ghs_call =
    Gh_lock tid
  | Gh_unlock tid
  | Gh_create tid ptr
  | Gh_destroy u32
  | Gh_flock tid u32
  | Gh_funlock tid u32
  | Gh_ftrylock tid u32
  | Gh_set_errno tid s32

fun ghs_step :: "'m mutex_api \<Rightarrow> ghs_link \<Rightarrow> ghs_call \<Rightarrow> 'm ghs_world \<Rightarrow> 'm ghs_world option" where
  "ghs_step api L (Gh_lock t) w = ghsLock api L t w"
| "ghs_step api L (Gh_unlock t) w = Some (ghsUnlock api L t w)"
| "ghs_step api L (Gh_create t out) w = map_option snd (ghs_flock_create api L t out w)"
| "ghs_step api L (Gh_destroy i) w = Some (ghs_flock_destroy api L i w)"
| "ghs_step api L (Gh_flock t i) w = ghs_flock_file api L t i w"
| "ghs_step api L (Gh_funlock t i) w = Some (ghs_funlock_file api L t i w)"
| "ghs_step api L (Gh_ftrylock t i) w = Some (snd (ghs_ftrylock_file api L t i w))"
| "ghs_step api L (Gh_set_errno t e) w = Some (gh_set_errno t e w)"

fun ghs_run :: "'m mutex_api \<Rightarrow> ghs_link \<Rightarrow> ghs_call list \<Rightarrow> 'm ghs_world \<Rightarrow> 'm ghs_world option" where
  "ghs_run api L [] w = Some w"
| "ghs_run api L (c # cs) w = (case ghs_step api L c w of None \<Rightarrow> None | Some w' \<Rightarrow> ghs_run api L cs w')"

section \<open>What a call leaves alone\<close>

lemma mutex_frame:
  assumes "k' \<noteq> k"
  shows "ht_host i k' (OSInitMutex api k tab) = ht_host i k' tab"
    and "ht_host i k' (OSUnlockMutex api t k tab) = ht_host i k' tab"
    and "ht_host i k' (snd (OSTryLockMutex api t k tab)) = ht_host i k' tab"
    and "OSLockMutex api t k tab = Some tab' \<Longrightarrow> ht_host i k' tab' = ht_host i k' tab"
proof -
  show "ht_host i k' (OSInitMutex api k tab) = ht_host i k' tab"
    using assms by (simp add: OSInitMutex_def getHostMutex_eq)
  show "ht_host i k' (OSUnlockMutex api t k tab) = ht_host i k' tab"
    using assms by (simp add: OSUnlockMutex_def getHostMutex_eq Let_def)
  show "ht_host i k' (snd (OSTryLockMutex api t k tab)) = ht_host i k' tab"
    using assms by (simp add: OSTryLockMutex_def getHostMutex_eq Let_def case_prod_beta)
  show "ht_host i k' tab' = ht_host i k' tab" if l: "OSLockMutex api t k tab = Some tab'"
    using l assms by (auto simp: OSLockMutex_def getHostMutex_eq split: if_splits option.splits)
qed

lemma init_same: "ht_host (hm_init api) k' (OSInitMutex api k tab) = ht_host (hm_init api) k' tab"
  by (auto simp: OSInitMutex_def getHostMutex_eq)

lemma flock_at_eq:
  assumes "i < kFlockMax" "j < kFlockMax"
  shows "flock_at L i = flock_at L j \<longleftrightarrow> i = j"
proof -
  have u: "unat (ucast k * ucast sizeof_OSMutex :: ptr) = unat k * 44" if "k < kFlockMax" for k :: u32
  proof -
    have "unat k < 100" using that by (simp add: kFlockMax_def word_less_nat_alt)
    then show ?thesis by (subst unat_mult_lem [THEN iffD1]) (simp_all add: sizeof_OSMutex_def)
  qed
  have "i = j" if "ucast i * ucast sizeof_OSMutex = (ucast j * ucast sizeof_OSMutex :: ptr)"
  proof -
    have "unat i * 44 = unat j * 44"
      using arg_cong [OF that, of unat] unfolding u [OF assms(1)] u [OF assms(2)] .
    then show ?thesis by (simp add: word_unat_eq_iff)
  qed
  then show ?thesis by (auto simp: flock_at_def)
qed

section \<open>The pool\<close>

definition flock_used :: "'m ghs_world \<Rightarrow> u32 \<Rightarrow> bool" where
  "flock_used w i \<longleftrightarrow> i < kFlockMax \<and> gw_flockInUse w ! unat i \<noteq> 0"

definition ghs_link_ok :: "ghs_link \<Rightarrow> bool" where
  "ghs_link_ok L \<longleftrightarrow> (\<forall>i<kFlockMax. flock_at L i \<noteq> ga_flockPoolMutex L)"

text \<open>The mutex of the pool is free between calls; before the first call every flag is clear.\<close>

definition ghs_ok :: "'m mutex_api \<Rightarrow> ('m \<Rightarrow> tid option) \<Rightarrow> ghs_link \<Rightarrow> 'm ghs_world \<Rightarrow> bool" where
  "ghs_ok api owner L w \<longleftrightarrow> length (gw_flockInUse w) = 100 \<and>
     (\<not> gw_inited w \<longrightarrow> gw_flockInUse w = replicate 100 0) \<and>
     owner (hm_lock (ht_host (hm_init api) (ga_flockPoolMutex L) (gw_mutexes w))) = None"

lemma unat_kFlockMax [simp]: "unat kFlockMax = 100"
  by (simp add: kFlockMax_def)

lemma ensureInit_ok:
  assumes "ghs_ok api owner L w"
  shows "ghs_ok api owner L (ghs_ensureInit api L w)" "gw_inited (ghs_ensureInit api L w)"
    "gw_flockInUse (ghs_ensureInit api L w) = gw_flockInUse w"
    "ht_host (hm_init api) k (gw_mutexes (ghs_ensureInit api L w)) = ht_host (hm_init api) k (gw_mutexes w)"
  using assms by (auto simp: ghs_ensureInit_def ghs_ok_def init_same)

lemma ghs_ok_mutexes:
  "ghs_ok api owner L w \<Longrightarrow> ht_host (hm_init api) (ga_flockPoolMutex L) tab =
     ht_host (hm_init api) (ga_flockPoolMutex L) (gw_mutexes w) \<Longrightarrow>
     ghs_ok api owner L (w\<lparr>gw_mutexes := tab\<rparr>)"
  by (simp add: ghs_ok_def)

lemma pool_lock:
  assumes "mutex_laws api owner" "owner (hm_lock (ht_host (hm_init api) k tab)) = None"
  obtains tab' where "OSLockMutex api t k tab = Some tab'"
    "\<And>tab''. ht_host (hm_init api) k tab'' = ht_host (hm_init api) k tab' \<Longrightarrow>
       owner (hm_lock (ht_host (hm_init api) k (OSUnlockMutex api t k tab''))) = None"
proof -
  obtain m where m: "mutexLock api t (hm_lock (ht_host (hm_init api) k tab)) = Some m" "owner m = Some t"
    by (rule mutex_lock_free [OF assms])
  define h where "h = (ht_host (hm_init api) k tab)\<lparr>hm_lock := m, hm_count := 1\<rparr>"
  have l: "OSLockMutex api t k tab = Some (ht_store k h tab)"
    using m assms by (simp add: OSLockMutex_def getHostMutex_eq mutex_laws_simps h_def)
  have "owner (hm_lock (ht_host (hm_init api) k (OSUnlockMutex api t k tab''))) = None"
    if "ht_host (hm_init api) k tab'' = h" for tab''
    using that m assms(1) by (simp add: OSUnlockMutex_def getHostMutex_eq mutex_laws_simps Let_def h_def)
  then show thesis using that [OF l] by simp
qed

lemma first_clear_eq:
  "unat i + length xs < 4294967296 \<Longrightarrow>
     unat (first_clear xs i) = unat i + length (takeWhile (\<lambda>x. x \<noteq> 0) xs)"
proof (induction xs i rule: first_clear.induct)
  case (2 x xs i)
  then have "unat (i + 1) = Suc (unat i)" by (subst unat_plus_u32) simp_all
  with 2 show ?case by simp
qed simp

lemma first_clear_pool:
  assumes "length xs = 100"
  shows "first_clear xs 0 < kFlockMax \<Longrightarrow> xs ! unat (first_clear xs 0) = 0"
    and "\<not> first_clear xs 0 < kFlockMax \<Longrightarrow> i < kFlockMax \<Longrightarrow> xs ! unat i \<noteq> 0"
proof -
  have u: "unat (first_clear xs 0) = length (takeWhile (\<lambda>x. x \<noteq> 0) xs)"
    using first_clear_eq [of 0 xs] assms by simp
  show "xs ! unat (first_clear xs 0) = 0" if "first_clear xs 0 < kFlockMax"
    using that nth_length_takeWhile [of "\<lambda>x. x \<noteq> 0" xs] u assms by (simp add: word_less_nat_alt)
  show "xs ! unat i \<noteq> 0" if n: "\<not> first_clear xs 0 < kFlockMax" and i: "i < kFlockMax"
  proof -
    have "length (takeWhile (\<lambda>x. x \<noteq> 0) xs) = length xs"
      using n u assms length_takeWhile_le [of "\<lambda>x. x \<noteq> 0" xs] by (simp add: word_less_nat_alt)
    then have "takeWhile (\<lambda>x. x \<noteq> 0) xs = xs" by (metis takeWhile_eq_take take_all order_refl)
    then have "\<forall>x\<in>set xs. x \<noteq> 0" by (simp add: takeWhile_eq_all_conv)
    moreover have "unat i < length xs" using i assms by (simp add: word_less_nat_alt)
    ultimately show ?thesis using nth_mem by blast
  qed
qed

text \<open>The index \<^verbatim>\<open>__ghs_flock_create\<close> settles on.\<close>

definition flock_choice :: "'m ghs_world \<Rightarrow> u32" where
  "flock_choice w =
     (if kFlockMax \<le> gw_freeFlockIdx w \<or> gw_flockInUse w ! unat (gw_freeFlockIdx w) \<noteq> 0
      then first_clear (gw_flockInUse w) 0 else gw_freeFlockIdx w)"

lemma flock_choice:
  assumes "length (gw_flockInUse w) = 100"
  shows "flock_choice w < kFlockMax \<Longrightarrow> \<not> flock_used w (flock_choice w)"
    and "\<not> flock_choice w < kFlockMax \<Longrightarrow> i < kFlockMax \<Longrightarrow> flock_used w i"
  using first_clear_pool [OF assms] by (auto simp: flock_choice_def flock_used_def not_le split: if_splits)

lemma flock_create_eq:
  assumes laws: "mutex_laws api owner" and link: "ghs_link_ok L" and ok: "ghs_ok api owner L w" and out: "out \<noteq> null"
    and c: "c = flock_choice (ghs_ensureInit api L w)"
  obtains w' where "ghs_flock_create api L t out w = Some (if c < kFlockMax then Fl_index c else Fl_panic, w')"
    "ghs_ok api owner L w'"
    "gw_flockInUse w' = (if c < kFlockMax then (gw_flockInUse w)[unat c := 1] else gw_flockInUse w)"
    "\<And>k. k \<noteq> ga_flockPoolMutex L \<Longrightarrow> ht_host (hm_init api) k (gw_mutexes w') = ht_host (hm_init api) k (gw_mutexes w)"
proof -
  define w1 where "w1 = ghs_ensureInit api L w"
  note i = ensureInit_ok [OF ok, folded w1_def]
  let ?p = "ga_flockPoolMutex L"
  have "owner (hm_lock (ht_host (hm_init api) ?p (gw_mutexes w1))) = None" using i(1) by (simp add: ghs_ok_def)
  then obtain tab where tab: "OSLockMutex api t ?p (gw_mutexes w1) = Some tab"
    and un: "\<And>tab'. ht_host (hm_init api) ?p tab' = ht_host (hm_init api) ?p tab \<Longrightarrow>
       owner (hm_lock (ht_host (hm_init api) ?p (OSUnlockMutex api t ?p tab'))) = None"
    using pool_lock [OF laws, of ?p "gw_mutexes w1" t] by metis
  define tab' where "tab' = (if c < kFlockMax then OSInitMutex api (flock_at L c) tab else tab)"
  define w' where "w' = w1\<lparr>gw_flockInUse := (if c < kFlockMax then (gw_flockInUse w)[unat c := 1] else gw_flockInUse w),
    gw_freeFlockIdx := (if c < kFlockMax then c + 1 else gw_freeFlockIdx w1), gw_mutexes := OSUnlockMutex api t ?p tab'\<rparr>"
  have choice: "(if kFlockMax \<le> gw_freeFlockIdx w1 \<or> gw_flockInUse w1 ! unat (gw_freeFlockIdx w1) \<noteq> 0
      then first_clear (gw_flockInUse w1) 0 else gw_freeFlockIdx w1) = c"
    by (simp add: c flock_choice_def w1_def)
  have "ghs_flock_create api L t out w = Some (if c < kFlockMax then Fl_index c else Fl_panic, w')"
    using out tab i(3) choice
    by (auto simp: ghs_flock_create_def Let_def w1_def [symmetric] w'_def tab'_def not_le)
  moreover have "ghs_ok api owner L w'"
    using i un [of tab'] ok by (auto simp: ghs_ok_def w'_def tab'_def init_same)
  moreover have "ht_host (hm_init api) k (gw_mutexes w') = ht_host (hm_init api) k (gw_mutexes w)" if "k \<noteq> ?p" for k
    using mutex_frame(4) [OF that tab] by (simp add: w'_def tab'_def init_same mutex_frame(2) [OF that] i(4))
  ultimately show thesis using that [of w'] by (simp add: w'_def)
qed

lemma ghs_ok_frame:
  "ghs_ok api owner L (w\<lparr>gw_spins := x\<rparr>) = ghs_ok api owner L w"
  "ghs_ok api owner L (w\<lparr>gw_errno := y\<rparr>) = ghs_ok api owner L w"
  by (simp_all add: ghs_ok_def)

lemma ghs_step_ok:
  assumes "mutex_laws api owner" "ghs_link_ok L" "ghs_ok api owner L w" "ghs_step api L c w = Some w'"
  shows "ghs_ok api owner L w'"
proof -
  let ?w = "ghs_ensureInit api L w"
  note i = ensureInit_ok [OF assms(3)]
  have flock: "ghs_ok api owner L (?w\<lparr>gw_mutexes := tab\<rparr>)"
    if "ht_host (hm_init api) (ga_flockPoolMutex L) tab = ht_host (hm_init api) (ga_flockPoolMutex L) (gw_mutexes ?w)" for tab
    by (rule ghs_ok_mutexes [OF i(1) that])
  have ne: "ga_flockPoolMutex L \<noteq> flock_at L k" if "\<not> kFlockMax \<le> k" for k
    using assms(2) that by (auto simp: ghs_link_ok_def not_le)
  show ?thesis
  proof (cases c)
    case (Gh_lock t)
    then show ?thesis using assms(4) i(1) by (auto simp: ghsLock_def Let_def ghs_ok_frame split: option.splits)
  next
    case (Gh_unlock t)
    then show ?thesis using assms(4) i(1) by (auto simp: ghsUnlock_def Let_def ghs_ok_frame)
  next
    case (Gh_create t out)
    show ?thesis
    proof (cases "out = null")
      case True
      then show ?thesis using assms(3,4) Gh_create by (simp add: ghs_flock_create_def)
    next
      case False
      obtain r w1 where "ghs_flock_create api L t out w = Some (r, w1)" "ghs_ok api owner L w1"
        by (rule flock_create_eq [OF assms(1-3) False refl, of t])
      then show ?thesis using assms(4) Gh_create by simp
    qed
  next
    case (Gh_destroy k)
    then show ?thesis
      using assms(3,4) i by (auto simp: ghs_flock_destroy_def Let_def ghs_ok_def split: if_splits)
  next
    case (Gh_flock t k)
    show ?thesis
    proof (cases "kFlockMax \<le> k")
      case False
      then obtain tab where "OSLockMutex api t (flock_at L k) (gw_mutexes ?w) = Some tab" "w' = ?w\<lparr>gw_mutexes := tab\<rparr>"
        using assms(4) Gh_flock by (auto simp: ghs_flock_file_def Let_def)
      then show ?thesis using flock mutex_frame(4) [OF ne [OF False]] by blast
    qed (use assms(3,4) Gh_flock in \<open>simp add: ghs_flock_file_def\<close>)
  next
    case (Gh_funlock t k)
    then show ?thesis
      using assms(3,4) flock [OF mutex_frame(2) [OF ne]] by (auto simp: ghs_funlock_file_def Let_def)
  next
    case (Gh_ftrylock t k)
    then show ?thesis
      using assms(3,4) flock [OF mutex_frame(3) [OF ne]] by (auto simp: ghs_ftrylock_file_def Let_def case_prod_beta)
  next
    case (Gh_set_errno t e)
    then show ?thesis using assms(3,4) by (auto simp: gh_set_errno_def ghs_ok_frame)
  qed
qed

lemma ghs_run_ok:
  assumes "mutex_laws api owner" "ghs_link_ok L"
  shows "ghs_ok api owner L w \<Longrightarrow> ghs_run api L cs w = Some w' \<Longrightarrow> ghs_ok api owner L w'"
  by (induction cs arbitrary: w) (auto intro: ghs_step_ok [OF assms] split: option.splits)

lemma ghs_start_ok: "mutex_laws api owner \<Longrightarrow> ghs_ok api owner L (ghs_start b)"
  by (simp add: ghs_ok_def ghs_start_def hm_init_def mutex_laws_simps)

section \<open>File locks are handed out once\<close>

lemma used_ensureInit: "ghs_ok api owner L w \<Longrightarrow> flock_used (ghs_ensureInit api L w) i = flock_used w i"
  by (simp add: flock_used_def ensureInit_ok)

lemma used_set:
  "length (gw_flockInUse w) = 100 \<Longrightarrow> gw_flockInUse w' = (gw_flockInUse w)[unat c := x] \<Longrightarrow> c < kFlockMax \<Longrightarrow>
     flock_used w' j = (if j = c then x \<noteq> 0 else flock_used w j)"
  by (auto simp: flock_used_def nth_list_update word_less_nat_alt word_unat_eq_iff)

lemma flock_destroy_used:
  assumes "ghs_ok api owner L w" "c < kFlockMax"
  shows "flock_used (ghs_flock_destroy api L c w) j = (j \<noteq> c \<and> flock_used w j)"
    "flock_choice (ghs_ensureInit api L (ghs_flock_destroy api L c w)) = c"
    "ht_host (hm_init api) k (gw_mutexes (ghs_flock_destroy api L c w)) = ht_host (hm_init api) k (gw_mutexes w)"
proof -
  let ?w = "ghs_flock_destroy api L c w"
  have w: "?w = (ghs_ensureInit api L w)\<lparr>gw_flockInUse := (gw_flockInUse w)[unat c := 0], gw_freeFlockIdx := c\<rparr>"
    using assms by (simp add: ghs_flock_destroy_def Let_def ensureInit_ok(3) not_le)
  have l: "length (gw_flockInUse w) = 100" using assms(1) by (simp add: ghs_ok_def)
  show "flock_used ?w j = (j \<noteq> c \<and> flock_used w j)"
    using used_set [OF l _ assms(2), of ?w 0 j] w by simp
  have "ghs_ensureInit api L ?w = ?w" using ensureInit_ok(2) [OF assms(1)] w by (simp add: ghs_ensureInit_def)
  then show "flock_choice (ghs_ensureInit api L ?w) = c"
    using w assms(2) l by (auto simp: flock_choice_def word_less_nat_alt word_le_nat_alt)
  show "ht_host (hm_init api) k (gw_mutexes ?w) = ht_host (hm_init api) k (gw_mutexes w)"
    using ensureInit_ok(4) [OF assms(1)] w by simp
qed

lemma flock_destroy_ok: "ghs_ok api owner L w \<Longrightarrow> ghs_ok api owner L (ghs_flock_destroy api L c w)"
  by (auto simp: ghs_flock_destroy_def Let_def ghs_ok_def ensureInit_ok [unfolded ghs_ok_def])

text \<open>
  C20: after any calls of any threads, __ghs_flock_create always gets the pool mutex. It hands out an index that was
  free and marks exactly that one as used; it panics, with nothing changed, exactly when all 100 are in use. An index
  that was destroyed is free again and is the next one handed out.
\<close>
theorem ghs_flock_create_fresh:
  assumes "mutex_laws api owner" "ghs_link_ok L" "ghs_run api L cs (ghs_start b) = Some w" "out \<noteq> null"
  shows "\<exists>r w'. ghs_flock_create api L t out w = Some (r, w') \<and>
    (r = Fl_panic \<and> (\<forall>i<kFlockMax. flock_used w i) \<and> (\<forall>j. flock_used w' j = flock_used w j) \<or>
     (\<exists>i. r = Fl_index i \<and> i < kFlockMax \<and> \<not> flock_used w i \<and> (\<forall>j. flock_used w' j = (j = i \<or> flock_used w j)) \<and>
       (\<forall>j. flock_used (ghs_flock_destroy api L i w') j = flock_used w j) \<and>
       map_option fst (ghs_flock_create api L t out (ghs_flock_destroy api L i w')) = Some (Fl_index i)))"
proof -
  have ok: "ghs_ok api owner L w" by (rule ghs_run_ok [OF assms(1,2) ghs_start_ok [OF assms(1)] assms(3)])
  define w1 where "w1 = ghs_ensureInit api L w"
  define c where "c = flock_choice w1"
  note i = ensureInit_ok [OF ok, folded w1_def]
  have l: "length (gw_flockInUse w) = 100" "length (gw_flockInUse w1) = 100" using i(1) ok by (simp_all add: ghs_ok_def)
  have same: "flock_used w1 j = flock_used w j" for j using used_ensureInit [OF ok] by (simp add: w1_def)
  obtain w' where w': "ghs_flock_create api L t out w = Some (if c < kFlockMax then Fl_index c else Fl_panic, w')"
    "ghs_ok api owner L w'"
    "gw_flockInUse w' = (if c < kFlockMax then (gw_flockInUse w)[unat c := 1] else gw_flockInUse w)"
    by (rule flock_create_eq [OF assms(1,2) ok assms(4) c_def [unfolded w1_def], of t])
  show ?thesis
  proof (cases "c < kFlockMax")
    case True
    have u: "\<not> flock_used w c" using flock_choice(1) [OF l(2)] True same by (simp add: c_def)
    have n: "flock_used w' j = (j = c \<or> flock_used w j)" for j
      using used_set [OF l(1) _ True, of w' 1 j] w'(3) True by simp
    let ?d = "ghs_flock_destroy api L c w'"
    obtain w2 where "ghs_flock_create api L t out ?d = Some (Fl_index c, w2)"
      using flock_create_eq [OF assms(1,2) flock_destroy_ok [OF w'(2)] assms(4) refl, of t c]
        flock_destroy_used(2) [OF w'(2) True] True by metis
    then show ?thesis
      using w'(1) True u n flock_destroy_used(1) [OF w'(2) True]
      by (intro exI [of _ "Fl_index c"] exI [of _ w']) auto
  next
    case False
    have "flock_used w' j = flock_used w j" for j using w'(3) False by (simp add: flock_used_def)
    then show ?thesis using flock_choice(2) [OF l(2)] same w'(1) False by (auto simp: c_def)
  qed
qed

text \<open>Statics as a linker could place them.\<close>

definition ghs_demo_link :: ghs_link where
  "ghs_demo_link = \<lparr>ga_ghsLock = 0x8000, ga_flockPoolMutex = 0x8010, ga_flocks = 0x9000\<rparr>"

lemma ghs_demo_link_ok: "ghs_link_ok ghs_demo_link"
proof -
  have "flock_at ghs_demo_link i \<noteq> ga_flockPoolMutex ghs_demo_link" if "i < kFlockMax" for i
  proof -
    have "unat i < 100" using that by (simp add: kFlockMax_def word_less_nat_alt)
    then have "unat (ucast i * ucast sizeof_OSMutex :: ptr) = unat i * 44"
      by (subst unat_mult_lem [THEN iffD1]) (simp_all add: sizeof_OSMutex_def)
    then have "unat (flock_at ghs_demo_link i) = 0x9000 + unat i * 44"
      using \<open>unat i < 100\<close> by (subst flock_at_def, subst unat_plus_u64) (simp_all add: ghs_demo_link_def)
    then show ?thesis by (auto simp: ghs_demo_link_def)
  qed
  then show ?thesis by (simp add: ghs_link_ok_def)
qed

lemmas ghs_eval = ghs_start_def ghs_flock_create_def ghs_flock_destroy_def ghs_flock_file_def ghs_ensureInit_def
  ghs_demo_link_def flock_at_def sizeof_OSMutex_def kFlockMax_def sl_init_def OSInitSpinLock_def

theorem ghs_flock_create_fresh_witness:
  "\<exists>w r w'. ghs_run owner_api ghs_demo_link [Gh_create 1 64, Gh_flock 1 0] (ghs_start base_demo) = Some w \<and>
     ghs_flock_create owner_api ghs_demo_link 3 64 w = Some (r, w') \<and> r \<noteq> Fl_index 0"
proof -
  obtain w where w: "ghs_run owner_api ghs_demo_link [Gh_create 1 64, Gh_flock 1 0] (ghs_start base_demo) = Some w"
    "gw_flockInUse w ! 0 = 1"
    by (simp add: ghs_eval sync_eval)
  obtain r w' where "ghs_flock_create owner_api ghs_demo_link 3 64 w = Some (r, w')"
    "r = Fl_panic \<or> (\<exists>i. r = Fl_index i \<and> \<not> flock_used w i)"
    using ghs_flock_create_fresh [OF owner_api_laws ghs_demo_link_ok w(1), of 64 3] by auto
  then show ?thesis using w by (auto simp: flock_used_def kFlockMax_def)
qed

section \<open>A new mutex can be born locked\<close>

lemma locked_out:
  assumes "mutex_laws api owner" "owner (hm_lock (ht_host (hm_init api) k tab)) = Some t" "t' \<noteq> t"
  shows "OSLockMutex api t' k tab = None" "fst (OSTryLockMutex api t' k tab) = 0"
  using assms by (simp_all add: OSLockMutex_def OSTryLockMutex_def getHostMutex_eq mutex_laws_simps case_prod_beta Let_def)

text \<open>
  \<^verbatim>\<open>OSInitMutex\<close> does not reset a host mutex that exists, and no \<^verbatim>\<open>destroy\<close> erases it. A file lock that is
  destroyed while a thread holds it is handed out again still locked by that thread: every other thread fails to lock
  the new one.
\<close>
theorem ghs_flock_born_locked:
  assumes "mutex_laws api owner" "ghs_link_ok L" "ghs_run api L cs (ghs_start b) = Some w" "out \<noteq> null"
    and "i < kFlockMax" "owner (hm_lock (ht_host (hm_init api) (flock_at L i) (gw_mutexes w))) = Some t" "t' \<noteq> t"
  shows "\<exists>w'. ghs_flock_create api L t' out (ghs_flock_destroy api L i w) = Some (Fl_index i, w') \<and>
    fst (ghs_ftrylock_file api L t' i w') = 1234 \<and> ghs_flock_file api L t' i w' = None"
proof -
  have ok: "ghs_ok api owner L w" by (rule ghs_run_ok [OF assms(1,2) ghs_start_ok [OF assms(1)] assms(3)])
  note d = flock_destroy_used [OF ok assms(5)]
  obtain w' where w': "ghs_flock_create api L t' out (ghs_flock_destroy api L i w) = Some (Fl_index i, w')"
    "ghs_ok api owner L w'"
    "\<And>k. k \<noteq> ga_flockPoolMutex L \<Longrightarrow>
       ht_host (hm_init api) k (gw_mutexes w') = ht_host (hm_init api) k (gw_mutexes (ghs_flock_destroy api L i w))"
    by (rule flock_create_eq [OF assms(1,2) flock_destroy_ok [OF ok] assms(4) refl, of t' i])
      (simp add: d(2) assms(5))
  have "flock_at L i \<noteq> ga_flockPoolMutex L" using assms(2,5) by (simp add: ghs_link_ok_def)
  then have "owner (hm_lock (ht_host (hm_init api) (flock_at L i) (gw_mutexes (ghs_ensureInit api L w')))) = Some t"
    using w'(3) assms(6) by (simp add: ensureInit_ok(4) [OF w'(2)] d(3))
  from locked_out [OF assms(1) this assms(7)] show ?thesis
    using w'(1) assms(5) by (auto simp: ghs_ftrylock_file_def ghs_flock_file_def Let_def case_prod_beta)
qed

theorem ghs_flock_born_locked_witness:
  "\<exists>w w'. ghs_run owner_api ghs_demo_link [Gh_create 1 64, Gh_flock 1 0] (ghs_start base_demo) = Some w \<and>
     ghs_flock_create owner_api ghs_demo_link 2 64 (ghs_flock_destroy owner_api ghs_demo_link 0 w) = Some (Fl_index 0, w') \<and>
     ghs_flock_file owner_api ghs_demo_link 2 0 w' = None"
proof -
  obtain w where w: "ghs_run owner_api ghs_demo_link [Gh_create 1 64, Gh_flock 1 0] (ghs_start base_demo) = Some w"
    "hm_lock (ht_host (hm_init owner_api) (flock_at ghs_demo_link 0) (gw_mutexes w)) = Some 1"
    by (simp add: ghs_eval sync_eval)
  then show ?thesis
    using ghs_flock_born_locked [OF owner_api_laws ghs_demo_link_ok w(1), of 64 0 1 2] by (auto simp: kFlockMax_def)
qed

text \<open>
  The same for a mutex of the C++ runtime: when the default heap hands out the address of a destroyed mutex again, the
  new mutex at it is still locked.
\<close>

lemma ghs_mtx_born_locked:
  assumes "mutex_laws api owner" "owner (hm_lock (ht_host (hm_init api) p (gw_mutexes w))) = Some t" "t' \<noteq> t"
    and "cell \<noteq> null" "gw_cells w cell = p" "p \<noteq> null"
    and "fst (MEMAllocFromDefaultHeapEx dh m sizeof_OSMutex 8 (gw_heap (ghs_mtx_dst dh m cell w))) = p"
  shows "gw_cells (ghs_mtx_init api dh m cell (ghs_mtx_dst dh m cell w)) cell = p"
    "ghs_mtx_lock api t' cell (ghs_mtx_init api dh m cell (ghs_mtx_dst dh m cell w)) = None"
proof -
  let ?w = "ghs_mtx_init api dh m cell (ghs_mtx_dst dh m cell w)"
  have m: "gw_mutexes (ghs_mtx_dst dh m cell w) = gw_mutexes w" by (simp add: ghs_mtx_dst_def)
  have i: "gw_mutexes ?w = OSInitMutex api p (gw_mutexes w)" "gw_cells ?w cell = p"
    using assms(4,6,7) m by (simp_all add: ghs_mtx_init_def case_prod_beta)
  then show "gw_cells ?w cell = p" by simp
  have "OSLockMutex api t' p (gw_mutexes ?w) = None"
    by (rule locked_out(1) [OF assms(1) _ assms(3)]) (simp add: i(1) init_same assms(2))
  then show "ghs_mtx_lock api t' cell ?w = None" using i(2) assms(4,6) by (simp add: ghs_mtx_lock_def)
qed

end
