(* ===== verification/Atomics.thy ===== *)
theory Atomics
  imports Prelude
begin

text \<open>
  The 64-bit atomic operations of \<^verbatim>\<open>source/atomic64.cpp\<close>, with \<^verbatim>\<open>OSCompareAndSwapAtomicEx64\<close> and \<^verbatim>\<open>PPCSync\<close> of
  \<^verbatim>\<open>source/misc.cpp\<close>. The compiler's sequentially consistent \<^verbatim>\<open>__atomic\<close> builtins make each operation one step on the
  cells, so the interleavings of threads are the sequences of operations; a barrier then has nothing to order.
  Pointers are to 64-bit cells the guest owns.
\<close>

type_synonym cells = "ptr \<Rightarrow> u64"

section \<open>Operations\<close>

definition OSGetAtomic64 :: "ptr \<Rightarrow> cells \<Rightarrow> u64" where
  "OSGetAtomic64 p c = c p"

definition OSSetAtomic64 :: "ptr \<Rightarrow> u64 \<Rightarrow> cells \<Rightarrow> u64 \<times> cells" where
  "OSSetAtomic64 p v c = (c p, c(p := v))"

definition OSCompareAndSwapAtomic64 :: "ptr \<Rightarrow> u64 \<Rightarrow> u64 \<Rightarrow> cells \<Rightarrow> s32 \<times> cells" where
  "OSCompareAndSwapAtomic64 p compare v c = (if c p = compare then (1, c(p := v)) else (0, c))"

text \<open>\<^verbatim>\<open>expected\<close> holds the comparand, or the value read when the exchange fails.\<close>

definition OSCompareAndSwapAtomicEx64 :: "ptr \<Rightarrow> u64 \<Rightarrow> u64 \<Rightarrow> ptr \<Rightarrow> cells \<Rightarrow> s32 \<times> cells" where
  "OSCompareAndSwapAtomicEx64 p compare v outOld c =
     (let swapped = (c p = compare);
          expected = (if swapped then compare else c p);
          c' = (if swapped then c(p := v) else c)
      in (if swapped then 1 else 0, if outOld \<noteq> null then c'(outOld := expected) else c'))"

definition OSSwapAtomic64 :: "ptr \<Rightarrow> u64 \<Rightarrow> cells \<Rightarrow> u64 \<times> cells" where
  "OSSwapAtomic64 p v c = (c p, c(p := v))"

definition OSAddAtomic64 :: "ptr \<Rightarrow> s64 \<Rightarrow> cells \<Rightarrow> s64 \<times> cells" where
  "OSAddAtomic64 p v c = (c p + v, c(p := c p + v))"

definition OSAndAtomic64 :: "ptr \<Rightarrow> u64 \<Rightarrow> cells \<Rightarrow> u64 \<times> cells" where
  "OSAndAtomic64 p v c = (c p AND v, c(p := c p AND v))"

definition OSOrAtomic64 :: "ptr \<Rightarrow> u64 \<Rightarrow> cells \<Rightarrow> u64 \<times> cells" where
  "OSOrAtomic64 p v c = (c p OR v, c(p := c p OR v))"

definition OSXorAtomic64 :: "ptr \<Rightarrow> u64 \<Rightarrow> cells \<Rightarrow> u64 \<times> cells" where
  "OSXorAtomic64 p v c = (c p XOR v, c(p := c p XOR v))"

definition OSTestAndClearAtomic64 :: "ptr \<Rightarrow> u32 \<Rightarrow> cells \<Rightarrow> s32 \<times> cells" where
  "OSTestAndClearAtomic64 p b c =
     (let mask = push_bit (unat (b AND 63)) 1;
          previous = c p
      in (if previous AND mask \<noteq> 0 then 1 else 0, c(p := previous AND NOT mask)))"

definition OSTestAndSetAtomic64 :: "ptr \<Rightarrow> u32 \<Rightarrow> cells \<Rightarrow> s32 \<times> cells" where
  "OSTestAndSetAtomic64 p b c =
     (let mask = push_bit (unat (b AND 63)) 1;
          previous = c p
      in (if previous AND mask \<noteq> 0 then 1 else 0, c(p := previous OR mask)))"

definition OSMemoryBarrier :: "cells \<Rightarrow> cells" where
  "OSMemoryBarrier c = c"

definition PPCSync :: "cells \<Rightarrow> cells" where
  "PPCSync c = c"

section \<open>Single bits\<close>

definition bit_no :: "u32 \<Rightarrow> nat" where
  "bit_no b = unat b mod 64"

lemma unat_and_63: "unat (b AND 63 :: u32) = bit_no b"
proof -
  have "b AND 63 = take_bit 6 b" by (simp add: take_bit_eq_mask mask_eq_exp_minus_1)
  then show ?thesis by (simp add: bit_no_def unsigned_take_bit_eq) (simp add: take_bit_eq_mod)
qed

lemma bit_no_less [simp]: "bit_no b < 64"
  by (simp add: bit_no_def)

lemma bit_mask: "bit (2 ^ n :: u64) i \<longleftrightarrow> i = n \<and> n < 64"
  by (auto simp: bit_exp_iff)

text \<open>What the two operations do, bit by bit: the number of the bit is taken modulo 64.\<close>

lemma OSTestAndSet_bits:
  "fst (OSTestAndSetAtomic64 p b c) = (if bit (c p) (bit_no b) then 1 else 0)"
  "bit (snd (OSTestAndSetAtomic64 p b c) q) i \<longleftrightarrow> bit (c q) i \<or> q = p \<and> i = bit_no b"
  by (auto simp: OSTestAndSetAtomic64_def Let_def unat_and_63 and_exp_eq_0_iff_not_bit bit_or_iff bit_mask)

lemma OSTestAndClear_bits:
  "fst (OSTestAndClearAtomic64 p b c) = (if bit (c p) (bit_no b) then 1 else 0)"
  "bit (snd (OSTestAndClearAtomic64 p b c) q) i \<longleftrightarrow> bit (c q) i \<and> \<not> (q = p \<and> i = bit_no b)"
proof -
  show "fst (OSTestAndClearAtomic64 p b c) = (if bit (c p) (bit_no b) then 1 else 0)"
    by (simp add: OSTestAndClearAtomic64_def Let_def unat_and_63 and_exp_eq_0_iff_not_bit)
  have "bit (c p AND NOT (2 ^ bit_no b)) i \<longleftrightarrow> bit (c p) i \<and> i \<noteq> bit_no b"
    using bit_imp_le_length [of "c p" i] by (auto simp: bit_and_iff bit_not_iff bit_mask)
  then show "bit (snd (OSTestAndClearAtomic64 p b c) q) i \<longleftrightarrow> bit (c q) i \<and> \<not> (q = p \<and> i = bit_no b)"
    by (auto simp: OSTestAndClearAtomic64_def Let_def unat_and_63)
qed

section \<open>Sequences of operations\<close>

datatype atomic_act =
    At_set ptr u64
  | At_cas ptr u64 u64
  | At_casex ptr u64 u64 ptr
  | At_add ptr s64
  | At_and ptr u64
  | At_or ptr u64
  | At_xor ptr u64
  | At_tac ptr u32
  | At_tas ptr u32

text \<open>The result as an unsigned value, and the cells after it.\<close>

fun atomic_step :: "atomic_act \<Rightarrow> cells \<Rightarrow> u64 \<times> cells" where
  "atomic_step (At_set p v) c = OSSetAtomic64 p v c"
| "atomic_step (At_cas p x v) c = map_prod ucast id (OSCompareAndSwapAtomic64 p x v c)"
| "atomic_step (At_casex p x v out) c = map_prod ucast id (OSCompareAndSwapAtomicEx64 p x v out c)"
| "atomic_step (At_add p v) c = OSAddAtomic64 p v c"
| "atomic_step (At_and p v) c = OSAndAtomic64 p v c"
| "atomic_step (At_or p v) c = OSOrAtomic64 p v c"
| "atomic_step (At_xor p v) c = OSXorAtomic64 p v c"
| "atomic_step (At_tac p b) c = map_prod ucast id (OSTestAndClearAtomic64 p b c)"
| "atomic_step (At_tas p b) c = map_prod ucast id (OSTestAndSetAtomic64 p b c)"

fun atomic_run :: "atomic_act list \<Rightarrow> cells \<Rightarrow> (atomic_act \<times> u64) list \<times> cells" where
  "atomic_run [] c = ([], c)"
| "atomic_run (a # as) c =
     (let (r, c') = atomic_step a c; (rs, c'') = atomic_run as c' in ((a, r) # rs, c''))"

text \<open>The operations that may write a cell.\<close>

fun writes :: "atomic_act \<Rightarrow> ptr set" where
  "writes (At_casex p x v out) = (if out \<noteq> null then {p, out} else {p})"
| "writes (At_set p v) = {p}"
| "writes (At_cas p x v) = {p}"
| "writes (At_add p v) = {p}"
| "writes (At_and p v) = {p}"
| "writes (At_or p v) = {p}"
| "writes (At_xor p v) = {p}"
| "writes (At_tac p b) = {p}"
| "writes (At_tas p b) = {p}"

lemma atomic_frame: "q \<notin> writes a \<Longrightarrow> snd (atomic_step a c) q = c q"
  by (cases a) (auto simp: OSSetAtomic64_def OSCompareAndSwapAtomic64_def OSCompareAndSwapAtomicEx64_def OSAddAtomic64_def
      OSAndAtomic64_def OSOrAtomic64_def OSXorAtomic64_def OSTestAndClearAtomic64_def OSTestAndSetAtomic64_def Let_def
      split: if_splits)

text \<open>A bit used as a lock: a set that found it clear takes the lock, a clear that found it set gives it back.\<close>

definition lock_taken :: "ptr \<Rightarrow> nat \<Rightarrow> atomic_act \<times> u64 \<Rightarrow> bool" where
  "lock_taken p n e \<longleftrightarrow> (case e of (At_tas q b, r) \<Rightarrow> q = p \<and> bit_no b = n \<and> r = 0 | _ \<Rightarrow> False)"

definition lock_given_back :: "ptr \<Rightarrow> nat \<Rightarrow> atomic_act \<times> u64 \<Rightarrow> bool" where
  "lock_given_back p n e \<longleftrightarrow> (case e of (At_tac q b, r) \<Rightarrow> q = p \<and> bit_no b = n \<and> r \<noteq> 0 | _ \<Rightarrow> False)"

definition bit_lock_act :: "ptr \<Rightarrow> atomic_act \<Rightarrow> bool" where
  "bit_lock_act p a \<longleftrightarrow> p \<notin> writes a \<or> (case a of At_tas q b \<Rightarrow> True | At_tac q b \<Rightarrow> True | _ \<Rightarrow> False)"

lemma bit_lock_step:
  assumes "bit_lock_act p a" "atomic_step a c = (r, c')"
  shows "of_bool (lock_taken p n (a, r)) + of_bool (bit (c p) n) =
    of_bool (lock_given_back p n (a, r)) + (of_bool (bit (c' p) n) :: nat)"
proof (cases "p \<in> writes a")
  case False
  then have "c' p = c p" using atomic_frame [OF False, of c] assms(2) by simp
  with False show ?thesis by (cases a) (auto simp: lock_taken_def lock_given_back_def)
next
  case True
  with assms(1) consider b where "a = At_tas p b" | b where "a = At_tac p b"
    by (cases a) (auto simp: bit_lock_act_def)
  then show ?thesis
  proof cases
    case 1
    then have "r = (if bit (c p) (bit_no b) then 1 else 0)" "c' = snd (OSTestAndSetAtomic64 p b c)"
      using assms(2) OSTestAndSet_bits(1) [of p b c] by (auto simp: prod_eq_iff)
    then show ?thesis using 1 by (auto simp: lock_taken_def lock_given_back_def OSTestAndSet_bits(2))
  next
    case 2
    then have "r = (if bit (c p) (bit_no b) then 1 else 0)" "c' = snd (OSTestAndClearAtomic64 p b c)"
      using assms(2) OSTestAndClear_bits(1) [of p b c] by (auto simp: prod_eq_iff)
    then show ?thesis using 2 by (auto simp: lock_taken_def lock_given_back_def OSTestAndClear_bits(2))
  qed
qed

text \<open>
  C18: one bit of a cell that the threads only use with OSTestAndSetAtomic64 and OSTestAndClearAtomic64 is a lock: in every
  interleaving, with whatever they do to other bits and cells, the calls that found it clear and took it are, up to the one
  who has it now, as many as the calls that found it set and gave it back. From a clear bit, two calls never hold it at once.
\<close>
theorem OSTestAndSetAtomic64_is_lock:
  assumes "\<forall>a \<in> set as. bit_lock_act p a" "atomic_run as c = (trace, c')"
  shows "length (filter (lock_taken p n) trace) + of_bool (bit (c p) n) =
    length (filter (lock_given_back p n) trace) + of_bool (bit (c' p) n)"
  using assms
proof (induction as arbitrary: c trace)
  case (Cons a as)
  obtain r c1 where s: "atomic_step a c = (r, c1)" by fastforce
  obtain rs where rs: "atomic_run as c1 = (rs, c')" "trace = (a, r) # rs"
    using Cons.prems(2) s by (auto split: prod.splits)
  have "length (filter (lock_taken p n) rs) + of_bool (bit (c1 p) n) =
      length (filter (lock_given_back p n) rs) + of_bool (bit (c' p) n)"
    using Cons.IH [OF _ rs(1)] Cons.prems(1) by simp
  moreover have "of_bool (lock_taken p n (a, r)) + of_bool (bit (c p) n) =
      of_bool (lock_given_back p n (a, r)) + (of_bool (bit (c1 p) n) :: nat)"
    using bit_lock_step [OF _ s] Cons.prems(1) by simp
  ultimately show ?case using rs(2) by (auto simp: of_bool_def split: if_splits)
qed auto

theorem OSTestAndSetAtomic64_is_lock_witness:
  "let (trace, c') = atomic_run [At_tas 64 3, At_tas 64 67, At_add 72 5, At_tac 64 3, At_tas 64 4] (\<lambda>_. 0) in
     length (filter (lock_taken 64 3) trace) = length (filter (lock_given_back 64 3) trace) + of_bool (bit (c' 64) 3)"
proof -
  let ?as = "[At_tas 64 3, At_tas 64 67, At_add 72 5, At_tac 64 3, At_tas 64 4]"
  obtain trace c' where r: "atomic_run ?as (\<lambda>_. 0) = (trace, c')" by fastforce
  have "\<forall>a \<in> set ?as. bit_lock_act 64 a" by (simp add: bit_lock_act_def)
  from OSTestAndSetAtomic64_is_lock [OF this r, of 3] r show ?thesis by simp
qed

text \<open>Additions of any threads on one cell: the values returned are the running sums, and none is lost.\<close>

lemma OSAddAtomic64_sums:
  "snd (atomic_run (map (At_add p) vs) c) = c(p := c p + sum_list vs) \<and>
   map snd (fst (atomic_run (map (At_add p) vs) c)) = map (\<lambda>k. c p + sum_list (take (Suc k) vs)) [0..<length vs]"
proof (induction vs arbitrary: c)
  case (Cons v vs)
  let ?c = "c(p := c p + v)"
  have s: "snd (atomic_run (map (At_add p) (v # vs)) c) = snd (atomic_run (map (At_add p) vs) ?c)"
    "map snd (fst (atomic_run (map (At_add p) (v # vs)) c)) = (c p + v) # map snd (fst (atomic_run (map (At_add p) vs) ?c))"
    by (simp_all add: OSAddAtomic64_def case_prod_beta)
  have "[0..<length (v # vs)] = 0 # map Suc [0..<length vs]" 
    unfolding map_Suc_upt by (simp add: upt_conv_Cons del: upt_Suc)
  then show ?case by (simp only: s Cons.IH) (simp add: ac_simps fun_eq_iff)
qed auto

text \<open>A compare-and-swap succeeds exactly on the expected value; the extended one also tells the value found.\<close>

lemma OSCompareAndSwapAtomicEx64_eq:
  "out \<noteq> null \<Longrightarrow> out \<noteq> p \<Longrightarrow> OSCompareAndSwapAtomicEx64 p x v out c =
     (fst (OSCompareAndSwapAtomic64 p x v c), (snd (OSCompareAndSwapAtomic64 p x v c))(out := OSGetAtomic64 p c))"
  by (auto simp: OSCompareAndSwapAtomicEx64_def OSCompareAndSwapAtomic64_def OSGetAtomic64_def Let_def)

end
