(* ===== verification/CalendarOrder.thy ===== *)
theory CalendarOrder
  imports Time "HOL-Library.List_Lexorder" "HOL-Library.Option_ord"
begin

text \<open>
  The order of calendar times: that of their fields from the year down to the microsecond. \<^verbatim>\<open>OSTicksToCalendarTime\<close> of
  \<^verbatim>\<open>source/time.cpp\<close> respects it, so a guest may compare the fields it is given as it would compare the ticks.
\<close>

section \<open>The order of calendar times\<close>

definition date_key :: "'a OSCalendarTime_scheme \<Rightarrow> int list" where
  "date_key c = [tm_year c, tm_mon c, tm_mday c]"

definition clock_key :: "'a OSCalendarTime_scheme \<Rightarrow> int list" where
  "clock_key c = [tm_hour c, tm_min c, tm_sec c]"

definition calendar_key :: "'a OSCalendarTime_scheme \<Rightarrow> int list" where
  "calendar_key c = date_key c @ clock_key c @ [tm_msec c, tm_usec c, tm_wday c, tm_yday c]"

lemma calendar_key_eq:
  "calendar_key c = calendar_key c' \<Longrightarrow> OSCalendarTime.more c = OSCalendarTime.more c' \<Longrightarrow> c = c'"
  by (cases c; cases c') (simp add: calendar_key_def date_key_def clock_key_def)

instantiation OSCalendarTime_ext :: (linorder) linorder
begin

definition less_eq_OSCalendarTime_ext :: "'a OSCalendarTime_scheme \<Rightarrow> 'a OSCalendarTime_scheme \<Rightarrow> bool" where
  "less_eq_OSCalendarTime_ext c c' \<longleftrightarrow>
     calendar_key c < calendar_key c' \<or> calendar_key c = calendar_key c' \<and> OSCalendarTime.more c \<le> OSCalendarTime.more c'"

definition less_OSCalendarTime_ext :: "'a OSCalendarTime_scheme \<Rightarrow> 'a OSCalendarTime_scheme \<Rightarrow> bool" where
  "less_OSCalendarTime_ext c c' \<longleftrightarrow>
     calendar_key c < calendar_key c' \<or> calendar_key c = calendar_key c' \<and> OSCalendarTime.more c < OSCalendarTime.more c'"

instance
proof
  fix a b c :: "'a OSCalendarTime_scheme"
  show "a < b \<longleftrightarrow> a \<le> b \<and> \<not> b \<le> a" "a \<le> a"
    by (auto simp: less_OSCalendarTime_ext_def less_eq_OSCalendarTime_ext_def)
  show "a \<le> c" if "a \<le> b" "b \<le> c"
    using that by (auto simp: less_eq_OSCalendarTime_ext_def)
  show "a = b" if "a \<le> b" "b \<le> a"
    using that by (auto simp: less_eq_OSCalendarTime_ext_def intro: calendar_key_eq)
  show "a \<le> b \<or> b \<le> a"
    by (auto simp: less_eq_OSCalendarTime_ext_def)
qed

end

lemma calendar_le_key: "c \<le> c' \<longleftrightarrow> calendar_key c \<le> calendar_key c'" for c c' :: OSCalendarTime
  by (auto simp: less_eq_OSCalendarTime_ext_def)

lemma calendar_less_key: "c < c' \<longleftrightarrow> calendar_key c < calendar_key c'" for c c' :: OSCalendarTime
  by (auto simp: less_OSCalendarTime_ext_def)

section \<open>Digits\<close>

text \<open>Lists of one length compare by their first parts; a number compares as its quotient and remainder do.\<close>

lemma lex_append_less: "length xs = length ys \<Longrightarrow> xs < ys \<Longrightarrow> xs @ us < ys @ vs" for xs ys :: "int list"
  by (induction xs ys rule: list_induct2) auto

lemma lex_append_same [simp]: "xs @ us < xs @ vs \<longleftrightarrow> us < vs" for xs :: "int list"
  by (induction xs) auto

lemma digits_less:
  assumes "x < y" "0 < (k :: int)"
  shows "x div k < y div k \<or> x div k = y div k \<and> x mod k < y mod k"
proof (cases "x div k = y div k")
  case True
  then have "x = y div k * k + x mod k" "y = y div k * k + y mod k" using div_mult_mod_eq [of x k] by simp_all
  with assms(1) True show ?thesis by linarith
qed (use assms zdiv_mono1 [of x y k] in simp)

lemma date_step:
  assumes "- 700000000000 \<le> z" "z < 700000000000"
  shows "case (civilFromDays z, civilFromDays (z + 1)) of ((y, m, d), (y', m', d')) \<Rightarrow> [y, m - 1, d] < [y', m' - 1, d']"
proof -
  obtain y m d where v: "valid_date y m d" and yd: "days y m d = z" by (rule days_onto)
  obtain y' m' d' where n: "next_date y m d = (y', m', d')" by (cases "next_date y m d")
  have v': "valid_date y' m' d'" "days y' m' d' = z + 1" using valid_next [OF v] days_next [OF v] n yd by simp_all
  have "civilFromDays z = (y, int m, int d)" "civilFromDays (z + 1) = (y', int m', int d')"
    using civilFromDays_eq [OF v year_bound [OF v]] civilFromDays_eq [OF v'(1) year_bound [OF v'(1)]] assms yd v'(2) by simp_all
  with n show ?thesis by (auto simp: next_date_def split: if_splits)
qed

definition date_of :: "int \<Rightarrow> int list" where
  "date_of z = (case civilFromDays z of (y, m, d) \<Rightarrow> [y, m - 1, d])"

lemma dates_increase: "z < z' \<Longrightarrow> - 700000000000 \<le> z \<Longrightarrow> z' \<le> 700000000000 \<Longrightarrow> date_of z < date_of z'"
proof (induction z' rule: int_gr_induct)
  case base
  then show ?case using date_step [of z] by (auto simp: date_of_def split: prod.splits)
next
  case (step i)
  then have "date_of z < date_of i" by simp
  also have "\<dots> < date_of (i + 1)" using step date_step [of i] by (auto simp: date_of_def split: prod.splits)
  finally show ?case .
qed

lemma clock_increases:
  assumes "w < w'"
  shows "[w div 3600, w mod 3600 div 60, w mod 60] < [w' div 3600, w' mod 3600 div 60, w' mod (60 :: int)]"
proof -
  have m: "x mod 60 = x mod 3600 mod 60" for x :: int by (simp add: mod_mod_cancel)
  show ?thesis unfolding m [of w] m [of w']
    using digits_less [OF assms, of 3600] digits_less [of "w mod 3600" "w' mod 3600" 60] by auto
qed

section \<open>Times and calendar times\<close>

text \<open>The fields of a time: those of its day, of its second in the day, and of its microsecond in the second.\<close>

lemma calendar_key_of:
  "calendar_key (calendar_of time) =
     (let s = time div hz + 946684800; z = s div 86400; w = s mod 86400; u = time mod hz * 1000000 div hz
      in date_of z @ [w div 3600, w mod 3600 div 60, w mod 60] @
         [u div 1000, u mod 1000, (z + 4) mod 7, z - daysFromCivil (fst (civilFromDays z)) 1 1])"
  by (cases "civilFromDays ((time div hz + 946684800) div 86400)")
    (simp only: calendar_of_def calendar_key_def date_key_def clock_key_def date_of_def Let_def prod.case fst_conv OSCalendarTime.simps)

lemma date_of_length [simp]: "length (date_of z) = 3"
  by (simp add: date_of_def split: prod.split)

lemma key_by_date: "date_of z < date_of z' \<Longrightarrow> date_of z @ us < date_of z' @ vs"
  by (rule lex_append_less) simp_all

lemma key_by_clock:
  "(w :: int) < w' \<Longrightarrow> xs @ [w div 3600, w mod 3600 div 60, w mod 60] @ us < xs @ [w' div 3600, w' mod 3600 div 60, w' mod 60] @ vs"
  unfolding lex_append_same by (rule lex_append_less) (simp_all only: list.size clock_increases)

lemma key_by_usec: "(u :: int) < u' \<Longrightarrow> xs @ ys @ [u div 1000, u mod 1000, x, y] < xs @ ys @ [u' div 1000, u' mod 1000, x', y']"
  unfolding lex_append_same Cons_less_Cons using digits_less [of u u' 1000] by fastforce

lemma calendar_later_second:
  assumes "- 9223372036854775808 \<le> t" "t' < 9223372036854775808" "t div hz < t' div hz"
  shows "calendar_of t < calendar_of t'"
proof -
  define s s' where "s = t div hz + 946684800" and "s' = t' div hz + 946684800"
  have "t < t'" using assms(3) zdiv_mono1 [of t' t hz] by linarith
  then have "- 700000000000 \<le> s div 86400" "s' div 86400 \<le> 700000000000"
    using days_of_time [of t] days_of_time [of t'] assms(1,2) unfolding s_def s'_def by simp_all
  moreover have "s < s'" using assms(3) by (simp add: s_def s'_def)
  then have "s div 86400 < s' div 86400 \<or> s div 86400 = s' div 86400 \<and> s mod 86400 < s' mod 86400" by (rule digits_less) simp
  ultimately show ?thesis
    unfolding calendar_less_key calendar_key_of Let_def s_def [symmetric] s'_def [symmetric]
    using key_by_date key_by_clock dates_increase by (elim disjE conjE) (simp_all only:)
qed

lemma calendar_same_second:
  assumes "t \<le> t'" "t div hz = t' div hz"
  shows "calendar_of t \<le> calendar_of t'" and "t + 63 < t' \<Longrightarrow> calendar_of t < calendar_of t'"
proof -
  define q r r' where "q = t div hz" and "r = t mod hz" and "r' = t' mod hz"
  define u u' where "u = r * 1000000 div hz" and "u' = r' * 1000000 div hz"
  have "t = q * hz + r" "t' = q * hz + r'"
    using assms(2) div_mult_mod_eq [of t hz] div_mult_mod_eq [of t' hz] unfolding q_def r_def r'_def by simp_all
  then have r: "r' - r = t' - t" by simp
  have key: "calendar_key (calendar_of t) = calendar_key (calendar_of t')" if "u = u'"
    using that unfolding calendar_key_of Let_def assms(2) r_def [symmetric] r'_def [symmetric] u_def u'_def by (simp only:)
  have less: "calendar_of t < calendar_of t'" if "u < u'"
    unfolding calendar_less_key calendar_key_of Let_def assms(2) r_def [symmetric] r'_def [symmetric] u_def [symmetric] u'_def [symmetric]
    using that by (rule key_by_usec)
  have "u \<le> u'" unfolding u_def u'_def using r assms(1) by (intro zdiv_mono1) simp_all
  then show "calendar_of t \<le> calendar_of t'"
    using less key by (cases "u = u'") (simp_all add: calendar_le_key calendar_less_key)
  show "calendar_of t < calendar_of t'" if "t + 63 < t'"
  proof (rule less)
    have "u * hz \<le> r * 1000000" "r' * 1000000 < u' * hz + hz"
      using div_bounds [of hz "r * 1000000"] div_bounds [of hz "r' * 1000000"] unfolding u_def u'_def by simp_all
    with r that show "u < u'" by linarith
  qed
qed

text \<open>
  C33: calendar times are ordered as the ticks they are made of. The date and time of day of a later time is never earlier,
  by year, month, day, hour, minute, second, millisecond and microsecond, for all 64-bit times, across ends of months and
  leap days; it is later if the times are more than 63 ticks apart, the most that one microsecond can hold; and if one
  date and time of day is later than another, so was its time.
\<close>

theorem OSTicksToCalendarTime_ordered:
  assumes "- 9223372036854775808 \<le> t" "t < 9223372036854775808" "- 9223372036854775808 \<le> t'" "t' < 9223372036854775808"
  shows "(t \<le> t' \<longrightarrow> OSTicksToCalendarTime t (Some c) \<le> OSTicksToCalendarTime t' (Some c'))
    \<and> (t + 63 < t' \<longrightarrow> OSTicksToCalendarTime t (Some c) < OSTicksToCalendarTime t' (Some c'))
    \<and> (OSTicksToCalendarTime t (Some c) < OSTicksToCalendarTime t' (Some c') \<longrightarrow> t < t')"
proof -
  note eq = OSTicksToCalendarTime_eq [OF assms(1,2)] OSTicksToCalendarTime_eq [OF assms(3,4)]
  have mono: "calendar_of x \<le> calendar_of y" if "x \<le> y" "- 9223372036854775808 \<le> x" "y < 9223372036854775808" for x y
    using that calendar_later_second [of x y] calendar_same_second(1) [of x y] zdiv_mono1 [of x y hz]
    by (cases "x div hz = y div hz") auto
  have "calendar_of t < calendar_of t'" if "t + 63 < t'"
    using that assms calendar_later_second [of t t'] calendar_same_second(2) [of t t'] zdiv_mono1 [of t t' hz]
    by (cases "t div hz = t' div hz") auto
  moreover have "t < t'" if "calendar_of t < calendar_of t'"
    using that mono [of t' t] assms by (meson leD linorder_le_less_linear)
  ultimately show ?thesis using mono [of t t'] assms unfolding eq by simp
qed

text \<open>The last tick of February 2000 and the first of March.\<close>

theorem OSTicksToCalendarTime_ordered_witness:
  "OSTicksToCalendarTime (60 * 86400 * 62156250 - 64) (Some calendar_blank) < OSTicksToCalendarTime (60 * 86400 * 62156250) (Some calendar_blank)"
  using OSTicksToCalendarTime_ordered [of "60 * 86400 * 62156250 - 64" "60 * 86400 * 62156250" calendar_blank calendar_blank] by simp

end
