(* ===== verification/GuestMemory.thy ===== *)
theory GuestMemory
  imports Alignment
begin

text \<open>
  \<^verbatim>\<open>source/memory.cpp\<close> and \<^verbatim>\<open>source/cache.cpp\<close>: copying and filling guest memory, and the maintenance of the
  PowerPC caches mapped to the host's. The host's cache operations are libnx calls: \<open>gm_cache\<close> is the log of those
  that were made, with address and length. They do not change what memory holds.
\<close>

datatype cache_call =
    ArmDCacheFlush ptr u32
  | ArmDCacheClean ptr u32
  | ArmICacheInvalidate ptr u32

record guest_memory =
  gm_mem :: memory
  gm_cache :: "cache_call list"

definition cache_op :: "cache_call \<Rightarrow> guest_memory \<Rightarrow> guest_memory" where
  "cache_op c g = g\<lparr>gm_cache := gm_cache g @ [c]\<rparr>"

section \<open>memory.cpp\<close>

definition OSBlockMove :: "ptr \<Rightarrow> ptr \<Rightarrow> u32 \<Rightarrow> s32 \<Rightarrow> guest_memory \<Rightarrow> ptr \<times> guest_memory" where
  "OSBlockMove dst src n flush g =
     (if dst = null \<or> src = null \<or> n = 0 then (dst, g)
      else
        let g1 = g\<lparr>gm_mem := memmove dst src (unat n) (gm_mem g)\<rparr>
        in (dst, if flush \<noteq> 0 then cache_op (ArmDCacheFlush dst n) g1 else g1))"

definition OSBlockSet :: "ptr \<Rightarrow> u8 \<Rightarrow> u32 \<Rightarrow> guest_memory \<Rightarrow> ptr \<times> guest_memory" where
  "OSBlockSet dst v n g =
     (if dst = null \<or> n = 0 then (dst, g) else (dst, g\<lparr>gm_mem := memset dst v (unat n) (gm_mem g)\<rparr>))"

section \<open>cache.cpp\<close>

definition DCFlushRange :: "ptr \<Rightarrow> u32 \<Rightarrow> guest_memory \<Rightarrow> guest_memory" where
  "DCFlushRange addr n g = (if addr \<noteq> null \<and> n \<noteq> 0 then cache_op (ArmDCacheFlush addr n) g else g)"

definition DCStoreRange :: "ptr \<Rightarrow> u32 \<Rightarrow> guest_memory \<Rightarrow> guest_memory" where
  "DCStoreRange addr n g = (if addr \<noteq> null \<and> n \<noteq> 0 then cache_op (ArmDCacheClean addr n) g else g)"

definition roundToCacheLine :: "u32 \<Rightarrow> u32" where
  "roundToCacheLine n = (n + 0x1F) AND NOT 0x1F"

definition DCInvalidateRange :: "ptr \<Rightarrow> u32 \<Rightarrow> guest_memory \<Rightarrow> guest_memory" where
  "DCInvalidateRange addr n g =
     (if addr \<noteq> null \<and> n \<noteq> 0 then cache_op (ArmDCacheFlush addr (roundToCacheLine n)) g else g)"

definition DCZeroRange :: "ptr \<Rightarrow> u32 \<Rightarrow> guest_memory \<Rightarrow> guest_memory" where
  "DCZeroRange addr n g =
     (if addr = null \<or> n = 0 then g
      else
        let rounded = roundToCacheLine n
        in cache_op (ArmDCacheFlush addr rounded) (g\<lparr>gm_mem := memset addr 0 (unat rounded) (gm_mem g)\<rparr>))"

definition DCTouchRange :: "ptr \<Rightarrow> u32 \<Rightarrow> guest_memory \<Rightarrow> guest_memory" where
  "DCTouchRange addr n g = g"

definition ICInvalidateRange :: "ptr \<Rightarrow> u32 \<Rightarrow> guest_memory \<Rightarrow> guest_memory" where
  "ICInvalidateRange addr n g =
     (if addr \<noteq> null \<and> n \<noteq> 0 then cache_op (ArmICacheInvalidate addr (roundToCacheLine n)) g else g)"

definition DCFlushRangeNoSync :: "ptr \<Rightarrow> u32 \<Rightarrow> guest_memory \<Rightarrow> guest_memory" where
  "DCFlushRangeNoSync addr n g =
     (if addr \<noteq> null \<and> n \<noteq> 0 then cache_op (ArmDCacheFlush addr (roundToCacheLine n)) g else g)"

definition DCStoreRangeNoSync :: "ptr \<Rightarrow> u32 \<Rightarrow> guest_memory \<Rightarrow> guest_memory" where
  "DCStoreRangeNoSync addr n g =
     (if addr \<noteq> null \<and> n \<noteq> 0 then cache_op (ArmDCacheClean addr (roundToCacheLine n)) g else g)"

section \<open>What they do\<close>

lemma roundToCacheLine_eq:
  assumes "unat n \<le> 4294967264"
  shows "unat (roundToCacheLine n) = round_up (unat n) 32"
proof -
  have "unat (n + 0x1F) = unat n + 31" using assms by (subst unat_plus_u32) simp_all
  moreover have "(0x1F :: u32) = mask 5" by (simp add: mask_eq_exp_minus_1)
  ultimately show ?thesis
    using and_not_mask_nat [of 5 "n + 0x1F"] by (simp add: roundToCacheLine_def round_up_def add.commute)
qed

text \<open>For the last 31 sizes the sum wraps and the rounded size is zero.\<close>

lemma roundToCacheLine_wraps:
  assumes "4294967264 < unat n"
  shows "roundToCacheLine n = 0"
proof -
  have less: "unat n < 4294967296" by simp
  have "unat (n + 0x1F) = (unat n + 31) mod 4294967296" by (simp add: unat_word_ariths)
  also have "\<dots> = (unat n + 31 - 4294967296) mod 4294967296" using assms by (intro le_mod_geq) simp
  also have "\<dots> = unat n + 31 - 4294967296" using less by (intro mod_less) linarith
  finally have "unat (n + 0x1F) = unat n + 31 - 4294967296" .
  moreover have "(0x1F :: u32) = mask 5" by (simp add: mask_eq_exp_minus_1)
  ultimately have "unat (roundToCacheLine n) = round_down (unat n + 31 - 4294967296) 32"
    using and_not_mask_nat [of 5 "n + 0x1F"] by (simp add: roundToCacheLine_def)
  also have "\<dots> = 0" using less by (simp add: round_down_def del: unat_less_2p32)
  finally show ?thesis by (simp add: unat_eq_0)
qed

text \<open>Overlapping regions are copied as if through a buffer; nothing else changes.\<close>

lemma OSBlockMove_copies:
  assumes "dst \<noteq> null" "src \<noteq> null" "i < unat n"
  shows "gm_mem (snd (OSBlockMove dst src n flush g)) (dst + of_nat i) = gm_mem g (src + of_nat i)"
proof -
  have "unat (of_nat i :: ptr) = i"
    using assms(3) unat_less_2p32 [of n] by (simp add: unat_of_nat del: unat_less_2p32)
  then have "in_bytes dst (unat n) (dst + of_nat i)" using assms(3) by (simp add: in_bytes_def)
  then show ?thesis using assms by (auto simp: OSBlockMove_def memmove_def cache_op_def Let_def)
qed

lemma OSBlockMove_keeps:
  "\<not> in_bytes dst (unat n) a \<Longrightarrow> gm_mem (snd (OSBlockMove dst src n flush g)) a = gm_mem g a"
  by (simp add: OSBlockMove_def memmove_def cache_op_def Let_def)

text \<open>
  DCZeroRange zeroes its size rounded up to whole cache lines of 32 bytes, from the given address on, and flushes
  exactly those bytes: at the start of a line these are the lines the range touches, and no byte of another line. (Elsewhere
  they begin in the middle of a line and end in the middle of another.)
\<close>
theorem DCZeroRange_lines:
  assumes "addr \<noteq> null" "n \<noteq> 0" "unat n \<le> 4294967264" "unat addr + unat n + 31 < 2 ^ 64"
  shows "gm_mem (DCZeroRange addr n g) a =
      (if unat addr \<le> unat a \<and> unat a < unat addr + round_up (unat n) 32 then 0 else gm_mem g a) \<and>
    gm_cache (DCZeroRange addr n g) = gm_cache g @ [ArmDCacheFlush addr (roundToCacheLine n)] \<and>
    (32 dvd unat addr \<longrightarrow>
       (unat addr \<le> unat a \<and> unat a < unat addr + round_up (unat n) 32 \<longleftrightarrow>
        (\<exists>i < unat n. unat a div 32 = (unat addr + i) div 32)))"
proof -
  have r: "unat (roundToCacheLine n) = round_up (unat n) 32" by (rule roundToCacheLine_eq [OF assms(3)])
  have ge: "unat n \<le> round_up (unat n) 32" "round_up (unat n) 32 < unat n + 32" "32 dvd round_up (unat n) 32"
    by (simp_all add: round_up_ge round_up_less)
  have b: "in_bytes addr (round_up (unat n) 32) a \<longleftrightarrow> unat addr \<le> unat a \<and> unat a < unat addr + round_up (unat n) 32"
    using assms(4) ge(2) by (intro in_bytes_iff) simp
  have mem: "gm_mem (DCZeroRange addr n g) a =
      (if unat addr \<le> unat a \<and> unat a < unat addr + round_up (unat n) 32 then 0 else gm_mem g a)"
    using assms(1,2) b by (simp add: DCZeroRange_def cache_op_def Let_def r memset_def)
  have lines: "unat addr \<le> unat a \<and> unat a < unat addr + round_up (unat n) 32 \<longleftrightarrow>
        (\<exists>i < unat n. unat a div 32 = (unat addr + i) div 32)" if al: "32 dvd unat addr"
  proof -
    obtain q where q: "unat addr = 32 * q" using al by (elim dvdE)
    obtain k where k: "round_up (unat n) 32 = 32 * k" using ge(3) by (elim dvdE)
    have n: "32 * (k - 1) < unat n" "0 < k" using ge k assms(2) by (cases k; simp add: word_pos_unat)+
    have "\<exists>i < unat n. unat a div 32 = q + i div 32" if "q \<le> unat a div 32" "unat a div 32 < q + k"
      using that n by (intro exI [of _ "32 * (unat a div 32 - q)"]) (auto intro: le_less_trans [OF _ n(1)])
    moreover have "i div 32 < k" if "i < unat n" for i using that ge(1) k by (simp add: less_mult_imp_div_less mult.commute)
    moreover have "32 * q \<le> unat a \<longleftrightarrow> q \<le> unat a div 32" by (simp add: less_eq_div_iff_mult_less_eq mult.commute)
    moreover have "unat a < 32 * q + 32 * k \<longleftrightarrow> unat a div 32 < q + k"
      by (simp add: div_less_iff_less_mult algebra_simps)
    ultimately show ?thesis unfolding q k by (auto simp: )
  qed
  show ?thesis using mem lines assms(1,2) by (simp add: DCZeroRange_def cache_op_def Let_def)
qed

theorem DCZeroRange_lines_witness:
  "gm_mem (DCZeroRange 0x1010 1 \<lparr>gm_mem = (\<lambda>_. 7), gm_cache = []\<rparr>) 0x102F = 0 \<and>
   gm_mem (DCZeroRange 0x1010 1 \<lparr>gm_mem = (\<lambda>_. 7), gm_cache = []\<rparr>) 0x1000 = 7"
  using DCZeroRange_lines [where addr = "0x1010" and n = 1 and g = "\<lparr>gm_mem = (\<lambda>_. 7), gm_cache = []\<rparr>" and a = "0x102F"]
    DCZeroRange_lines [where addr = "0x1010" and n = 1 and g = "\<lparr>gm_mem = (\<lambda>_. 7), gm_cache = []\<rparr>" and a = "0x1000"]
  by (simp add: round_up_def round_down_def)

end
