(* ===== verification/Driver.thy ===== *)
theory Driver
  imports Prelude
begin

text \<open>
  The driver registry of \<^verbatim>\<open>source/driver.cpp\<close>: 32 slots, each with a save area of 256 bytes. The guest's callbacks are
  addresses; a call of one is recorded in \<open>dw_calls\<close>. The code makes it outside its lock, so what the callback does to
  the registry are calls that follow. The shutdown loop takes the lock once for each slot: its argument \<open>others\<close> is
  what callbacks and other threads do after each. Every other body under the lock is one step. \<open>dw_mem\<close> is the guest
  memory the save areas are copied from and to.
\<close>

section \<open>State\<close>

record OSDriverInterface =
  getName :: ptr
  onInit :: ptr
  onAcquiredForeground :: ptr
  onReleasedForeground :: ptr
  onDone :: ptr

record RegisteredDriver =
  rd_moduleHandle :: u32
  rd_userDriverId :: u32
  rd_iface :: OSDriverInterface
  rd_saveArea :: "u8 list"
  rd_saveAreaUsed :: u32
  rd_used :: bool

definition kMaxDrivers :: nat where
  "kMaxDrivers = 32"

definition kSaveAreaSize :: u32 where
  "kSaveAreaSize = 256"

record driver_world =
  g_drivers :: "RegisteredDriver list"
  dw_inited :: bool
  dw_calls :: "(ptr \<times> u32) list"
  dw_mem :: memory

definition no_driver :: RegisteredDriver where
  "no_driver = \<lparr>rd_moduleHandle = 0, rd_userDriverId = 0,
     rd_iface = \<lparr>getName = null, onInit = null, onAcquiredForeground = null, onReleasedForeground = null, onDone = null\<rparr>,
     rd_saveArea = replicate 256 0, rd_saveAreaUsed = 0, rd_used = False\<rparr>"

definition driver_start :: "memory \<Rightarrow> driver_world" where
  "driver_start m = \<lparr>g_drivers = replicate kMaxDrivers no_driver, dw_inited = False, dw_calls = [], dw_mem = m\<rparr>"

definition driver_ensureInit :: "driver_world \<Rightarrow> driver_world" where
  "driver_ensureInit w = (if dw_inited w then w else w\<lparr>dw_inited := True\<rparr>)"

text \<open>The index loops: the first slot from \<open>i\<close> on with a property.\<close>

fun first_slot :: "('a \<Rightarrow> bool) \<Rightarrow> 'a list \<Rightarrow> nat \<Rightarrow> nat option" where
  "first_slot P [] i = None"
| "first_slot P (x # xs) i = (if P x then Some i else first_slot P xs (i + 1))"

definition find_driver :: "u32 \<Rightarrow> driver_world \<Rightarrow> nat option" where
  "find_driver k w = first_slot (\<lambda>d. rd_used d \<and> rd_userDriverId d = k) (g_drivers w) 0"

section \<open>Operations\<close>

text \<open>The answer, and what is written through the three out parameters when they are not null.\<close>

definition OSDriver_Register ::
    "u32 \<Rightarrow> u32 \<Rightarrow> OSDriverInterface option \<Rightarrow> u32 \<Rightarrow> ptr \<Rightarrow> ptr \<Rightarrow> ptr \<Rightarrow> driver_world \<Rightarrow>
     (s32 \<times> u32 option \<times> u32 option \<times> s32 option) \<times> driver_world" where
  "OSDriver_Register moduleHandle unk1 driverInterface userDriverId outRegisteredUpid outOwnerUpid outDidOSDriverInit w0 =
     (case driverInterface of
        None \<Rightarrow> ((-1, None, None, None), w0)
      | Some i \<Rightarrow>
          let w = driver_ensureInit w0 in
          case first_slot (\<lambda>d. \<not> rd_used d) (g_drivers w) 0 of
            None \<Rightarrow> ((-1, None, None, None), w)
          | Some slot \<Rightarrow>
              let d = \<lparr>rd_moduleHandle = moduleHandle, rd_userDriverId = userDriverId, rd_iface = i,
                    rd_saveArea = replicate (unat kSaveAreaSize) 0, rd_saveAreaUsed = 0, rd_used = True\<rparr>;
                  w1 = w\<lparr>g_drivers := (g_drivers w)[slot := d]\<rparr>
              in ((0, if outRegisteredUpid \<noteq> null then Some 0 else None,
                   if outOwnerUpid \<noteq> null then Some 0 else None,
                   if outDidOSDriverInit \<noteq> null then Some 1 else None),
                  if onInit i \<noteq> null then w1\<lparr>dw_calls := dw_calls w1 @ [(onInit i, userDriverId)]\<rparr> else w1))"

definition OSDriver_Deregister :: "u32 \<Rightarrow> u32 \<Rightarrow> driver_world \<Rightarrow> s32 \<times> driver_world" where
  "OSDriver_Deregister moduleHandle userDriverId w0 =
     (let w = driver_ensureInit w0 in
      case find_driver userDriverId w of
        None \<Rightarrow> (-1, w)
      | Some j \<Rightarrow> (0, w\<lparr>g_drivers := (g_drivers w)[j := (g_drivers w ! j)\<lparr>rd_used := False\<rparr>]\<rparr>))"

definition OSDriver_CopyToSaveArea :: "u32 \<Rightarrow> ptr \<Rightarrow> u32 \<Rightarrow> driver_world \<Rightarrow> s32 \<times> driver_world" where
  "OSDriver_CopyToSaveArea driverId data n w0 =
     (if data = null \<or> kSaveAreaSize < n then (-1, w0)
      else
        let w = driver_ensureInit w0 in
        case find_driver driverId w of
          None \<Rightarrow> (-1, w)
        | Some j \<Rightarrow>
            let d = g_drivers w ! j;
                bytes = map (\<lambda>i. dw_mem w (data + of_nat i)) [0..<unat n]
            in (0, w\<lparr>g_drivers := (g_drivers w)
                  [j := d\<lparr>rd_saveArea := bytes @ drop (unat n) (rd_saveArea d), rd_saveAreaUsed := n\<rparr>]\<rparr>))"

definition OSDriver_CopyFromSaveArea :: "u32 \<Rightarrow> ptr \<Rightarrow> u32 \<Rightarrow> driver_world \<Rightarrow> s32 \<times> driver_world" where
  "OSDriver_CopyFromSaveArea driverId data n w0 =
     (if data = null \<or> kSaveAreaSize < n then (-1, w0)
      else
        let w = driver_ensureInit w0 in
        case find_driver driverId w of
          None \<Rightarrow> (-1, w)
        | Some j \<Rightarrow>
            (0, w\<lparr>dw_mem := (\<lambda>a. if in_bytes data (unat n) a
                  then rd_saveArea (g_drivers w ! j) ! unat (a - data) else dw_mem w a)\<rparr>))"

text \<open>One turn of the shutdown loop, and the loop.\<close>

definition shutdown_slot :: "nat \<Rightarrow> driver_world \<Rightarrow> driver_world" where
  "shutdown_slot i w =
     (let d = g_drivers w ! i;
          active = rd_used d;
          w1 = (if active then w\<lparr>g_drivers := (g_drivers w)[i := d\<lparr>rd_used := False\<rparr>]\<rparr> else w)
      in if active \<and> onDone (rd_iface d) \<noteq> null
         then w1\<lparr>dw_calls := dw_calls w1 @ [(onDone (rd_iface d), rd_userDriverId d)]\<rparr> else w1)"

primrec shutdown_loop :: "(nat \<Rightarrow> driver_world \<Rightarrow> driver_world) \<Rightarrow> nat \<Rightarrow> nat \<Rightarrow> driver_world \<Rightarrow> driver_world" where
  "shutdown_loop others 0 i w = w"
| "shutdown_loop others (Suc n) i w = shutdown_loop others n (i + 1) (others i (shutdown_slot i w))"

definition coreinitNxDriverShutdown :: "(nat \<Rightarrow> driver_world \<Rightarrow> driver_world) \<Rightarrow> driver_world \<Rightarrow> driver_world" where
  "coreinitNxDriverShutdown others w = shutdown_loop others kMaxDrivers 0 (driver_ensureInit w)"

section \<open>Sequences of calls\<close>

datatype driver_call =
    Dr_register u32 OSDriverInterface u32
  | Dr_deregister u32
  | Dr_copy_to u32 ptr u32
  | Dr_copy_from u32 ptr u32
  | Dr_write ptr u8

text \<open>\<open>Dr_write\<close> is a write of the guest to its memory.\<close>

fun driver_step :: "driver_call \<Rightarrow> driver_world \<Rightarrow> driver_world" where
  "driver_step (Dr_register m i k) w = snd (OSDriver_Register m 0 (Some i) k null null null w)"
| "driver_step (Dr_deregister k) w = snd (OSDriver_Deregister 0 k w)"
| "driver_step (Dr_copy_to k p n) w = snd (OSDriver_CopyToSaveArea k p n w)"
| "driver_step (Dr_copy_from k p n) w = snd (OSDriver_CopyFromSaveArea k p n w)"
| "driver_step (Dr_write p v) w = w\<lparr>dw_mem := (dw_mem w)(p := v)\<rparr>"

primrec driver_run :: "driver_call list \<Rightarrow> driver_world \<Rightarrow> driver_world" where
  "driver_run [] w = w"
| "driver_run (c # cs) w = driver_run cs (driver_step c w)"

text \<open>A call that could change what the save area of driver \<open>k\<close> holds, or which driver \<open>k\<close> names.\<close>

fun concerns :: "u32 \<Rightarrow> driver_call \<Rightarrow> bool" where
  "concerns k (Dr_register m i k') \<longleftrightarrow> k' = k"
| "concerns k (Dr_deregister k') \<longleftrightarrow> k' = k"
| "concerns k (Dr_copy_to k' p n) \<longleftrightarrow> k' = k"
| "concerns k _ \<longleftrightarrow> False"

section \<open>Slots\<close>

lemma first_slot_Some:
  "first_slot P xs i = Some j \<longleftrightarrow> i \<le> j \<and> j - i < length xs \<and> P (xs ! (j - i)) \<and> (\<forall>k < j - i. \<not> P (xs ! k))"
proof (induction P xs i rule: first_slot.induct)
  case (2 P x xs i)
  show ?case
  proof (cases "P x")
    case True
    then show ?thesis by (auto simp: ) (metis diff_is_0_eq' gr0I le_neq_implies_less nth_Cons_0 zero_less_diff)
  next
    case False
    have "i + 1 \<le> j \<and> j - (i + 1) < length xs \<and> P (xs ! (j - (i + 1))) \<and> (\<forall>k < j - (i + 1). \<not> P (xs ! k)) \<longleftrightarrow>
        i \<le> j \<and> j - i < length (x # xs) \<and> P ((x # xs) ! (j - i)) \<and> (\<forall>k < j - i. \<not> P ((x # xs) ! k))"
    proof (cases "j - i")
      case 0
      then show ?thesis using False by (cases "j = i") auto
    next
      case (Suc m)
      then have "j = Suc (i + m)" by simp
      then show ?thesis using False by (auto simp: less_Suc_eq_0_disj)
    qed
    then show ?thesis using 2 False by simp
  qed
qed simp

lemma first_slot_None: "first_slot P xs i = None \<longleftrightarrow> (\<forall>x \<in> set xs. \<not> P x)"
  by (induction P xs i rule: first_slot.induct) auto

section \<open>The well-formed registry\<close>

definition drivers_ok :: "RegisteredDriver list \<Rightarrow> bool" where
  "drivers_ok ds \<longleftrightarrow> length ds = kMaxDrivers \<and> (\<forall>d \<in> set ds. length (rd_saveArea d) = 256)"

definition driver_ok :: "driver_world \<Rightarrow> bool" where
  "driver_ok w \<longleftrightarrow> drivers_ok (g_drivers w)"

lemma ensureInit_frame [simp]:
  "g_drivers (driver_ensureInit w) = g_drivers w" "dw_mem (driver_ensureInit w) = dw_mem w"
  "dw_calls (driver_ensureInit w) = dw_calls w" "find_driver k (driver_ensureInit w) = find_driver k w"
  by (simp_all add: driver_ensureInit_def find_driver_def)

lemma drivers_ok_update [intro]: "drivers_ok ds \<Longrightarrow> length (rd_saveArea d) = 256 \<Longrightarrow> drivers_ok (ds[j := d])"
  by (auto simp: drivers_ok_def dest!: set_update_subset_insert [THEN subsetD])

lemma find_driver_Some:
  "find_driver k w = Some j \<Longrightarrow> j < length (g_drivers w) \<and> rd_used (g_drivers w ! j) \<and> rd_userDriverId (g_drivers w ! j) = k"
  by (simp add: find_driver_def first_slot_Some)

lemma area_length: "driver_ok w \<Longrightarrow> find_driver k w = Some j \<Longrightarrow> length (rd_saveArea (g_drivers w ! j)) = 256"
  using find_driver_Some [of k w j] by (simp add: driver_ok_def drivers_ok_def)

lemmas driver_ops = OSDriver_Register_def OSDriver_Deregister_def OSDriver_CopyToSaveArea_def OSDriver_CopyFromSaveArea_def

lemma driver_step_ok:
  assumes "driver_ok w"
  shows "driver_ok (driver_step c w)"
proof -
  note ok = assms [unfolded driver_ok_def]
  have n: "\<not> kSaveAreaSize < n \<Longrightarrow> unat n \<le> 256" for n by (simp add: kSaveAreaSize_def word_less_nat_alt)
  show ?thesis
    using ok n area_length [OF assms]
    by (cases c) (auto simp: driver_ops Let_def driver_ok_def kSaveAreaSize_def split: option.split)
qed

lemma driver_run_ok: "driver_ok w \<Longrightarrow> driver_ok (driver_run cs w)"
  by (induction cs arbitrary: w) (simp_all add: driver_step_ok)

lemma driver_start_ok: "driver_ok (driver_start m)"
  by (simp add: driver_ok_def drivers_ok_def driver_start_def no_driver_def)

section \<open>A save area keeps its bytes\<close>

text \<open>The save area \<open>k\<close> names.\<close>

definition area_of :: "u32 \<Rightarrow> driver_world \<Rightarrow> u8 list option" where
  "area_of k w = map_option (\<lambda>j. rd_saveArea (g_drivers w ! j)) (find_driver k w)"

lemma find_driver_update:
  assumes "j < length (g_drivers w)" "g_drivers w' = (g_drivers w)[j := d]"
    and "\<not> (rd_used (g_drivers w ! j) \<and> rd_userDriverId (g_drivers w ! j) = k)" "\<not> (rd_used d \<and> rd_userDriverId d = k)"
  shows "find_driver k w' = find_driver k w" "area_of k w' = area_of k w"
proof -
  have "first_slot P (xs[j := d]) i = first_slot P xs i" if "\<not> P (xs ! j)" "\<not> P d" "j < length xs"
    for P and xs :: "RegisteredDriver list" and i j
    using that by (induction P xs i arbitrary: j rule: first_slot.induct) (auto simp: nth_Cons split: nat.splits)
  then show f: "find_driver k w' = find_driver k w"
    using assms by (simp add: find_driver_def)
  have "g_drivers w' ! i = g_drivers w ! i" if "find_driver k w = Some i" for i
    using find_driver_Some [OF that] assms by (cases "i = j") auto
  then show "area_of k w' = area_of k w" using f by (cases "find_driver k w") (simp_all add: area_of_def)
qed

lemma area_of_cong: "g_drivers w' = g_drivers w \<Longrightarrow> area_of k w' = area_of k w"
  by (simp add: area_of_def find_driver_def)

lemma area_kept_step:
  assumes "\<not> concerns k c"
  shows "area_of k (driver_step c w) = area_of k w"
proof (cases c)
  case (Dr_register m i k')
  show ?thesis
  proof (cases "first_slot (\<lambda>d. \<not> rd_used d) (g_drivers w) 0")
    case None
    then show ?thesis using Dr_register by (intro area_of_cong) (simp add: OSDriver_Register_def Let_def)
  next
    case (Some j)
    then have "j < length (g_drivers w)" "\<not> rd_used (g_drivers w ! j)" by (simp_all add: first_slot_Some)
    then show ?thesis
      using Some assms Dr_register
      by (intro find_driver_update(2) [of j w _ "\<lparr>rd_moduleHandle = m, rd_userDriverId = k', rd_iface = i,
            rd_saveArea = replicate (unat kSaveAreaSize) 0, rd_saveAreaUsed = 0, rd_used = True\<rparr>"])
        (auto simp: OSDriver_Register_def Let_def)
  qed
next
  case (Dr_deregister k')
  show ?thesis
  proof (cases "find_driver k' w")
    case None
    then show ?thesis using Dr_deregister by (intro area_of_cong) (simp add: OSDriver_Deregister_def Let_def)
  next
    case (Some j)
    then show ?thesis
      using find_driver_Some [OF Some] assms Dr_deregister
      by (intro find_driver_update(2) [of j w _ "(g_drivers w ! j)\<lparr>rd_used := False\<rparr>"])
        (auto simp: OSDriver_Deregister_def Let_def)
  qed
next
  case (Dr_copy_to k' p n)
  show ?thesis
  proof (cases "p = null \<or> kSaveAreaSize < n \<or> find_driver k' w = None")
    case True
    then show ?thesis using Dr_copy_to by (intro area_of_cong) (auto simp: OSDriver_CopyToSaveArea_def Let_def)
  next
    case False
    then obtain j where j: "find_driver k' w = Some j" by auto
    show ?thesis
      using find_driver_Some [OF j] assms Dr_copy_to False j
      by (intro find_driver_update(2) [of j w _ "(g_drivers w ! j)\<lparr>rd_saveArea :=
            map (\<lambda>i. dw_mem w (p + of_nat i)) [0..<unat n] @ drop (unat n) (rd_saveArea (g_drivers w ! j)), rd_saveAreaUsed := n\<rparr>"])
        (auto simp: OSDriver_CopyToSaveArea_def Let_def)
  qed
next
  case (Dr_copy_from k' p n)
  then show ?thesis by (intro area_of_cong) (auto simp: OSDriver_CopyFromSaveArea_def Let_def split: option.split)
next
  case (Dr_write p v)
  then show ?thesis by (intro area_of_cong) simp
qed

lemma area_kept_run: "\<forall>c \<in> set cs. \<not> concerns k c \<Longrightarrow> area_of k (driver_run cs w) = area_of k w"
  by (induction cs arbitrary: w) (simp_all add: area_kept_step)

lemma copy_to_area:
  assumes "driver_ok w" "find_driver k w = Some j" "p \<noteq> null" "unat n \<le> 256"
  shows "fst (OSDriver_CopyToSaveArea k p n w) = 0"
    "\<exists>rest. area_of k (snd (OSDriver_CopyToSaveArea k p n w)) = Some (map (\<lambda>i. dw_mem w (p + of_nat i)) [0..<unat n] @ rest)"
proof -
  let ?w = "snd (OSDriver_CopyToSaveArea k p n w)"
  let ?d = "(g_drivers w ! j)\<lparr>rd_saveArea :=
      map (\<lambda>i. dw_mem w (p + of_nat i)) [0..<unat n] @ drop (unat n) (rd_saveArea (g_drivers w ! j)), rd_saveAreaUsed := n\<rparr>"
  have n: "\<not> kSaveAreaSize < n" using assms(4) by (simp add: kSaveAreaSize_def word_less_nat_alt)
  then show "fst (OSDriver_CopyToSaveArea k p n w) = 0" using assms(2,3) by (simp add: OSDriver_CopyToSaveArea_def Let_def)
  have w: "g_drivers ?w = (g_drivers w)[j := ?d]" using assms(2,3) n by (simp add: OSDriver_CopyToSaveArea_def Let_def)
  have j: "j < length (g_drivers w)" "rd_used (g_drivers w ! j)" "rd_userDriverId (g_drivers w ! j) = k"
    "\<forall>i<j. \<not> (rd_used (g_drivers w ! i) \<and> rd_userDriverId (g_drivers w ! i) = k)"
    using assms(2) by (simp_all add: find_driver_def first_slot_Some)
  then have "find_driver k ?w = Some j" by (simp add: find_driver_def first_slot_Some w)
  then show "\<exists>rest. area_of k ?w = Some (map (\<lambda>i. dw_mem w (p + of_nat i)) [0..<unat n] @ rest)"
    using j(1) w by (simp add: area_of_def)
qed

text \<open>
  C39: what a driver copies to its save area comes back byte for byte, for any part of it, after any other calls:
  registrations, deregistrations and copies of other drivers, and writes to the guest's memory. Copying back changes
  only the destination.
\<close>
theorem OSDriver_saveArea_kept:
  assumes "w = driver_run cs0 (driver_start m)" "find_driver k w \<noteq> None" "p \<noteq> null" "q \<noteq> null"
    and "unat n \<le> 256" "unat l \<le> unat n" "\<forall>c \<in> set cs. \<not> concerns k c"
    and "w2 = driver_run cs (snd (OSDriver_CopyToSaveArea k p n w))"
  shows "fst (OSDriver_CopyToSaveArea k p n w) = 0 \<and> fst (OSDriver_CopyFromSaveArea k q l w2) = 0 \<and>
    (\<forall>i < unat l. dw_mem (snd (OSDriver_CopyFromSaveArea k q l w2)) (q + of_nat i) = dw_mem w (p + of_nat i)) \<and>
    (\<forall>a. \<not> in_bytes q (unat l) a \<longrightarrow> dw_mem (snd (OSDriver_CopyFromSaveArea k q l w2)) a = dw_mem w2 a)"
proof -
  have ok: "driver_ok w" unfolding assms(1) by (rule driver_run_ok [OF driver_start_ok])
  obtain j where j: "find_driver k w = Some j" using assms(2) by auto
  note to = copy_to_area [OF ok j assms(3,5)]
  obtain rest where "area_of k w2 = Some (map (\<lambda>i. dw_mem w (p + of_nat i)) [0..<unat n] @ rest)"
    using to(2) area_kept_run [OF assms(7)] assms(8) by auto
  then obtain j2 where j2: "find_driver k w2 = Some j2"
    "rd_saveArea (g_drivers w2 ! j2) = map (\<lambda>i. dw_mem w (p + of_nat i)) [0..<unat n] @ rest"
    by (auto simp: area_of_def)
  have l: "\<not> kSaveAreaSize < l" using assms(5,6) by (simp add: kSaveAreaSize_def word_less_nat_alt)
  have u: "unat (of_nat i :: ptr) = i" if "i < unat l" for i
    using that unat_less_2p32 [of l] by (simp add: unat_of_nat del: unat_less_2p32)
  show ?thesis
    using to(1) j2 l assms(4,6) by (auto simp: OSDriver_CopyFromSaveArea_def Let_def in_bytes_def u nth_append)
qed

theorem OSDriver_saveArea_kept_witness:
  "let w = driver_run [Dr_register 1 \<lparr>getName = 0, onInit = 0, onAcquiredForeground = 0, onReleasedForeground = 0, onDone = 0\<rparr> 7]
       (driver_start (\<lambda>a. if a = 0x100 then 42 else 0));
     w2 = driver_run [Dr_write 0x100 9, Dr_deregister 8] (snd (OSDriver_CopyToSaveArea 7 0x100 4 w))
   in dw_mem (snd (OSDriver_CopyFromSaveArea 7 0x200 2 w2)) 0x200 = 42"
proof -
  let ?w = "driver_run [Dr_register 1 \<lparr>getName = 0, onInit = 0, onAcquiredForeground = 0, onReleasedForeground = 0, onDone = 0\<rparr> 7]
       (driver_start (\<lambda>a. if a = 0x100 then 42 else 0))"
  let ?cs = "[Dr_write 0x100 9, Dr_deregister 8]"
  have f: "find_driver 7 ?w \<noteq> None"
    by (simp add: OSDriver_Register_def Let_def driver_start_def kMaxDrivers_def no_driver_def find_driver_def first_slot_None
        numeral_nat)
  have "\<forall>i < unat (2 :: u32). dw_mem (snd (OSDriver_CopyFromSaveArea 7 0x200 2
      (driver_run ?cs (snd (OSDriver_CopyToSaveArea 7 0x100 4 ?w))))) (0x200 + of_nat i) = dw_mem ?w (0x100 + of_nat i)"
    using OSDriver_saveArea_kept [OF refl f, of 256 512 4 2 ?cs, OF _ _ _ _ _ refl] by simp
  then have "dw_mem (snd (OSDriver_CopyFromSaveArea 7 0x200 2
      (driver_run ?cs (snd (OSDriver_CopyToSaveArea 7 0x100 4 ?w))))) (0x200 + of_nat 0) = dw_mem ?w (0x100 + of_nat 0)"
    by (rule allE [where x = 0]) simp
  moreover have "dw_mem ?w 0x100 = 42"
    by (simp add: OSDriver_Register_def Let_def driver_start_def driver_ensureInit_def split: option.split)
  ultimately show ?thesis unfolding Let_def semiring_1_class.of_nat_0 add.right_neutral by (rule trans)
qed

section \<open>Shutdown\<close>

definition done_calls :: "RegisteredDriver list \<Rightarrow> (ptr \<times> u32) list" where
  "done_calls ds = map (\<lambda>d. (onDone (rd_iface d), rd_userDriverId d))
     (filter (\<lambda>d. rd_used d \<and> onDone (rd_iface d) \<noteq> null) ds)"

lemma shutdown_slot_eq:
  assumes "i < length (g_drivers w)"
  shows "g_drivers (shutdown_slot i w) = (g_drivers w)[i := (g_drivers w ! i)\<lparr>rd_used := False\<rparr>]"
    "dw_calls (shutdown_slot i w) = dw_calls w @ done_calls [g_drivers w ! i]"
proof -
  have "(g_drivers w)[i := (g_drivers w ! i)\<lparr>rd_used := False\<rparr>] = g_drivers w" if "\<not> rd_used (g_drivers w ! i)"
    using that assms by (simp add: list_update_same_conv)
  then show "g_drivers (shutdown_slot i w) = (g_drivers w)[i := (g_drivers w ! i)\<lparr>rd_used := False\<rparr>]"
    by (simp add: shutdown_slot_def Let_def)
  show "dw_calls (shutdown_slot i w) = dw_calls w @ done_calls [g_drivers w ! i]"
    by (simp add: shutdown_slot_def Let_def done_calls_def)
qed

lemma shutdown_loop_eq:
  assumes "\<forall>i w. g_drivers (others i w) = g_drivers w \<and> dw_calls (others i w) = dw_calls w"
    and "length (g_drivers w) = i + n"
  shows "g_drivers (shutdown_loop others n i w) = take i (g_drivers w) @ map (\<lambda>d. d\<lparr>rd_used := False\<rparr>) (drop i (g_drivers w)) \<and>
    dw_calls (shutdown_loop others n i w) = dw_calls w @ done_calls (drop i (g_drivers w))"
  using assms(2)
proof (induction n arbitrary: i w)
  case 0
  then show ?case by (simp add: done_calls_def)
next
  case (Suc n)
  let ?w = "others i (shutdown_slot i w)" and ?d = "g_drivers w ! i"
  have i: "i < length (g_drivers w)" using Suc.prems by simp
  have w: "g_drivers ?w = (g_drivers w)[i := ?d\<lparr>rd_used := False\<rparr>]" "dw_calls ?w = dw_calls w @ done_calls [?d]"
    using shutdown_slot_eq [OF i] assms(1) by simp_all
  have d: "drop i (g_drivers w) = ?d # drop (Suc i) (g_drivers w)" by (rule Cons_nth_drop_Suc [OF i, symmetric])
  have t: "take (Suc i) ((g_drivers w)[i := x]) = take i (g_drivers w) @ [x]" for x
    using i by (simp add: take_Suc_conv_app_nth)
  have IH: "g_drivers (shutdown_loop others n (Suc i) ?w) =
        take (Suc i) (g_drivers ?w) @ map (\<lambda>d. d\<lparr>rd_used := False\<rparr>) (drop (Suc i) (g_drivers ?w)) \<and>
      dw_calls (shutdown_loop others n (Suc i) ?w) = dw_calls ?w @ done_calls (drop (Suc i) (g_drivers ?w))"
    using Suc.IH [of ?w "Suc i"] Suc.prems w(1) by simp
  have c: "done_calls (x # xs) = done_calls [x] @ done_calls xs" for x xs by (simp add: done_calls_def)
  show ?case using IH unfolding w d c [of ?d "drop (Suc i) (g_drivers w)"] t by simp
qed

text \<open>
  The shutdown calls onDone once for each registered driver that has one, in slot order, and leaves none registered,
  when callbacks and other threads leave the registry alone meanwhile; doing it again calls nothing.
\<close>

lemma coreinitNxDriverShutdown_once:
  assumes "driver_ok w" "\<forall>i w. g_drivers (others i w) = g_drivers w \<and> dw_calls (others i w) = dw_calls w"
  defines "w1 \<equiv> coreinitNxDriverShutdown others w"
  shows "dw_calls w1 = dw_calls w @ done_calls (g_drivers w)" "\<forall>d \<in> set (g_drivers w1). \<not> rd_used d"
    "dw_calls (coreinitNxDriverShutdown others w1) = dw_calls w1"
proof -
  have run: "g_drivers (coreinitNxDriverShutdown others v) = map (\<lambda>d. d\<lparr>rd_used := False\<rparr>) (g_drivers v)"
    "dw_calls (coreinitNxDriverShutdown others v) = dw_calls v @ done_calls (g_drivers v)"
    if "length (g_drivers v) = kMaxDrivers" for v
    using shutdown_loop_eq [OF assms(2), of "driver_ensureInit v" 0 kMaxDrivers] that
    by (simp_all add: coreinitNxDriverShutdown_def)
  have l: "length (g_drivers w) = kMaxDrivers" using assms(1) by (simp add: driver_ok_def drivers_ok_def)
  show "dw_calls w1 = dw_calls w @ done_calls (g_drivers w)" using run(2) [OF l] by (simp add: w1_def)
  show none: "\<forall>d \<in> set (g_drivers w1). \<not> rd_used d" using run(1) [OF l] by (simp add: w1_def)
  have "length (g_drivers w1) = kMaxDrivers" using run(1) [OF l] l by (simp add: w1_def)
  from run(2) [OF this] show "dw_calls (coreinitNxDriverShutdown others w1) = dw_calls w1"
    using none by (simp add: done_calls_def filter_empty_conv)
qed

end
