(* ===== verification/SysConfig.thy ===== *)
theory SysConfig
  imports Prelude "HOL-Library.Sublist"
begin

text \<open>
  The system settings of \<^verbatim>\<open>source/userconfig.cpp\<close> and \<^verbatim>\<open>source/mcp.cpp\<close>. The console's own settings come from
  libnx: \<open>set_api\<close> holds what its calls answer, \<open>None\<close> for a failure, and the enumerators the code names; the rest
  of those enumerations is one constructor. Settings entries are records apart from the guest memory \<open>uw_mem\<close> their data
  pointers point to. A name is the C string in its field. \<open>uw_log\<close> is what \<^verbatim>\<open>OSReport\<close> was given.
\<close>

section \<open>The parameter\<close>

datatype SetLanguage =
    SetLanguage_JA | SetLanguage_ENUS | SetLanguage_ENGB | SetLanguage_FR | SetLanguage_FRCA | SetLanguage_DE
  | SetLanguage_IT | SetLanguage_ES | SetLanguage_ES419 | SetLanguage_ZHCN | SetLanguage_ZHHANS | SetLanguage_KO
  | SetLanguage_NL | SetLanguage_PT | SetLanguage_PTBR | SetLanguage_RU | SetLanguage_ZHTW | SetLanguage_ZHHANT
  | SetLanguage_other nat

datatype SetRegion =
  SetRegion_JPN | SetRegion_USA | SetRegion_EUR | SetRegion_AUS | SetRegion_HTK | SetRegion_other nat

record set_api =
  setInitialize :: bool
  setGetSystemLanguage :: "u64 option"
  setMakeLanguage :: "u64 \<Rightarrow> SetLanguage option"
  setGetRegionCode :: "SetRegion option"

section \<open>Keys and values\<close>

record UCSysConfig =
  uc_name :: string
  uc_access :: u32
  uc_dataType :: u32
  uc_error :: s32
  uc_dataSize :: u32
  uc_data :: ptr

abbreviation (input) UC_DATATYPE_UNSIGNED_BYTE :: u32 where "UC_DATATYPE_UNSIGNED_BYTE \<equiv> 1"
abbreviation (input) UC_DATATYPE_UNSIGNED_SHORT :: u32 where "UC_DATATYPE_UNSIGNED_SHORT \<equiv> 2"
abbreviation (input) UC_DATATYPE_UNSIGNED_INT :: u32 where "UC_DATATYPE_UNSIGNED_INT \<equiv> 3"
abbreviation (input) UC_DATATYPE_SIGNED_INT :: u32 where "UC_DATATYPE_SIGNED_INT \<equiv> 4"

abbreviation (input) UC_ERROR_OK :: s32 where "UC_ERROR_OK \<equiv> 0"
abbreviation (input) UC_ERROR_INVALID_PARAM :: s32 where "UC_ERROR_INVALID_PARAM \<equiv> - 0x200005"
abbreviation (input) UC_ERROR_KEY_NOT_FOUND :: s32 where "UC_ERROR_KEY_NOT_FOUND \<equiv> - 0x200009"

record uc_world =
  uw_setInited :: bool
  uw_mcp_setInited :: bool
  uw_mem :: memory
  uw_log :: "string list"

definition ensureSettings :: "set_api \<Rightarrow> uc_world \<Rightarrow> uc_world" where
  "ensureSettings api w = (if \<not> uw_setInited w \<and> setInitialize api then w\<lparr>uw_setInited := True\<rparr> else w)"

fun cafe_language_code :: "SetLanguage \<Rightarrow> u32" where
  "cafe_language_code SetLanguage_JA = 0"
| "cafe_language_code SetLanguage_ENUS = 1"
| "cafe_language_code SetLanguage_ENGB = 1"
| "cafe_language_code SetLanguage_FR = 2"
| "cafe_language_code SetLanguage_FRCA = 2"
| "cafe_language_code SetLanguage_DE = 3"
| "cafe_language_code SetLanguage_IT = 4"
| "cafe_language_code SetLanguage_ES = 5"
| "cafe_language_code SetLanguage_ES419 = 5"
| "cafe_language_code SetLanguage_ZHCN = 6"
| "cafe_language_code SetLanguage_ZHHANS = 6"
| "cafe_language_code SetLanguage_KO = 7"
| "cafe_language_code SetLanguage_NL = 8"
| "cafe_language_code SetLanguage_PT = 9"
| "cafe_language_code SetLanguage_PTBR = 9"
| "cafe_language_code SetLanguage_RU = 10"
| "cafe_language_code SetLanguage_ZHTW = 11"
| "cafe_language_code SetLanguage_ZHHANT = 11"
| "cafe_language_code (SetLanguage_other n) = 1"

definition language_of :: "set_api \<Rightarrow> SetLanguage" where
  "language_of api =
     (case setGetSystemLanguage api of
        None \<Rightarrow> SetLanguage_ENUS
      | Some code \<Rightarrow> (case setMakeLanguage api code of None \<Rightarrow> SetLanguage_ENUS | Some l \<Rightarrow> l))"

definition cafeLanguage :: "set_api \<Rightarrow> uc_world \<Rightarrow> u32 \<times> uc_world" where
  "cafeLanguage api w = (cafe_language_code (language_of api), ensureSettings api w)"

fun cafe_country_code :: "SetRegion \<Rightarrow> u32" where
  "cafe_country_code SetRegion_JPN = 1"
| "cafe_country_code SetRegion_USA = 49"
| "cafe_country_code SetRegion_EUR = 110"
| "cafe_country_code SetRegion_AUS = 65"
| "cafe_country_code SetRegion_HTK = 128"
| "cafe_country_code (SetRegion_other n) = 49"

definition region_of :: "set_api \<Rightarrow> SetRegion" where
  "region_of api = (case setGetRegionCode api of None \<Rightarrow> SetRegion_USA | Some r \<Rightarrow> r)"

definition cafeCountry :: "set_api \<Rightarrow> uc_world \<Rightarrow> u32 \<times> uc_world" where
  "cafeCountry api w = (cafe_country_code (region_of api), ensureSettings api w)"

text \<open>The bytes of a value as the little-endian host stores it.\<close>

definition store_le :: "nat \<Rightarrow> u32 \<Rightarrow> ptr \<Rightarrow> memory \<Rightarrow> memory" where
  "store_le n v p m = (\<lambda>a. if in_bytes p n a then ucast (drop_bit (8 * unat (a - p)) v) else m a)"

definition uc_store :: "UCSysConfig \<Rightarrow> u32 \<Rightarrow> uc_world \<Rightarrow> bool \<times> uc_world" where
  "uc_store s v w =
     (if uc_data s = null \<or> uc_dataSize s = 0 then (False, w)
      else if uc_dataType s = UC_DATATYPE_UNSIGNED_BYTE then (True, w\<lparr>uw_mem := store_le 1 v (uc_data s) (uw_mem w)\<rparr>)
      else if uc_dataType s = UC_DATATYPE_UNSIGNED_SHORT then (True, w\<lparr>uw_mem := store_le 2 v (uc_data s) (uw_mem w)\<rparr>)
      else if uc_dataType s = UC_DATATYPE_UNSIGNED_INT \<or> uc_dataType s = UC_DATATYPE_SIGNED_INT
      then (True, w\<lparr>uw_mem := store_le 4 v (uc_data s) (uw_mem w)\<rparr>)
      else (False, w))"

text \<open>\<^verbatim>\<open>strstr(s, n)\<close>: whether \<open>n\<close> occurs in \<open>s\<close>.\<close>

fun strstr :: "string \<Rightarrow> string \<Rightarrow> bool" where
  "strstr [] n \<longleftrightarrow> n = []"
| "strstr (c # s) n \<longleftrightarrow> take (length n) (c # s) = n \<or> strstr s n"

definition uc_resolve :: "set_api \<Rightarrow> UCSysConfig \<Rightarrow> uc_world \<Rightarrow> bool \<times> uc_world" where
  "uc_resolve api s w =
     (let n = uc_name s in
      if strstr n ''language'' then (let (v, w1) = cafeLanguage api w in uc_store s v w1)
      else if strstr n ''cntry_reg'' then (let (v, w1) = cafeCountry api w in uc_store s v w1)
      else if strstr n ''eula_agree'' then uc_store s 1 w
      else if strstr n ''eco'' then uc_store s 0 w
      else if strstr n ''initial_launch'' then uc_store s 0 w
      else if strstr n ''parent'' then uc_store s 0 w
      else (False, w))"

section \<open>Operations of userconfig.cpp\<close>

definition UCOpen :: s32 where
  "UCOpen = 1"

definition UCClose :: "s32 \<Rightarrow> s32" where
  "UCClose handle = UC_ERROR_OK"

definition unknown_key :: "string \<Rightarrow> string" where
  "unknown_key n = ''coreinit-nx: UCReadSysConfig unknown key '' @ [CHR 0x27] @ n @ [CHR 0x27, CHR 0x0A]"

text \<open>The loop over the entries; the result carries \<^verbatim>\<open>overall\<close>.\<close>

fun uc_read :: "set_api \<Rightarrow> UCSysConfig list \<Rightarrow> s32 \<Rightarrow> uc_world \<Rightarrow> s32 \<times> UCSysConfig list \<times> uc_world" where
  "uc_read api [] overall w = (overall, [], w)"
| "uc_read api (s # ss) overall w =
     (case uc_resolve api s w of
        (True, w1) \<Rightarrow>
          (let (r, ss', w2) = uc_read api ss overall w1 in (r, s\<lparr>uc_error := UC_ERROR_OK\<rparr> # ss', w2))
      | (False, w1) \<Rightarrow>
          (let (r, ss', w2) = uc_read api ss UC_ERROR_KEY_NOT_FOUND
             (w1\<lparr>uw_log := uw_log w1 @ [unknown_key (uc_name s)]\<rparr>)
           in (r, s\<lparr>uc_error := UC_ERROR_KEY_NOT_FOUND\<rparr> # ss', w2)))"

text \<open>\<open>settings\<close> is the array with at least \<open>count\<close> entries, \<open>None\<close> for a null pointer.\<close>

definition UCReadSysConfig ::
    "set_api \<Rightarrow> s32 \<Rightarrow> u32 \<Rightarrow> UCSysConfig list option \<Rightarrow> uc_world \<Rightarrow> s32 \<times> UCSysConfig list option \<times> uc_world" where
  "UCReadSysConfig api handle count settings w =
     (case settings of
        None \<Rightarrow> (UC_ERROR_INVALID_PARAM, None, w)
      | Some ss \<Rightarrow>
          let (r, ss', w') = uc_read api (take (unat count) ss) UC_ERROR_OK w
          in (r, Some (ss' @ drop (unat count) ss), w'))"

definition UCWriteSysConfig :: "s32 \<Rightarrow> u32 \<Rightarrow> UCSysConfig list option \<Rightarrow> s32 \<times> UCSysConfig list option" where
  "UCWriteSysConfig handle count settings =
     (case settings of
        None \<Rightarrow> (UC_ERROR_INVALID_PARAM, None)
      | Some ss \<Rightarrow>
          (UC_ERROR_OK, Some (map (\<lambda>s. s\<lparr>uc_error := UC_ERROR_OK\<rparr>) (take (unat count) ss) @ drop (unat count) ss)))"

definition UCDeleteSysConfig :: "s32 \<Rightarrow> u32 \<Rightarrow> UCSysConfig list option \<Rightarrow> s32 \<times> UCSysConfig list option" where
  "UCDeleteSysConfig handle count settings = UCWriteSysConfig handle count settings"

section \<open>Operations of mcp.cpp\<close>

datatype MCPRegion =
  MCP_REGION_JAPAN | MCP_REGION_USA | MCP_REGION_EUROPE | MCP_REGION_CHINA | MCP_REGION_KOREA | MCP_REGION_TAIWAN

record MCPSysProdSettings =
  product_area :: MCPRegion
  eeprom_version :: u16
  mcp_pad0 :: "u8 list"
  game_region :: MCPRegion
  mcp_unk0 :: "u8 list"
  ntsc_pal :: string
  wifi_5ghz_country_code :: string
  wifi_5ghz_country_code_revision :: u8
  code_id :: string
  serial_id :: string
  mcp_unk1 :: "u8 list"
  model_number :: string
  mcp_version :: u32

fun mcp_region :: "SetRegion \<Rightarrow> MCPRegion" where
  "mcp_region SetRegion_JPN = MCP_REGION_JAPAN"
| "mcp_region SetRegion_EUR = MCP_REGION_EUROPE"
| "mcp_region SetRegion_AUS = MCP_REGION_EUROPE"
| "mcp_region SetRegion_HTK = MCP_REGION_TAIWAN"
| "mcp_region _ = MCP_REGION_USA"

text \<open>This file has an \<^verbatim>\<open>ensureSettings\<close> and a flag of its own.\<close>

definition mcp_ensureSettings :: "set_api \<Rightarrow> uc_world \<Rightarrow> uc_world" where
  "mcp_ensureSettings api w = (if \<not> uw_mcp_setInited w \<and> setInitialize api then w\<lparr>uw_mcp_setInited := True\<rparr> else w)"

definition cafeRegion :: "set_api \<Rightarrow> uc_world \<Rightarrow> MCPRegion \<times> uc_world" where
  "cafeRegion api w = (mcp_region (region_of api), mcp_ensureSettings api w)"

definition MCP_Open :: s32 where
  "MCP_Open = 1"

definition MCP_Close :: "s32 \<Rightarrow> s32" where
  "MCP_Close handle = 0"

definition MCP_GetSysProdSettings ::
    "set_api \<Rightarrow> s32 \<Rightarrow> ptr \<Rightarrow> uc_world \<Rightarrow> s32 \<times> MCPSysProdSettings option \<times> uc_world" where
  "MCP_GetSysProdSettings api handle settings w =
     (if settings = null then (-1, None, w)
      else
        let (region, w1) = cafeRegion api w
        in (0, Some \<lparr>product_area = region, eeprom_version = 1, mcp_pad0 = replicate 2 0, game_region = region,
                 mcp_unk0 = replicate 4 0,
                 ntsc_pal = snprintf_s 5 (if region = MCP_REGION_EUROPE then ''PAL'' else ''NTSC''),
                 wifi_5ghz_country_code = [], wifi_5ghz_country_code_revision = 0, code_id = [],
                 serial_id = replicate 12 (CHR ''0''), mcp_unk1 = replicate 4 0,
                 model_number = snprintf_s 16 ''coreinit-nx'', mcp_version = 1\<rparr>, w1))"

section \<open>Which entries are answered\<close>

lemma strstr_iff: "strstr s n \<longleftrightarrow> sublist n s"
proof (induction s n rule: strstr.induct)
  case (2 c s n)
  have "take (length n) (c # s) = n \<longleftrightarrow> prefix n (c # s)" by (auto simp: prefix_def) (metis append_take_drop_id)
  then show ?case using 2 by (auto simp: sublist_Cons_right)
qed simp

definition uc_keys :: "string list" where
  "uc_keys = [''language'', ''cntry_reg'', ''eula_agree'', ''eco'', ''initial_launch'', ''parent'']"

text \<open>The number of bytes a type takes; 0 for the types the code does not store.\<close>

definition uc_width :: "u32 \<Rightarrow> nat" where
  "uc_width t = (if t = UC_DATATYPE_UNSIGNED_BYTE then 1 else if t = UC_DATATYPE_UNSIGNED_SHORT then 2
     else if t = UC_DATATYPE_UNSIGNED_INT \<or> t = UC_DATATYPE_SIGNED_INT then 4 else 0)"

definition uc_storable :: "UCSysConfig \<Rightarrow> bool" where
  "uc_storable s \<longleftrightarrow> uc_data s \<noteq> null \<and> uc_dataSize s \<noteq> 0 \<and> uc_width (uc_dataType s) \<noteq> 0"

definition uc_known :: "UCSysConfig \<Rightarrow> bool" where
  "uc_known s \<longleftrightarrow> (\<exists>k \<in> set uc_keys. sublist k (uc_name s))"

text \<open>The value of a key, by the first of the known names that occurs in it.\<close>

definition uc_value :: "set_api \<Rightarrow> string \<Rightarrow> u32" where
  "uc_value api n =
     (if sublist ''language'' n then cafe_language_code (language_of api)
      else if sublist ''cntry_reg'' n then cafe_country_code (region_of api)
      else if sublist ''eula_agree'' n then 1 else 0)"

lemma uc_store_eq:
  "uc_store s v w =
     (if uc_storable s then (True, w\<lparr>uw_mem := store_le (uc_width (uc_dataType s)) v (uc_data s) (uw_mem w)\<rparr>)
      else (False, w))"
  by (simp add: uc_store_def uc_storable_def uc_width_def)

lemma ensureSettings_frame [simp]:
  "uw_mem (ensureSettings api w) = uw_mem w" "uw_log (ensureSettings api w) = uw_log w"
  by (simp_all add: ensureSettings_def)

lemma uc_resolve_eq:
  "\<exists>w'. uc_resolve api s w =
     (uc_known s \<and> uc_storable s, w') \<and> uw_log w' = uw_log w \<and>
     uw_mem w' = (if uc_known s \<and> uc_storable s
       then store_le (uc_width (uc_dataType s)) (uc_value api (uc_name s)) (uc_data s) (uw_mem w) else uw_mem w)"
proof -
  note simps = uc_resolve_def strstr_iff uc_store_eq uc_value_def uc_known_def uc_keys_def
    cafeCountry_def cafeLanguage_def
  show ?thesis
    by (simp only: simps Let_def prod.case) (simp split: if_splits)
qed

definition uc_answered :: "UCSysConfig \<Rightarrow> bool" where
  "uc_answered s \<longleftrightarrow> uc_known s \<and> uc_storable s"

definition uc_entry_after :: "UCSysConfig \<Rightarrow> UCSysConfig" where
  "uc_entry_after s = s\<lparr>uc_error := (if uc_answered s then UC_ERROR_OK else UC_ERROR_KEY_NOT_FOUND)\<rparr>"

text \<open>The memory after the stores of all entries, in order.\<close>

fun uc_stores :: "set_api \<Rightarrow> UCSysConfig list \<Rightarrow> memory \<Rightarrow> memory" where
  "uc_stores api [] m = m"
| "uc_stores api (s # ss) m = uc_stores api ss
     (if uc_answered s then store_le (uc_width (uc_dataType s)) (uc_value api (uc_name s)) (uc_data s) m else m)"

lemma uc_read_eq:
  "\<exists>w'. uc_read api ss r w =
     (if \<forall>s \<in> set ss. uc_answered s then r else UC_ERROR_KEY_NOT_FOUND, map uc_entry_after ss, w') \<and>
     uw_mem w' = uc_stores api ss (uw_mem w) \<and>
     uw_log w' = uw_log w @ map (\<lambda>s. unknown_key (uc_name s)) (filter (\<lambda>s. \<not> uc_answered s) ss)"
proof (induction ss arbitrary: r w)
  case (Cons s ss)
  obtain w1 where w1: "uc_resolve api s w = (uc_answered s, w1)" "uw_log w1 = uw_log w"
    "uw_mem w1 = (if uc_answered s
       then store_le (uc_width (uc_dataType s)) (uc_value api (uc_name s)) (uc_data s) (uw_mem w) else uw_mem w)"
    using uc_resolve_eq [of api s w] unfolding uc_answered_def by blast
  show ?case
  proof (cases "uc_answered s")
    case True
    with w1 Cons.IH [of r w1] show ?thesis by (auto simp: uc_entry_after_def)
  next
    case False
    with w1 Cons.IH [of UC_ERROR_KEY_NOT_FOUND "w1\<lparr>uw_log := uw_log w1 @ [unknown_key (uc_name s)]\<rparr>"]
    show ?thesis by (auto simp: uc_entry_after_def)
  qed
qed simp

lemma uc_stores_outside:
  "\<forall>s \<in> set ss. \<not> (uc_answered s \<and> in_bytes (uc_data s) (uc_width (uc_dataType s)) a) \<Longrightarrow> uc_stores api ss m a = m a"
  by (induction ss arbitrary: m) (auto simp: store_le_def)

lemma uc_stores_last:
  "uc_answered s \<Longrightarrow> \<forall>s' \<in> set ss. \<not> (uc_answered s' \<and> in_bytes (uc_data s') (uc_width (uc_dataType s')) a) \<Longrightarrow>
     in_bytes (uc_data s) (uc_width (uc_dataType s)) a \<Longrightarrow>
     uc_stores api (pre @ s # ss) m a = ucast (drop_bit (8 * unat (a - uc_data s)) (uc_value api (uc_name s)))"
  by (induction pre arbitrary: m) (simp_all add: uc_stores_outside store_le_def)

text \<open>
  What the call returns and reports: the error as soon as one entry has no answer, and one line of the log for every
  such entry at every read. The README says that unknown keys fail per-entry, not per-call, and are logged once.
\<close>

lemma UCReadSysConfig_reports:
  assumes "UCReadSysConfig api handle count (Some ss) w = (r, out, w')"
  shows "r = (if \<forall>s \<in> set (take (unat count) ss). uc_answered s then UC_ERROR_OK else UC_ERROR_KEY_NOT_FOUND)"
    and "uw_log w' = uw_log w @
      map (\<lambda>s. unknown_key (uc_name s)) (filter (\<lambda>s. \<not> uc_answered s) (take (unat count) ss))"
proof -
  obtain w1 where "uc_read api (take (unat count) ss) UC_ERROR_OK w =
      (if \<forall>s \<in> set (take (unat count) ss). uc_answered s then UC_ERROR_OK else UC_ERROR_KEY_NOT_FOUND,
       map uc_entry_after (take (unat count) ss), w1)"
    "uw_log w1 = uw_log w @ map (\<lambda>s. unknown_key (uc_name s)) (filter (\<lambda>s. \<not> uc_answered s) (take (unat count) ss))"
    using uc_read_eq [of api "take (unat count) ss" UC_ERROR_OK w] by blast
  then show "r = (if \<forall>s \<in> set (take (unat count) ss). uc_answered s then UC_ERROR_OK else UC_ERROR_KEY_NOT_FOUND)"
    "uw_log w' = uw_log w @ map (\<lambda>s. unknown_key (uc_name s)) (filter (\<lambda>s. \<not> uc_answered s) (take (unat count) ss))"
    using assms by (simp_all add: UCReadSysConfig_def)
qed

text \<open>
  C40: UCReadSysConfig answers the entries that contain one of six key names and ask for an integer type with somewhere to
  put it, and exactly those, whatever becomes of the entries before and after; each entry gets its own error code and is
  otherwise untouched, and when all are answered the call succeeds and reports nothing. An entry's bytes hold the value of
  its key, unless a later entry overlaps them; memory outside the answered entries' bytes is unchanged.
\<close>

theorem UCReadSysConfig_answers:
  assumes "unat count \<le> length ss" "UCReadSysConfig api handle count (Some ss) w = (r, out, w')"
  shows "out = Some (map uc_entry_after (take (unat count) ss) @ drop (unat count) ss) \<and>
    ((\<forall>i < unat count. uc_answered (ss ! i)) \<longrightarrow> r = UC_ERROR_OK \<and> uw_log w' = uw_log w) \<and>
    (\<forall>a. (\<forall>i < unat count. \<not> (uc_answered (ss ! i) \<and> in_bytes (uc_data (ss ! i)) (uc_width (uc_dataType (ss ! i))) a)) \<longrightarrow>
       uw_mem w' a = uw_mem w a) \<and>
    (\<forall>i < unat count. \<forall>a. uc_answered (ss ! i) \<and> in_bytes (uc_data (ss ! i)) (uc_width (uc_dataType (ss ! i))) a \<and>
       (\<forall>j < unat count. i < j \<longrightarrow> \<not> in_bytes (uc_data (ss ! j)) (uc_width (uc_dataType (ss ! j))) a) \<longrightarrow>
       uw_mem w' a = ucast (drop_bit (8 * unat (a - uc_data (ss ! i))) (uc_value api (uc_name (ss ! i)))))"
proof -
  let ?ss = "take (unat count) ss"
  obtain w1 where w1: "uc_read api ?ss UC_ERROR_OK w =
      (if \<forall>s \<in> set ?ss. uc_answered s then UC_ERROR_OK else UC_ERROR_KEY_NOT_FOUND, map uc_entry_after ?ss, w1)"
    "uw_mem w1 = uc_stores api ?ss (uw_mem w)"
    "uw_log w1 = uw_log w @ map (\<lambda>s. unknown_key (uc_name s)) (filter (\<lambda>s. \<not> uc_answered s) ?ss)"
    using uc_read_eq [of api ?ss UC_ERROR_OK w] by blast
  have all: "(\<forall>s \<in> set ?ss. P s) \<longleftrightarrow> (\<forall>i < unat count. P (ss ! i))" for P
    using assms(1) by (auto simp: all_set_conv_all_nth)
  have r: "r = (if \<forall>s \<in> set ?ss. uc_answered s then UC_ERROR_OK else UC_ERROR_KEY_NOT_FOUND)"
    "out = Some (map uc_entry_after ?ss @ drop (unat count) ss)" "w' = w1"
    using assms(2) w1(1) by (simp_all add: UCReadSysConfig_def)
  have outside: "uw_mem w' a = uw_mem w a"
    if "\<forall>i < unat count. \<not> (uc_answered (ss ! i) \<and> in_bytes (uc_data (ss ! i)) (uc_width (uc_dataType (ss ! i))) a)" for a
    using that uc_stores_outside [of ?ss a api "uw_mem w"] unfolding all r w1(2) by blast
  have inside: "uw_mem w' a = ucast (drop_bit (8 * unat (a - uc_data (ss ! i))) (uc_value api (uc_name (ss ! i))))"
    if i: "i < unat count" "uc_answered (ss ! i)" "in_bytes (uc_data (ss ! i)) (uc_width (uc_dataType (ss ! i))) a"
      and later: "\<forall>j < unat count. i < j \<longrightarrow> \<not> in_bytes (uc_data (ss ! j)) (uc_width (uc_dataType (ss ! j))) a" for i a
  proof -
    have split: "?ss = take i ?ss @ ss ! i # drop (Suc i) ?ss"
      using id_take_nth_drop [of i ?ss] i(1) assms(1) by simp
    have "\<not> in_bytes (uc_data s) (uc_width (uc_dataType s)) a" if s: "s \<in> set (drop (Suc i) ?ss)" for s
    proof -
      obtain k where "k < length (drop (Suc i) ?ss)" "s = drop (Suc i) ?ss ! k" using s by (metis in_set_conv_nth)
      then show ?thesis using later [rule_format, of "Suc i + k"] assms(1) by simp
    qed
    then show ?thesis
      unfolding r w1(2) by (subst split) (rule uc_stores_last [OF i(2) _ i(3)], blast)
  qed
  have ok: "(\<forall>i < unat count. uc_answered (ss ! i)) \<longrightarrow> r = UC_ERROR_OK \<and> uw_log w' = uw_log w"
    using UCReadSysConfig_reports [OF assms(2)] unfolding all [symmetric] by (auto simp: filter_empty_conv)
  show ?thesis using r(2) ok outside inside by blast
qed

definition uc_demo_api :: set_api where
  "uc_demo_api = \<lparr>setInitialize = True, setGetSystemLanguage = Some 7, setMakeLanguage = (\<lambda>c. Some SetLanguage_IT),
     setGetRegionCode = Some SetRegion_EUR\<rparr>"

definition uc_demo_entry :: "string \<Rightarrow> ptr \<Rightarrow> UCSysConfig" where
  "uc_demo_entry n p = \<lparr>uc_name = n, uc_access = 0, uc_dataType = UC_DATATYPE_UNSIGNED_INT, uc_error = 0, uc_dataSize = 1,
     uc_data = p\<rparr>"

lemma uc_demo_answered:
  "p \<noteq> null \<Longrightarrow> uc_answered (uc_demo_entry ''cafe.language'' p)" "\<not> uc_answered (uc_demo_entry ''cafe.unknown'' p)"
  by (simp_all add: uc_answered_def uc_known_def uc_keys_def uc_storable_def uc_width_def uc_demo_entry_def
      strstr_iff [symmetric])

theorem UCReadSysConfig_answers_witness:
  "case UCReadSysConfig uc_demo_api 1 2 (Some [uc_demo_entry ''cafe.language'' 0x100, uc_demo_entry ''cafe.unknown'' 0x200])
       \<lparr>uw_setInited = False, uw_mcp_setInited = False, uw_mem = (\<lambda>_. 9), uw_log = []\<rparr> of
     (r, out, w') \<Rightarrow> map_option (map uc_error) out = Some [UC_ERROR_OK, UC_ERROR_KEY_NOT_FOUND] \<and> uw_mem w' 0x100 = 4 \<and> uw_mem w' 0x104 = 9"
proof -
  let ?ss = "[uc_demo_entry ''cafe.language'' 0x100, uc_demo_entry ''cafe.unknown'' 0x200]"
    and ?w = "\<lparr>uw_setInited = False, uw_mcp_setInited = False, uw_mem = (\<lambda>_. 9), uw_log = []\<rparr>"
  obtain r out w' where e: "UCReadSysConfig uc_demo_api 1 2 (Some ?ss) ?w = (r, out, w')" by (metis surj_pair)
  have c: "unat (2 :: u32) \<le> length ?ss" by simp
  note t = UCReadSysConfig_answers [OF c e]
  have v: "uc_value uc_demo_api ''cafe.language'' = 4"
    by (simp add: uc_value_def strstr_iff [symmetric] language_of_def uc_demo_api_def)
  have two: "(\<forall>i < unat (2 :: u32). P i) \<longleftrightarrow> P 0 \<and> P 1" for P
    by (auto simp: less_2_cases_iff)
  have pre: "\<forall>i < unat (2 :: u32). \<not> (uc_answered (?ss ! i) \<and>
      in_bytes (uc_data (?ss ! i)) (uc_width (uc_dataType (?ss ! i))) 0x104)"
    unfolding two by (simp add: uc_demo_answered) (simp add: uc_demo_entry_def in_bytes_def uc_width_def)
  have "map_option (map uc_error) out = Some [UC_ERROR_OK, UC_ERROR_KEY_NOT_FOUND]"
    using t [THEN conjunct1] uc_demo_answered by (simp add: uc_entry_after_def)
  moreover have "uw_mem w' 0x100 = 4"
    using t [THEN conjunct2, THEN conjunct2, THEN conjunct2, rule_format, of 0 "0x100"] uc_demo_answered(1) [of "0x100"] v
    by (simp add: uc_demo_entry_def in_bytes_def uc_width_def less_2_cases_iff)
  moreover have "uw_mem w' 0x104 = 9"
    using t [THEN conjunct2, THEN conjunct2, THEN conjunct1, THEN spec, THEN mp, OF pre] by simp
  ultimately show ?thesis using e by simp
qed

text \<open>
  The stores do not look at the size of the caller's buffer: an answered integer entry with a buffer of one byte
  overwrites the three bytes behind it.
\<close>

lemma UCReadSysConfig_overruns:
  assumes "uc_answered s" "uc_dataType s = UC_DATATYPE_UNSIGNED_INT" "uc_dataSize s = 1"
  shows "uw_mem (snd (snd (UCReadSysConfig api handle 1 (Some [s]) w))) (uc_data s + 1) =
    ucast (drop_bit 8 (uc_value api (uc_name s)))"
proof -
  obtain w1 where "uc_read api [s] UC_ERROR_OK w = (UC_ERROR_OK, [uc_entry_after s], w1)"
    "uw_mem w1 = uc_stores api [s] (uw_mem w)"
    using uc_read_eq [of api "[s]" UC_ERROR_OK w] assms(1) by auto
  then show ?thesis using assms by (simp add: UCReadSysConfig_def store_le_def in_bytes_def uc_width_def)
qed

text \<open>The two region answers agree: both name the same part of the world.\<close>

lemma regions_agree:
  "fst (cafeCountry api w) = 1 \<longleftrightarrow> fst (cafeRegion api w) = MCP_REGION_JAPAN"
  "fst (cafeCountry api w) = 49 \<longleftrightarrow> fst (cafeRegion api w) = MCP_REGION_USA"
  "fst (cafeCountry api w) = 110 \<or> fst (cafeCountry api w) = 65 \<longleftrightarrow> fst (cafeRegion api w) = MCP_REGION_EUROPE"
  "fst (cafeCountry api w) = 128 \<longleftrightarrow> fst (cafeRegion api w) = MCP_REGION_TAIWAN"
  by (cases "region_of api"; simp add: cafeCountry_def cafeRegion_def)+

end
