(* ===== verification/DebugLog.thy ===== *)
theory DebugLog
  imports Prelude
begin

text \<open>
  Logging and fatal errors of \<^verbatim>\<open>source/debug.cpp\<close>, and the process services of \<^verbatim>\<open>source/misc.cpp\<close>: the HOME button
  flag, exception callbacks and the environment. A port may install its own log sink and fatal handler: an address, or
  \<open>None\<close> for the ones the library starts with. \<open>dg_events\<close> is what was handed to them. What \<^verbatim>\<open>vsnprintf\<close> makes of a
  format and its arguments is an argument of the operations: the whole text, or \<open>None\<close> when it fails. What \<^verbatim>\<open>getenv\<close>
  knows is the argument \<open>env\<close>.
\<close>

section \<open>State\<close>

datatype debug_event =
    Log_stdout string
  | Log_sink ptr string
  | Fatal_screen string
  | Fatal_handler ptr "string option"

record debug_world =
  dg_sink :: "ptr option"
  dg_fatal :: "ptr option"
  dg_events :: "debug_event list"

definition debug_start :: debug_world where
  "debug_start = \<lparr>dg_sink = None, dg_fatal = None, dg_events = []\<rparr>"

section \<open>debug.cpp\<close>

definition defaultLogSink :: "string \<Rightarrow> debug_world \<Rightarrow> debug_world" where
  "defaultLogSink txt w = w\<lparr>dg_events := dg_events w @ [Log_stdout txt]\<rparr>"

text \<open>The default handler prints and then sleeps for ever: a fatal call returns when the result is \<open>True\<close>.\<close>

definition defaultFatalHandler :: "string option \<Rightarrow> debug_world \<Rightarrow> bool \<times> debug_world" where
  "defaultFatalHandler msg w =
     (False, w\<lparr>dg_events := dg_events w @ [Fatal_screen
        ([CHR 0x0A] @ ''*** OSFatal: '' @ (case msg of None \<Rightarrow> ''(null)'' | Some m \<Rightarrow> m) @ [CHR 0x0A])]\<rparr>)"

definition call_sink :: "string \<Rightarrow> debug_world \<Rightarrow> debug_world" where
  "call_sink txt w =
     (case dg_sink w of
        None \<Rightarrow> defaultLogSink txt w
      | Some f \<Rightarrow> w\<lparr>dg_events := dg_events w @ [Log_sink f txt]\<rparr>)"

definition dbg_emit :: "string option \<Rightarrow> debug_world \<Rightarrow> debug_world" where
  "dbg_emit formatted w =
     (case formatted of
        None \<Rightarrow> w
      | Some s \<Rightarrow>
          if length s = 0 then w
          else
            let buf = snprintf_s 1024 s;
                len = (if length s < 1024 then length s else 1023)
            in call_sink (take len buf) w)"

definition coreinitNxSetLogSink :: "ptr \<Rightarrow> debug_world \<Rightarrow> debug_world" where
  "coreinitNxSetLogSink sink w = w\<lparr>dg_sink := (if sink \<noteq> null then Some sink else None)\<rparr>"

definition coreinitNxSetFatalHandler :: "ptr \<Rightarrow> debug_world \<Rightarrow> debug_world" where
  "coreinitNxSetFatalHandler handler w = w\<lparr>dg_fatal := (if handler \<noteq> null then Some handler else None)\<rparr>"

text \<open>\<open>msg\<close> is the memory behind the pointer, \<open>None\<close> for a null one; \<^verbatim>\<open>size\<close> characters of it are written.\<close>

definition OSConsoleWrite :: "string option \<Rightarrow> u32 \<Rightarrow> debug_world \<Rightarrow> debug_world" where
  "OSConsoleWrite msg n w =
     (case msg of None \<Rightarrow> w | Some m \<Rightarrow> if n \<noteq> 0 then call_sink (take (unat n) m) w else w)"

text \<open>\<open>fmt\<close> tells whether the format is not null.\<close>

definition OSVReport :: "bool \<Rightarrow> string option \<Rightarrow> debug_world \<Rightarrow> debug_world" where
  "OSVReport fmt formatted w = (if fmt then dbg_emit formatted w else w)"

definition OSReport :: "bool \<Rightarrow> string option \<Rightarrow> debug_world \<Rightarrow> debug_world" where
  "OSReport fmt formatted w = (if \<not> fmt then w else dbg_emit formatted w)"

definition OSReportVerbose :: "bool \<Rightarrow> string option \<Rightarrow> debug_world \<Rightarrow> debug_world" where
  "OSReportVerbose fmt formatted w = (if \<not> fmt then w else dbg_emit formatted w)"

definition OSReportInfo :: "bool \<Rightarrow> string option \<Rightarrow> debug_world \<Rightarrow> debug_world" where
  "OSReportInfo fmt formatted w = (if \<not> fmt then w else dbg_emit formatted w)"

definition OSReportWarn :: "bool \<Rightarrow> string option \<Rightarrow> debug_world \<Rightarrow> debug_world" where
  "OSReportWarn fmt formatted w = (if \<not> fmt then w else dbg_emit formatted w)"

definition OSFatal :: "string option \<Rightarrow> debug_world \<Rightarrow> bool \<times> debug_world" where
  "OSFatal msg w =
     (case dg_fatal w of
        None \<Rightarrow> defaultFatalHandler msg w
      | Some f \<Rightarrow> (True, w\<lparr>dg_events := dg_events w @ [Fatal_handler f msg]\<rparr>))"

text \<open>The answer and what the buffer holds afterwards, \<open>None\<close> when nothing is written to it.\<close>

definition os_snprintf :: "ptr \<Rightarrow> u64 \<Rightarrow> bool \<Rightarrow> string \<Rightarrow> int \<times> string option" where
  "os_snprintf buf n fmt formatted =
     (if buf = null \<or> n = 0 \<or> \<not> fmt then (0, None)
      else (int (length formatted), Some (snprintf_s (unat n) formatted)))"

definition OSSavesDone_ReadyToRelease :: "debug_world \<Rightarrow> debug_world" where
  "OSSavesDone_ReadyToRelease w = w"

definition OSIsDebuggerPresent :: s32 where
  "OSIsDebuggerPresent = 0"

definition OSIsDebuggerInitialized :: s32 where
  "OSIsDebuggerInitialized = 0"

text \<open>\<^verbatim>\<open>%lu\<close>: a number in decimal.\<close>

fun decimal :: "nat \<Rightarrow> string" where
  "decimal n = (if n < 10 then [char_of (48 + n)] else decimal (n div 10) @ [char_of (48 + n mod 10)])"

definition OSPanic :: "string option \<Rightarrow> u32 \<Rightarrow> string option \<Rightarrow> debug_world \<Rightarrow> bool \<times> debug_world" where
  "OSPanic file line formatted w =
     (let buf = snprintf_s 512 (case formatted of None \<Rightarrow> [] | Some s \<Rightarrow> s);
          full = snprintf_s 640 ((case file of None \<Rightarrow> ''?'' | Some f \<Rightarrow> f) @ '':'' @ decimal (unat line) @ '': '' @ buf)
      in OSFatal (Some full) w)"

section \<open>misc.cpp\<close>

record misc_world =
  homeButtonEnabled :: bool
  exceptionHandlers :: "ptr list"

definition kExceptionTypes :: int where
  "kExceptionTypes = 15"

definition misc_start :: misc_world where
  "misc_start = \<lparr>homeButtonEnabled = True, exceptionHandlers = replicate 15 null\<rparr>"

text \<open>Yielding changes no state of the library.\<close>

definition OSYieldThread :: "misc_world \<Rightarrow> misc_world" where
  "OSYieldThread w = w"

definition OSReleaseForeground :: "misc_world \<Rightarrow> misc_world" where
  "OSReleaseForeground w = w"

definition OSEnableForegroundExit :: "misc_world \<Rightarrow> misc_world" where
  "OSEnableForegroundExit w = w"

definition OSEnableHomeButtonMenu :: "s32 \<Rightarrow> misc_world \<Rightarrow> s32 \<times> misc_world" where
  "OSEnableHomeButtonMenu enable w =
     (let previous = (if homeButtonEnabled w then 1 else 0) in (previous, w\<lparr>homeButtonEnabled := (enable \<noteq> 0)\<rparr>))"

definition OSIsHomeButtonMenuEnabled :: "misc_world \<Rightarrow> s32" where
  "OSIsHomeButtonMenuEnabled w = (if homeButtonEnabled w then 1 else 0)"

definition OSSetExceptionCallback :: "s32 \<Rightarrow> ptr \<Rightarrow> misc_world \<Rightarrow> ptr \<times> misc_world" where
  "OSSetExceptionCallback exceptionType callback w =
     (let idx = sint exceptionType in
      if idx < 0 \<or> kExceptionTypes \<le> idx then (null, w)
      else (exceptionHandlers w ! nat idx,
            w\<lparr>exceptionHandlers := (exceptionHandlers w)[nat idx := callback]\<rparr>))"

text \<open>The answer and what the buffer holds afterwards, \<open>None\<close> when nothing is written to it.\<close>

definition ENVGetEnvironmentVariable ::
    "(string \<Rightarrow> string option) \<Rightarrow> string option \<Rightarrow> ptr \<Rightarrow> u32 \<Rightarrow> s32 \<times> string option" where
  "ENVGetEnvironmentVariable env name buffer len =
     (if name = None \<or> buffer = null \<or> len = 0 then (0, None)
      else
        case env (the name) of
          None \<Rightarrow> (0, Some [])
        | Some v \<Rightarrow> (1, Some (snprintf_s (unat len) v)))"

section \<open>What reaches the sink\<close>

lemma dbg_emit_eq:
  "dbg_emit formatted w =
     (case formatted of None \<Rightarrow> w | Some s \<Rightarrow> if s = [] then w else call_sink (take 1023 s) w)"
proof -
  have "take (if length s < 1024 then length s else 1023) (snprintf_s 1024 s) = take 1023 s" for s :: string
    by (auto simp: snprintf_s_def)
  then show ?thesis by (simp add: dbg_emit_def Let_def split: option.split)
qed

text \<open>The calls of a program that logs, in order, and what has to reach the sinks.\<close>

datatype log_call =
    Lg_report "string option"
  | Lg_write "string option" u32
  | Lg_set_sink ptr

fun log_step :: "log_call \<Rightarrow> debug_world \<Rightarrow> debug_world" where
  "log_step (Lg_report s) w = OSReport True s w"
| "log_step (Lg_write m n) w = OSConsoleWrite m n w"
| "log_step (Lg_set_sink f) w = coreinitNxSetLogSink f w"

primrec log_run :: "log_call list \<Rightarrow> debug_world \<Rightarrow> debug_world" where
  "log_run [] w = w"
| "log_run (c # cs) w = log_run cs (log_step c w)"

fun log_text :: "log_call \<Rightarrow> string" where
  "log_text (Lg_report (Some s)) = take 1023 s"
| "log_text (Lg_write (Some m) n) = take (unat n) m"
| "log_text _ = []"

fun event_text :: "debug_event \<Rightarrow> string" where
  "event_text (Log_stdout s) = s"
| "event_text (Log_sink f s) = s"
| "event_text _ = []"

lemma call_sink_text: "concat (map event_text (dg_events (call_sink txt w))) = concat (map event_text (dg_events w)) @ txt"
  by (simp add: call_sink_def defaultLogSink_def split: option.split)

lemma log_step_text:
  "concat (map event_text (dg_events (log_step c w))) = concat (map event_text (dg_events w)) @ log_text c"
proof (cases c)
  case (Lg_report s)
  then show ?thesis by (cases s) (simp_all add: OSReport_def dbg_emit_eq call_sink_text)
next
  case (Lg_write m n)
  then show ?thesis by (cases m) (simp_all add: OSConsoleWrite_def call_sink_text)
qed (simp add: coreinitNxSetLogSink_def)

text \<open>
  The text that reaches the sinks is the text that was written, in order: whatever sinks are installed meanwhile, each
  report whole up to 1023 characters and each console write whole.
\<close>

lemma log_run_text:
  "concat (map event_text (dg_events (log_run cs debug_start))) = concat (map log_text cs)"
proof -
  have "concat (map event_text (dg_events (log_run cs w))) =
      concat (map event_text (dg_events w)) @ concat (map log_text cs)" for w
    by (induction cs arbitrary: w) (simp_all add: log_step_text)
  then show ?thesis by (simp add: debug_start_def)
qed

lemma OSPanic_returns: "fst (OSPanic file line s w) \<longleftrightarrow> dg_fatal w \<noteq> None"
  by (simp add: OSPanic_def OSFatal_def defaultFatalHandler_def Let_def split: option.split)

lemma OSPanic_flocks:
  "dg_fatal w = Some f \<Longrightarrow> dg_events (snd (OSPanic (Some ''locks.c'') 122 (Some ''All flocks are in use'') w)) =
     dg_events w @ [Fatal_handler f (Some ''locks.c:122: All flocks are in use'')]"
  by (simp add: OSPanic_def OSFatal_def snprintf_s_def Let_def char_of_def bit_0)

section \<open>Callbacks and the environment\<close>

text \<open>Setting a callback returns the one it replaces, so that it can be put back; a type out of range changes nothing.\<close>

lemma OSSetExceptionCallback_chains:
  assumes "length (exceptionHandlers w) = 15"
  shows "snd (OSSetExceptionCallback t (fst (OSSetExceptionCallback t f w)) (snd (OSSetExceptionCallback t f w))) = w"
    and "0 \<le> sint t \<Longrightarrow> sint t < 15 \<Longrightarrow> fst (OSSetExceptionCallback t g (snd (OSSetExceptionCallback t f w))) = f"
    and "sint t \<noteq> sint t' \<Longrightarrow> 0 \<le> sint t \<Longrightarrow> 0 \<le> sint t' \<Longrightarrow>
      fst (OSSetExceptionCallback t g (snd (OSSetExceptionCallback t' f w))) = fst (OSSetExceptionCallback t g w)"
  using assms by (auto simp: OSSetExceptionCallback_def Let_def kExceptionTypes_def nth_list_update)

lemma ENVGetEnvironmentVariable_fits:
  "snd (ENVGetEnvironmentVariable env name buffer len) = Some s \<Longrightarrow> length s < unat len"
  by (auto simp: ENVGetEnvironmentVariable_def snprintf_s_def word_pos_unat split: if_splits option.splits)

end
