(* ===== verification/CriticalSection.thy ===== *)
theory CriticalSection
  imports Ghs
begin

text \<open>
  Critical sections: what the users of the library's three kinds of lock rely on. A thread enters with the lock call
  and leaves with the unlock call; in between it does not lock again. \<open>exclusive_lock\<close> is the contract; every
  \<open>recursive_lock\<close> gives it, so the mutexes of \<^verbatim>\<open>source/mutex.cpp\<close> do, and it is interpreted on the spinlocks of
  \<^verbatim>\<open>source/spinlock.cpp\<close> and on \<^verbatim>\<open>__ghsLock\<close> and \<^verbatim>\<open>__ghsUnlock\<close> of \<^verbatim>\<open>source/ghs.cpp\<close>.
\<close>

section \<open>Sequences of entering and leaving\<close>

text \<open>\<open>Other\<close> is any other call of the interface, of any thread, inside or not.\<close>

datatype 'o section_act = Enter tid | Leave tid | Other 'o

text \<open>The threads inside are a list; a step that cannot be taken, or would lock again, is \<open>None\<close>.\<close>

fun section_run ::
    "(tid \<Rightarrow> 's \<Rightarrow> 's option) \<Rightarrow> (tid \<Rightarrow> 's \<Rightarrow> 's) \<Rightarrow> ('o \<Rightarrow> 's \<Rightarrow> 's option) \<Rightarrow> 'o section_act list \<Rightarrow>
     's \<times> tid list \<Rightarrow> ('s \<times> tid list) option" where
  "section_run lock unlock other [] (s, inside) = Some (s, inside)"
| "section_run lock unlock other (Enter t # as) (s, inside) =
     (if t \<in> set inside then None
      else case lock t s of None \<Rightarrow> None | Some s' \<Rightarrow> section_run lock unlock other as (s', t # inside))"
| "section_run lock unlock other (Leave t # as) (s, inside) =
     (if t \<notin> set inside then None else section_run lock unlock other as (unlock t s, remove1 t inside))"
| "section_run lock unlock other (Other c # as) (s, inside) =
     (case other c s of None \<Rightarrow> None | Some s' \<Rightarrow> section_run lock unlock other as (s', inside))"

section \<open>The interface: an exclusive lock\<close>

locale exclusive_lock =
  fixes xok :: "'s \<Rightarrow> bool"
    and lock :: "tid \<Rightarrow> 's \<Rightarrow> 's option"
    and unlock :: "tid \<Rightarrow> 's \<Rightarrow> 's"
    and other :: "'o \<Rightarrow> 's \<Rightarrow> 's option"
    and taken :: "'s \<Rightarrow> tid option"
  assumes take_free: "xok s \<Longrightarrow> taken s = None \<Longrightarrow> \<exists>s'. lock t s = Some s' \<and> xok s' \<and> taken s' = Some t"
    and take_held: "xok s \<Longrightarrow> taken s = Some t' \<Longrightarrow> t' \<noteq> t \<Longrightarrow> lock t s = None"
    and give_back: "xok s \<Longrightarrow> taken s = Some t \<Longrightarrow> xok (unlock t s) \<and> taken (unlock t s) = None"
    and leave_alone: "xok s \<Longrightarrow> other c s = Some s' \<Longrightarrow> xok s' \<and> taken s' = taken s"
begin

definition inside_of :: "'s \<Rightarrow> tid list" where
  "inside_of s = (case taken s of None \<Rightarrow> [] | Some t \<Rightarrow> [t])"

lemma section_inside:
  "xok s \<Longrightarrow> section_run lock unlock other as (s, inside_of s) = Some (s', inside) \<Longrightarrow> xok s' \<and> inside = inside_of s'"
proof (induction as arbitrary: s)
  case (Cons a as)
  show ?case
  proof (cases a)
    case (Enter t)
    with Cons.prems have "taken s = None" using take_held [OF Cons.prems(1), of _ t]
      by (cases "taken s") (auto simp: inside_of_def split: if_splits)
    then obtain s1 where "lock t s = Some s1" "xok s1" "taken s1 = Some t" using take_free [OF Cons.prems(1)] by blast
    then show ?thesis using Cons Enter \<open>taken s = None\<close> by (simp add: inside_of_def)
  next
    case (Leave t)
    with Cons.prems have "taken s = Some t" by (auto simp: inside_of_def split: option.splits if_splits)
    then show ?thesis
      using Cons.prems Cons.IH [of "unlock t s"] Leave give_back [OF Cons.prems(1), of t] by (simp add: inside_of_def)
  next
    case (Other c)
    then obtain s1 where "other c s = Some s1" using Cons.prems by (auto split: option.splits)
    then show ?thesis
      using Cons.prems Cons.IH [of s1] Other leave_alone [OF Cons.prems(1), of c s1] by (simp add: inside_of_def)
  qed
qed simp

lemma one_inside:
  assumes "xok s" "taken s = None" "section_run lock unlock other as (s, []) = Some (s', inside)"
  shows "length inside \<le> 1 \<and> (\<forall>t. t \<notin> set inside \<longrightarrow> (lock t s' \<noteq> None \<longleftrightarrow> inside = []))"
proof -
  have i: "xok s'" "inside = inside_of s'"
    using section_inside [OF assms(1), of as s' inside] assms(2,3) by (simp_all add: inside_of_def)
  show ?thesis
  proof (cases "taken s'")
    case None
    have "lock t s' \<noteq> None" for t using take_free [OF i(1) None, of t] by auto
    then show ?thesis using i(2) None by (simp add: inside_of_def)
  next
    case (Some u)
    then show ?thesis using i(2) take_held [OF i(1) Some] by (simp add: inside_of_def)
  qed
qed

end

section \<open>The locks of the library\<close>

text \<open>A recursive lock used without recursion.\<close>

sublocale recursive_lock \<subseteq> crit: exclusive_lock
  "\<lambda>s. ok s \<and> (\<forall>t n. holder s = Some (t, n) \<longrightarrow> n = 1)" lock unlock "\<lambda>(u :: unit) s. Some s" "\<lambda>s. map_option fst (holder s)"
proof
  fix s t
  show "\<exists>s'. lock t s = Some s' \<and> (ok s' \<and> (\<forall>t n. holder s' = Some (t, n) \<longrightarrow> n = 1)) \<and> map_option fst (holder s') = Some t"
    if "ok s \<and> (\<forall>t n. holder s = Some (t, n) \<longrightarrow> n = 1)" "map_option fst (holder s) = None"
    using that lock_free [of s t] by auto
qed (use lock_other unlock_own in auto)

text \<open>A spinlock; the other calls are those on other spinlocks.\<close>

datatype spin_call = Sp_acquire tid ptr | Sp_try tid ptr | Sp_release tid ptr

fun spin_address :: "spin_call \<Rightarrow> ptr" where
  "spin_address (Sp_acquire t k) = k"
| "spin_address (Sp_try t k) = k"
| "spin_address (Sp_release t k) = k"

fun spin_step :: "'m mutex_api \<Rightarrow> spin_call \<Rightarrow> 'm host_spinlock table \<Rightarrow> 'm host_spinlock table option" where
  "spin_step api (Sp_acquire t k) tab = map_option snd (OSAcquireSpinLock api t k tab)"
| "spin_step api (Sp_try t k) tab = Some (snd (OSTryAcquireSpinLock api t k tab))"
| "spin_step api (Sp_release t k) tab = Some (snd (OSReleaseSpinLock api t k tab))"

lemma spin_step_other:
  "spin_step api c tab = Some tab' \<Longrightarrow> spin_address c \<noteq> l \<Longrightarrow> spin_holder api owner l tab' = spin_holder api owner l tab"
  by (cases c) (auto simp: op_defs spin_acquire_def spin_tryAcquire_def spin_release_def ht_get_eq Let_def case_prod_beta
      split: if_splits option.splits)

interpretation spin: exclusive_lock "\<lambda>tab. mutex_laws api owner \<and> l \<noteq> null"
  "\<lambda>t tab. map_option snd (OSAcquireSpinLock api t l tab)" "\<lambda>t tab. snd (OSReleaseSpinLock api t l tab)"
  "\<lambda>c tab. if spin_address c = l then None else spin_step api c tab" "spin_holder api owner l" for api owner l
proof
  fix tab t t'
  assume ok: "mutex_laws api owner \<and> l \<noteq> null"
  show "\<exists>tab'. map_option snd (OSAcquireSpinLock api t l tab) = Some tab' \<and> (mutex_laws api owner \<and> l \<noteq> null) \<and>
      spin_holder api owner l tab' = Some t" if "spin_holder api owner l tab = None"
    using spin_acquire_spec(1) [of api owner l tab t] that ok by (auto simp: OSAcquireSpinLock_def)
  show "map_option snd (OSAcquireSpinLock api t l tab) = None" if "spin_holder api owner l tab = Some t'" "t' \<noteq> t"
    using spin_acquire_spec(2) [of api owner l tab t] that ok by (simp add: OSAcquireSpinLock_def)
  show "(mutex_laws api owner \<and> l \<noteq> null) \<and> spin_holder api owner l (snd (OSReleaseSpinLock api t l tab)) = None"
    if "spin_holder api owner l tab = Some t"
    using spin_release_spec(1) [of api owner l tab t] that ok by (simp add: OSReleaseSpinLock_def)
qed (auto split: if_splits dest: spin_step_other)

text \<open>The lock of the GHS library; the other calls are all others of \<^verbatim>\<open>source/ghs.cpp\<close>.\<close>

fun ghs_lock_call :: "ghs_call \<Rightarrow> bool" where
  "ghs_lock_call (Gh_lock t) = True"
| "ghs_lock_call (Gh_unlock t) = True"
| "ghs_lock_call _ = False"

definition ghs_taken :: "'m mutex_api \<Rightarrow> ('m \<Rightarrow> tid option) \<Rightarrow> ghs_link \<Rightarrow> 'm ghs_world \<Rightarrow> tid option" where
  "ghs_taken api owner L w = spin_holder api owner (ga_ghsLock L) (gw_spins w)"

lemma ghs_taken_ensureInit [simp]: "ghs_taken api owner L (ghs_ensureInit api L w) = ghs_taken api owner L w"
  by (simp add: ghs_taken_def ghs_ensureInit_def OSInitSpinLock_def ht_get_eq spin_holder_def)

lemma ghs_taken_frame [simp]:
  "ghs_taken api owner L (w\<lparr>gw_mutexes := a\<rparr>) = ghs_taken api owner L w"
  "ghs_taken api owner L (w\<lparr>gw_flockInUse := u\<rparr>) = ghs_taken api owner L w"
  "ghs_taken api owner L (w\<lparr>gw_freeFlockIdx := i\<rparr>) = ghs_taken api owner L w"
  "ghs_taken api owner L (w\<lparr>gw_errno := e\<rparr>) = ghs_taken api owner L w"
  by (simp_all add: ghs_taken_def)

lemma ghs_taken_other:
  "ghs_step api L c w = Some w' \<Longrightarrow> \<not> ghs_lock_call c \<Longrightarrow> ghs_taken api owner L w' = ghs_taken api owner L w"
  by (cases c) (auto simp: ghs_flock_create_def ghs_flock_destroy_def ghs_flock_file_def ghs_funlock_file_def
      ghs_ftrylock_file_def gh_set_errno_def Let_def case_prod_beta split: if_splits option.splits)

interpretation ghs: exclusive_lock "\<lambda>w. mutex_laws api owner \<and> ga_ghsLock L \<noteq> null" "ghsLock api L" "ghsUnlock api L"
  "\<lambda>c w. if ghs_lock_call c then None else ghs_step api L c w" "ghs_taken api owner L" for api owner L
proof
  fix w t t'
  assume ok: "mutex_laws api owner \<and> ga_ghsLock L \<noteq> null"
  let ?w = "ghs_ensureInit api L w"
  have e: "spin_holder api owner (ga_ghsLock L) (gw_spins ?w) = ghs_taken api owner L w"
    using ghs_taken_ensureInit [of api owner L w] by (simp add: ghs_taken_def)
  show "\<exists>w'. ghsLock api L t w = Some w' \<and> (mutex_laws api owner \<and> ga_ghsLock L \<noteq> null) \<and> ghs_taken api owner L w' = Some t"
    if "ghs_taken api owner L w = None"
    using spin_acquire_spec(1) [of api owner "ga_ghsLock L" "gw_spins ?w" t] that ok e
    by (auto simp: ghsLock_def Let_def OSUninterruptibleSpinLock_Acquire_def ghs_taken_def)
  show "ghsLock api L t w = None" if "ghs_taken api owner L w = Some t'" "t' \<noteq> t"
    using spin_acquire_spec(2) [of api owner "ga_ghsLock L" "gw_spins ?w" t] that ok e
    by (simp add: ghsLock_def Let_def OSUninterruptibleSpinLock_Acquire_def)
  show "(mutex_laws api owner \<and> ga_ghsLock L \<noteq> null) \<and> ghs_taken api owner L (ghsUnlock api L t w) = None"
    if "ghs_taken api owner L w = Some t"
    using spin_release_spec(1) [of api owner "ga_ghsLock L" "gw_spins ?w" t] that ok e
    by (simp add: ghsUnlock_def Let_def OSUninterruptibleSpinLock_Release_def ghs_taken_def)
qed (auto split: if_splits dest: ghs_taken_other)

text \<open>
  C21: between __ghsLock and __ghsUnlock there is at most one thread, under every interleaving with any other calls of the
  GHS runtime, the first of which sets up the lock; and a thread that is not inside gets in exactly when nobody is.
\<close>
theorem ghsLock_critical_section:
  assumes "mutex_laws api owner" "ga_ghsLock L \<noteq> null"
    and "section_run (ghsLock api L) (ghsUnlock api L) (\<lambda>c w. if ghs_lock_call c then None else ghs_step api L c w) as
      (ghs_start b, []) = Some (w, inside)"
  shows "length inside \<le> 1 \<and> (\<forall>t. t \<notin> set inside \<longrightarrow> (ghsLock api L t w \<noteq> None \<longleftrightarrow> inside = []))"
proof -
  have "ghs_taken api owner L (ghs_start b) = None"
    using assms(1) by (simp add: ghs_taken_def ghs_start_def spin_holder_def sl_init_def mutex_laws_simps)
  then show ?thesis using ghs.one_inside [OF conjI [OF assms(1,2)] _ assms(3)] by blast
qed

theorem ghsLock_critical_section_witness:
  "\<exists>w. section_run (ghsLock owner_api ghs_demo_link) (ghsUnlock owner_api ghs_demo_link)
       (\<lambda>c w. if ghs_lock_call c then None else ghs_step owner_api ghs_demo_link c w)
       [Enter 1, Other (Gh_set_errno 2 5), Leave 1, Enter 2] (ghs_start base_demo, []) = Some (w, [2]) \<and>
     ghsLock owner_api ghs_demo_link 1 w = None"
proof -
  obtain w where w: "section_run (ghsLock owner_api ghs_demo_link) (ghsUnlock owner_api ghs_demo_link)
       (\<lambda>c w. if ghs_lock_call c then None else ghs_step owner_api ghs_demo_link c w)
       [Enter 1, Other (Gh_set_errno 2 5), Leave 1, Enter 2] (ghs_start base_demo, []) = Some (w, [2])"
    by (simp add: ghsLock_def ghsUnlock_def gh_set_errno_def op_defs spin_acquire_def spin_release_def ghs_eval sync_eval)
  have "ga_ghsLock ghs_demo_link \<noteq> null" by (simp add: ghs_demo_link_def)
  from ghsLock_critical_section [OF owner_api_laws this w] have "ghsLock owner_api ghs_demo_link 1 w = None" by auto
  with w show ?thesis by blast
qed

end
