(* ===== verification/GhsHeap.thy ===== *)
theory GhsHeap
  imports Ghs
begin

text \<open>
  The mutexes of the C++ runtime on the heap they live in: \<^verbatim>\<open>__ghs_mtx_init\<close> and \<^verbatim>\<open>__ghs_mtx_dst\<close> of
  \<^verbatim>\<open>source/ghs.cpp\<close> are a client of the interface \<open>block_allocator\<close> (a mutex is a block, a \<^verbatim>\<open>void **\<close> cell holds
  its address), which the default heap over MEM2 provides.
\<close>

section \<open>Cells that own blocks\<close>

text \<open>Every non-null cell holds the address of an outstanding block of at least \<open>k\<close> bytes; no two blocks overlap.\<close>

definition cells_own :: "(ptr \<Rightarrow> ptr) \<Rightarrow> (ptr \<times> nat) set \<Rightarrow> nat \<Rightarrow> bool" where
  "cells_own cells out k \<longleftrightarrow>
     (\<forall>c. cells c \<noteq> null \<longrightarrow> (\<exists>l\<ge>k. (cells c, l) \<in> out)) \<and>
     (\<forall>c c'. cells c \<noteq> null \<longrightarrow> cells c' \<noteq> null \<longrightarrow> c \<noteq> c' \<longrightarrow>
        unat (cells c) + k \<le> unat (cells c') \<or> unat (cells c') + k \<le> unat (cells c))"

lemma cells_own_start: "\<forall>c. cells c = null \<Longrightarrow> cells_own cells out k"
  by (simp add: cells_own_def)

context block_allocator
begin

lemma cells_own_alloc:
  assumes ok: "ok s" and own: "cells_own cells (outstanding s) (unat n)" and p: "fst (alloc n a s) = p"
  shows "cells_own (cells(c := p)) (outstanding (snd (alloc n a s))) (unat n)"
proof (cases "p = null")
  case True
  then show ?thesis using own alloc_refused [OF ok] p by (auto simp: cells_own_def)
next
  case False
  obtain m where m: "unat n \<le> m" "outstanding (snd (alloc n a s)) = insert (p, m) (outstanding s)"
    "\<forall>(q, l) \<in> outstanding s. unat p + m \<le> unat q \<or> unat q + l \<le> unat p"
    using alloc_fresh [OF ok p False] by auto
  have new: "unat p + unat n \<le> unat (cells d) \<or> unat (cells d) + unat n \<le> unat p" if d: "cells d \<noteq> null" for d
  proof -
    obtain l where "unat n \<le> l" "(cells d, l) \<in> outstanding s" using own d by (auto simp: cells_own_def)
    with m(1,3) show ?thesis by fastforce
  qed
  have "\<exists>l\<ge>unat n. ((cells(c := p)) d, l) \<in> insert (p, m) (outstanding s)" if "(cells(c := p)) d \<noteq> null" for d
    using own m(1) that by (cases "d = c") (auto simp: cells_own_def)
  moreover have "unat ((cells(c := p)) d) + unat n \<le> unat ((cells(c := p)) d') \<or>
      unat ((cells(c := p)) d') + unat n \<le> unat ((cells(c := p)) d)"
    if "(cells(c := p)) d \<noteq> null" "(cells(c := p)) d' \<noteq> null" "d \<noteq> d'" for d d'
    using that new [of d] new [of d'] own by (cases "d = c"; cases "d' = c") (auto simp: cells_own_def)
  ultimately show ?thesis unfolding cells_own_def m(2) by blast
qed

lemma cells_own_free:
  assumes ok: "ok s" and own: "cells_own cells (outstanding s) k" "0 < k" and p: "cells c = p" "p \<noteq> null"
  shows "cells_own (cells(c := null)) (outstanding (free p s)) k"
proof -
  have "cells d \<noteq> p" if "cells d \<noteq> null" "d \<noteq> c" for d
  proof -
    have "unat (cells d) + k \<le> unat p \<or> unat p + k \<le> unat (cells d)"
      using own(1) that p unfolding cells_own_def by blast
    then show ?thesis using own(2) by auto
  qed
  then show ?thesis using own(1) free_out [OF ok p(2)] by (auto simp: cells_own_def)
qed

end

section \<open>The runtime's mutexes\<close>

text \<open>Calls with the answer of \<^verbatim>\<open>malloc\<close> (never needed once the base heap is there), and all calls of theory \<open>Ghs\<close>.\<close>

datatype mtx_call =
    Mx_init ptr ptr
  | Mx_dst ptr ptr
  | Mx_lock tid ptr
  | Mx_unlock tid ptr
  | Mx_ghs ghs_call

fun mtx_step :: "'m mutex_api \<Rightarrow> ghs_link \<Rightarrow> mtx_call \<Rightarrow> 'm ghs_world \<Rightarrow> 'm ghs_world option" where
  "mtx_step api L (Mx_init m c) w = Some (ghs_mtx_init api default_heap_init m c w)"
| "mtx_step api L (Mx_dst m c) w = Some (ghs_mtx_dst default_heap_init m c w)"
| "mtx_step api L (Mx_lock t c) w = ghs_mtx_lock api t c w"
| "mtx_step api L (Mx_unlock t c) w = Some (ghs_mtx_unlock api t c w)"
| "mtx_step api L (Mx_ghs c) w = ghs_step api L c w"

fun mtx_run :: "'m mutex_api \<Rightarrow> ghs_link \<Rightarrow> mtx_call list \<Rightarrow> 'm ghs_world \<Rightarrow> 'm ghs_world option" where
  "mtx_run api L [] w = Some w"
| "mtx_run api L (c # cs) w = (case mtx_step api L c w of None \<Rightarrow> None | Some w' \<Rightarrow> mtx_run api L cs w')"

definition mtx_ok :: "(ptr \<Rightarrow> nat) \<Rightarrow> 'm ghs_world \<Rightarrow> bool" where
  "mtx_ok lim w \<longleftrightarrow> base_ready lim (gw_heap w) \<and> cells_own (gw_cells w) (mem2_outstanding (gw_heap w)) 44"

lemma ghs_step_heap:
  "ghs_step api L c w = Some w' \<Longrightarrow> gw_heap w' = gw_heap w \<and> gw_cells w' = gw_cells w"
  by (cases c) (auto simp: ghsLock_def ghsUnlock_def ghs_flock_create_def ghs_flock_destroy_def ghs_flock_file_def
      ghs_funlock_file_def ghs_ftrylock_file_def gh_set_errno_def ghs_ensureInit_def Let_def case_prod_beta
      split: if_splits option.splits)

lemma mtx_init_ok:
  assumes "mtx_ok lim w"
  shows "mtx_ok lim (ghs_mtx_init api default_heap_init m c w)"
proof (cases "c = null")
  case False
  let ?a = "defaultAllocEx m sizeof_OSMutex 8 (gw_heap w)"
  have n: "unat sizeof_OSMutex = 44" by (simp add: sizeof_OSMutex_def)
  have "base_ready lim (snd ?a)" using assms defh.ok_alloc by (simp add: mtx_ok_def)
  moreover have "cells_own ((gw_cells w)(c := fst ?a)) (mem2_outstanding (snd ?a)) 44"
    using defh.cells_own_alloc [of lim "gw_heap w" "gw_cells w" sizeof_OSMutex m 8 "fst ?a" c] assms n
    by (simp add: mtx_ok_def)
  ultimately show ?thesis
    using False by (simp add: mtx_ok_def ghs_mtx_init_def default_heap_init_def case_prod_beta)
qed (use assms in \<open>simp add: ghs_mtx_init_def\<close>)

lemma mtx_dst_ok:
  assumes "mtx_ok lim w"
  shows "mtx_ok lim (ghs_mtx_dst default_heap_init m c w)"
proof (cases "c \<noteq> null \<and> gw_cells w c \<noteq> null")
  case True
  then show ?thesis
    using assms defh.ok_free [of lim "gw_heap w" m "gw_cells w c"]
      defh.cells_own_free [of lim "gw_heap w" "gw_cells w" 44 c "gw_cells w c" m]
    by (simp add: mtx_ok_def ghs_mtx_dst_def default_heap_init_def)
qed (use assms in \<open>auto simp: ghs_mtx_dst_def\<close>)

lemma mtx_step_ok:
  assumes "mtx_ok lim w" "mtx_step api L c w = Some w'"
  shows "mtx_ok lim w'"
proof (cases c)
  case (Mx_init m d)
  then show ?thesis using assms mtx_init_ok by auto
next
  case (Mx_dst m d)
  then show ?thesis using assms mtx_dst_ok by auto
next
  case (Mx_ghs g)
  then show ?thesis using assms ghs_step_heap [of api L g w w'] by (simp add: mtx_ok_def)
qed (use assms in \<open>auto simp: ghs_mtx_lock_def ghs_mtx_unlock_def mtx_ok_def split: if_splits\<close>)

lemma mtx_run_ok: "mtx_ok lim w \<Longrightarrow> mtx_run api L cs w = Some w' \<Longrightarrow> mtx_ok lim w'"
  by (induction cs arbitrary: w) (auto intro: mtx_step_ok split: option.splits)

lemma mtx_start_ok: "base_ready lim b \<Longrightarrow> mtx_ok lim (ghs_start b)"
  by (simp add: mtx_ok_def ghs_start_def cells_own_start)

lemma holder_frame:
  assumes "k' \<noteq> k"
  shows "mutex_holder api owner k' (OSUnlockMutex api t k tab) = mutex_holder api owner k' tab"
    and "OSLockMutex api t k tab = Some tab' \<Longrightarrow> mutex_holder api owner k' tab' = mutex_holder api owner k' tab"
proof -
  show "mutex_holder api owner k' (OSUnlockMutex api t k tab) = mutex_holder api owner k' tab"
    unfolding mutex_holder_def mutex_frame(2) [OF assms] ..
  show "mutex_holder api owner k' tab' = mutex_holder api owner k' tab" if "OSLockMutex api t k tab = Some tab'"
    unfolding mutex_holder_def mutex_frame(4) [OF assms that] ..
qed

section \<open>A base heap for concrete runs\<close>

definition mtx_demo :: base_world where
  "mtx_demo = snd (MEMGetBaseHeapHandle 0x2000000 MEM_BASE_HEAP_MEM2 base_demo)"

lemma mtx_demo_ready: "base_ready base_demo_lim mtx_demo"
proof -
  have "bases_apart base_demo_lim (baseHeap base_demo)" "malloc_ok base_demo_lim base_demo 0x2000000"
    by (auto simp: bases_apart_def base_demo_def base_demo_lim_def malloc_ok_def less_Suc_eq numeral_3_eq_3)
  then show ?thesis
    using get_base_fresh [OF base_demo_ok _ _ _] by (simp add: base_demo_def mtx_demo_def)
qed

lemma mtx_demo_run:
  "\<exists>w. mtx_run owner_api ghs_demo_link [Mx_init 0 64, Mx_init 0 72] (ghs_start mtx_demo) = Some w \<and>
     gw_cells w 64 \<noteq> null \<and> gw_cells w 72 \<noteq> null"
  by (simp add: mtx_demo_def base_demo_def MEMGetBaseHeapHandle_def defaultAllocEx_def baseIndex_def kSize_def exp_eval
      ghs_mtx_init_def default_heap_init_def sizeof_OSMutex_def ghs_start_def case_prod_beta)

end
