(* ===== verification/AlarmLoop.thy ===== *)
theory AlarmLoop
  imports AlarmSched
begin

text \<open>
  The scheduler thread of \<^verbatim>\<open>source/alarm.cpp\<close> as a state machine: where it is in \<^verbatim>\<open>schedulerLoop\<close>, its condition variable and
  the clock, among the calls of all other threads and the three parts of \<^verbatim>\<open>coreinitNxAlarmShutdown\<close>. A turn of the loop,
  from its test to where it gives the lock up, is one step; so is each callback. The clock counts the ticks of
  \<^verbatim>\<open>OSGetTime\<close> and only grows. The host may wake a waiting thread at any time, and wakes it at the latest \<open>lag\<close> ticks after
  the wait is over; \<open>pause\<close> bounds the ticks between the two readings of the clock in a turn.
\<close>

section \<open>States and steps\<close>

datatype sched_loc = Absent | Top | Calls | Asleep "int option" | Ended

text \<open>\<open>Stopping\<close> and \<open>Joined\<close>: a shutdown has set \<^verbatim>\<open>g_stop\<close>, and has also seen the thread end.\<close>

datatype shutdown_phase = Running | Stopping | Joined

record sched_state =
  ss_loc :: sched_loc
  ss_world :: alarm_world
  ss_phase :: shutdown_phase
  ss_now :: s64

definition sched_begin :: "s64 \<Rightarrow> sched_state" where
  "sched_begin now = \<lparr>ss_loc = Absent, ss_world = alarm_start, ss_phase = Running, ss_now = now\<rparr>"

text \<open>When a wait that begins at \<open>now\<close> is over, on the clock: after \<open>ns\<close> nanoseconds, never if it has no limit.\<close>

definition wait_end :: "s64 \<Rightarrow> u64 option \<Rightarrow> int option" where
  "wait_end now ns = map_option (\<lambda>ns. sint now + int (unat ns) * 1989 div 32000) ns"

definition loop_turn :: "s64 \<Rightarrow> s64 \<Rightarrow> alarm_world \<Rightarrow> sched_loc \<times> alarm_world" where
  "loop_turn now now' w =
     (case sched_pass now (al_map w) 0 of
        (due, m, nearest) \<Rightarrow>
          (if due \<noteq> [] then Calls else Asleep (wait_end now' (sched_wait nearest now')),
           w\<lparr>al_map := m, al_pending := due\<rparr>))"

definition awake :: "sched_loc \<Rightarrow> sched_loc" where
  "awake l = (case l of Asleep _ \<Rightarrow> Top | _ \<Rightarrow> l)"

text \<open>The calls that wake the scheduler, and those the other threads make at time \<open>now\<close>, with times that do not overflow.\<close>

fun wakes :: "alarm_ev \<Rightarrow> bool" where
  "wakes (ASet ok n a t f) = (a \<noteq> null)"
| "wakes (ASetPeriodic ok n a t i f) = (a \<noteq> null)"
| "wakes (ACancel a) = (a \<noteq> null)"
| "wakes (ACancelGroup g) = True"
| "wakes _ = False"

fun is_call :: "s64 \<Rightarrow> alarm_ev \<Rightarrow> bool" where
  "is_call now (ASet ok n a t f) = (n = now \<and> 0 < sint now + sint t \<and> sint t < 2 ^ 62)"
| "is_call now (ASetPeriodic ok n a t i f) = (n = now \<and> 0 < sint now + sint t \<and> sint t < 2 ^ 62 \<and> sint i < 2 ^ 62)"
| "is_call now (APass n) = False"
| "is_call now AFire = False"
| "is_call now _ = True"

definition after_call :: "alarm_ev \<Rightarrow> sched_state \<Rightarrow> sched_state" where
  "after_call e s =
     (let w = alarm_step e (ss_world s);
          l = (if wakes e then awake (ss_loc s) else ss_loc s)
      in s\<lparr>ss_world := w, ss_loc := (if l = Absent \<and> al_started w then Top else l)\<rparr>)"

definition after_fire :: "sched_state \<Rightarrow> sched_state" where
  "after_fire s =
     (let w = sched_fire (ss_world s)
      in s\<lparr>ss_world := w, ss_loc := (if al_pending w = [] then Top else Calls)\<rparr>)"

inductive sched_step :: "int \<Rightarrow> int \<Rightarrow> sched_state \<Rightarrow> sched_state \<Rightarrow> bool" for pause lag where
  turn: "ss_loc s = Top \<Longrightarrow> ss_phase s = Running \<Longrightarrow> ss_now s \<le>s now' \<Longrightarrow> sint now' \<le> sint (ss_now s) + pause \<Longrightarrow>
    sint now' < 2 ^ 62 \<Longrightarrow> loop_turn (ss_now s) now' (ss_world s) = (l, w) \<Longrightarrow>
    sched_step pause lag s (s\<lparr>ss_loc := l, ss_world := w, ss_now := now'\<rparr>)"
| finish: "ss_loc s = Top \<Longrightarrow> ss_phase s \<noteq> Running \<Longrightarrow> sched_step pause lag s (s\<lparr>ss_loc := Ended\<rparr>)"
| fire: "ss_loc s = Calls \<Longrightarrow> sched_step pause lag s (after_fire s)"
| wake: "ss_loc s = Asleep u \<Longrightarrow> sched_step pause lag s (s\<lparr>ss_loc := Top\<rparr>)"
| tick: "ss_now s \<le>s now' \<Longrightarrow> sint now' < 2 ^ 62 \<Longrightarrow> \<forall>u. ss_loc s = Asleep (Some u) \<longrightarrow> sint now' \<le> u + lag \<Longrightarrow>
    sched_step pause lag s (s\<lparr>ss_now := now'\<rparr>)"
| calls: "is_call (ss_now s) e \<Longrightarrow> sched_step pause lag s (after_call e s)"
| stop: "ss_phase s = Running \<Longrightarrow> al_inited (ss_world s) \<Longrightarrow>
    sched_step pause lag s (s\<lparr>ss_phase := Stopping, ss_loc := awake (ss_loc s)\<rparr>)"
| join: "ss_phase s = Stopping \<Longrightarrow> ss_loc s = Ended \<Longrightarrow>
    sched_step pause lag s (s\<lparr>ss_phase := Joined, ss_loc := Absent, ss_world := (ss_world s)\<lparr>al_started := False\<rparr>\<rparr>)"
| nothing_to_join: "ss_phase s = Stopping \<Longrightarrow> \<not> al_started (ss_world s) \<Longrightarrow> sched_step pause lag s (s\<lparr>ss_phase := Joined\<rparr>)"
| clear: "ss_phase s = Joined \<Longrightarrow>
    sched_step pause lag s (s\<lparr>ss_phase := Running, ss_world := (ss_world s)\<lparr>al_map := []\<rparr>\<rparr>)"

inductive sched_reach :: "int \<Rightarrow> int \<Rightarrow> sched_state \<Rightarrow> bool" for pause lag where
  start: "0 < sint now \<Longrightarrow> sint now < 2 ^ 62 \<Longrightarrow> sched_reach pause lag (sched_begin now)"
| step: "sched_reach pause lag s \<Longrightarrow> sched_step pause lag s s' \<Longrightarrow> sched_reach pause lag s'"

inductive_cases sched_stepE: "sched_step pause lag s s'"

section \<open>What holds in every state\<close>

definition loop_ok :: "int \<Rightarrow> int \<Rightarrow> sched_state \<Rightarrow> bool" where
  "loop_ok pause lag s \<longleftrightarrow>
     alarm_ok (ss_world s) \<and> 0 < sint (ss_now s) \<and> sint (ss_now s) < 2 ^ 62 \<and>
     (\<forall>(k, h) \<in> set (al_map (ss_world s)). sint (ha_interval h) < 2 ^ 62 \<and> (ha_armed h \<longrightarrow> 0 < sint (ha_due h))) \<and>
     (case ss_loc s of
        Asleep None \<Rightarrow> \<forall>(k, h) \<in> set (al_map (ss_world s)). \<not> ha_armed h
      | Asleep (Some u) \<Rightarrow> sint (ss_now s) \<le> u + lag \<and>
          (\<forall>(k, h) \<in> set (al_map (ss_world s)). ha_armed h \<longrightarrow> u \<le> sint (ha_due h) + pause)
      | _ \<Rightarrow> True)"

lemma am_put_set: "(k', h') \<in> set (am_put k h m) \<Longrightarrow> (k', h') = (k, h) \<or> (k', h') \<in> set m"
  by (induction k h m rule: am_put.induct) (auto split: if_splits)

lemma alarm_find_set: "alarm_find a w = Some h \<Longrightarrow> (a, h) \<in> set (al_map w)"
  by (simp add: alarm_find_def map_of_SomeD)

lemma sint_unat:
  assumes "0 \<le> sint (x :: s64)"
  shows "int (unat x) = sint x"
proof -
  have "sint x < 2 ^ 64" using sint_less [of x] by simp
  then have "take_bit 64 (sint x) = sint x" using assms by (simp add: take_bit_int_eq_self)
  then show ?thesis by (simp add: uint_sint [of x])
qed

lemma alarm_put_set: "(k', h') \<in> set (al_map (alarm_put k h w)) \<Longrightarrow> (k', h') = (k, h) \<or> (k', h') \<in> set (al_map w)"
  using am_put_set by (simp add: alarm_put_def)

lemma ensureThread_map [simp]: "al_map (ensureThread ok w) = al_map w"
  by (simp add: ensureThread_def)

lemma alarm_entry_cases: "alarm_entry a w = alarm_init \<or> (a, alarm_entry a w) \<in> set (al_map w)"
  by (auto simp: alarm_entry_def dest: alarm_find_set split: option.split)

text \<open>A turn that finds nothing due waits until the earliest alarm at the latest, and without a limit only if none is armed.\<close>

lemma turn_waits:
  assumes "0 < sint now" "now \<le>s now'" "sint now' \<le> sint now + pause" "0 \<le> pause"
    and "\<forall>(k, h) \<in> set m. ha_armed h \<longrightarrow> 0 < sint (ha_due h) \<and> \<not> ha_due h \<le>s now"
    and "nearest = next_due (map snd m) 0"
  shows "case wait_end now' (sched_wait nearest now') of
      None \<Rightarrow> \<forall>(k, h) \<in> set m. \<not> ha_armed h
    | Some u \<Rightarrow> sint now' \<le> u \<and> (\<forall>(k, h) \<in> set m. ha_armed h \<longrightarrow> u \<le> sint (ha_due h) + pause)"
proof (cases "sched_wait nearest now'")
  case None
  then have "nearest = 0" using sched_wait_bound [of nearest now'] by simp
  then show ?thesis using next_due_min [of "map snd m" 0] assms(5,6) None by (fastforce simp: wait_end_def)
next
  case (Some ns)
  have pos: "\<forall>h \<in> set (map snd m). ha_armed h \<longrightarrow> ha_due h \<noteq> 0" using assms(5) by fastforce
  have nz: "nearest \<noteq> 0" using Some by (auto simp: sched_wait_def)
  with next_due_min [OF pos, of 0] assms(6)
  have min: "(\<exists>h \<in> set (map snd m). ha_armed h \<and> nearest = ha_due h)" "\<forall>h \<in> set (map snd m). ha_armed h \<longrightarrow> nearest \<le>s ha_due h"
    by auto
  then have near: "0 < sint nearest" "\<not> nearest \<le>s now" using assms(5) by fastforce+
  define u where "u = sint now' + int (unat ns) * 1989 div 32000"
  have "u \<le> sint nearest + pause"
  proof (cases "0 <s nearest - now'")
    case True
    have d: "sint (nearest - now') = sint nearest - sint now'"
      using near(1) assms(1,2) sint_less [of nearest] sint_less [of now'] by (intro sint_minus_nowrap) (simp_all add: word_sle_eq)
    have "unat ns * 1989 \<le> unat (nearest - now') * 32000"
      using sched_wait_bound [of nearest now'] Some True by simp
    then have "int (unat ns) * 1989 \<le> int (unat (nearest - now')) * 32000" by linarith
    also have "\<dots> = (sint nearest - sint now') * 32000"
      using True d by (subst sint_unat) (simp_all add: word_sless_alt)
    finally have "int (unat ns) * 1989 div 32000 \<le> (sint nearest - sint now') * 32000 div 32000"
      by (rule zdiv_mono1) simp
    then show ?thesis using assms(4) by (simp add: u_def)
  next
    case False
    then have "ns = 0" using sched_wait_bound [of nearest now'] Some by simp
    then show ?thesis using near assms(2,3) by (simp add: u_def word_sle_eq)
  qed
  moreover have "sint now' \<le> u" by (simp add: u_def pos_imp_zdiv_nonneg_iff)
  ultimately show ?thesis using Some min(2) by (fastforce simp: wait_end_def u_def word_sle_eq)
qed

lemma turn_keeps:
  assumes "loop_ok pause lag s" "0 \<le> pause" "0 \<le> lag" "ss_now s \<le>s now'" "sint now' \<le> sint (ss_now s) + pause"
    "sint now' < 2 ^ 62" "loop_turn (ss_now s) now' (ss_world s) = (l, w)"
  shows "loop_ok pause lag (s\<lparr>ss_loc := l, ss_world := w, ss_now := now'\<rparr>)"
proof -
  let ?now = "ss_now s" and ?m0 = "al_map (ss_world s)"
  define m where "m = map (\<lambda>(k, h). (k, advance ?now h)) ?m0"
  define due where "due = filter (\<lambda>(k, h). is_due ?now h) ?m0"
  have w: "al_map w = m" "alarm_ok w"
    using assms(1,7) by (auto simp: loop_turn_def sched_pass_eq m_def loop_ok_def alarm_ok_def am_sorted_map)
  have l: "l = (if due \<noteq> [] then Calls else Asleep (wait_end now' (sched_wait (next_due (map snd m) 0) now')))"
    using assms(7) by (auto simp: loop_turn_def sched_pass_eq m_def due_def comp_def case_prod_unfold)
  have old: "0 < sint ?now" "sint ?now < 2 ^ 62"
    "\<And>k h. (k, h) \<in> set ?m0 \<Longrightarrow> sint (ha_interval h) < 2 ^ 62 \<and> (ha_armed h \<longrightarrow> 0 < sint (ha_due h))"
    using assms(1) by (auto simp: loop_ok_def)
  have new: "sint (ha_interval h) < 2 ^ 62 \<and> (ha_armed h \<longrightarrow> 0 < sint (ha_due h))" if mem: "(k, h) \<in> set m" for k h
  proof -
    obtain h0 where h0: "(k, h0) \<in> set ?m0" "h = advance ?now h0" using mem by (auto simp: m_def)
    have "sint (?now + ha_interval h0) = sint ?now + sint (ha_interval h0)" if "0 <s ha_interval h0"
      using that old(1,2) old(3) [OF h0(1)] by (intro sint_plus_nowrap) (simp_all add: word_sless_alt)
    with old(1) old(3) [OF h0(1)] h0(2) show ?thesis by (auto simp: advance_def word_sless_alt)
  qed
  show ?thesis
  proof (cases "due = []")
    case True
    then have idle: "\<not> is_due ?now h" if "(k, h) \<in> set ?m0" for k h
      using that by (auto simp: due_def filter_empty_conv)
    then have m: "m = ?m0" by (auto simp: m_def advance_def intro!: map_idI)
    have "\<forall>(k, h) \<in> set m. ha_armed h \<longrightarrow> 0 < sint (ha_due h) \<and> \<not> ha_due h \<le>s ?now"
      using idle old(3) by (auto simp: m is_due_def)
    from turn_waits [OF old(1) assms(4,5,2) this refl]
    show ?thesis
      using True w l new old assms(3,4,6)
      by (auto simp: loop_ok_def word_sle_eq split: option.splits) 
  next
    case False
    then show ?thesis using w l new old assms(4,6) by (auto simp: loop_ok_def word_sle_eq)
  qed
qed

lemma call_keeps:
  assumes "loop_ok pause lag s" "0 \<le> pause" "0 \<le> lag" "is_call (ss_now s) e"
  shows "loop_ok pause lag (after_call e s)"
proof -
  let ?w = "ss_world s"
  have ok: "alarm_ok (alarm_step e ?w)" using assms(1) by (simp add: loop_ok_def alarm_step_ok)
  have old: "sint (ha_interval h) < 2 ^ 62" "ha_armed h \<Longrightarrow> 0 < sint (ha_due h)" if "(k, h) \<in> set (al_map ?w)" for k h
    using assms(1) that by (auto simp: loop_ok_def)
  have new: "sint (ha_interval h) < 2 ^ 62 \<and> (ha_armed h \<longrightarrow> 0 < sint (ha_due h))
      \<and> (ha_armed h \<longrightarrow> \<not> wakes e \<longrightarrow> (\<exists>h0. (k, h0) \<in> set (al_map ?w) \<and> ha_armed h0 \<and> ha_due h0 = ha_due h))"
    if mem: "(k, h) \<in> set (al_map (alarm_step e ?w))" for k h
  proof (cases e)
    case (ASet ok n a t f)
    have "sint (n + t) = sint n + sint t"
      using assms(1,4) ASet by (intro sint_plus_nowrap) (simp_all add: loop_ok_def)
    with mem ASet assms(4) old show ?thesis
      by (auto simp: OSSetAlarm_def Let_def dest!: alarm_put_set split: if_splits)
  next
    case (ASetPeriodic ok n a t i f)
    have "sint (n + t) = sint n + sint t"
      using assms(1,4) ASetPeriodic by (intro sint_plus_nowrap) (simp_all add: loop_ok_def)
    with mem ASetPeriodic assms(4) old show ?thesis
      by (auto simp: OSSetPeriodicAlarm_def Let_def dest!: alarm_put_set split: if_splits)
  next
    case (ACancel a)
    with mem old show ?thesis
      by (auto simp: OSCancelAlarm_def Let_def dest!: alarm_put_set alarm_find_set split: if_splits option.splits)
  next
    case (ATag a g)
    with mem old alarm_entry_cases [of a ?w] show ?thesis
      by (auto simp: OSSetAlarmTag_def Let_def alarm_init_def dest!: alarm_put_set split: if_splits)
  next
    case (AUser a d)
    with mem old alarm_entry_cases [of a ?w] show ?thesis
      by (auto simp: OSSetAlarmUserData_def Let_def alarm_init_def dest!: alarm_put_set split: if_splits)
  next
    case (ACancelGroup g)
    with mem old show ?thesis by (auto simp: OSCancelAlarms_def Let_def split: if_splits)
  qed (use mem old assms(4) in \<open>auto simp: OSCreateAlarm_def alarm_init_def dest!: alarm_put_set split: if_splits\<close>)
  have frame: "ss_world (after_call e s) = alarm_step e ?w" "ss_now (after_call e s) = ss_now s"
    by (simp_all add: after_call_def Let_def)
  have sleeps: "ss_loc s = Asleep v" "\<not> wakes e" if "ss_loc (after_call e s) = Asleep v" for v
    using that by (auto simp: after_call_def awake_def Let_def split: if_splits sched_loc.splits)
  have none: "\<not> ha_armed h" if "ss_loc (after_call e s) = Asleep None" "(k, h) \<in> set (al_map (alarm_step e ?w))" for k h
    using assms(1) sleeps [OF that(1)] new [OF that(2)] by (auto simp: loop_ok_def)
  have some: "sint (ss_now s) \<le> u + lag" "ha_armed h \<Longrightarrow> u \<le> sint (ha_due h) + pause"
    if "ss_loc (after_call e s) = Asleep (Some u)" "(k, h) \<in> set (al_map (alarm_step e ?w))" for k h u
    using assms(1) sleeps [OF that(1)] new [OF that(2)] by (fastforce simp: loop_ok_def)+
  have time: "sint (ss_now s) \<le> u + lag" if "ss_loc (after_call e s) = Asleep (Some u)" for u
    using assms(1) sleeps [OF that] by (auto simp: loop_ok_def)
  show ?thesis
    using assms(1) ok new none some(2) time unfolding loop_ok_def frame
    by (auto split: sched_loc.splits option.splits)
qed

lemma fire_map [simp]: "al_map (sched_fire w) = al_map w" "alarm_ok (sched_fire w) = alarm_ok w"
  by (auto simp: sched_fire_def alarm_ok_def split: list.split)

lemma step_keeps:
  assumes "loop_ok pause lag s" "0 \<le> pause" "0 \<le> lag" "sched_step pause lag s s'"
  shows "loop_ok pause lag s'"
  using assms(4)
proof (cases rule: sched_step.cases)
  case (turn now' l w)
  with turn_keeps [OF assms(1-3)] show ?thesis by simp
next
  case (calls e)
  with call_keeps [OF assms(1-3)] show ?thesis by simp
qed (use assms(1) in \<open>auto simp: loop_ok_def after_fire_def awake_def Let_def word_sle_eq alarm_ok_def am_sorted_def
    split: sched_loc.splits option.splits\<close>)

lemma reach_ok: "sched_reach pause lag s \<Longrightarrow> 0 \<le> pause \<Longrightarrow> 0 \<le> lag \<Longrightarrow> loop_ok pause lag s"
proof (induction rule: sched_reach.induct)
  case (start now)
  then show ?case by (simp add: loop_ok_def sched_begin_def alarm_start_def alarm_ok_def am_sorted_def)
next
  case (step s s')
  then show ?case using step_keeps by blast
qed

section \<open>Properties\<close>

text \<open>
  C5: no alarm is slept through. Over every interleaving of the scheduler with the calls of other threads, with callbacks and
  shutdowns, a scheduler that waits is at most \<open>pause + lag\<close> ticks late for each armed alarm, and waits without a limit
  only while none is armed; and the next turn of the loop collects each alarm that is due. So what delays an alarm longer
  is a callback that runs.
\<close>

theorem sched_never_oversleeps:
  assumes "sched_reach pause lag s" "0 \<le> pause" "0 \<le> lag" "alarm_find a (ss_world s) = Some h" "ha_armed h"
  shows "(\<forall>u. ss_loc s = Asleep u \<longrightarrow> u \<noteq> None \<and> sint (ss_now s) \<le> sint (ha_due h) + pause + lag)
    \<and> (\<forall>now'. ha_due h \<le>s ss_now s \<longrightarrow>
         fst (loop_turn (ss_now s) now' (ss_world s)) = Calls
         \<and> (a, ha_callback h) \<in> set (al_pending (snd (loop_turn (ss_now s) now' (ss_world s)))))"
proof -
  have ok: "loop_ok pause lag s" using reach_ok [OF assms(1-3)] .
  have mem: "(a, h) \<in> set (al_map (ss_world s))" using alarm_find_set [OF assms(4)] .
  have "u \<noteq> None \<and> sint (ss_now s) \<le> sint (ha_due h) + pause + lag" if "ss_loc s = Asleep u" for u
    using ok that mem assms(5) by (cases u) (fastforce simp: loop_ok_def)+
  moreover have "(a, ha_callback h) \<in> set (fst (sched_pass (ss_now s) (al_map (ss_world s)) 0))" if "ha_due h \<le>s ss_now s"
    using that mem assms(5) by (force simp: sched_pass_eq is_due_def)
  ultimately show ?thesis by (auto simp: loop_turn_def split: prod.split)
qed

text \<open>An alarm set for tick 1500, seen while the scheduler waits for it.\<close>

definition sleep_demo :: sched_state where
  "sleep_demo =
     (let s1 = after_call (ASet True 1000 8 500 77) (sched_begin 1000);
          (l, w) = loop_turn 1000 1010 (ss_world s1)
      in s1\<lparr>ss_loc := l, ss_world := w, ss_now := 1400\<rparr>)"

lemmas sched_eval = sleep_demo_def after_call_def sched_begin_def alarm_start_def loop_turn_def wait_end_def sched_wait_def
  awake_def OSSetAlarm_def alarm_put_def alarm_ensureInit_def ensureThread_def alarm_entry_def alarm_find_def alarm_init_def

lemma sleep_demo_eq: "ss_loc sleep_demo = Asleep (Some 1499)" "ss_now sleep_demo = 1400"
  "alarm_find 8 (ss_world sleep_demo) = Some \<lparr>ha_due = 1500, ha_interval = 0, ha_callback = 77, ha_userData = null, ha_group = 0, ha_armed = True\<rparr>"
  by (simp_all add: sched_eval Let_def word_sle_eq word_sless_alt)

lemma sleep_demo_reach: "sched_reach 10 5 sleep_demo"
proof -
  let ?s1 = "after_call (ASet True 1000 8 500 77) (sched_begin 1000)"
  let ?t = "loop_turn 1000 1010 (ss_world ?s1)"
  have "sched_reach 10 5 (sched_begin 1000)" by (rule sched_reach.start) simp_all
  moreover have "sched_step 10 5 (sched_begin 1000) ?s1" by (rule sched_step.calls) (simp add: sched_begin_def)
  ultimately have "sched_reach 10 5 ?s1" by (rule sched_reach.step)
  moreover have "sched_step 10 5 ?s1 (?s1\<lparr>ss_loc := fst ?t, ss_world := snd ?t, ss_now := 1010\<rparr>)"
    by (rule sched_step.turn) (simp_all add: after_call_def sched_begin_def alarm_start_def OSSetAlarm_def ensureThread_def
      alarm_put_def Let_def awake_def word_sle_eq)
  ultimately have "sched_reach 10 5 (?s1\<lparr>ss_loc := fst ?t, ss_world := snd ?t, ss_now := 1010\<rparr>)" by (rule sched_reach.step)
  moreover have "sched_step 10 5 (?s1\<lparr>ss_loc := fst ?t, ss_world := snd ?t, ss_now := 1010\<rparr>) sleep_demo"
    using sched_step.tick [of "?s1\<lparr>ss_loc := fst ?t, ss_world := snd ?t, ss_now := 1010\<rparr>" 1400 5 10]
    by (simp add: sched_eval Let_def word_sle_eq word_sless_alt)
  ultimately show ?thesis by (rule sched_reach.step)
qed

theorem sched_never_oversleeps_witness:
  "ss_loc sleep_demo = Asleep (Some 1499) \<and> sint (ss_now sleep_demo) \<le> sint (1500 :: s64) + 10 + 5"
  using sched_never_oversleeps [OF sleep_demo_reach _ _ sleep_demo_eq(3)] by (simp add: sleep_demo_eq)

text \<open>The shutdown, in its parts and with the scheduler finishing what it has collected, is the single step of the model.\<close>

lemma fire_all:
  "ss_loc s = Calls \<Longrightarrow> al_pending (ss_world s) = d # ds \<Longrightarrow>
     (sched_step pause lag)\<^sup>*\<^sup>* s (s\<lparr>ss_loc := Top, ss_world := (ss_world s)
       \<lparr>al_pending := [], al_fired := al_fired (ss_world s) @ fire_pending (d # ds)\<rparr>\<rparr>)"
proof (induction ds arbitrary: s d)
  case Nil
  then have "after_fire s = s\<lparr>ss_loc := Top, ss_world := (ss_world s)
       \<lparr>al_pending := [], al_fired := al_fired (ss_world s) @ fire_pending [d]\<rparr>\<rparr>"
    by (cases d) (simp add: after_fire_def sched_fire_def fire_pending_def)
  then show ?case using sched_step.fire [OF Nil(1), of pause lag] by (simp add: r_into_rtranclp)
next
  case (Cons d' ds)
  let ?s = "after_fire s"
  have s: "ss_loc ?s = Calls" "al_pending (ss_world ?s) = d' # ds"
    "al_fired (ss_world ?s) = al_fired (ss_world s) @ fire_pending [d]"
    "ss_world ?s = (ss_world s)\<lparr>al_pending := d' # ds, al_fired := al_fired (ss_world ?s)\<rparr>"
    "?s\<lparr>ss_loc := Top, ss_world := w\<rparr> = s\<lparr>ss_loc := Top, ss_world := w\<rparr>" for w
    using Cons.prems by (cases d; simp add: after_fire_def sched_fire_def fire_pending_def)+
  have "sched_step pause lag s ?s" using sched_step.fire [OF Cons.prems(1)] .
  moreover note Cons.IH [OF s(1,2)]
  ultimately show ?case
    unfolding s(5) by (subst (asm) s(4), subst (asm) s(3))
      (auto simp: fire_pending_def intro: converse_rtranclp_into_rtranclp)
qed

definition loc_agrees :: "sched_state \<Rightarrow> bool" where
  "loc_agrees s \<longleftrightarrow> (ss_loc s = Absent \<longleftrightarrow> \<not> al_started (ss_world s)) \<and> (ss_loc s = Calls \<longleftrightarrow> al_pending (ss_world s) \<noteq> [])"

lemma stopped_ends:
  assumes "ss_phase s = Stopping" "loc_agrees s" "ss_loc s \<noteq> Absent" "\<forall>u. ss_loc s \<noteq> Asleep u"
  shows "(sched_step pause lag)\<^sup>*\<^sup>* s (s\<lparr>ss_loc := Ended, ss_world := (ss_world s)
       \<lparr>al_pending := [], al_fired := al_fired (ss_world s) @ fire_pending (al_pending (ss_world s))\<rparr>\<rparr>)"
    (is "(sched_step pause lag)\<^sup>*\<^sup>* s ?e")
proof -
  let ?t = "?e\<lparr>ss_loc := Top\<rparr>"
  have finish: "sched_step pause lag ?t ?e" using sched_step.finish [of ?t pause lag] assms(1) by (cases s) simp
  have idle: "?e = s\<lparr>ss_loc := Ended\<rparr>" if "al_pending (ss_world s) = []"
    using that by (simp add: fire_pending_def)
  consider "ss_loc s = Calls" | "ss_loc s = Top" | "ss_loc s = Ended" using assms(3,4) by (cases "ss_loc s") auto
  then show ?thesis
  proof cases
    case 1
    then obtain d ds where a: "al_pending (ss_world s) = d # ds" using assms(2) by (cases "al_pending (ss_world s)") (auto simp: loc_agrees_def)
    have t: "?t = s\<lparr>ss_loc := Top, ss_world := (ss_world s)
        \<lparr>al_pending := [], al_fired := al_fired (ss_world s) @ fire_pending (al_pending (ss_world s))\<rparr>\<rparr>"
      by (cases s) simp
    have "(sched_step pause lag)\<^sup>*\<^sup>* s ?t" unfolding t unfolding a by (rule fire_all [OF 1 a])
    with finish show ?thesis by (rule rtranclp.rtrancl_into_rtrancl [rotated]) 
  next
    case 2
    then have "?t = s" using assms(2) by (simp add: loc_agrees_def fire_pending_def)
    with finish show ?thesis by (metis r_into_rtranclp)
  next
    case 3
    then have "?e = s" using assms(2) by (simp add: loc_agrees_def fire_pending_def)
    then show ?thesis by simp
  qed
qed

lemma shutdown_refines:
  assumes "ss_phase s = Running" "al_inited (ss_world s)" "loc_agrees s"
  shows "(sched_step pause lag)\<^sup>*\<^sup>* s (s\<lparr>ss_loc := Absent, ss_world := coreinitNxAlarmShutdown (ss_world s)\<rparr>)"
proof -
  let ?w = "ss_world s"
  let ?s1 = "s\<lparr>ss_phase := Stopping, ss_loc := awake (ss_loc s)\<rparr>"
  have 1: "sched_step pause lag s ?s1" using sched_step.stop [OF assms(1,2)] .
  have agrees: "loc_agrees ?s1" "ss_loc ?s1 = Absent \<longleftrightarrow> ss_loc s = Absent" "\<forall>u. ss_loc ?s1 \<noteq> Asleep u"
    using assms(3) by (auto simp: loc_agrees_def awake_def split: sched_loc.splits)
  show ?thesis
  proof (cases "ss_loc s = Absent")
    case True
    have 2: "sched_step pause lag ?s1 (?s1\<lparr>ss_phase := Joined\<rparr>)"
      using sched_step.nothing_to_join [of ?s1 pause lag] True assms(3) by (simp add: loc_agrees_def)
    have 3: "sched_step pause lag (?s1\<lparr>ss_phase := Joined\<rparr>) (s\<lparr>ss_loc := Absent, ss_world := coreinitNxAlarmShutdown ?w\<rparr>)"
      using sched_step.clear [of "?s1\<lparr>ss_phase := Joined\<rparr>" pause lag] True assms
      by (cases s; cases "ss_world s") (simp add: coreinitNxAlarmShutdown_def loc_agrees_def awake_def)
    from 1 2 3 show ?thesis by (meson converse_rtranclp_into_rtranclp r_into_rtranclp)
  next
    case False
    define w2 where "w2 = ?w\<lparr>al_pending := [], al_fired := al_fired ?w @ fire_pending (al_pending ?w)\<rparr>"
    let ?s2 = "?s1\<lparr>ss_loc := Ended, ss_world := w2\<rparr>"
    let ?s3 = "?s2\<lparr>ss_phase := Joined, ss_loc := Absent, ss_world := w2\<lparr>al_started := False\<rparr>\<rparr>"
    have 2: "(sched_step pause lag)\<^sup>*\<^sup>* ?s1 ?s2"
      using stopped_ends [of ?s1 pause lag] agrees False by (simp add: w2_def)
    have 3: "sched_step pause lag ?s2 ?s3" using sched_step.join [of ?s2 pause lag] by simp
    have 4: "sched_step pause lag ?s3 (s\<lparr>ss_loc := Absent, ss_world := coreinitNxAlarmShutdown ?w\<rparr>)"
      using sched_step.clear [of ?s3 pause lag] False assms
      by (cases s; cases "ss_world s") (simp add: coreinitNxAlarmShutdown_def loc_agrees_def w2_def)
    from 1 2 3 4 show ?thesis by (meson converse_rtranclp_into_rtranclp rtranclp.rtrancl_into_rtrancl)
  qed
qed

text \<open>
  A defect: an alarm that another thread sets after the shutdown has joined the scheduler and before it clears the flag
  starts a scheduler that ends at once, with \<^verbatim>\<open>g_started\<close> left set. No later alarm starts another, and none rings.
\<close>

lemma dead_scheduler:
  assumes "sched_step pause lag s s'" "ss_loc s = Ended" "ss_phase s = Running" "al_started (ss_world s)" "ss_phase s' = Running"
  shows "ss_loc s' = Ended \<and> al_started (ss_world s') \<and> al_fired (ss_world s') = al_fired (ss_world s)"
  using assms(1)
proof (cases rule: sched_step.cases)
  case (calls e)
  have "al_fired (alarm_step e w) = al_fired w" if "is_call n e" for n w
    using that by (cases e) (auto simp: alarm_op_defs OSCancelAlarm_def OSCancelAlarms_def Let_def split: option.split)
  with calls assms(2,4) show ?thesis
    by (auto simp: after_call_def awake_def Let_def intro: step_started)
qed (use assms(2-5) in \<open>auto simp: awake_def\<close>)

definition race_demo :: sched_state where
  "race_demo =
     (let s1 = after_call (ACreate 8) (sched_begin 1000);
          s2 = s1\<lparr>ss_phase := Joined\<rparr>;
          s3 = (after_call (ASet True 1000 8 500 77) s2)\<lparr>ss_loc := Ended\<rparr>;
          s4 = s3\<lparr>ss_phase := Running, ss_world := (ss_world s3)\<lparr>al_map := []\<rparr>\<rparr>
      in (after_call (ASet True 1000 8 500 77) s4)\<lparr>ss_now := 9000\<rparr>)"

lemma shutdown_race:
  "sched_reach 0 0 race_demo \<and> ss_loc race_demo = Ended \<and> ss_phase race_demo = Running \<and> al_started (ss_world race_demo)
   \<and> (\<exists>h. alarm_find 8 (ss_world race_demo) = Some h \<and> ha_armed h \<and> ha_due h \<le>s ss_now race_demo)"
proof -
  let ?s1 = "after_call (ACreate 8) (sched_begin 1000)"
  let ?s2 = "?s1\<lparr>ss_phase := Stopping\<rparr>"
  let ?s3 = "?s1\<lparr>ss_phase := Joined\<rparr>"
  let ?s4 = "after_call (ASet True 1000 8 500 77) ?s3"
  let ?s5 = "?s4\<lparr>ss_loc := Ended\<rparr>"
  let ?s6 = "?s5\<lparr>ss_phase := Running, ss_world := (ss_world ?s5)\<lparr>al_map := []\<rparr>\<rparr>"
  let ?s7 = "after_call (ASet True 1000 8 500 77) ?s6"
  note eval = sched_eval OSCreateAlarm_def
  have "sched_reach 0 0 (sched_begin 1000)" by (rule sched_reach.start) simp_all
  moreover have "sched_step 0 0 (sched_begin 1000) ?s1" by (rule sched_step.calls) simp
  ultimately have "sched_reach 0 0 ?s1" by (rule sched_reach.step)
  moreover have "sched_step 0 0 ?s1 ?s2" using sched_step.stop [of ?s1 0 0] by (simp add: eval Let_def)
  ultimately have "sched_reach 0 0 ?s2" by (rule sched_reach.step)
  moreover have "sched_step 0 0 ?s2 ?s3" using sched_step.nothing_to_join [of ?s2 0 0] by (simp add: eval Let_def)
  ultimately have "sched_reach 0 0 ?s3" by (rule sched_reach.step)
  moreover have "sched_step 0 0 ?s3 ?s4" by (rule sched_step.calls) (simp add: eval Let_def)
  ultimately have "sched_reach 0 0 ?s4" by (rule sched_reach.step)
  moreover have "sched_step 0 0 ?s4 ?s5" by (rule sched_step.finish) (simp_all add: eval Let_def)
  ultimately have "sched_reach 0 0 ?s5" by (rule sched_reach.step)
  moreover have "sched_step 0 0 ?s5 ?s6" by (rule sched_step.clear) (simp add: eval Let_def)
  ultimately have "sched_reach 0 0 ?s6" by (rule sched_reach.step)
  moreover have "sched_step 0 0 ?s6 ?s7" by (rule sched_step.calls) (simp add: eval Let_def)
  ultimately have "sched_reach 0 0 ?s7" by (rule sched_reach.step)
  moreover have "sched_step 0 0 ?s7 (?s7\<lparr>ss_now := 9000\<rparr>)" by (rule sched_step.tick) (simp_all add: eval Let_def word_sle_eq)
  ultimately have "sched_reach 0 0 (?s7\<lparr>ss_now := 9000\<rparr>)" by (rule sched_reach.step)
  then show ?thesis by (simp add: race_demo_def Let_def) (simp add: eval Let_def word_sle_eq)
qed

end
