(* ===== verification/Suite.thy ===== *)
theory Suite
  imports Prelude "HOL-Library.State_Monad"
begin

text \<open>
  The frame of the repository's test program \<^verbatim>\<open>tests/main.cpp\<close>. A test is a sequence of calls of the library that hands
  conditions to \<^verbatim>\<open>check\<close>, which counts those that do not hold in \<^verbatim>\<open>g_failures\<close>. Here it is a computation in the state
  monad: the state is the world of the component under test with that counter, \<open>call\<close> and \<open>exec\<close> run a function of the
  model that returns something or nothing. The theories \<open>Suite...\<close> translate the tests and show that the model passes
  them, for every address, tick and host answer the test leaves open, where they do not say otherwise. What a test prints
  is left out.
\<close>

named_theorems run_simps \<open>how the statements of a test act on the state\<close>

type_synonym ('w, 'a) test = "('w \<times> s32, 'a) state"

definition check :: "bool \<Rightarrow> ('w, unit) test" where
  "check ok = State (\<lambda>(w, g_failures). ((), (w, if \<not> ok then g_failures + 1 else g_failures)))"

definition call :: "('w \<Rightarrow> 'a \<times> 'w) \<Rightarrow> ('w, 'a) test" where
  "call f = State (\<lambda>(w, n). case f w of (r, w') \<Rightarrow> (r, (w', n)))"

definition exec :: "('w \<Rightarrow> 'w) \<Rightarrow> ('w, unit) test" where
  "exec f = State (\<lambda>(w, n). ((), (f w, n)))"

definition ask :: "('w \<Rightarrow> 'a) \<Rightarrow> ('w, 'a) test" where
  "ask f = State (\<lambda>(w, n). (f w, (w, n)))"

abbreviation skip :: "('w, unit) test" where
  "skip \<equiv> exec (\<lambda>w. w)"

text \<open>The counter and the world after a test.\<close>

definition failures :: "('w, 'a) test \<Rightarrow> 'w \<Rightarrow> s32 \<Rightarrow> s32" where
  "failures t w n = snd (snd (run_state t (w, n)))"

definition world_after :: "('w, 'a) test \<Rightarrow> 'w \<Rightarrow> 'w" where
  "world_after t w = fst (snd (run_state t (w, 0)))"

lemma run_check [run_simps]: "run_state (check ok) (w, n) = ((), (w, if ok then n else n + 1))"
  by (simp add: check_def)

lemma run_call [run_simps]: "run_state (call f) (w, n) = (fst (f w), (snd (f w), n))"
  by (simp add: call_def split_beta)

lemma run_exec [run_simps]: "run_state (exec f) (w, n) = ((), (f w, n))"
  by (simp add: exec_def)

lemma run_ask [run_simps]: "run_state (ask f) (w, n) = (f w, (w, n))"
  by (simp add: ask_def)

end
