(* ===== verification/SuiteHeaps.thy ===== *)
theory SuiteHeaps
  imports Suite FrmHeap BaseHeap
begin

text \<open>
  The heap tests of \<^verbatim>\<open>tests/main.cpp\<close>. The static arrays \<^verbatim>\<open>s_heapRegion\<close> and \<^verbatim>\<open>s_expRegion\<close> are addresses that are multiples
  of 64 with room behind them; the tests pass for each of them and from any state of the heap tables.
\<close>

section \<open>A region for a test heap\<close>

definition region_ok :: "ptr \<Rightarrow> nat \<Rightarrow> bool" where
  "region_ok r n \<longleftrightarrow> r \<noteq> null \<and> 64 dvd unat r \<and> unat r + n \<le> 2 ^ 63"

lemma region_unat: "region_ok r n \<Longrightarrow> k \<le> n \<Longrightarrow> unat (r + of_nat k) = unat r + k"
  by (subst unat_plus_nowrap) (auto simp: region_ok_def unat_of_nat take_bit_eq_mod)

lemma region_less: "region_ok r n \<Longrightarrow> j \<le> n \<Longrightarrow> k \<le> n \<Longrightarrow> r + of_nat j < r + of_nat k \<longleftrightarrow> j < k"
  by (simp add: word_less_nat_alt region_unat)

lemma region_le: "region_ok r n \<Longrightarrow> j \<le> n \<Longrightarrow> k \<le> n \<Longrightarrow> r + of_nat j \<le> r + of_nat k \<longleftrightarrow> j \<le> k"
  by (simp add: word_le_nat_alt region_unat)

lemma region_nonnull: "region_ok r n \<Longrightarrow> k \<le> n \<Longrightarrow> r + of_nat k \<noteq> null"
  using region_unat [of r n k] by (auto simp: region_ok_def word_pos_unat)

lemma region_diff:
  assumes "region_ok r n" "j \<le> k" "k \<le> n" "n < 2 ^ 32"
  shows "(ucast ((r + of_nat k) - (r + of_nat j)) :: u32) = of_nat (k - j)"
proof -
  obtain d where d: "k = j + d" using assms(2) le_Suc_ex by blast
  have "(r + of_nat k) - (r + of_nat j) = of_nat d" by (simp add: d)
  then show ?thesis
    using assms(3,4) by (simp add: d word_unat_eq_iff unat_ucast_u64_u32 unat_of_nat take_bit_eq_mod)
qed

lemma round_up_mult: "(a::nat) dvd v \<Longrightarrow> 0 < a \<Longrightarrow> round_up v a = v"
  using round_up_least [of a v v] round_up_ge [of a v] by simp

lemma round_down_mult: "(a::nat) dvd v \<Longrightarrow> round_down v a = v"
  by (simp add: round_down_def)

lemma region_alignUp:
  assumes r: "region_ok r n" and k: "k + 4 \<le> n" "4 dvd k"
  shows "alignUp (r + of_nat k) 4 = r + of_nat k"
proof -
  have u: "unat (r + of_nat k) = unat r + k"
    using k by (intro region_unat [OF r]) simp
  have "4 dvd unat r + k" "unat r + k + 4 \<le> 2 ^ 63"
    using r k by (auto simp: region_ok_def intro: dvd_trans [of 4 64])
  then show ?thesis
    by (simp add: word_unat_eq_iff unat_alignUp u round_up_mult)
qed

lemma region_alignDown:
  assumes r: "region_ok r n" and k: "k \<le> n" "4 dvd k"
  shows "alignDown (r + of_nat k) 4 = r + of_nat k"
proof -
  have "4 dvd unat r + k"
    using r k by (auto simp: region_ok_def intro: dvd_trans [of 4 64])
  then show ?thesis
    by (simp add: word_unat_eq_iff unat_alignDown region_unat [OF r k(1)] round_down_mult)
qed

section \<open>The frame heap\<close>

text \<open>The heap of a test: over \<^verbatim>\<open>s_heapRegion\<close> of 0x4000 bytes, with its cursors as offsets from there.\<close>

definition frm_at :: "ptr \<Rightarrow> nat \<Rightarrow> nat \<Rightarrow> frm_state list \<Rightarrow> frm_heap" where
  "frm_at r c d ss = \<lparr>fh_dataStart = r + 76, fh_dataEnd = r + 0x4000, fh_head = r + of_nat c, fh_tail = r + of_nat d,
     fh_flags = 0, fh_live = True, fh_states = ss\<rparr>"

lemma frm_at_simps [simp]: "fh_live (frm_at r c d ss)" "fh_flags (frm_at r c d ss) = 0"
  "fh_head (frm_at r c d ss) = r + of_nat c" "fh_tail (frm_at r c d ss) = r + of_nat d"
  "fh_states (frm_at r c d ss) = ss"
  by (simp_all add: frm_at_def)

lemma frm_at_upd [simp]: "(frm_at r c d ss)\<lparr>fh_head := r + of_nat c'\<rparr> = frm_at r c' d ss"
  "(frm_at r c d ss)\<lparr>fh_tail := r + of_nat d'\<rparr> = frm_at r c d' ss"
  "(frm_at r c d ss)\<lparr>fh_states := ss'\<rparr> = frm_at r c d ss'"
  by (simp_all add: frm_at_def)

lemma frm_at_create:
  assumes r: "region_ok r 0x4000"
  shows "MEMCreateFrmHeapEx r 0x4000 0 w = (r, frm_put r (frm_at r 76 0x4000 []) w)"
proof -
  have "alignUp (r + 76) 4 = r + 76" using region_alignUp [OF r, of 76] by simp
  moreover have "\<not> r + 0x4000 \<le> r + 76" using region_le [OF r, of "0x4000" 76] by simp
  moreover have "r \<noteq> null" using r by (simp add: region_ok_def)
  ultimately show ?thesis
    by (cases "ht_host frm_init r (frm_heaps w)") (simp add: MEMCreateFrmHeapEx_def frm_at_def Let_def)
qed

lemma frm_at_live: "region_ok r 0x4000 \<Longrightarrow> frm_live r (frm_put r (frm_at r c d ss) w) =
    (Some (frm_at r c d ss), frm_put r (frm_at r c d ss) w)"
  by (rule frm_live_known) (simp_all add: region_ok_def)

lemma align_4 [simp]: "normaliseAlignment 4 = (4, False)" "normaliseAlignment (- 4) = (4, True)"
  "normaliseAlignment 32 = (32, False)" "normaliseAlignment 64 = (64, False)" "normaliseAlignment 256 = (256, False)"
  by (simp_all add: normaliseAlignment_def isPow2_def)

lemma frm_at_alloc:
  assumes r: "region_ok r 0x4000" and o: "4 dvd c" "c + unat sz \<le> d" "d \<le> 0x4000" "sz \<noteq> 0"
  shows "MEMAllocFromFrmHeapEx r sz 4 (frm_put r (frm_at r c d ss) w) =
    (r + of_nat c, frm_put r (frm_at r (c + unat sz) d ss) w)"
proof -
  have "0 < unat sz" using o(4) by (simp add: word_pos_unat)
  then have b: "c + 4 \<le> 0x4000" "c \<le> 0x4000" "c + unat sz \<le> 0x4000"
    using o by presburger+
  have e: "r + of_nat c + ucast sz = r + of_nat (c + unat sz)" by simp
  have "\<not> r + of_nat d < r + of_nat (c + unat sz)"
    using region_less [OF r, of d "c + unat sz"] o b by (simp only: not_less)
  then have "frm_alloc (frm_at r c d ss) sz 4 = Some (r + of_nat c, frm_at r (c + unat sz) d ss)"
    by (simp only: frm_alloc_def align_4 frm_at_simps case_prod_conv region_alignUp [OF r b(1) o(1)] e Let_def
      frm_at_upd if_False simp_thms less_irrefl)
  then show ?thesis
    using o(4) by (simp add: MEMAllocFromFrmHeapEx_def frm_at_live [OF r] request_size_def)
qed

lemma frm_at_alloc_tail:
  assumes r: "region_ok r 0x4000" and o: "4 dvd d" "4 dvd unat sz" "c + unat sz \<le> d" "d \<le> 0x4000" "sz \<noteq> 0"
  shows "MEMAllocFromFrmHeapEx r sz (- 4) (frm_put r (frm_at r c d ss) w) =
    (r + of_nat (d - unat sz), frm_put r (frm_at r c (d - unat sz) ss) w)"
proof -
  have e: "r + of_nat d - ucast sz = r + of_nat (d - unat sz)"
    using o(3) by (simp add: of_nat_diff)
  have b: "d - unat sz \<le> 0x4000" "4 dvd d - unat sz" "c \<le> 0x4000" using o by auto
  have "\<not> r + of_nat (d - unat sz) < r + of_nat c" "\<not> r + of_nat d < r + of_nat (d - unat sz)"
    using region_less [OF r b(1) b(3)] region_less [OF r o(4) b(1)] o(3) by (simp_all only: not_less)
  then have "frm_alloc (frm_at r c d ss) sz (- 4) =
      Some (r + of_nat (d - unat sz), frm_at r c (d - unat sz) ss)"
    by (simp only: frm_alloc_def align_4 frm_at_simps case_prod_conv e region_alignDown [OF r b(1,2)] Let_def
      frm_at_upd if_True simp_thms if_False)
  then show ?thesis
    using o(5) by (simp add: MEMAllocFromFrmHeapEx_def frm_at_live [OF r] request_size_def)
qed

lemma frm_at_allocatable:
  assumes r: "region_ok r 0x4000" and o: "4 dvd c" "c + 4 \<le> d" "d \<le> 0x4000"
  shows "MEMGetAllocatableSizeForFrmHeapEx r 4 (frm_put r (frm_at r c d ss) w) =
    (of_nat (d - c), frm_put r (frm_at r c d ss) w)"
proof -
  have b: "c + 4 \<le> 0x4000" "c \<le> d" "c \<le> 0x4000" using o by simp_all
  have "\<not> r + of_nat d \<le> r + of_nat c"
    using region_le [OF r o(3) b(3)] o(2) by simp
  moreover have df: "(ucast (r + of_nat d - (r + of_nat c)) :: u32) = of_nat (d - c)"
    by (rule region_diff [OF r b(2) o(3)]) simp
  ultimately have "frm_allocatable 4 (frm_at r c d ss) = of_nat (d - c)"
    by (simp only: frm_allocatable_def align_4 frm_at_simps case_prod_conv Let_def region_alignUp [OF r b(1) o(1)]
      if_False df)
  then show ?thesis by (simp add: MEMGetAllocatableSizeForFrmHeapEx_def frm_at_live [OF r])
qed

lemma frm_at_alloc_full:
  assumes r: "region_ok r 0x4000" and o: "4 dvd c" "c + 4 \<le> d" "d \<le> 0x4000" "d < c + unat sz" "unat sz < 2 ^ 31"
  shows "MEMAllocFromFrmHeapEx r sz 4 (frm_put r (frm_at r c d ss) w) = (null, frm_put r (frm_at r c d ss) w)"
proof -
  have b: "c + 4 \<le> 0x4000" "c \<le> 0x4000" using o by simp_all
  have u: "unat (r + of_nat c) = unat r + c" "unat (r + of_nat d) = unat r + d"
    using region_unat [OF r b(2)] region_unat [OF r o(3)] by simp_all
  have "unat (r + of_nat c + ucast sz) = unat r + c + unat sz"
    using r o(3,5) b(2) by (subst unat_plus_nowrap) (simp_all add: u region_ok_def)
  then have "r + of_nat d < r + of_nat c + ucast sz" using o(4) by (simp add: word_less_nat_alt u)
  then have "frm_alloc (frm_at r c d ss) sz 4 = None"
    by (simp only: frm_alloc_def align_4 frm_at_simps case_prod_conv region_alignUp [OF r b(1) o(1)] Let_def
      if_False if_True simp_thms)
  moreover have "sz \<noteq> 0" using o by auto
  ultimately show ?thesis by (simp add: MEMAllocFromFrmHeapEx_def frm_at_live [OF r] request_size_def)
qed

lemma frm_at_record:
  "region_ok r 0x4000 \<Longrightarrow> MEMRecordStateForFrmHeap r tag (frm_put r (frm_at r c d ss) w) =
     (1, frm_put r (frm_at r c d (ss @ [\<lparr>st_tag = tag, st_head = r + of_nat c, st_tail = r + of_nat d\<rparr>])) w)"
  by (simp add: MEMRecordStateForFrmHeap_def frm_at_live frm_record_def)

lemma frm_at_restore:
  "region_ok r 0x4000 \<Longrightarrow> tag \<noteq> 0 \<Longrightarrow> MEMFreeByStateToFrmHeap r tag
       (frm_put r (frm_at r c d (ss @ [\<lparr>st_tag = tag, st_head = r + of_nat c', st_tail = r + of_nat d'\<rparr>])) w) =
     (1, frm_put r (frm_at r c' d' ss) w)"
  by (simp add: MEMFreeByStateToFrmHeap_def frm_at_live frm_free_by_state_def nth_append)

lemma frm_at_free_all:
  "region_ok r 0x4000 \<Longrightarrow> MEMFreeToFrmHeap r 3 (frm_put r (frm_at r c d ss) w) = frm_put r (frm_at r 76 0x4000 []) w"
  by (simp add: MEMFreeToFrmHeap_def frm_at_live frm_free_def Let_def) (simp add: frm_at_def)

lemmas frm_at = frm_at_create frm_at_alloc frm_at_alloc_tail frm_at_allocatable frm_at_alloc_full frm_at_record
  frm_at_restore frm_at_free_all

subsection \<open>The tests\<close>

definition test_frmheap_basic :: "ptr \<Rightarrow> (frm_world, unit) test" where
  "test_frmheap_basic s_heapRegion =
     do {
       h \<leftarrow> call (MEMCreateFrmHeapEx s_heapRegion 0x4000 0);
       if h = null then check False
       else do {
         a \<leftarrow> call (MEMAllocFromFrmHeapEx h 256 4);
         b \<leftarrow> call (MEMAllocFromFrmHeapEx h 256 4);
         let base = s_heapRegion;
         let en = base + 0x4000;
         let inside = (a \<noteq> null \<and> b \<noteq> null \<and> base + 0x4C \<le> a \<and> a < en \<and> base + 0x4C \<le> b \<and> b < en);
         check inside;
         check (b > a);
         _ \<leftarrow> call (MEMDestroyFrmHeap h);
         skip
       }
     }"

definition test_frmheap_tail :: "ptr \<Rightarrow> (frm_world, unit) test" where
  "test_frmheap_tail s_heapRegion =
     do {
       h \<leftarrow> call (MEMCreateFrmHeapEx s_heapRegion 0x4000 0);
       head \<leftarrow> call (MEMAllocFromFrmHeapEx h 256 4);
       tail \<leftarrow> call (MEMAllocFromFrmHeapEx h 256 (- 4));
       check (head \<noteq> null \<and> tail \<noteq> null \<and> tail > head);
       _ \<leftarrow> call (MEMDestroyFrmHeap h);
       skip
     }"

definition test_frmheap_alignment :: "ptr \<Rightarrow> (frm_world, unit) test" where
  "test_frmheap_alignment s_heapRegion =
     do {
       h \<leftarrow> call (MEMCreateFrmHeapEx s_heapRegion 0x4000 0);
       _ \<leftarrow> call (MEMAllocFromFrmHeapEx h 1 4);
       p \<leftarrow> call (MEMAllocFromFrmHeapEx h 64 256);
       check (p \<noteq> null \<and> p AND 255 = 0);
       _ \<leftarrow> call (MEMDestroyFrmHeap h);
       skip
     }"

definition test_frmheap_state :: "ptr \<Rightarrow> (frm_world, unit) test" where
  "test_frmheap_state s_heapRegion =
     do {
       h \<leftarrow> call (MEMCreateFrmHeapEx s_heapRegion 0x4000 0);
       _ \<leftarrow> call (MEMAllocFromFrmHeapEx h 128 4);
       before \<leftarrow> call (MEMGetAllocatableSizeForFrmHeapEx h 4);
       _ \<leftarrow> call (MEMRecordStateForFrmHeap h 0x54455354);
       _ \<leftarrow> call (MEMAllocFromFrmHeapEx h 1024 4);
       during \<leftarrow> call (MEMGetAllocatableSizeForFrmHeapEx h 4);
       ok \<leftarrow> call (MEMFreeByStateToFrmHeap h 0x54455354);
       after \<leftarrow> call (MEMGetAllocatableSizeForFrmHeapEx h 4);
       check (ok = 1 \<and> during < before \<and> after = before);
       _ \<leftarrow> call (MEMDestroyFrmHeap h);
       skip
     }"

definition test_frmheap_exhaustion :: "ptr \<Rightarrow> (frm_world, unit) test" where
  "test_frmheap_exhaustion s_heapRegion =
     do {
       h \<leftarrow> call (MEMCreateFrmHeapEx s_heapRegion 0x4000 0);
       big \<leftarrow> call (MEMAllocFromFrmHeapEx h (0x4000 * 2) 4);
       check (big = null);
       exec (MEMFreeToFrmHeap h MEM_FRM_HEAP_FREE_ALL);
       full \<leftarrow> call (MEMGetAllocatableSizeForFrmHeapEx h 4);
       check (full > 0x4000 - 0x100);
       _ \<leftarrow> call (MEMDestroyFrmHeap h);
       skip
     }"

lemma test_frmheap_basic_passes:
  assumes r: "region_ok r 0x4000"
  shows "failures (test_frmheap_basic r) w n = n"
proof -
  have "r \<noteq> null" "r + 76 \<noteq> null" "r + 332 \<noteq> null" "r + 76 < r + 0x4000" "r + 332 < r + 0x4000" "r + 76 < r + 332"
    "r + 76 \<le> r + 332"
    using region_nonnull [OF r, of 76] region_nonnull [OF r, of 332] region_less [OF r, of 76 "0x4000"]
      region_less [OF r, of 332 "0x4000"] region_less [OF r, of 76 332] region_le [OF r, of 76 332] r
    by (simp_all add: region_ok_def)
  then show ?thesis
    by (simp add: failures_def test_frmheap_basic_def run_simps frm_at [OF r] Let_def)
qed

lemma test_frmheap_tail_passes:
  assumes r: "region_ok r 0x4000"
  shows "failures (test_frmheap_tail r) w n = n"
proof -
  have "r + 76 \<noteq> null" "r + 16128 \<noteq> null" "r + 76 < r + 16128"
    using region_nonnull [OF r, of 76] region_nonnull [OF r, of 16128] region_less [OF r, of 76 16128] by simp_all
  then show ?thesis
    by (simp add: failures_def test_frmheap_tail_def run_simps frm_at [OF r])
qed

lemma test_frmheap_state_passes:
  assumes r: "region_ok r 0x4000"
  shows "failures (test_frmheap_state r) w n = n"
  by (simp add: failures_def test_frmheap_state_def run_simps frm_at [OF r]
    frm_at_restore [OF r, where ss = "[]" and c' = 204 and d' = 16384, simplified])

lemma test_frmheap_exhaustion_passes:
  assumes r: "region_ok r 0x4000"
  shows "failures (test_frmheap_exhaustion r) w n = n"
  by (simp add: failures_def test_frmheap_exhaustion_def run_simps frm_at [OF r])

lemma and_mask_dvd: "2 ^ k dvd unat (p :: ptr) \<longleftrightarrow> p AND mask k = 0"
proof -
  have "unat (p AND mask k) = unat p mod 2 ^ k"
    by (simp only: take_bit_eq_mask [symmetric] unsigned_take_bit_eq) (simp add: take_bit_eq_mod)
  then show ?thesis by (metis dvd_eq_mod_eq_0 unat_0 unat_eq_zero)
qed

lemmas aligned_masks = and_mask_dvd [of 5, simplified mask_eq_exp_minus_1, simplified]
  and_mask_dvd [of 6, simplified mask_eq_exp_minus_1, simplified]
  and_mask_dvd [of 8, simplified mask_eq_exp_minus_1, simplified]

lemma test_frmheap_alignment_passes:
  assumes r: "region_ok r 0x4000"
  shows "failures (test_frmheap_alignment r) w n = n"
proof -
  define p where "p = alignUp (r + 77) 256"
  have u: "unat (r + 77) = unat r + 77" using region_unat [OF r, of 77] by simp
  have up: "unat p = round_up (unat r + 77) 256"
    using r by (simp add: p_def unat_alignUp u isPow2_def region_ok_def)
  have "256 dvd unat p" "unat r + 77 \<le> unat p" "unat p < unat r + 333"
    using round_up_ge [of 256 "unat r + 77"] round_up_less [of 256 "unat r + 77"] up by simp_all
  moreover have "unat (r + 16384) = unat r + 16384" using region_unat [OF r, of 16384] by simp
  moreover have "unat (p + 64) = unat p + 64"
    using \<open>unat p < unat r + 333\<close> r by (subst unat_plus_nowrap) (simp_all add: region_ok_def)
  ultimately have "p \<noteq> null" "p AND 255 = 0" "\<not> r + 16384 < p + 64" "\<not> p < r + 77"
    using r by (auto simp: aligned_masks [symmetric] word_pos_unat word_less_nat_alt region_ok_def u)
  then show ?thesis
    by (simp add: failures_def test_frmheap_alignment_def run_simps frm_at [OF r] MEMAllocFromFrmHeapEx_def [where sz = 64]
      frm_at_live [OF r] frm_alloc_def p_def [symmetric] request_size_def)
qed

section \<open>The expanded heap\<close>

text \<open>
  The blocks of a heap over \<^verbatim>\<open>s_expRegion\<close> (0x8000 bytes) by their offsets: a free block, and a used one with the offset
  and size of its payload and its direction.
\<close>

definition fb :: "ptr \<Rightarrow> nat \<Rightarrow> nat \<Rightarrow> block" where
  "fb r o1 n = free_block (r + of_nat o1) (of_nat n)"

definition ub :: "ptr \<Rightarrow> nat \<Rightarrow> nat \<Rightarrow> nat \<Rightarrow> u32 \<Rightarrow> u8 \<Rightarrow> block" where
  "ub r o1 n p ps dir = \<lparr>bk_start = r + of_nat o1, bk_size = of_nat n, bk_payload = r + of_nat p, bk_payloadSize = ps,
     bk_used = True, bk_direction = dir\<rparr>"

definition exp_at :: "ptr \<Rightarrow> block list \<Rightarrow> exp_heap" where
  "exp_at r bs = \<lparr>eh_dataStart = r + 84, eh_dataEnd = r + 0x8000, eh_flags = 0, eh_mode = 0, eh_live = True,
     eh_blocks = bs\<rparr>"

lemma exp_at_simps [simp]: "eh_live (exp_at r bs)" "eh_flags (exp_at r bs) = 0" "eh_mode (exp_at r bs) = 0"
  "eh_blocks (exp_at r bs) = bs" "(exp_at r bs)\<lparr>eh_blocks := cs\<rparr> = exp_at r cs"
  by (simp_all add: exp_at_def)

lemma block_simps [simp]: "\<not> bk_used (fb r o1 n)" "bk_used (ub r o1 n p ps dir)"
  "bk_payload (ub r o1 n p ps dir) = r + of_nat p" "bk_size (fb r o1 n) = of_nat n"
  "(ub r o1 n p ps 0)\<lparr>bk_used := False, bk_payload := 0, bk_payloadSize := 0\<rparr> = fb r o1 n"
  by (simp_all add: fb_def ub_def free_block_def)

lemma region_32 [simp]: "n \<le> 0x8000 \<Longrightarrow> unat (of_nat n :: u32) = n"
  by (simp add: unat_of_nat take_bit_eq_mod)

lemma region_ucast [simp]: "n \<le> 0x8000 \<Longrightarrow> (ucast (of_nat n :: u32) :: u64) = of_nat n"
  by (simp add: word_unat_eq_iff) (simp add: unat_of_nat take_bit_eq_mod)

lemma exp_at_create:
  assumes r: "region_ok r 0x8000"
  shows "MEMCreateExpHeapEx r 0x8000 0 w = (r, exp_put r (exp_at r [fb r 84 32684]) w)"
proof -
  have "alignUp (r + 84) 4 = r + 84" using region_alignUp [OF r, of 84] by simp
  moreover have "\<not> r + 0x8000 \<le> r + 84" using region_le [OF r, of "0x8000" 84] by simp
  moreover have "r \<noteq> null" using r by (simp add: region_ok_def)
  moreover have "(ucast (r + 0x8000 - (r + 84)) :: u32) = 32684" by simp
  ultimately show ?thesis
    by (cases "ht_host exp_init r (exp_heaps w)") (simp add: MEMCreateExpHeapEx_def exp_at_def fb_def Let_def)
qed

lemma exp_at_live: "region_ok r 0x8000 \<Longrightarrow> exp_live r (exp_put r (exp_at r bs) w) =
    (Some (exp_at r bs), exp_put r (exp_at r bs) w)"
  by (rule exp_live_known) (simp_all add: region_ok_def)

lemma fit_at:
  assumes r: "region_ok r 0x8000" and o: "4 dvd o1" "24 \<le> n" "o1 + n \<le> 0x8000"
  shows "fitInFree (fb r o1 n) 4 = of_nat (n - 20)"
proof -
  have b: "o1 + 20 + 4 \<le> 0x8000" "4 dvd o1 + 20" "o1 + 20 \<le> o1 + n" "o1 + 20 \<le> 0x8000" using o by simp_all
  have e: "r + of_nat o1 + 20 = r + of_nat (o1 + 20)" "r + of_nat o1 + ucast (of_nat n :: u32) = r + of_nat (o1 + n)"
    using o(3) by (simp_all add: add.assoc)
  have "\<not> r + of_nat (o1 + n) \<le> r + of_nat (o1 + 20)"
    using region_le [OF r o(3) b(4)] o(2) by simp
  moreover have "(ucast (r + of_nat (o1 + n) - (r + of_nat (o1 + 20))) :: u32) = of_nat (o1 + n - (o1 + 20))"
    by (rule region_diff [OF r b(3) o(3)]) simp
  moreover have "o1 + n - (o1 + 20) = n - 20" by simp
  ultimately show ?thesis
    by (simp add: fitInFree_def fb_def free_block_def e region_alignUp [OF r b(1,2)] Let_def del: of_nat_add)
qed

lemma choose_at:
  assumes r: "region_ok r 0x8000" and o: "4 dvd o1" "24 \<le> n" "o1 + n \<le> 0x8000"
  shows "exp_choose 0 sz 4 i None 0 (fb r o1 n # bs) =
    (if unat sz \<le> n - 20 then Some i else exp_choose 0 sz 4 (Suc i) None 0 bs)"
proof -
  have "of_nat (n - 20) < sz \<longleftrightarrow> \<not> unat sz \<le> n - 20"
    using o(3) by (simp add: word_less_nat_alt not_le del: of_nat_diff)
  then show ?thesis by (simp add: exp_choose.simps fit_at [OF r o] del: of_nat_diff)
qed

lemma choose_used: "exp_choose 0 sz 4 i None 0 (ub r o1 n p ps dir # bs) = exp_choose 0 sz 4 (Suc i) None 0 bs"
  by (simp add: exp_choose.simps)

lemma carve_at:
  assumes r: "region_ok r 0x8000" and o: "4 dvd o1" "44 + unat sz \<le> n" "o1 + n \<le> 0x8000"
  shows "exp_carve (fb r o1 n) sz 4 False = Some (r + of_nat (o1 + 20),
    [ub r o1 (20 + unat sz) (o1 + 20) sz 0, fb r (o1 + 20 + unat sz) (n - 20 - unat sz)])"
proof -
  have b: "o1 + 20 + 4 \<le> 0x8000" "4 dvd o1 + 20" "o1 + 20 + unat sz \<le> 0x8000" "o1 \<le> 0x8000"
      "o1 \<le> o1 + 20 + unat sz" "o1 + 20 + unat sz \<le> o1 + n"
    using o by simp_all
  have e: "r + of_nat o1 + 20 = r + of_nat (o1 + 20)" "r + of_nat o1 + ucast (of_nat n :: u32) = r + of_nat (o1 + n)"
    "r + of_nat (o1 + 20) + ucast sz = r + of_nat (o1 + 20 + unat sz)"
    using o(3) by (simp_all add: add.assoc)
  have lt: "\<not> r + of_nat (o1 + n) < r + of_nat (o1 + 20 + unat sz)"
    using region_less [OF r o(3) b(3)] b(6) by (simp only: not_less)
  have "o1 + 20 + unat sz - o1 = 20 + unat sz" "o1 + n - (o1 + 20 + unat sz) = n - 20 - unat sz" by simp_all
  then have d: "(ucast (of_nat (o1 + 20 + unat sz) - of_nat o1 :: u64) :: u32) = of_nat (20 + unat sz)"
    and a: "(ucast (of_nat (o1 + n) - of_nat (o1 + 20 + unat sz) :: u64) :: u32) = of_nat (n - 20 - unat sz)"
    using region_diff [OF r b(5,3)] region_diff [OF r b(6) o(3)] by (simp_all only: add_diff_cancel_left) simp_all
  have m: "minSplit \<le> (of_nat (n - (20 + unat sz)) :: u32)"
    using o(2,3) by (simp add: minSplit_def word_le_nat_alt del: of_nat_diff)
  show ?thesis
    by (simp add: exp_carve_def fb_def ub_def free_block_def Let_def e region_alignUp [OF r b(1,2)] lt d a m
      del: of_nat_add of_nat_diff)
qed

lemma carve_bottom_at:
  assumes r: "region_ok r 0x8000" and o: "4 dvd o1 + n" "4 dvd unat sz" "44 + unat sz \<le> n" "o1 + n \<le> 0x8000"
  shows "exp_carve (fb r o1 n) sz 4 True = Some (r + of_nat (o1 + n - unat sz),
    [fb r o1 (n - 20 - unat sz), ub r (o1 + n - unat sz - 20) (20 + unat sz) (o1 + n - unat sz) sz 1])"
proof -
  define k where "k = n - unat sz - 20"
  have n: "n = k + 20 + unat sz" "24 \<le> k" using o(3) by (simp_all add: k_def)
  have "4 dvd o1 + k + 20" using dvd_diff_nat [OF o(1,2)] by (simp add: n ac_simps)
  then have ad: "alignDown (r + of_nat (o1 + k + 20)) 4 = r + of_nat (o1 + k + 20)"
    using o(4) n by (intro region_alignDown [OF r]) simp_all
  have u: "(ucast (of_nat n :: u32) :: u64) = of_nat n" using o(4) by (intro region_ucast) simp
  have e: "r + of_nat (o1 + n) - ucast sz = r + of_nat (o1 + k + 20)"
    "r + of_nat (o1 + k + 20) - 20 = r + of_nat (o1 + k)"
    "r + of_nat o1 + ucast (of_nat n :: u32) = r + of_nat (o1 + n)"
    unfolding u by (simp_all add: n add.assoc)
  have lt: "\<not> r + of_nat (o1 + k) < r + of_nat o1"
    using region_less [OF r, of "o1 + k" o1] o(4) n by simp
  have "o1 + n - (o1 + k) = 20 + unat sz" "o1 + k - o1 = k" "o1 + k \<le> o1 + n" "o1 \<le> o1 + k" "o1 + k \<le> 0x8000"
    using o(4) n by simp_all
  then have d: "(ucast (of_nat (o1 + n) - of_nat (o1 + k) :: u64) :: u32) = of_nat (20 + unat sz)"
    and a: "(ucast (of_nat (o1 + k) - of_nat o1 :: u64) :: u32) = of_nat k"
    using region_diff [OF r, of "o1 + k" "o1 + n"] region_diff [OF r, of o1 "o1 + k"] o(4)
    by (simp_all only: add_diff_cancel_left) simp_all
  have m: "minSplit \<le> (of_nat k :: u32)"
    using n o(4) by (simp add: minSplit_def word_le_nat_alt)
  have f: "o1 + n - unat sz = o1 + k + 20" "o1 + n - unat sz - 20 = o1 + k" "n - 20 - unat sz = k" by (simp_all add: n)
  show ?thesis
    unfolding f by (simp add: exp_carve_def fb_def ub_def free_block_def Let_def e ad lt d a m del: of_nat_add)
qed

lemma carve_exact_at:
  assumes r: "region_ok r 0x8000" and o: "4 dvd o1" "n = 20 + unat sz" "4 \<le> unat sz" "o1 + n \<le> 0x8000"
  shows "exp_carve (fb r o1 n) sz 4 False = Some (r + of_nat (o1 + 20), [ub r o1 n (o1 + 20) sz 0])"
proof -
  have b: "o1 + 20 + 4 \<le> 0x8000" "4 dvd o1 + 20" "o1 \<le> o1 + n" using o by simp_all
  have u: "(ucast (of_nat n :: u32) :: u64) = of_nat n" using o(4) by (intro region_ucast) simp
  have e: "r + of_nat o1 + 20 = r + of_nat (o1 + 20)" "r + of_nat o1 + ucast (of_nat n :: u32) = r + of_nat (o1 + n)"
    "r + of_nat (o1 + 20) + ucast sz = r + of_nat (o1 + n)"
    unfolding u by (simp_all add: o(2) add.assoc)
  have d: "(ucast (of_nat (o1 + n) - of_nat o1 :: u64) :: u32) = of_nat n"
    using region_diff [OF r b(3) o(4)] by (simp only: add_diff_cancel_left) simp
  show ?thesis
    by (simp add: exp_carve_def fb_def ub_def free_block_def Let_def e region_alignUp [OF r b(1,2)] d minSplit_def
      del: of_nat_add)
qed

text \<open>The calls of a test on a heap whose blocks are known.\<close>

lemma exp_at_alloc:
  assumes r: "region_ok r 0x8000" and al: "normaliseAlignment al = (4, fromBottom)"
    and b: "bs = us @ fb r o1 n # vs" "\<forall>u \<in> set us. bk_used u" and o: "4 dvd o1" "20 + unat sz \<le> n" "o1 + n \<le> 0x8000" "sz \<noteq> 0"
      "24 \<le> n"
    and c: "exp_carve (fb r o1 n) sz 4 fromBottom = Some (p, rs)"
  shows "MEMAllocFromExpHeapEx r sz al (exp_put r (exp_at r bs) w) = (p, exp_put r (exp_at r (us @ rs @ vs)) w)"
proof -
  have fits: "exp_choose 0 sz 4 i None 0 (fb r o1 n # vs) = Some i" for i
    using o(2) by (subst choose_at [OF r o(1,5,3)]) (simp add: le_diff_conv2)
  have skip: "exp_choose 0 sz 4 i None 0 (u # cs) = exp_choose 0 sz 4 (Suc i) None 0 cs" if "bk_used u" for u i cs
    using that by (simp add: exp_choose.simps)
  have "exp_choose 0 sz 4 i None 0 bs = Some (i + length us)" for i
    using b(2) unfolding b(1) by (induction us arbitrary: i) (simp_all add: fits skip)
  from this [of 0] show ?thesis
    using b(1) by (simp add: MEMAllocFromExpHeapEx_def exp_at_live [OF r] exp_alloc_def exp_request_def o(4) al c)
qed

lemma exp_at_alloc_top:
  assumes "region_ok r 0x8000" "4 dvd o1" "44 + unat sz \<le> n" "o1 + n \<le> 0x8000" "sz \<noteq> 0"
  shows "\<forall>u \<in> set us. bk_used u \<Longrightarrow> MEMAllocFromExpHeapEx r sz 4 (exp_put r (exp_at r (us @ fb r o1 n # vs)) w) =
    (r + of_nat (o1 + 20), exp_put r (exp_at r (us @ ub r o1 (20 + unat sz) (o1 + 20) sz 0 #
       fb r (o1 + 20 + unat sz) (n - 20 - unat sz) # vs)) w)"
  using exp_at_alloc [OF assms(1) align_4(1) refl _ assms(2) _ assms(4,5) _ carve_at [OF assms(1-4)]] assms(3) by simp

lemmas exp_at_allocs = exp_at_alloc_top [where us = "[]", simplified]
  exp_at_alloc_top [where us = "[ub r a1 a2 a3 a4 a5]" for r a1 a2 a3 a4 a5, simplified]
  exp_at_alloc_top [where us = "[ub r a1 a2 a3 a4 a5, ub r b1 b2 b3 b4 b5]" for r a1 a2 a3 a4 a5 b1 b2 b3 b4 b5, simplified]

lemma exp_at_alloc_exact:
  assumes "region_ok r 0x8000" "4 dvd o1" "n = 20 + unat sz" "4 \<le> unat sz" "o1 + n \<le> 0x8000" "sz \<noteq> 0"
  shows "MEMAllocFromExpHeapEx r sz 4 (exp_put r (exp_at r (fb r o1 n # vs)) w) =
    (r + of_nat (o1 + 20), exp_put r (exp_at r (ub r o1 n (o1 + 20) sz 0 # vs)) w)"
  using exp_at_alloc [OF assms(1) align_4(1) _ _ assms(2) _ assms(5,6) _ carve_exact_at [OF assms(1-5)], of _ "[]" vs] assms(3,4)
  by simp

lemma exp_at_alloc_bottom:
  assumes "region_ok r 0x8000" "4 dvd o1" "4 dvd n" "4 dvd unat sz" "44 + unat sz \<le> n" "o1 + n \<le> 0x8000" "sz \<noteq> 0"
  shows "MEMAllocFromExpHeapEx r sz (- 4) (exp_put r (exp_at r [ub r a1 a2 a3 a4 a5, fb r o1 n]) w) =
    (r + of_nat (o1 + n - unat sz), exp_put r (exp_at r [ub r a1 a2 a3 a4 a5, fb r o1 (n - 20 - unat sz),
       ub r (o1 + n - unat sz - 20) (20 + unat sz) (o1 + n - unat sz) sz 1]) w)"
  using exp_at_alloc [OF assms(1) align_4(2) _ _ assms(2) _ assms(6,7) _ carve_bottom_at [OF assms(1) _ assms(4-6)],
    of _ "[ub r a1 a2 a3 a4 a5]" "[]"] assms(2,3,5) by simp

lemma exp_at_free:
  assumes "region_ok r 0x8000" "r + of_nat p \<noteq> null"
    and "\<forall>u \<in> set us. \<not> bk_used u \<or> bk_payload u \<noteq> r + of_nat p"
  shows "MEMFreeToExpHeap r (r + of_nat p) (exp_put r (exp_at r (us @ ub r o1 n p ps 0 # vs)) w) =
    exp_put r (exp_at r (merge_free (us @ fb r o1 n # vs))) w"
proof -
  have "exp_find (r + of_nat p) i (us @ ub r o1 n p ps 0 # vs) = Some (i + length us)" for i
    using assms(3) by (induction us arbitrary: i) auto
  from this [of 0] show ?thesis
    using assms by (simp add: MEMFreeToExpHeap_def exp_at_live exp_free_def coalesce_merge)
qed

lemma merge_at [simp]: "merge_free (fb r o1 n # fb r o2 m # bs) = merge_free (fb r o1 (n + m) # bs)"
  "merge_free (ub r o1 n p ps dir # bs) = ub r o1 n p ps dir # merge_free bs"
  "merge_free (fb r o1 n # ub r o2 m p ps dir # bs) = fb r o1 n # ub r o2 m p ps dir # merge_free bs"
  by (simp_all add: fb_def free_block_def) (cases bs; simp)+

declare merge_free.simps(3) [simp del]

lemma exp_at_total:
  "region_ok r 0x8000 \<Longrightarrow> MEMGetTotalFreeSizeForExpHeap r (exp_put r (exp_at r bs) w) =
     (exp_total_free 0 bs, exp_put r (exp_at r bs) w)"
  by (simp add: MEMGetTotalFreeSizeForExpHeap_def exp_at_live)

subsection \<open>The tests\<close>

definition test_expheap_basic :: "ptr \<Rightarrow> (exp_world, unit) test" where
  "test_expheap_basic s_expRegion =
     do {
       h \<leftarrow> call (MEMCreateExpHeapEx s_expRegion 0x8000 0);
       if h = null then check False
       else do {
         a \<leftarrow> call (MEMAllocFromExpHeapEx h 256 4);
         b \<leftarrow> call (MEMAllocFromExpHeapEx h 256 4);
         let base = s_expRegion;
         let en = base + 0x8000;
         check (a \<noteq> null \<and> b \<noteq> null \<and> a \<noteq> b \<and> base + 0x54 \<le> a \<and> b < en);
         _ \<leftarrow> call (MEMDestroyExpHeap h);
         skip
       }
     }"

definition test_expheap_free_and_reuse :: "ptr \<Rightarrow> (exp_world, unit) test" where
  "test_expheap_free_and_reuse s_expRegion =
     do {
       h \<leftarrow> call (MEMCreateExpHeapEx s_expRegion 0x8000 0);
       a \<leftarrow> call (MEMAllocFromExpHeapEx h 512 4);
       b \<leftarrow> call (MEMAllocFromExpHeapEx h 512 4);
       exec (MEMFreeToExpHeap h a);
       c \<leftarrow> call (MEMAllocFromExpHeapEx h 512 4);
       check (c = a);
       exec (MEMFreeToExpHeap h b);
       exec (MEMFreeToExpHeap h c);
       _ \<leftarrow> call (MEMDestroyExpHeap h);
       skip
     }"

definition test_expheap_coalesce :: "ptr \<Rightarrow> (exp_world, unit) test" where
  "test_expheap_coalesce s_expRegion =
     do {
       h \<leftarrow> call (MEMCreateExpHeapEx s_expRegion 0x8000 0);
       empty \<leftarrow> call (MEMGetTotalFreeSizeForExpHeap h);
       a \<leftarrow> call (MEMAllocFromExpHeapEx h 512 4);
       b \<leftarrow> call (MEMAllocFromExpHeapEx h 512 4);
       c \<leftarrow> call (MEMAllocFromExpHeapEx h 512 4);
       exec (MEMFreeToExpHeap h a);
       exec (MEMFreeToExpHeap h b);
       exec (MEMFreeToExpHeap h c);
       after \<leftarrow> call (MEMGetTotalFreeSizeForExpHeap h);
       check (after = empty);
       _ \<leftarrow> call (MEMDestroyExpHeap h);
       skip
     }"

definition test_expheap_alignment :: "ptr \<Rightarrow> (exp_world, unit) test" where
  "test_expheap_alignment s_expRegion =
     do {
       h \<leftarrow> call (MEMCreateExpHeapEx s_expRegion 0x8000 0);
       _ \<leftarrow> call (MEMAllocFromExpHeapEx h 3 4);
       p \<leftarrow> call (MEMAllocFromExpHeapEx h 64 256);
       check (p \<noteq> null \<and> p AND 255 = 0);
       _ \<leftarrow> call (MEMDestroyExpHeap h);
       skip
     }"

definition test_expheap_bottom :: "ptr \<Rightarrow> (exp_world, unit) test" where
  "test_expheap_bottom s_expRegion =
     do {
       h \<leftarrow> call (MEMCreateExpHeapEx s_expRegion 0x8000 0);
       top \<leftarrow> call (MEMAllocFromExpHeapEx h 256 4);
       bottom \<leftarrow> call (MEMAllocFromExpHeapEx h 256 (- 4));
       check (top \<noteq> null \<and> bottom \<noteq> null \<and> bottom > top);
       _ \<leftarrow> call (MEMDestroyExpHeap h);
       skip
     }"

definition test_expheap_overhead :: "ptr \<Rightarrow> (exp_world, unit) test" where
  "test_expheap_overhead s_expRegion =
     do {
       h \<leftarrow> call (MEMCreateExpHeapEx s_expRegion 0x8000 0);
       before \<leftarrow> call (MEMGetTotalFreeSizeForExpHeap h);
       _ \<leftarrow> call (MEMAllocFromExpHeapEx h 100 4);
       after \<leftarrow> call (MEMGetTotalFreeSizeForExpHeap h);
       let consumed = before - after;
       check (100 + 0x14 \<le> consumed);
       _ \<leftarrow> call (MEMDestroyExpHeap h);
       skip
     }"

lemmas exp_at = exp_at_create exp_at_allocs exp_at_alloc_exact exp_at_alloc_bottom exp_at_total

lemma test_expheap_basic_passes:
  assumes r: "region_ok r 0x8000"
  shows "failures (test_expheap_basic r) w n = n"
proof -
  have "r \<noteq> null" "r + 104 \<noteq> null" "r + 380 \<noteq> null" "r + 84 \<le> r + 104" "r + 380 < r + 0x8000"
    using region_nonnull [OF r, of 104] region_nonnull [OF r, of 380] region_less [OF r, of 380 "0x8000"]
      region_le [OF r, of 84 104] r by (simp_all add: region_ok_def)
  then show ?thesis
    by (simp add: failures_def test_expheap_basic_def run_simps exp_at [OF r] Let_def)
qed

lemma test_expheap_bottom_passes:
  assumes r: "region_ok r 0x8000"
  shows "failures (test_expheap_bottom r) w n = n"
proof -
  have "r + 104 \<noteq> null" "r + 32512 \<noteq> null" "r + 104 < r + 32512"
    using region_nonnull [OF r, of 104] region_nonnull [OF r, of 32512] region_less [OF r, of 104 32512] by simp_all
  then show ?thesis
    by (simp add: failures_def test_expheap_bottom_def run_simps exp_at [OF r])
qed

lemma test_expheap_overhead_passes:
  "region_ok r 0x8000 \<Longrightarrow> failures (test_expheap_overhead r) w n = n"
  by (simp add: failures_def test_expheap_overhead_def run_simps exp_at Let_def)

lemmas exp_at_frees = exp_at_free [where us = "[]", simplified append_Nil list.set ball_simps simp_thms]
  exp_at_free [where us = "[fb r a1 a2]" for r a1 a2, simplified append.simps list.set ball_simps simp_thms block_simps]
  exp_at_free [where us = "[ub r a1 a2 a3 a4 a5]" for r a1 a2 a3 a4 a5, simplified append.simps list.set ball_simps simp_thms
    block_simps]

lemma test_expheap_free_and_reuse_passes:
  assumes r: "region_ok r 0x8000"
  shows "failures (test_expheap_free_and_reuse r) w n = n"
proof -
  have nn: "r + of_nat 104 \<noteq> null" "r + of_nat 636 \<noteq> null"
    using region_nonnull [OF r, of 104] region_nonnull [OF r, of 636] by simp_all
  show ?thesis
    using nn exp_at_frees(1) [OF r nn(1)] exp_at_frees(2) [OF r nn(2)] exp_at_frees(3) [OF r nn(2)]
    by (simp add: failures_def test_expheap_free_and_reuse_def run_simps exp_at [OF r])
qed

lemma test_expheap_coalesce_passes:
  assumes r: "region_ok r 0x8000"
  shows "failures (test_expheap_coalesce r) w n = n"
proof -
  have nn: "r + of_nat 104 \<noteq> null" "r + of_nat 636 \<noteq> null" "r + of_nat 1168 \<noteq> null"
    using region_nonnull [OF r, of 104] region_nonnull [OF r, of 636] region_nonnull [OF r, of 1168] by simp_all
  show ?thesis
    using exp_at_frees(1) [OF r nn(1)] exp_at_frees(2) [OF r nn(2)] exp_at_frees(2) [OF r nn(3)]
    by (simp add: failures_def test_expheap_coalesce_def run_simps exp_at [OF r])
qed

lemma test_expheap_alignment_passes:
  assumes r: "region_ok r 0x8000"
  shows "failures (test_expheap_alignment r) w n = n"
proof -
  define h where "h = exp_at r [ub r 84 23 104 3 0, fb r 107 32661]"
  have u: "unat (r + 84) = unat r + 84" "unat (r + 107) = unat r + 107" "unat (r + 104) = unat r + 104"
    "unat (r + 0x8000) = unat r + 0x8000"
    using region_unat [OF r, of 84] region_unat [OF r, of 107] region_unat [OF r, of 104] region_unat [OF r, of "0x8000"]
    by simp_all
  have wf: "exp_wf (unat r + 84) (unat r + 0x8000) h"
    using r by (simp add: h_def exp_wf_def exp_at_def u ub_def fb_def free_block_def block_ok_def region_ok_def)
  have "fits (fb r 107 32661) 256 64"
    using round_up_less [of 256 "127 + unat r"]
    by (simp add: fits_def lowest_def fb_def free_block_def u)
  then have ex: "\<not> (\<forall>b \<in> set (eh_blocks h). \<not> fits b (fst (normaliseAlignment 256)) 64)" by (simp add: h_def)
  obtain p h' where p: "exp_alloc h 64 256 = Some (p, h')" "exp_alloc_step h 64 256 p h'"
  proof (rule exp_alloc_cases [OF wf, of 64 256])
    show "(64 :: u32) \<noteq> 0" by simp
  qed (use ex in \<open>auto intro: that\<close>)
  then have "256 dvd unat p" "p \<noteq> null" using exp_step_payload [OF wf p(2)] by auto
  moreover have "eh_flags h' = 0" using exp_step_fields [OF p(2)] by (simp add: h_def)
  ultimately show ?thesis
    using p(1) aligned_masks(3) [of p]
    by (simp add: failures_def test_expheap_alignment_def run_simps exp_at [OF r] MEMAllocFromExpHeapEx_def [where sz = 64]
      exp_at_live [OF r] h_def exp_request_def)
qed

section \<open>The base heaps\<close>

text \<open>
  The tests of the base heap find it empty: it was never used, or every block of it was freed again. \<open>m\<close> is the memory
  \<^verbatim>\<open>malloc\<close> gives at the first use.
\<close>

definition mem2_free :: "(ptr \<Rightarrow> nat) \<Rightarrow> base_world \<Rightarrow> bool" where
  "mem2_free lim w \<longleftrightarrow> base_ready lim w \<and> bases_apart lim (baseHeap w) \<and> used_blocks (mem2_heap w) = [] \<and>
     unat (eh_dataStart (mem2_heap w)) + 0x10000 \<le> unat (eh_dataEnd (mem2_heap w))"

definition mem2_idle :: "(ptr \<Rightarrow> nat) \<Rightarrow> ptr \<Rightarrow> base_world \<Rightarrow> bool" where
  "mem2_idle lim m w \<longleftrightarrow>
     (let (k, w1) = MEMGetBaseHeapHandle m MEM_BASE_HEAP_MEM2 w in k = baseHeap w1 ! 1 \<and> mem2_free lim w1)"

lemma mem2_idle_fresh:
  assumes ok: "tab_ok (exp_ok lim) (exp_heaps (base_exp w))" and apart: "bases_apart lim (baseHeap w)"
    and lr: "length (baseRegion w) = 3" and m: "malloc_ok lim w m" "m \<noteq> null" and none: "baseHeap w ! 1 = null"
  shows "mem2_idle lim m w"
proof -
  have "length (baseHeap w) = 3" using apart by (simp add: bases_apart_def)
  moreover have k: "unat m + unat kSize \<le> 9223372036854775808" "104 < kSize"
    using m by (simp_all add: malloc_ok_def kSize_def)
  moreover obtain h where h: "MEMCreateExpHeapEx m kSize 0 (base_exp w) = (m, exp_put m h (base_exp w))"
      "exp_wf (unat m + 84) (unat m + unat kSize) h" "used_blocks h = []"
      "unat (eh_dataStart h) < unat m + 88" "unat (eh_dataEnd h) = unat m + unat kSize"
    using exp_create_eq [OF m(2) k(2,1), of 0 "base_exp w"] by blast
  ultimately show ?thesis
    using get_base_fresh [OF assms] lr m(2) none
    by (simp add: mem2_idle_def mem2_free_def MEMGetBaseHeapHandle_def baseIndex_MEM2 h(1) Let_def mem2_heap_def kSize_def)
qed

lemma empty_heap_alloc:
  assumes wf: "exp_wf lo hi h" and none: "used_blocks h = []" and room: "unat (eh_dataStart h) + 0x10000 \<le> unat (eh_dataEnd h)"
    and a: "normaliseAlignment al = (a, False)" "unat a \<le> 4096" and n: "sz \<noteq> 0" "unat sz \<le> 4096"
  obtains p h' where "exp_alloc h sz al = Some (p, h')" "exp_alloc_step h sz a p h'"
proof (rule exp_alloc_cases [OF wf n(1), of al])
  assume no: "\<forall>b \<in> set (eh_blocks h). \<not> fits b (fst (normaliseAlignment al)) sz"
  have p2: "isPow2 a" using normaliseAlignment_pow2 [of al] a by simp
  from room have "eh_dataStart h \<noteq> eh_dataEnd h" by auto
  from empty_heap [OF wf none this] obtain b where b: "eh_blocks h = [b]" by auto
  have "\<not> bk_used b" using none b by (auto simp: used_blocks_def)
  moreover have t: "unat (bk_start b) = unat (eh_dataStart h)"
      "unat (eh_dataStart h) + unat (bk_size b) = unat (eh_dataEnd h)"
    using wf b by (simp_all add: exp_wf_def)
  ultimately have "fits b a sz"
    using lowest_bounds(2) [OF p2, of b] a(2) n(2) room by (simp add: fits_def)
  then show thesis using no b a by simp
qed (use a in \<open>auto intro: that\<close>)

lemma mem2_free_idle: "mem2_free lim w \<Longrightarrow> mem2_idle lim m w"
  using get_base_ready [of lim w m] by (simp add: mem2_idle_def mem2_free_def del: One_nat_def)

lemma mem2_idle_obtain:
  assumes "mem2_idle lim m w"
  obtains w1 where "MEMGetBaseHeapHandle m MEM_BASE_HEAP_MEM2 w = (baseHeap w1 ! 1, w1)" "mem2_free lim w1"
    "baseHeap w1 ! 1 \<noteq> null"
  using assms by (auto simp: mem2_idle_def mem2_free_def base_ready_def)

lemma mem2_alloc:
  assumes w: "mem2_free lim w" and a: "normaliseAlignment al = (a, False)" "unat a \<le> 4096" "al \<noteq> 0"
    and n: "n \<noteq> 0" "unat n \<le> 4096"
  obtains p w1 where "defaultAllocEx m n al w = (p, w1)" "p \<noteq> null" "unat a dvd unat p" "base_ready lim w1"
    "baseHeap w1 = baseHeap w" "contains (base_exp w1) p (baseHeap w ! 1)" "mem2_free lim (defaultFree m p w1)"
    "baseHeap (defaultFree m p w1) = baseHeap w"
proof -
  have r: "base_ready lim w" and ba: "bases_apart lim (baseHeap w)" using w by (simp_all add: mem2_free_def)
  obtain h where h: "exp_heaps (base_exp w) (baseHeap w ! 1) = Some h" "eh_live h" "mem2_heap w = h"
      "exp_wf (unat (baseHeap w ! 1) + 84) (lim (baseHeap w ! 1)) h" "baseHeap w ! 1 \<noteq> null"
    by (rule base_ready_obtain [OF r])
  obtain p h' where p: "exp_alloc h n al = Some (p, h')" "exp_alloc_step h n a p h'"
    using empty_heap_alloc [OF h(4) _ _ a(1,2) n] w h(3) by (auto simp: mem2_free_def)
  have nn: "p \<noteq> null" "unat a dvd unat p" by (rule exp_step_payload [OF h(4) p(2)], simp)+
  define w1 where "w1 = snd (defaultAllocEx m n al w)"
  have f: "fst (defaultAllocEx m n al w) = p" and b: "baseHeap w1 = baseHeap w"
    using h p(1) a(3) n(1) by (simp_all add: w1_def defaultAllocEx_def get_base_ready [OF r] MEMAllocFromExpHeapEx_def
      exp_live_known exp_request_def Let_def split_beta del: One_nat_def)
  have h1: "mem2_heap w1 = h'"
    using h p(1) a(3) n(1) by (simp add: w1_def mem2_heap_def defaultAllocEx_def get_base_ready [OF r]
      MEMAllocFromExpHeapEx_def exp_live_known exp_request_def Let_def split_beta del: One_nat_def)
  have r1: "base_ready lim w1" using defaultAllocEx_ready [OF r, of m n al] by (simp add: w1_def)
  obtain u where u: "used_blocks h' = [u]" "bk_payload u = p"
    using exp_step_used [OF p(2)] w h(3) by (auto simp: mem2_free_def)
  then have "(p, unat (bk_payloadSize u)) \<in> mem2_outstanding w1" by (simp add: mem2_outstanding_def h1)
  from outstanding_contained [OF r1 this] have c: "contains (base_exp w1) p (baseHeap w ! 1)" by (simp add: b)
  have fr: "base_ready lim (defaultFree m p w1)" "mem2_heap (defaultFree m p w1) = exp_free p h'"
    using defaultFree_ready [OF r1 nn(1), of m] h1 by simp_all
  have bf: "baseHeap (defaultFree m p w1) = baseHeap w"
    by (simp add: defaultFree_def get_base_ready [OF r1] b)
  have wf': "exp_wf (unat (baseHeap w ! 1) + 84) (lim (baseHeap w ! 1)) h'" by (rule exp_step_wf [OF h(4) p(2)])
  have "used_blocks (exp_free p h') = []" by (simp add: exp_free_used [OF wf'] u)
  moreover have "eh_dataStart (exp_free p h') = eh_dataStart h" "eh_dataEnd (exp_free p h') = eh_dataEnd h"
    using exp_step_fields [OF p(2)] by (cases rule: exp_free_cases [of h' p]; simp)+
  ultimately have "mem2_free lim (defaultFree m p w1)"
    using w h(3) by (simp add: mem2_free_def fr bf ba)
  then show thesis
    using f nn r1 b c bf by (intro that [of p w1]) (auto simp: w1_def)
qed

subsection \<open>The tests\<close>

definition on_exp :: "(exp_world \<Rightarrow> 'a \<times> exp_world) \<Rightarrow> base_world \<Rightarrow> 'a \<times> base_world" where
  "on_exp f w = (case f (base_exp w) of (r, e) \<Rightarrow> (r, w\<lparr>base_exp := e\<rparr>))"

definition test_base_heap :: "ptr \<Rightarrow> (base_world, unit) test" where
  "test_base_heap m =
     do {
       h \<leftarrow> call (MEMGetBaseHeapHandle m MEM_BASE_HEAP_MEM2);
       if h = null then check False
       else do {
         p \<leftarrow> call (on_exp (MEMAllocFromExpHeapEx h 4096 32));
         check (p \<noteq> null \<and> p AND 31 = 0);
         if p \<noteq> null then exec (\<lambda>w. w\<lparr>base_exp := MEMFreeToExpHeap h p (base_exp w)\<rparr>) else skip
       }
     }"

definition test_find_contain_heap :: "ptr \<Rightarrow> ptr \<Rightarrow> (base_world, unit) test" where
  "test_find_contain_heap stackVar m =
     do {
       base \<leftarrow> call (MEMGetBaseHeapHandle m MEM_BASE_HEAP_MEM2);
       p \<leftarrow> call (on_exp (MEMAllocFromExpHeapEx base 128 4));
       found \<leftarrow> call (MEMFindContainHeap p);
       check (p \<noteq> null \<and> found = base);
       (if p \<noteq> null then exec (\<lambda>w. w\<lparr>base_exp := MEMFreeToExpHeap base p (base_exp w)\<rparr>) else skip);
       stranger \<leftarrow> call (MEMFindContainHeap stackVar);
       check (stranger = null)
     }"

text \<open>
  The variable \<^verbatim>\<open>MEMAllocFromDefaultHeap\<close> is a function pointer the program may set: here it holds the library's function or
  the test's \<^verbatim>\<open>hooked_alloc\<close>, and a call goes through what it holds.
\<close>

datatype alloc_fn = DefaultAlloc | HookedAlloc

record hook_world =
  hk_base :: base_world
  hk_alloc :: alloc_fn
  s_hookedPtr :: ptr

definition hooked_alloc :: "u32 \<Rightarrow> hook_world \<Rightarrow> ptr \<times> hook_world" where
  "hooked_alloc sz w = (0xDEADBEEF, w\<lparr>s_hookedPtr := 0xDEADBEEF\<rparr>)"

definition on_base :: "(base_world \<Rightarrow> 'a \<times> base_world) \<Rightarrow> hook_world \<Rightarrow> 'a \<times> hook_world" where
  "on_base f w = (case f (hk_base w) of (r, b) \<Rightarrow> (r, w\<lparr>hk_base := b\<rparr>))"

definition call_MEMAllocFromDefaultHeap :: "ptr \<Rightarrow> u32 \<Rightarrow> hook_world \<Rightarrow> ptr \<times> hook_world" where
  "call_MEMAllocFromDefaultHeap m sz w =
     (case hk_alloc w of
        DefaultAlloc \<Rightarrow> on_base (MEMAllocFromDefaultHeap default_heap_init m sz) w
      | HookedAlloc \<Rightarrow> hooked_alloc sz w)"

definition test_default_heap_pointers :: "ptr \<Rightarrow> (hook_world, unit) test" where
  "test_default_heap_pointers m =
     do {
       p \<leftarrow> call (call_MEMAllocFromDefaultHeap m 256);
       check (p \<noteq> null);
       (if p \<noteq> null then exec (\<lambda>w. w\<lparr>hk_base := MEMFreeToDefaultHeap default_heap_init m p (hk_base w)\<rparr>) else skip);
       aligned \<leftarrow> call (on_base (MEMAllocFromDefaultHeapEx default_heap_init m 256 64));
       check (aligned \<noteq> null \<and> aligned AND 63 = 0);
       (if aligned \<noteq> null then exec (\<lambda>w. w\<lparr>hk_base := MEMFreeToDefaultHeap default_heap_init m aligned (hk_base w)\<rparr>) else skip);
       original \<leftarrow> ask hk_alloc;
       exec (\<lambda>w. w\<lparr>hk_alloc := HookedAlloc, s_hookedPtr := null\<rparr>);
       hooked \<leftarrow> call (call_MEMAllocFromDefaultHeap m 16);
       exec (\<lambda>w. w\<lparr>hk_alloc := original\<rparr>);
       seen \<leftarrow> ask s_hookedPtr;
       check (hooked = 0xDEADBEEF \<and> seen = hooked)
     }"

lemma on_exp_alloc:
  "base_ready lim w \<Longrightarrow> al \<noteq> 0 \<Longrightarrow> on_exp (MEMAllocFromExpHeapEx (baseHeap w ! 1) n al) w = defaultAllocEx m n al w"
  by (simp add: on_exp_def defaultAllocEx_def get_base_ready split_beta Let_def del: One_nat_def)

lemma on_exp_free:
  "base_ready lim w \<Longrightarrow> w\<lparr>base_exp := MEMFreeToExpHeap (baseHeap w ! 1) p (base_exp w)\<rparr> = defaultFree m p w"
  by (simp add: defaultFree_def get_base_ready del: One_nat_def)

lemma test_base_heap_passes:
  assumes "mem2_idle lim m w"
  shows "failures (test_base_heap m) w n = n \<and> mem2_free lim (world_after (test_base_heap m) w)"
proof -
  obtain w1 where w1: "MEMGetBaseHeapHandle m MEM_BASE_HEAP_MEM2 w = (baseHeap w1 ! 1, w1)" "mem2_free lim w1"
      "baseHeap w1 ! 1 \<noteq> null"
    using assms by (rule mem2_idle_obtain)
  then have r: "base_ready lim w1" by (simp add: mem2_free_def)
  obtain p w2 where p: "defaultAllocEx m 4096 32 w1 = (p, w2)" "p \<noteq> null" "32 dvd unat p" "base_ready lim w2"
      "baseHeap w2 = baseHeap w1" "mem2_free lim (defaultFree m p w2)"
    by (rule mem2_alloc [OF w1(2) align_4(3), of 4096 m]) auto
  have "w2\<lparr>base_exp := MEMFreeToExpHeap (baseHeap w1 ! 1) p (base_exp w2)\<rparr> = defaultFree m p w2"
    using on_exp_free [OF p(4)] p(5) by simp
  then show ?thesis
    using p(2,3,6) w1(3) aligned_masks(1) [of p]
    by (simp add: failures_def world_after_def test_base_heap_def run_simps w1(1) on_exp_alloc [OF r, where m = m] p(1) del: One_nat_def)
qed

lemma test_default_heap_pointers_passes:
  assumes "mem2_free lim (hk_base w)" and "hk_alloc w = DefaultAlloc"
  shows "failures (test_default_heap_pointers m) w n = n \<and>
    mem2_free lim (hk_base (world_after (test_default_heap_pointers m) w)) \<and>
    hk_alloc (world_after (test_default_heap_pointers m) w) = DefaultAlloc"
proof -
  obtain p w1 where p: "defaultAllocEx m 256 4 (hk_base w) = (p, w1)" "p \<noteq> null" "mem2_free lim (defaultFree m p w1)"
    by (rule mem2_alloc [OF assms(1) align_4(1), of 256 m]) auto
  obtain q w2 where q: "defaultAllocEx m 256 64 (defaultFree m p w1) = (q, w2)" "q \<noteq> null" "64 dvd unat q"
      "mem2_free lim (defaultFree m q w2)"
    by (rule mem2_alloc [OF p(3) align_4(4), of 256 m]) auto
  have "defaultAlloc m 256 (hk_base w) = (p, w1)"
    using p(1) by (simp add: defaultAlloc_def defaultAllocEx_def)
  then show ?thesis
    using p(2) q(2-4) assms(2) aligned_masks(2) [of q]
    by (simp add: failures_def world_after_def test_default_heap_pointers_def run_simps on_base_def
      call_MEMAllocFromDefaultHeap_def hooked_alloc_def default_heap_init_def q(1))
qed

lemma exp_live_keeps: "exp_heaps e k = Some h \<Longrightarrow> exp_heaps (snd (exp_live k' e)) k = Some h"
  by (auto simp: exp_live_def ht_get_def split: option.splits)

lemma find_contain_keeps:
  "tab_ok (exp_ok lim) (exp_heaps e) \<Longrightarrow> tab_ok (exp_ok lim) (exp_heaps (snd (find_contain p hs e))) \<and>
     (exp_heaps e k = Some h \<longrightarrow> exp_heaps (snd (find_contain p hs e)) k = Some h)"
proof (induction hs arbitrary: e)
  case (Cons k' hs)
  show ?case
  proof (cases rule: exp_live_ok [OF Cons.prems, of k'])
    case (1 w')
    then show ?thesis
      using Cons.IH [OF Cons.prems] Cons.IH [OF 1(2)] exp_live_keeps [of e k h k'] by auto
  next
    case (2 h')
    then show ?thesis using Cons.IH [OF Cons.prems] Cons.prems by (auto simp: Let_def)
  qed
qed simp

lemma find_stranger:
  assumes "tab_ok (exp_ok lim) (exp_heaps (base_exp w))"
    and "\<forall>k \<in> set (baseHeap w). k \<noteq> null \<longrightarrow> unat s < unat k \<or> lim k \<le> unat s"
  shows "fst (MEMFindContainHeap s w) = null"
proof -
  have "\<not> contains (base_exp w) s k" if "k \<in> set (baseHeap w)" for k
    using contains_region [OF assms(1), of s k] assms(2) that by (fastforce simp: contains_def)
  then have "find (contains (base_exp w) s) (take 3 (baseHeap w)) = None"
    by (auto simp: find_None_iff dest: in_set_takeD)
  then show ?thesis by (simp add: MEMFindContainHeap_def find_contain_first split_beta)
qed

lemma get_base_keys:
  assumes "length (baseRegion w) = 3"
  shows "set (baseHeap (snd (MEMGetBaseHeapHandle m t w))) \<subseteq> insert m (insert null (set (baseHeap w)))"
proof -
  have "fst (MEMCreateExpHeapEx m kSize 0 e) \<in> {m, null}" for e
    by (simp add: MEMCreateExpHeapEx_def Let_def)
  moreover have "i < 3" if "baseIndex t = Some i" for i using that by (auto simp: baseIndex_def split: if_splits)
  ultimately show ?thesis
    using assms by (auto simp: MEMGetBaseHeapHandle_def Let_def split_beta split: option.splits
      dest!: set_update_subset_insert [THEN subsetD])
qed

lemma test_find_contain_heap_passes:
  assumes "mem2_idle lim m w" and lr: "length (baseRegion w) = 3"
    and s: "\<forall>k \<in> insert m (set (baseHeap w)). k \<noteq> null \<longrightarrow> unat stackVar < unat k \<or> lim k \<le> unat stackVar"
  shows "failures (test_find_contain_heap stackVar m) w n = n"
proof -
  obtain w1 where w1: "MEMGetBaseHeapHandle m MEM_BASE_HEAP_MEM2 w = (baseHeap w1 ! 1, w1)" "mem2_free lim w1"
      "baseHeap w1 ! 1 \<noteq> null"
    using assms(1) by (rule mem2_idle_obtain)
  then have r: "base_ready lim w1" and ba: "bases_apart lim (baseHeap w1)" by (simp_all add: mem2_free_def)
  obtain p w2 where p: "defaultAllocEx m 128 4 w1 = (p, w2)" "p \<noteq> null" "base_ready lim w2"
      "baseHeap w2 = baseHeap w1" "contains (base_exp w2) p (baseHeap w1 ! 1)"
    by (rule mem2_alloc [OF w1(2) align_4(1), of 128 m]) auto
  define w3 where "w3 = snd (MEMFindContainHeap p w2)"
  have t2: "tab_ok (exp_ok lim) (exp_heaps (base_exp w2))" using p(3) by (simp add: base_ready_def)
  have f: "fst (MEMFindContainHeap p w2) = baseHeap w1 ! 1"
    using find_base [OF ba t2, of 1 p] p(2,4,5) by (simp add: MEMFindContainHeap_def split_beta)
  have b3: "baseHeap w3 = baseHeap w1" and t3: "tab_ok (exp_ok lim) (exp_heaps (base_exp w3))"
    using find_contain_keeps [OF t2] p(2,4) by (simp_all add: w3_def MEMFindContainHeap_def split_beta)
  define w4 where "w4 = w3\<lparr>base_exp := MEMFreeToExpHeap (baseHeap w1 ! 1) p (base_exp w3)\<rparr>"
  have "tab_ok (exp_ok lim) (exp_heaps (base_exp w4))"
    using exp_exec_ok [OF t3, of "ExpFree (baseHeap w1 ! 1) p"] by (simp add: w4_def)
  moreover have "set (baseHeap w4) \<subseteq> insert m (insert null (set (baseHeap w)))"
    using get_base_keys [OF lr, of m MEM_BASE_HEAP_MEM2] w1(1) b3 by (simp add: w4_def)
  ultimately have "fst (MEMFindContainHeap stackVar w4) = null"
    using s by (intro find_stranger) auto
  then show ?thesis
    using p(2) f by (simp add: failures_def test_find_contain_heap_def run_simps w1(1) on_exp_alloc [OF r, where m = m] p(1)
      w3_def [symmetric] w4_def [symmetric] del: One_nat_def)
qed

end
