(* ===== verification/SuiteTime.thy ===== *)
theory SuiteTime
  imports Suite Time
begin

text \<open>
  The tests of the clock and the calendar in \<^verbatim>\<open>tests/main.cpp\<close>. The ticks the host's counter shows before and after a sleep
  are arguments; what the tests need of them is that the sleep took its time.
\<close>

abbreviation signed_less :: "s64 \<Rightarrow> s64 \<Rightarrow> bool" where
  "signed_less a b \<equiv> a <s b"

definition coreinit_nx_expected_half_second :: "u64 option \<Rightarrow> u64 \<Rightarrow> info_world \<Rightarrow> u64 \<times> info_world" where
  "coreinit_nx_expected_half_second clock tick w =
     (let w' = OSGetSystemInfo clock tick w in (ucast (busClockSpeed (g_info w') div 4) div 2, w'))"

definition test_time_monotonic :: "u64 \<Rightarrow> u64 \<Rightarrow> (info_world, unit) test" where
  "test_time_monotonic t0 t1 =
     do {
       let a = OSGetSystemTime t0;
       let b = OSGetSystemTime t1;
       check (signed_less a b)
     }"

definition test_time_rate :: "u64 option \<Rightarrow> u64 \<Rightarrow> u64 \<Rightarrow> u64 \<Rightarrow> (info_world, unit) test" where
  "test_time_rate clock tick t0 t1 =
     do {
       let a = OSGetSystemTime t0;
       let elapsed = OSGetSystemTime t1 - a;
       expected \<leftarrow> call (coreinit_nx_expected_half_second clock tick);
       let diff = (if signed_less expected elapsed then elapsed - expected else expected - elapsed);
       check (signed_less diff (word_of_int (sint expected sdiv 20)))
     }"

definition test_epoch :: "(info_world, unit) test" where
  "test_epoch =
     do {
       let ct = calendar_blank\<lparr>tm_year := 2000, tm_mon := 0, tm_mday := 1\<rparr>;
       check (OSCalendarTimeToTicks (Some ct) = 0)
     }"

definition test_calendar_roundtrip :: "(info_world, unit) test" where
  "test_calendar_roundtrip =
     do {
       let ct = calendar_blank\<lparr>tm_year := 2024, tm_mon := 1, tm_mday := 29, tm_hour := 13, tm_min := 45, tm_sec := 30\<rparr>;
       let out = OSTicksToCalendarTime (OSCalendarTimeToTicks (Some ct)) (Some calendar_blank);
       check (case out of None \<Rightarrow> False | Some out \<Rightarrow>
         tm_year out = 2024 \<and> tm_mon out = 1 \<and> tm_mday out = 29 \<and> tm_hour out = 13 \<and> tm_min out = 45 \<and>
         tm_sec out = 30 \<and> tm_wday out = 4 \<and> tm_yday out = 59)
     }"

text \<open>\<open>naps\<close> is what the host does with the nanoseconds \<^verbatim>\<open>OSSleepTicks\<close> asks for: the tick at the end.\<close>

definition test_sleep_ticks :: "u64 option \<Rightarrow> u64 \<Rightarrow> u64 \<Rightarrow> (u64 option \<Rightarrow> u64) \<Rightarrow> (info_world, unit) test" where
  "test_sleep_ticks clock tick t0 naps =
     do {
       let before = OSGetSystemTime t0;
       exec (OSGetSystemInfo clock tick);
       speed \<leftarrow> ask (\<lambda>w. busClockSpeed (g_info w));
       let t1 = naps (OSSleepTicks (ucast (speed div 4 div 10)));
       let elapsed = OSGetSystemTime t1 - before;
       exec (OSGetSystemInfo clock tick);
       speed' \<leftarrow> ask (\<lambda>w. busClockSpeed (g_info w));
       let expected = ucast (speed' div 4 div 10);
       check (expected \<le>s elapsed)
     }"

text \<open>The clock after a wait of \<open>d\<close> ticks.\<close>

lemma clock_advance:
  assumes "unat t1 = unat t0 + d" "unat t1 * 3315 < 2 ^ 63"
  shows "unat (OSGetSystemTime t1) < 2 ^ 63" "OSGetSystemTime t0 \<le> OSGetSystemTime t1"
    "d * 3315 div 1024 \<le> unat (OSGetSystemTime t1) - unat (OSGetSystemTime t0)"
    "unat (OSGetSystemTime t1) - unat (OSGetSystemTime t0) \<le> d * 3315 div 1024 + 1"
proof -
  have t: "unat (OSGetSystemTime t1) = unat t1 * 3315 div 1024" "unat (OSGetSystemTime t0) = unat t0 * 3315 div 1024"
    using assms by (simp_all add: OSGetSystemTime_def systemTimeTicks_nat)
  then show "unat (OSGetSystemTime t1) < 2 ^ 63" "OSGetSystemTime t0 \<le> OSGetSystemTime t1"
    using assms by (simp_all add: word_le_nat_alt div_le_mono)
  show "d * 3315 div 1024 \<le> unat (OSGetSystemTime t1) - unat (OSGetSystemTime t0)"
    "unat (OSGetSystemTime t1) - unat (OSGetSystemTime t0) \<le> d * 3315 div 1024 + 1"
    unfolding t assms(1) by (simp_all add: algebra_simps)
qed

lemma sint_small:
  assumes "unat (x :: s64) < 2 ^ 63"
  shows "sint x = int (unat x)"
proof -
  have "int (unat x) < int (2 ^ 63)" using assms by (simp only: of_nat_less_iff)
  then show ?thesis
    by (simp add: sint_uint signed_take_bit_int_eq_self_iff) (rule order.trans [of _ 0], simp_all)
qed

lemma sless_small: "unat (x :: s64) < 2 ^ 63 \<Longrightarrow> unat y < 2 ^ 63 \<Longrightarrow> signed_less x y \<longleftrightarrow> unat x < unat y"
  and sle_small: "unat x < 2 ^ 63 \<Longrightarrow> unat y < 2 ^ 63 \<Longrightarrow> x \<le>s y \<longleftrightarrow> unat x \<le> unat y"
  by (simp_all add: word_sless_alt word_sle_eq sint_small del: of_nat_unat)

lemma test_time_monotonic_passes:
  assumes "unat t0 + 192000 \<le> unat t1" "unat t1 * 3315 < 2 ^ 63"
  shows "failures (test_time_monotonic t0 t1) w n = n"
proof -
  obtain d where d: "unat t1 = unat t0 + d" "192000 \<le> d" using assms(1) le_Suc_ex by force
  note c = clock_advance [OF d(1) assms(2)]
  have "unat (OSGetSystemTime t0) < unat (OSGetSystemTime t1)" using c(2,3) d(2) by (simp add: word_le_nat_alt)
  then have "signed_less (OSGetSystemTime t0) (OSGetSystemTime t1)" using c(1,2) by (subst sless_small) auto
  then show ?thesis by (simp add: failures_def test_time_monotonic_def run_simps)
qed

lemma expected_half_second:
  "fst (coreinit_nx_expected_half_second clock tick w) = 31078125" if "\<not> g_ready w \<or> busClockSpeed (g_info w) = kWiiUBusClockHz"
  using that by (auto simp: coreinit_nx_expected_half_second_def OSGetSystemInfo_def kWiiUBusClockHz_def)

text \<open>The sleep of half a second may be off by 24 milliseconds.\<close>

lemma test_time_rate_passes:
  assumes "unat t0 + 9140000 \<le> unat t1" "unat t1 \<le> unat t0 + 10060000" "unat t1 * 3315 < 2 ^ 63"
    and g: "\<not> g_ready w \<or> busClockSpeed (g_info w) = kWiiUBusClockHz"
  shows "failures (test_time_rate clock tick t0 t1) w n = n"
proof -
  obtain d where d: "unat t1 = unat t0 + d" "9140000 \<le> d" "d \<le> 10060000" using assms(1,2) le_Suc_ex by force
  note c = clock_advance [OF d(1) assms(3)]
  define e where "e = OSGetSystemTime t1 - OSGetSystemTime t0"
  have u: "unat e = unat (OSGetSystemTime t1) - unat (OSGetSystemTime t0)"
    using c(2) by (simp add: e_def unat_minus_nowrap word_le_nat_alt)
  have b: "29588085 \<le> unat e" "unat e \<le> 32567286" "unat e < 2 ^ 63" using c(3,4) d(2,3) by (simp_all add: u)
  define diff where "diff = (if signed_less 31078125 e then e - 31078125 else 31078125 - e)"
  have "unat diff \<le> 1490040"
    using b by (auto simp: diff_def sless_small unat_minus_nowrap not_less)
  moreover have "(word_of_int (sint (31078125 :: s64) sdiv 20) :: s64) = 1553906" by (simp add: signed_divide_int_def)
  ultimately have "signed_less diff (word_of_int (sint (31078125 :: s64) sdiv 20))"
    by (subst sless_small) simp_all
  then have "(if signed_less 31078125 e then signed_less (e - 31078125) (word_of_int (sint (31078125 :: s64) sdiv 20))
      else signed_less (31078125 - e) (word_of_int (sint (31078125 :: s64) sdiv 20)))"
    by (simp add: diff_def split: if_splits)
  then show ?thesis
    by (simp add: failures_def test_time_rate_def run_simps expected_half_second [OF g] e_def [symmetric] Let_def
      split: if_splits)
qed

lemma test_epoch_passes: "failures test_epoch w n = n"
  by (simp add: failures_def test_epoch_def run_simps) code_simp

lemma test_calendar_roundtrip_passes: "failures test_calendar_roundtrip w n = n"
  by (simp add: failures_def test_calendar_roundtrip_def run_simps) code_simp

text \<open>The host sleeps at least as long as asked, at 19.2 million ticks a second.\<close>

lemma test_sleep_ticks_passes:
  assumes sleep: "\<And>ns. unat t0 + unat ns * 192 div 10000 \<le> unat (naps (Some ns))"
    and "\<And>ns. unat (naps ns) * 3315 < 2 ^ 63"
    and g: "\<not> g_ready w \<or> busClockSpeed (g_info w) = kWiiUBusClockHz"
  shows "failures (test_sleep_ticks clock tick t0 naps) w n = n"
proof -
  have sp: "busClockSpeed (g_info (OSGetSystemInfo clock tick w)) = kWiiUBusClockHz" for clock tick
    using g by (auto simp: OSGetSystemInfo_def)
  have again: "OSGetSystemInfo clock tick (OSGetSystemInfo clock tick w) = OSGetSystemInfo clock tick w"
    by (simp add: OSGetSystemInfo_def)
  have e: "(ucast (kWiiUBusClockHz div 4 div 10) :: s64) = 6215625" by (simp add: kWiiUBusClockHz_def)
  define t1 where "t1 = naps (OSSleepTicks 6215625)"
  have "OSSleepTicks 6215625 = Some 100000000" by (simp add: OSSleepTicks_def word_sle_eq)
  then have "unat t0 + 1920000 \<le> unat t1" "unat t1 * 3315 < 2 ^ 63"
    using sleep [of 100000000] assms(2) by (simp_all add: t1_def)
  then obtain d where d: "unat t1 = unat t0 + d" "1920000 \<le> d" "unat t1 * 3315 < 2 ^ 63" using le_Suc_ex by force
  note c = clock_advance [OF d(1,3)]
  have "unat (OSGetSystemTime t1 - OSGetSystemTime t0) = unat (OSGetSystemTime t1) - unat (OSGetSystemTime t0)"
    using c(2) by (simp add: unat_minus_nowrap word_le_nat_alt)
  moreover have "6215625 \<le> d * 3315 div 1024" using d(2) by simp
  ultimately have "6215625 \<le>s OSGetSystemTime t1 - OSGetSystemTime t0"
    using c(1,3) by (subst sle_small) simp_all
  then show ?thesis
    by (simp add: failures_def test_sleep_ticks_def run_simps sp again e t1_def Let_def)
qed

end
