(* ===== verification/SuiteSystem.thy ===== *)
theory SuiteSystem
  imports Suite DebugLog Atomics Driver GuestMemory SysConfig DynLoad LockedCache
begin

text \<open>
  The tests of \<^verbatim>\<open>tests/main.cpp\<close> for logging, the process services, drivers, guest memory and the cache, the locked cache,
  the system settings and the loader. Static buffers and callbacks of the tests are addresses; what the tests rely on (a
  buffer does not overlap another, a function has an address) is a hypothesis.
\<close>

section \<open>Logging and fatal errors\<close>

text \<open>
  \<^verbatim>\<open>captureSink\<close> appends what it is given to the buffer \<^verbatim>\<open>s_logBuf\<close> of 512 bytes. The text it has after a test is that of the
  calls of the sink since the test cleared it.
\<close>

definition captureSink :: "string \<Rightarrow> nat \<Rightarrow> string \<Rightarrow> string" where
  "captureSink txt sz s_logBuf =
     (let room = 512 - 1 - length s_logBuf;
          n = (if sz < room then sz else room)
      in s_logBuf @ take n txt)"

definition captured :: "ptr \<Rightarrow> debug_event list \<Rightarrow> string" where
  "captured sink evs = fold (\<lambda>e buf. case e of
     Log_sink f txt \<Rightarrow> if f = sink then captureSink txt (length txt) buf else buf | _ \<Rightarrow> buf) evs []"

definition captureFatal :: "string option \<Rightarrow> bool" where
  "captureFatal msg \<longleftrightarrow> (case msg of None \<Rightarrow> False | Some m \<Rightarrow> m = ''boom'')"

definition test_osreport :: "ptr \<Rightarrow> (debug_world, unit) test" where
  "test_osreport sink =
     do {
       cleared \<leftarrow> ask (length \<circ> dg_events);
       exec (coreinitNxSetLogSink sink);
       exec (OSReport True (Some ''value=42 name=test''));
       exec (coreinitNxSetLogSink null);
       s_logBuf \<leftarrow> ask (captured sink \<circ> drop cleared \<circ> dg_events);
       check (s_logBuf = ''value=42 name=test'')
     }"

definition test_console_write :: "ptr \<Rightarrow> (debug_world, unit) test" where
  "test_console_write sink =
     do {
       cleared \<leftarrow> ask (length \<circ> dg_events);
       exec (coreinitNxSetLogSink sink);
       exec (OSConsoleWrite (Some ''abcdef'') 3);
       exec (coreinitNxSetLogSink null);
       s_logBuf \<leftarrow> ask (captured sink \<circ> drop cleared \<circ> dg_events);
       check (s_logBuf = ''abc'')
     }"

definition test_os_snprintf :: "ptr \<Rightarrow> (debug_world, unit) test" where
  "test_os_snprintf buf =
     do {
       let (n, written) = os_snprintf buf 8 True ''0123456789'';
       check ((case written of None \<Rightarrow> False | Some s \<Rightarrow> length s = 7) \<and> n = 10)
     }"

definition test_osfatal_handler :: "ptr \<Rightarrow> (debug_world, unit) test" where
  "test_osfatal_handler handler =
     do {
       exec (coreinitNxSetFatalHandler handler);
       returned \<leftarrow> call (OSFatal (Some ''boom''));
       exec (coreinitNxSetFatalHandler null);
       evs \<leftarrow> ask dg_events;
       let s_fatalSeen = (returned \<and> evs \<noteq> [] \<and>
         (case last evs of Fatal_handler f msg \<Rightarrow> f = handler \<and> captureFatal msg | _ \<Rightarrow> False));
       check s_fatalSeen
     }"

definition test_saves_done :: "(debug_world, unit) test" where
  "test_saves_done =
     do {
       exec OSSavesDone_ReadyToRelease;
       check True
     }"

lemma test_osreport_passes: "sink \<noteq> null \<Longrightarrow> failures (test_osreport sink) w n = n"
  by (simp add: failures_def test_osreport_def run_simps coreinitNxSetLogSink_def OSReport_def dbg_emit_def call_sink_def
    snprintf_s_def captured_def captureSink_def)

lemma test_console_write_passes: "sink \<noteq> null \<Longrightarrow> failures (test_console_write sink) w n = n"
  by (simp add: failures_def test_console_write_def run_simps coreinitNxSetLogSink_def OSConsoleWrite_def call_sink_def
    captured_def captureSink_def)

lemma test_os_snprintf_passes: "buf \<noteq> null \<Longrightarrow> failures (test_os_snprintf buf) w n = n"
  by (simp add: failures_def test_os_snprintf_def run_simps os_snprintf_def snprintf_s_def)

lemma test_osfatal_handler_passes: "handler \<noteq> null \<Longrightarrow> failures (test_osfatal_handler handler) w n = n"
  by (simp add: failures_def test_osfatal_handler_def run_simps coreinitNxSetFatalHandler_def OSFatal_def captureFatal_def)

lemma test_saves_done_passes: "failures test_saves_done w n = n"
  by (simp add: failures_def test_saves_done_def run_simps)

section \<open>Process services\<close>

record misc_test =
  mt_misc :: misc_world
  mt_cells :: cells

definition on_misc :: "(misc_world \<Rightarrow> 'a \<times> misc_world) \<Rightarrow> misc_test \<Rightarrow> 'a \<times> misc_test" where
  "on_misc f w = (case f (mt_misc w) of (r, x) \<Rightarrow> (r, w\<lparr>mt_misc := x\<rparr>))"

definition on_cells :: "(cells \<Rightarrow> 'a \<times> cells) \<Rightarrow> misc_test \<Rightarrow> 'a \<times> misc_test" where
  "on_cells f w = (case f (mt_cells w) of (r, x) \<Rightarrow> (r, w\<lparr>mt_cells := x\<rparr>))"

text \<open>\<open>v\<close>, \<open>old\<close> and \<open>buf\<close> are the addresses of the local variables.\<close>

definition test_misc_functions ::
    "(string \<Rightarrow> string option) \<Rightarrow> ptr \<Rightarrow> ptr \<Rightarrow> ptr \<Rightarrow> (misc_test, unit) test" where
  "test_misc_functions env v old buf =
     do {
       exec (\<lambda>w. w\<lparr>mt_misc := OSYieldThread (mt_misc w), mt_cells := PPCSync (mt_cells w)\<rparr>);
       check True;
       exec (\<lambda>w. w\<lparr>mt_cells := (mt_cells w)(v := 100, old := 0)\<rparr>);
       swapped \<leftarrow> call (on_cells (OSCompareAndSwapAtomicEx64 v 100 200 old));
       c \<leftarrow> ask mt_cells;
       check (swapped = 1 \<and> c v = 200 \<and> c old = 100);
       swapped \<leftarrow> call (on_cells (OSCompareAndSwapAtomicEx64 v 999 300 old));
       c \<leftarrow> ask mt_cells;
       check (swapped = 0 \<and> c v = 200 \<and> c old = 200);
       was \<leftarrow> call (on_misc (OSEnableHomeButtonMenu 0));
       on \<leftarrow> ask (OSIsHomeButtonMenuEnabled \<circ> mt_misc);
       check (on = 0);
       _ \<leftarrow> call (on_misc (OSEnableHomeButtonMenu was));
       let _ = ENVGetEnvironmentVariable env (Some ''PATH'') buf 64;
       let (r, text) = ENVGetEnvironmentVariable env (Some ''NON_ESISTE_XYZ'') buf 64;
       check (r = 0 \<and> text = Some []);
       exec (\<lambda>w. w\<lparr>mt_misc := OSReleaseForeground (mt_misc w)\<rparr>);
       check True
     }"

lemma test_misc_functions_passes:
  assumes "env ''NON_ESISTE_XYZ'' = None" "v \<noteq> old" "old \<noteq> null" "buf \<noteq> null"
  shows "failures (test_misc_functions env v old buf) w n = n"
  using assms by (simp add: failures_def test_misc_functions_def run_simps on_cells_def on_misc_def Let_def
    OSCompareAndSwapAtomicEx64_def OSEnableHomeButtonMenu_def OSIsHomeButtonMenuEnabled_def ENVGetEnvironmentVariable_def
    OSYieldThread_def PPCSync_def)

section \<open>Drivers\<close>

text \<open>
  \<open>getn\<close>, \<open>ini\<close> and \<open>don\<close> are the addresses of the test's callbacks \<^verbatim>\<open>driver_get_name\<close>, \<^verbatim>\<open>driver_on_init\<close> and
  \<^verbatim>\<open>driver_on_done\<close>, which count how often they are called: in the model, their entries in the list of calls. \<open>wr\<close> and
  \<open>rb\<close> are the addresses of \<^verbatim>\<open>written\<close> and \<^verbatim>\<open>readBack\<close>.
\<close>

definition calls_of :: "ptr \<Rightarrow> (ptr \<times> u32) list \<Rightarrow> nat" where
  "calls_of f cs = length (filter (\<lambda>c. fst c = f) cs)"

definition bytes_at :: "ptr \<Rightarrow> nat \<Rightarrow> memory \<Rightarrow> u8 list" where
  "bytes_at p n m = map (\<lambda>i. m (p + of_nat i)) [0..<n]"

definition test_driver :: "ptr \<Rightarrow> ptr \<Rightarrow> ptr \<Rightarrow> ptr \<Rightarrow> ptr \<Rightarrow> ptr \<Rightarrow> (driver_world, unit) test" where
  "test_driver getn ini don wr rb didInit =
     do {
       cleared \<leftarrow> ask (length \<circ> dw_calls);
       let iface = \<lparr>getName = getn, onInit = ini, onAcquiredForeground = null, onReleasedForeground = null, onDone = don\<rparr>;
       (r, _) \<leftarrow> call (OSDriver_Register 0 40 (Some iface) 0x1234 null null didInit);
       check (r = 0);
       s_driverInitCalls \<leftarrow> ask (calls_of ini \<circ> drop cleared \<circ> dw_calls);
       check (s_driverInitCalls = 1);
       exec (\<lambda>w. w\<lparr>dw_mem := store_le 4 0xCAFEBABE wr (dw_mem w)\<rparr>);
       exec (\<lambda>w. w\<lparr>dw_mem := store_le 4 0 rb (dw_mem w)\<rparr>);
       r1 \<leftarrow> call (OSDriver_CopyToSaveArea 0x1234 wr 4);
       r2 \<leftarrow> call (OSDriver_CopyFromSaveArea 0x1234 rb 4);
       m \<leftarrow> ask dw_mem;
       check (r1 = 0 \<and> r2 = 0 \<and> bytes_at rb 4 m = bytes_at wr 4 m);
       exec (coreinitNxDriverShutdown (\<lambda>i w. w));
       s_driverDoneCalls \<leftarrow> ask (calls_of don \<circ> drop cleared \<circ> dw_calls);
       check (s_driverDoneCalls = 1);
       r \<leftarrow> call (OSDriver_Deregister 0 0x1234);
       check (r = - 1)
     }"

lemma unused_no_driver: "\<forall>d \<in> set (g_drivers w). \<not> rd_used d \<Longrightarrow> find_driver k w = None"
  by (auto simp: find_driver_def first_slot_None)

lemma test_driver_passes:
  assumes w: "driver_ok w" "\<forall>d \<in> set (g_drivers w). \<not> rd_used d"
    and p: "ini \<noteq> null" "don \<noteq> null" "ini \<noteq> don" "wr \<noteq> null" "rb \<noteq> null" "didInit \<noteq> null"
    and apart: "\<forall>i < 4. \<not> in_bytes rb 4 (wr + of_nat i)"
  shows "failures (test_driver getn ini don wr rb didInit) w n = n"
proof -
  obtain d0 ds where ds: "g_drivers w = d0 # ds" "length ds = 31" "\<not> rd_used d0" "\<forall>d \<in> set ds. \<not> rd_used d"
    "\<forall>d \<in> set ds. length (rd_saveArea d) = 256"
    using w by (cases "g_drivers w") (auto simp: driver_ok_def drivers_ok_def kMaxDrivers_def)
  define iface where "iface = \<lparr>getName = getn, onInit = ini, onAcquiredForeground = null, onReleasedForeground = null, onDone = don\<rparr>"
  define d where "d a u = \<lparr>rd_moduleHandle = 0, rd_userDriverId = 0x1234, rd_iface = iface, rd_saveArea = a,
    rd_saveAreaUsed = u, rd_used = True\<rparr>" for a u
  define w1 where "w1 = snd (OSDriver_Register 0 40 (Some iface) 0x1234 null null didInit w)"
  have r0: "fst (fst (OSDriver_Register 0 40 (Some iface) 0x1234 null null didInit w)) = 0"
    and w1: "g_drivers w1 = d (replicate 256 0) 0 # ds" "dw_calls w1 = dw_calls w @ [(ini, 0x1234)]"
    using p(1) by (simp_all add: w1_def OSDriver_Register_def ds d_def iface_def kSaveAreaSize_def Let_def)
  define w2 where "w2 = w1\<lparr>dw_mem := store_le 4 0 rb (store_le 4 0xCAFEBABE wr (dw_mem w1))\<rparr>"
  have f2: "find_driver 0x1234 w2 = Some 0" by (simp add: w2_def find_driver_def w1 d_def)
  define bs where "bs = bytes_at wr 4 (dw_mem w2)"
  define w3 where "w3 = snd (OSDriver_CopyToSaveArea 0x1234 wr 4 w2)"
  have r3: "fst (OSDriver_CopyToSaveArea 0x1234 wr 4 w2) = 0"
    and w3: "g_drivers w3 = d (bs @ replicate 252 0) 4 # ds" "dw_calls w3 = dw_calls w1" "dw_mem w3 = dw_mem w2"
    using p(4) f2 by (simp_all add: w3_def OSDriver_CopyToSaveArea_def kSaveAreaSize_def Let_def w2_def w1 d_def bs_def bytes_at_def)
  have f3: "find_driver 0x1234 w3 = Some 0" by (simp add: find_driver_def w3 d_def)
  define w4 where "w4 = snd (OSDriver_CopyFromSaveArea 0x1234 rb 4 w3)"
  have r4: "fst (OSDriver_CopyFromSaveArea 0x1234 rb 4 w3) = 0"
    and w4: "g_drivers w4 = g_drivers w3" "dw_calls w4 = dw_calls w1"
      "dw_mem w4 = (\<lambda>a. if in_bytes rb 4 a then (bs @ replicate 252 0) ! unat (a - rb) else dw_mem w2 a)"
    using p(5) f3 by (auto simp: w4_def OSDriver_CopyFromSaveArea_def kSaveAreaSize_def w3 d_def Let_def)
  have l: "length bs = 4" by (simp add: bs_def bytes_at_def)
  have "bytes_at rb 4 (dw_mem w4) = bs"
    using l by (intro nth_equalityI) (auto simp: bytes_at_def w4 in_bytes_def unat_of_nat take_bit_eq_mod nth_append)
  moreover have "bytes_at wr 4 (dw_mem w4) = bs"
    using apart by (simp add: bytes_at_def w4 bs_def)
  ultimately have same: "bytes_at rb 4 (dw_mem w4) = bytes_at wr 4 (dw_mem w4)" by simp
  have ok4: "driver_ok w4"
    using ds(2,5) l by (simp add: driver_ok_def drivers_ok_def kMaxDrivers_def w4 w3 d_def)
  define w5 where "w5 = coreinitNxDriverShutdown (\<lambda>i w. w) w4"
  have w5: "dw_calls w5 = dw_calls w4 @ done_calls (g_drivers w4)" "\<forall>d \<in> set (g_drivers w5). \<not> rd_used d"
    using coreinitNxDriverShutdown_once [OF ok4, of "\<lambda>i w. w"] by (simp_all add: w5_def)
  have "done_calls (g_drivers w4) = [(don, 0x1234)]"
    using ds(4) p(2) by (simp add: w4 w3 d_def iface_def done_calls_def filter_empty_conv)
  then have c5: "dw_calls w5 = dw_calls w @ [(ini, 0x1234), (don, 0x1234)]" by (simp add: w5 w4 w1)
  have "fst (OSDriver_Deregister 0 0x1234 w5) = - 1"
    using unused_no_driver [OF w5(2)] by (simp add: OSDriver_Deregister_def Let_def)
  then show ?thesis
    using r0 r3 r4 w1(2) same c5 p(3)
    by (simp add: failures_def test_driver_def run_simps split_beta iface_def [symmetric] w1_def [symmetric]
      w2_def [symmetric] w3_def [symmetric] w4_def [symmetric] w5_def [symmetric] calls_of_def)
qed

section \<open>Guest memory and the cache\<close>

text \<open>The loops that fill and compare a buffer.\<close>

definition fill :: "ptr \<Rightarrow> nat \<Rightarrow> (nat \<Rightarrow> u8) \<Rightarrow> memory \<Rightarrow> memory" where
  "fill p k f m = (\<lambda>a. if in_bytes p k a then f (unat (a - p)) else m a)"

definition test_cache_ops :: "ptr \<Rightarrow> (guest_memory, unit) test" where
  "test_cache_ops buffer =
     do {
       exec (\<lambda>g. g\<lparr>gm_mem := fill buffer 256 of_nat (gm_mem g)\<rparr>);
       exec (DCStoreRange buffer 256);
       exec (DCFlushRange buffer 256);
       m \<leftarrow> ask gm_mem;
       check (m (buffer + 42) = 42)
     }"

definition test_cache_and_block_ops :: "ptr \<Rightarrow> ptr \<Rightarrow> ptr \<Rightarrow> (guest_memory, unit) test" where
  "test_cache_and_block_ops buf src dst =
     do {
       exec (\<lambda>g. g\<lparr>gm_mem := memset buf 0xFF 128 (gm_mem g)\<rparr>);
       exec (DCZeroRange buf 1);
       m \<leftarrow> ask gm_mem;
       let firstLineZero = list_all (\<lambda>i. m (buf + of_nat i) = 0) [0..<32];
       check (firstLineZero \<and> m (buf + 32) = 0xFF);
       exec (\<lambda>g. g\<lparr>gm_mem := fill src 64 of_nat (gm_mem g)\<rparr>);
       r \<leftarrow> call (OSBlockMove dst src 64 1);
       m \<leftarrow> ask gm_mem;
       check (r = dst \<and> bytes_at dst 64 m = bytes_at src 64 m);
       _ \<leftarrow> call (OSBlockSet dst 0x5A 64);
       m \<leftarrow> ask gm_mem;
       let allSet = list_all (\<lambda>i. m (dst + of_nat i) = 0x5A) [0..<64];
       check allSet;
       exec (DCInvalidateRange dst 64);
       exec (ICInvalidateRange dst 64);
       exec (DCTouchRange dst 64);
       m \<leftarrow> ask gm_mem;
       check (m dst = 0x5A)
     }"

lemma in_bytes_offset [simp]: "k < 2 ^ 64 \<Longrightarrow> in_bytes p n (p + of_nat k) \<longleftrightarrow> k < n"
  "in_bytes p n p \<longleftrightarrow> 0 < n" "in_bytes p n (p + numeral i) \<longleftrightarrow> unat (numeral i :: ptr) < n"
  by (simp_all add: in_bytes_def unat_of_nat take_bit_eq_mod)

lemma cache_op_mem [simp]: "gm_mem (cache_op c g) = gm_mem g"
  by (simp add: cache_op_def)

lemma test_cache_ops_passes:
  "buffer \<noteq> null \<Longrightarrow> failures (test_cache_ops buffer) w n = n"
  by (simp add: failures_def test_cache_ops_def run_simps DCStoreRange_def DCFlushRange_def fill_def)

lemma round_1: "roundToCacheLine 1 = 32"
  by (simp add: roundToCacheLine_def)

lemma test_cache_and_block_ops_passes:
  assumes "buf \<noteq> null" "src \<noteq> null" "dst \<noteq> null"
    and apart: "\<forall>i < 64. \<not> in_bytes dst 64 (src + of_nat i)"
  shows "failures (test_cache_and_block_ops buf src dst) w n = n"
proof -
  have z: "list_all (\<lambda>i. memset buf 0 32 m (buf + of_nat i) = 0) [0..<32]" for m
    by (simp add: list_all_iff)
  have f: "memset buf 0 32 (memset buf 0xFF 128 m) (buf + 32) = 0xFF" for m by simp
  have c: "bytes_at dst 64 (memmove dst src 64 m) = bytes_at src 64 (memmove dst src 64 m)" for m
    using apart by (simp add: bytes_at_def memmove_def)
  have s: "list_all (\<lambda>i. memset dst 0x5A 64 m (dst + of_nat i) = 0x5A) [0..<64]" for m
    by (simp add: list_all_iff)
  have "memset dst 0x5A 64 m dst = 0x5A" for m by simp
  then show ?thesis
    using assms(1-3) z f c s
    by (simp add: failures_def test_cache_and_block_ops_def run_simps DCZeroRange_def OSBlockMove_def OSBlockSet_def
      DCInvalidateRange_def ICInvalidateRange_def DCTouchRange_def Let_def round_1 del: memset_inside memset_outside)
qed

section \<open>Locked cache\<close>

text \<open>\<open>aa\<close> is what \<^verbatim>\<open>aligned_alloc\<close> returns; \<open>mainRam\<close> is the address of the test's array.\<close>

record lc_test =
  lt_cache :: locked_cache
  lt_mem :: memory

definition on_lc :: "(locked_cache \<Rightarrow> 'a \<times> locked_cache) \<Rightarrow> lc_test \<Rightarrow> 'a \<times> lc_test" where
  "on_lc f w = (case f (lt_cache w) of (r, x) \<Rightarrow> (r, w\<lparr>lt_cache := x\<rparr>))"

definition test_locked_cache :: "(u64 \<Rightarrow> u64 \<Rightarrow> ptr) \<Rightarrow> ptr \<Rightarrow> (lc_test, unit) test" where
  "test_locked_cache aa mainRam =
     do {
       check (LCHardwareIsAvailable = 1);
       check (LCGetMaxSize = 16 * 1024);
       before \<leftarrow> call (on_lc LCGetAllocatableSize);
       lc \<leftarrow> call (on_lc (LCAlloc aa 1024));
       check (lc \<noteq> null);
       check (lc AND 63 = 0);
       left \<leftarrow> call (on_lc LCGetAllocatableSize);
       check (left = before - 1024);
       exec (\<lambda>w. w\<lparr>lt_mem := fill mainRam 1024 (\<lambda>i. of_nat i AND 0xFF) (lt_mem w)\<rparr>);
       _ \<leftarrow> call (on_lc LCEnableDMA);
       on \<leftarrow> ask (LCIsDMAEnabled \<circ> lt_cache);
       check (on = 1);
       exec (\<lambda>w. w\<lparr>lt_mem := LCLoadDMABlocks lc mainRam 1024 (lt_mem w),
         lt_cache := LCWaitDMAQueue LCGetDMAQueueLength (lt_cache w)\<rparr>);
       m \<leftarrow> ask lt_mem;
       check (bytes_at lc 1024 m = bytes_at mainRam 1024 m);
       exec (\<lambda>w. w\<lparr>lt_mem := (lt_mem w)(lc := 0xAA)\<rparr>);
       exec (\<lambda>w. w\<lparr>lt_mem := LCStoreDMABlocks mainRam lc 1024 (lt_mem w),
         lt_cache := LCWaitDMAQueue LCGetDMAQueueLength (lt_cache w)\<rparr>);
       m \<leftarrow> ask lt_mem;
       check (m mainRam = 0xAA);
       none \<leftarrow> call (on_lc (LCAlloc aa (64 * 1024)));
       check (none = null);
       exec (\<lambda>w. w\<lparr>lt_cache := LCDealloc lc (lt_cache w)\<rparr>);
       left \<leftarrow> call (on_lc LCGetAllocatableSize);
       check (left = before)
     }"

lemma test_locked_cache_passes:
  assumes ok: "lc_ok (lt_cache w)" "lc_live (lt_cache w) \<le> 15360" and p: "aa 64 1024 = lc" "lc \<noteq> null" "lc AND 63 = 0"
    and m: "mainRam \<noteq> null"
    and apart: "\<forall>i < 1024. \<not> in_bytes lc 1024 (mainRam + of_nat i)"
  shows "failures (test_locked_cache aa mainRam) w n = n"
proof -
  have a: "unat (lc_allocated (lt_cache w)) \<le> 15360" using ok by (simp add: lc_ok_def)
  then have g: "\<not> kLockedCacheSize < lc_allocated (lt_cache w) + 1024"
      "kLockedCacheSize < lc_allocated (lt_cache w) + 1024 + 65536"
    by (simp_all add: word_less_nat_alt unat_plus_u32 kLockedCacheSize_def)
  have r: "lc_rounded 1024 = 1024" by (simp add: lc_rounded_def kAlignment_def)
  have c: "bytes_at lc 1024 (memmove lc mainRam 1024 mem) = bytes_at mainRam 1024 (memmove lc mainRam 1024 mem)" for mem
    using apart by (simp add: bytes_at_def memmove_def)
  have s: "memmove mainRam lc 1024 (mem(lc := 0xAA)) mainRam = 0xAA" for mem by (simp add: memmove_def)
  show ?thesis
    using p m g
    by (simp add: failures_def test_locked_cache_def run_simps on_lc_def LCHardwareIsAvailable_def LCGetMaxSize_def
      LCGetAllocatableSize_def LCAlloc_def r kAlignment_def Let_def LCEnableDMA_def LCIsDMAEnabled_def LCLoadDMABlocks_def
      LCStoreDMABlocks_def LCWaitDMAQueue_def LCDealloc_def c s kLockedCacheSize_def)
qed

section \<open>System settings\<close>

text \<open>
  \<open>lang\<close> and \<open>dummy\<close> are the addresses of the variables the answers go to; \<open>load_le\<close> reads a 32-bit variable.
\<close>

definition load_le :: "ptr \<Rightarrow> memory \<Rightarrow> u32" where
  "load_le p m = ucast (m p) + 0x100 * ucast (m (p + 1)) + 0x10000 * ucast (m (p + 2)) + 0x1000000 * ucast (m (p + 3))"

definition test_userconfig :: "set_api \<Rightarrow> ptr \<Rightarrow> ptr \<Rightarrow> (uc_world, unit) test" where
  "test_userconfig api lang dummy =
     do {
       let h = UCOpen;
       check (0 <s h);
       exec (\<lambda>w. w\<lparr>uw_mem := store_le 4 0xFFFFFFFF lang (uw_mem w)\<rparr>);
       let cfg = \<lparr>uc_name = ''cafe.language'', uc_access = 0, uc_dataType = UC_DATATYPE_UNSIGNED_INT, uc_error = 0,
         uc_dataSize = 4, uc_data = lang\<rparr>;
       (r, out) \<leftarrow> call (\<lambda>w. case UCReadSysConfig api h 1 (Some [cfg]) w of (r, ss, w') \<Rightarrow> ((r, ss), w'));
       language \<leftarrow> ask (load_le lang \<circ> uw_mem);
       check (r = UC_ERROR_OK \<and> map_option (map uc_error) out = Some [UC_ERROR_OK] \<and> language \<le> 11);
       exec (\<lambda>w. w\<lparr>uw_mem := store_le 4 0 dummy (uw_mem w)\<rparr>);
       let bad = \<lparr>uc_name = ''cafe.chiave.inventata'', uc_access = 0, uc_dataType = UC_DATATYPE_UNSIGNED_INT, uc_error = 0,
         uc_dataSize = 4, uc_data = dummy\<rparr>;
       (_, out) \<leftarrow> call (\<lambda>w. case UCReadSysConfig api h 1 (Some [bad]) w of (r, ss, w') \<Rightarrow> ((r, ss), w'));
       check (map_option (map uc_error) out = Some [UC_ERROR_KEY_NOT_FOUND]);
       check (fst (UCWriteSysConfig h 1 (Some [cfg])) = UC_ERROR_OK);
       let _ = UCClose h;
       skip
     }"

text \<open>The values of the regions, and \<^verbatim>\<open>settings\<close>, the address of the variable \<^verbatim>\<open>prod\<close>.\<close>

primrec mcp_region_value :: "MCPRegion \<Rightarrow> u32" where
  "mcp_region_value MCP_REGION_JAPAN = 0x01"
| "mcp_region_value MCP_REGION_USA = 0x02"
| "mcp_region_value MCP_REGION_EUROPE = 0x04"
| "mcp_region_value MCP_REGION_CHINA = 0x10"
| "mcp_region_value MCP_REGION_KOREA = 0x20"
| "mcp_region_value MCP_REGION_TAIWAN = 0x40"

definition test_mcp :: "set_api \<Rightarrow> ptr \<Rightarrow> (uc_world, unit) test" where
  "test_mcp api settings =
     do {
       let h = MCP_Open;
       check (0 <s h);
       (r, prod) \<leftarrow> call (\<lambda>w. case MCP_GetSysProdSettings api h settings w of (r, p, w') \<Rightarrow> ((r, p), w'));
       check (r = 0);
       check (case prod of None \<Rightarrow> False
         | Some p \<Rightarrow> mcp_region_value (game_region p) \<noteq> 0 \<and> ntsc_pal p \<noteq> [] \<and> hd (ntsc_pal p) \<noteq> CHR 0x00);
       let _ = MCP_Close h;
       skip
     }"

lemma test_mcp_passes: "settings \<noteq> null \<Longrightarrow> failures (test_mcp api settings) w n = n"
  by (cases "region_of api")
    (simp_all add: failures_def test_mcp_def run_simps MCP_Open_def MCP_GetSysProdSettings_def cafeRegion_def snprintf_s_def
      Let_def word_sless_alt)

lemma language_code_le: "cafe_language_code l \<le> 11"
  by (cases l) simp_all

lemma unat_u8: "unat (ucast (w :: u32) :: u8) = unat w mod 256"
  by (simp add: unsigned_ucast_eq take_bit_eq_mod)

lemma byte_value: "unat (ucast (ucast (drop_bit k (v :: u32)) :: u8) :: u32) = unat v div 2 ^ k mod 256"
proof -
  have d: "unat (drop_bit k v) = unat v div 2 ^ k"
    by (simp only: unat_drop_bit_eq) (simp only: drop_bit_eq_div)
  have "unat (ucast (b :: u8) :: u32) = unat b" for b
    using unsigned_less [of b, where 'a = nat] by (simp add: unsigned_ucast_eq take_bit_eq_mod)
  then show ?thesis by (simp only: unat_u8 d)
qed

lemma four_digits:
  assumes "x < (4294967296 :: nat)"
  shows "x mod 256 + 256 * (x div 256 mod 256) + 65536 * (x div 65536 mod 256) + 16777216 * (x div 16777216 mod 256) = x"
proof -
  have a: "x div 65536 = x div 256 div 256" "x div 16777216 = x div 256 div 256 div 256" by (simp_all add: div_mult2_eq [symmetric])
  have "x div 256 div 256 div 256 < 256" using assms by (simp add: a [symmetric] less_mult_imp_div_less)
  then have b: "x div 256 div 256 div 256 mod 256 = x div 256 div 256 div 256" by (rule mod_less)
  define p where "p = x div 256"
  define q where "q = p div 256"
  have "x mod 256 + 256 * p = x" "p mod 256 + 256 * q = p" "q mod 256 + 256 * (q div 256) = q"
    by (simp_all add: p_def q_def)
  then show ?thesis unfolding a b unfolding p_def [symmetric] unfolding q_def [symmetric] by linarith
qed

lemma load_store_le: "load_le p (store_le 4 v p m) = v"
proof -
  have b: "store_le 4 v p m (p + of_nat i) = ucast (drop_bit (8 * i) v)" if "i < 4" for i
    using that by (simp add: store_le_def in_bytes_def unat_of_nat take_bit_eq_mod)
  define x where "x = unat v"
  define y where "y i = unat (ucast (store_le 4 v p m (p + of_nat i)) :: u32)" for i
  have y: "y i = x div 2 ^ (8 * i) mod 256" if "i < 4" for i
    by (simp only: y_def b [OF that] byte_value x_def)
  have lt: "x < 4294967296" using unsigned_less [of v, where 'a = nat] by (simp add: x_def)
  have s: "y 0 + 256 * y 1 + 65536 * y 2 + 16777216 * y 3 = x"
    using four_digits [OF lt] y [of 0] y [of 1] y [of 2] y [of 3] by (simp del: One_nat_def)
  have "load_le p (store_le 4 v p m) = of_nat (y 0 + 256 * y 1 + 65536 * y 2 + 16777216 * y 3)"
    by (simp add: load_le_def y_def)
  then show ?thesis by (simp only: s x_def of_nat_unat ucast_id)
qed

lemma test_userconfig_passes:
  assumes "lang \<noteq> null" "dummy \<noteq> null"
  shows "failures (test_userconfig api lang dummy) w n = n"
proof -
  have s: "strstr ''cafe.language'' ''language''" "\<not> strstr ''cafe.chiave.inventata'' ''language''"
    "\<not> strstr ''cafe.chiave.inventata'' ''cntry_reg''" "\<not> strstr ''cafe.chiave.inventata'' ''eula_agree''"
    "\<not> strstr ''cafe.chiave.inventata'' ''eco''" "\<not> strstr ''cafe.chiave.inventata'' ''initial_launch''"
    "\<not> strstr ''cafe.chiave.inventata'' ''parent''"
    by code_simp+
  show ?thesis
    using assms language_code_le [of "language_of api"]
    by (simp add: failures_def test_userconfig_def run_simps UCOpen_def UCReadSysConfig_def uc_resolve_def s cafeLanguage_def
      uc_store_def load_store_le UCWriteSysConfig_def Let_def word_sless_alt)
qed

section \<open>The loader\<close>

text \<open>
  \<open>addr\<close> is where the linker put a symbol, \<open>invoke\<close> what a call through a function pointer returns; \<open>mod'\<close> and \<open>out\<close>
  are the addresses of the local variables. What a failing call leaves in the out parameter is its \<open>Some None\<close>.
\<close>

definition test_dynload :: "(string \<Rightarrow> ptr) \<Rightarrow> (ptr \<Rightarrow> s64) \<Rightarrow> ptr \<Rightarrow> ptr \<Rightarrow> (dynload_world, unit) test" where
  "test_dynload addr invoke mod' out =
     do {
       (e, m) \<leftarrow> call (OSDynLoad_Acquire (Some ''coreinit'') mod');
       let m = Option.bind m id;
       check (e = OS_DYNLOAD_OK \<and> m \<noteq> None);
       (e, a) \<leftarrow> ask (OSDynLoad_FindExport addr m OS_DYNLOAD_EXPORT_FUNC (Some ''OSGetTime'') out);
       check (e = OS_DYNLOAD_OK \<and> a = Some (addr ''OSGetTime''));
       let viaPointer = invoke (the a);
       check (0 <s viaPointer);
       (e, a) \<leftarrow> ask (OSDynLoad_FindExport addr m OS_DYNLOAD_EXPORT_FUNC (Some ''OSFunzioneCheNonEsiste'') out);
       check (e = OS_DYNLOAD_MODULE_NOT_FOUND);
       (e, m2) \<leftarrow> call (OSDynLoad_Acquire (Some ''coreinit.rpl'') mod');
       let m2 = Option.bind m2 id;
       check (e = OS_DYNLOAD_OK \<and> m2 = m);
       exec (OSDynLoad_Release m2);
       exec (OSDynLoad_Release m);
       (e, missing) \<leftarrow> call (OSDynLoad_Acquire (Some ''nonesiste'') mod');
       check (e = OS_DYNLOAD_MODULE_NOT_FOUND);
       check (OSDynLoad_GetNumberOfRPLs = 0)
     }"

definition test_dynload_data_export :: "(string \<Rightarrow> ptr) \<Rightarrow> ptr \<Rightarrow> ptr \<Rightarrow> (dynload_world, unit) test" where
  "test_dynload_data_export addr mod' out =
     do {
       (e, m) \<leftarrow> call (OSDynLoad_Acquire (Some ''coreinit'') mod');
       let m = Option.bind m id;
       (e, a) \<leftarrow> ask (OSDynLoad_FindExport addr m OS_DYNLOAD_EXPORT_DATA (Some ''MEMAllocFromDefaultHeap'') out);
       check (e = OS_DYNLOAD_OK \<and> a = Some (addr ''MEMAllocFromDefaultHeap''));
       (e, wrong) \<leftarrow> ask (OSDynLoad_FindExport addr m OS_DYNLOAD_EXPORT_FUNC (Some ''MEMAllocFromDefaultHeap'') out);
       check (e \<noteq> OS_DYNLOAD_OK);
       exec (OSDynLoad_Release m)
     }"

lemma export_facts:
  "export_fn ''OSGetTime'' \<in> set kExports" "export_fn ''OSFunzioneCheNonEsiste'' \<notin> set kExports"
  "export_data ''MEMAllocFromDefaultHeap'' \<in> set kExports" "export_fn ''MEMAllocFromDefaultHeap'' \<notin> set kExports"
  by code_simp+

lemma acquire_facts:
  "p \<noteq> null \<Longrightarrow> acquires (Some ''coreinit'') p" "p \<noteq> null \<Longrightarrow> acquires (Some ''coreinit.rpl'') p"
  by (simp_all add: acquires_def module_base_def snprintf_s_def)

lemma acquire_missing:
  "p \<noteq> null \<Longrightarrow> OSDynLoad_Acquire (Some ''nonesiste'') p w = ((OS_DYNLOAD_MODULE_NOT_FOUND, Some None), w)"
  by (simp add: OSDynLoad_Acquire_def hasLibrary_iff module_base_def snprintf_s_def)

lemma test_dynload_passes:
  assumes "\<forall>s. addr s \<noteq> null" "0 <s invoke (addr ''OSGetTime'')" "mod' \<noteq> null" "out \<noteq> null"
    "dyn_abs c w" "c < 2 ^ 31"
  shows "failures (test_dynload addr invoke mod' out) w n = n"
proof -
  define w1 where "w1 = snd (OSDynLoad_Acquire (Some ''coreinit'') mod' w)"
  have 1: "OSDynLoad_Acquire (Some ''coreinit'') mod' w = ((OS_DYNLOAD_OK, Some (Some 0)), w1)" "dyn_abs (c + 1) w1"
    using dyn_abs_acquire [OF assms(5) acquire_facts(1) [OF assms(3)]] by (simp_all add: w1_def prod_eq_iff)
  have 2: "fst (OSDynLoad_Acquire (Some ''coreinit.rpl'') mod' w1) = (OS_DYNLOAD_OK, Some (Some 0))"
    using dyn_abs_acquire(1) [OF 1(2) acquire_facts(2) [OF assms(3)]] .
  note find = dyn_abs_find [OF 1(2) assms(1,4)]
  show ?thesis
    using assms(2) by (simp add: failures_def test_dynload_def run_simps 1 2 find export_facts acquire_missing [OF assms(3)]
      OSDynLoad_GetNumberOfRPLs_def Let_def)
qed

lemma test_dynload_data_export_passes:
  assumes "\<forall>s. addr s \<noteq> null" "mod' \<noteq> null" "out \<noteq> null" "dyn_abs c w" "c < 2 ^ 31"
  shows "failures (test_dynload_data_export addr mod' out) w n = n"
proof -
  define w1 where "w1 = snd (OSDynLoad_Acquire (Some ''coreinit'') mod' w)"
  have 1: "OSDynLoad_Acquire (Some ''coreinit'') mod' w = ((OS_DYNLOAD_OK, Some (Some 0)), w1)" "dyn_abs (c + 1) w1"
    using dyn_abs_acquire [OF assms(4) acquire_facts(1) [OF assms(2)]] by (simp_all add: w1_def prod_eq_iff)
  note find = dyn_abs_find [OF 1(2) assms(1,3)]
  show ?thesis
    by (simp add: failures_def test_dynload_data_export_def run_simps 1 find export_facts Let_def)
qed

end
