(* ===== verification/SuiteSync.thy ===== *)
theory SuiteSync
  imports Suite Mutex MessageQueue Event Time GhsHeap Thread
begin

text \<open>
  The tests of \<^verbatim>\<open>tests/main.cpp\<close> for mutexes, timed waits, message queues, the GHS runtime and the calling thread that run on one
  thread. A
  call that may wait is an \<open>await\<close>: if it would wait for ever, the test counts a failure.
\<close>

definition await :: "('w \<Rightarrow> ('a \<times> 'w) option) \<Rightarrow> ('w, 'a option) test" where
  "await f = State (\<lambda>(w, n). case f w of None \<Rightarrow> (None, (w, n + 1)) | Some (r, w') \<Rightarrow> (Some r, (w', n)))"

lemma run_await [run_simps]:
  "run_state (await f) (w, n) = (case f w of None \<Rightarrow> (None, (w, n + 1)) | Some (r, w') \<Rightarrow> (Some r, (w', n)))"
  by (simp add: await_def)

abbreviation await_unit :: "('w \<Rightarrow> 'w option) \<Rightarrow> ('w, unit option) test" where
  "await_unit f \<equiv> await (\<lambda>w. map_option (\<lambda>w'. ((), w')) (f w))"

section \<open>Mutexes\<close>

text \<open>The mutex is on the stack, where the table may know one from before: that it is free is all the tests need.\<close>

definition test_basic_lock :: "'m mutex_api \<Rightarrow> tid \<Rightarrow> ptr \<Rightarrow> ('m host_mutex table, unit) test" where
  "test_basic_lock api t m =
     do {
       exec (OSInitMutex api m);
       await_unit (OSLockMutex api t m);
       exec (OSUnlockMutex api t m);
       check True
     }"

definition test_recursive_lock :: "'m mutex_api \<Rightarrow> tid \<Rightarrow> ptr \<Rightarrow> ('m host_mutex table, unit) test" where
  "test_recursive_lock api t m =
     do {
       exec (OSInitMutex api m);
       await_unit (OSLockMutex api t m);
       await_unit (OSLockMutex api t m);
       exec (OSUnlockMutex api t m);
       exec (OSUnlockMutex api t m);
       check True
     }"

definition test_try_lock :: "'m mutex_api \<Rightarrow> tid \<Rightarrow> ptr \<Rightarrow> ('m host_mutex table, unit) test" where
  "test_try_lock api t m =
     do {
       exec (OSInitMutex api m);
       r \<leftarrow> call (OSTryLockMutex api t m);
       check (r = 1);
       exec (OSUnlockMutex api t m)
     }"

lemma init_keeps:
  assumes "mutex_ok api owner tab"
  shows "mutex_ok api owner (OSInitMutex api m tab)"
    and "mutex_holder api owner k (OSInitMutex api m tab) = mutex_holder api owner k tab"
proof -
  have "owner (hm_lock (ht_host (hm_init api) m tab)) \<noteq> None \<longrightarrow> hm_count (ht_host (hm_init api) m tab) \<noteq> 0"
    using mutex_ok_host(2) [OF assms refl] by blast
  from mutex_ok_store [OF assms this] show "mutex_ok api owner (OSInitMutex api m tab)"
    by (simp add: OSInitMutex_def getHostMutex_eq)
  show "mutex_holder api owner k (OSInitMutex api m tab) = mutex_holder api owner k tab"
    by (simp add: OSInitMutex_def getHostMutex_eq holder_store)
      (simp add: mutex_holder_def split: option.split)
qed

text \<open>The three tests leave the mutex free, so that they pass one after the other, at the same address or not.\<close>

lemma lock_tests_pass:
  assumes "mutex_ok api owner tab" "mutex_holder api owner m tab = None"
    and "test \<in> {test_basic_lock, test_recursive_lock, test_try_lock}"
  shows "failures (test api t m) tab n = n \<and> mutex_ok api owner (world_after (test api t m) tab)
    \<and> mutex_holder api owner m (world_after (test api t m) tab) = None"
proof -
  define tab0 where "tab0 = OSInitMutex api m tab"
  have start: "mutex_ok api owner tab0" "mutex_holder api owner m tab0 = None"
    using init_keeps [OF assms(1)] assms(2) by (simp_all add: tab0_def)
  obtain tab1 where one: "OSLockMutex api t m tab0 = Some tab1" "mutex_ok api owner tab1" "mutex_holder api owner m tab1 = Some (t, 1)"
    using mx.lock_free [OF start] by blast
  obtain tab2 where two: "OSLockMutex api t m tab1 = Some tab2" "mutex_ok api owner tab2" "mutex_holder api owner m tab2 = Some (t, Suc 1)"
    using mx.lock_own [OF one(2,3)] by (auto simp: depth_limit_def)
  define tryd where "tryd = snd (OSTryLockMutex api t m tab0)"
  have tried: "fst (OSTryLockMutex api t m tab0) = 1" "mutex_ok api owner tryd" "mutex_holder api owner m tryd = Some (t, 1)"
    using mx.try_lock [OF start(1), where t = t and k = m] one by (simp_all add: tryd_def)
  note undone = mx.unlock_own [OF one(2,3)] mx.unlock_own [OF two(2,3)] mx.unlock_own [OF tried(2,3)]
  then have again: "mutex_ok api owner (OSUnlockMutex api t m (OSUnlockMutex api t m tab2))
      \<and> mutex_holder api owner m (OSUnlockMutex api t m (OSUnlockMutex api t m tab2)) = None"
    using mx.unlock_own [of api owner "OSUnlockMutex api t m tab2" m t 1] by simp
  from assms(3) show ?thesis
    by (elim insertE emptyE; simp add: failures_def world_after_def test_basic_lock_def test_recursive_lock_def test_try_lock_def
        run_simps tab0_def [symmetric] tryd_def [symmetric] one(1) two(1) tried(1))
      (use undone again in simp_all)
qed

section \<open>Timed waits\<close>

record event_test =
  vt_info :: info_world
  vt_tab :: "host_event table"

text \<open>\<open>turns\<close>: what the loop of the first wait reads at each turn, where no other thread uses the event; \<open>turns'\<close> of the second.\<close>

definition test_event_timeout ::
  "u64 option \<Rightarrow> u64 \<Rightarrow> ptr \<Rightarrow> u64 \<Rightarrow> u64 list \<Rightarrow> u64 \<Rightarrow> u64 list \<Rightarrow> (event_test, unit) test" where
  "test_event_timeout clock tick s_event start turns start' turns' =
     do {
       exec (\<lambda>w. w\<lparr>vt_tab := OSInitEvent s_event 0 OS_EVENT_MODE_AUTO (vt_tab w)\<rparr>);
       exec (\<lambda>w. w\<lparr>vt_info := OSGetSystemInfo clock tick (vt_info w)\<rparr>);
       speed \<leftarrow> ask (\<lambda>w. busClockSpeed (g_info (vt_info w)));
       let hz20 = word_of_int (sint (ucast (speed div 4) :: s64) sdiv 20);
       r \<leftarrow> await (\<lambda>w. map_option (\<lambda>(r, tab). (r, w\<lparr>vt_tab := tab\<rparr>))
         (OSWaitEventWithTimeout s_event hz20 start (map (\<lambda>now. (now, \<lambda>e. e)) turns) (vt_tab w)));
       check (r = Some 0);
       exec (\<lambda>w. w\<lparr>vt_tab := OSSignalEvent s_event (vt_tab w)\<rparr>);
       r \<leftarrow> await (\<lambda>w. map_option (\<lambda>(r, tab). (r, w\<lparr>vt_tab := tab\<rparr>))
         (OSWaitEventWithTimeout s_event hz20 start' (map (\<lambda>now. (now, \<lambda>e. e)) turns') (vt_tab w)));
       check (r = Some 1)
     }"

lemma quiet_wait:
  "\<not> ev_signalled e \<Longrightarrow> \<exists>now \<in> set turns. deadline \<le> now \<Longrightarrow> ev_timed_loop deadline (map (\<lambda>now. (now, \<lambda>e. e)) turns) e = Some (0, e)"
  by (induction turns) (auto simp: ev_timed_test_def)

lemma test_event_timeout_passes:
  assumes "s_event \<noteq> null" "busClockSpeed (g_info (vt_info w)) = kWiiUBusClockHz \<or> \<not> g_ready (vt_info w)"
    and "\<exists>now \<in> set turns. event_deadline start 3107812 \<le> now" "turns' \<noteq> []"
  shows "failures (test_event_timeout clock tick s_event start turns start' turns') w n = n"
proof -
  have speed: "busClockSpeed (g_info (OSGetSystemInfo clock tick (vt_info w))) = 248625000"
    using assms(2) by (auto simp: OSGetSystemInfo_def kWiiUBusClockHz_def)
  have hz: "(word_of_int (sint (ucast ((248625000 :: u32) div 4) :: s64) sdiv 20) :: s64) = 3107812"
    by (simp add: signed_divide_int_def)
  obtain now rest where t: "turns' = now # rest" using assms(4) by (cases turns') auto
  show ?thesis
    using assms(1) quiet_wait [OF _ assms(3)]
    by (simp add: failures_def test_event_timeout_def run_simps Let_def speed hz t OSInitEvent_def OSWaitEventWithTimeout_def
        OSSignalEvent_def ht_get_eq ht_update_eq ev_signal_def ev_timed_test_def)
qed

section \<open>Message queues\<close>

definition send :: "ptr \<Rightarrow> os_message \<Rightarrow> u32 \<Rightarrow> (mq_world, s32 option) test" where
  "send q m flags =
     await (\<lambda>w. map_option (\<lambda>(r, tab). (r, w\<lparr>mw_queues := tab\<rparr>)) (OSSendMessage q (Some m) flags (mw_queues w)))"

text \<open>Receive and peek with what the message at \<open>p\<close> is afterwards, which was \<open>old\<close>.\<close>

definition receive :: "ptr \<Rightarrow> ptr \<Rightarrow> os_message \<Rightarrow> u32 \<Rightarrow> (mq_world, (s32 \<times> os_message) option) test" where
  "receive q p old flags =
     await (\<lambda>w. map_option (\<lambda>(r, out, tab). ((r, case out of None \<Rightarrow> old | Some m \<Rightarrow> m), w\<lparr>mw_queues := tab\<rparr>))
       (OSReceiveMessage q p flags (mw_queues w)))"

definition peek :: "ptr \<Rightarrow> ptr \<Rightarrow> os_message \<Rightarrow> (mq_world, s32 \<times> os_message) test" where
  "peek q p old =
     call (\<lambda>w. case OSPeekMessage q p (mw_queues w) of
       (r, out, tab) \<Rightarrow> ((r, case out of None \<Rightarrow> old | Some m \<Rightarrow> m), w\<lparr>mw_queues := tab\<rparr>))"

definition test_message_queue :: "ptr \<Rightarrow> ptr \<Rightarrow> ptr \<Rightarrow> ptr \<Rightarrow> ptr \<Rightarrow> (mq_world, unit) test" where
  "test_message_queue sys q backing pk gt =
     do {
       exec (\<lambda>w. w\<lparr>mw_queues := OSInitMessageQueue q backing 4 (mw_queues w)\<rparr>);
       r \<leftarrow> send q \<lparr>om_message = 0x1111, om_args = (1, 2, 3)\<rparr> 0;
       check (r = Some 1);
       (r, pm) \<leftarrow> peek q pk om_zero;
       check (r = 1 \<and> om_message pm = 0x1111);
       got \<leftarrow> receive q gt om_zero 0;
       check (case got of None \<Rightarrow> False | Some (r, m) \<Rightarrow> r = 1 \<and> om_message m = 0x1111 \<and> fst (snd (om_args m)) = 2);
       got \<leftarrow> receive q gt (case got of None \<Rightarrow> om_zero | Some (r, m) \<Rightarrow> m) 0;
       check (map_option fst got = Some 0);
       send q \<lparr>om_message = 0xAAAA, om_args = (0, 0, 0)\<rparr> 0;
       send q \<lparr>om_message = 0xBBBB, om_args = (0, 0, 0)\<rparr> OS_MESSAGE_FLAGS_HIGH_PRIORITY;
       got \<leftarrow> receive q gt (case got of None \<Rightarrow> om_zero | Some (r, m) \<Rightarrow> m) 0;
       check (map_option (om_message \<circ> snd) got = Some 0xBBBB);
       s \<leftarrow> call (OSGetSystemMessageQueue sys);
       check (s \<noteq> null)
     }"

text \<open>The statements on a queue whose host object is \<open>h\<close>.\<close>

lemma queue_runs [run_simps]:
  assumes "q \<noteq> null" "mw_queues w q = Some h"
  shows "\<not> mq_full h \<Longrightarrow> run_state (send q m flags) (w, n) =
      (Some 1, (w\<lparr>mw_queues := ht_store q (mq_push flags m h) (mw_queues w)\<rparr>, n))"
    and "p \<noteq> null \<Longrightarrow> \<not> mq_empty h \<Longrightarrow> run_state (receive q p old flags) (w, n) =
      (Some (1, fst (mq_pop h)), (w\<lparr>mw_queues := ht_store q (snd (mq_pop h)) (mw_queues w)\<rparr>, n))"
    and "p \<noteq> null \<Longrightarrow> mq_empty h \<Longrightarrow> run_state (receive q p old 0) (w, n) = (Some (0, old), (w, n))"
    and "p \<noteq> null \<Longrightarrow> 0 < mq_count h \<Longrightarrow> run_state (peek q p old) (w, n) = ((1, mq_ring h ! unat (mq_head h)), (w, n))"
  using assms by (simp_all add: send_def receive_def peek_def run_simps OSSendMessage_def OSReceiveMessage_def mq_bodies OSPeekMessage_def
      ht_get_eq case_prod_beta)

lemma queue_init:
  "q \<noteq> null \<Longrightarrow> OSInitMessageQueue q backing 4 tab =
     ht_store q \<lparr>mq_ring = replicate 4 om_zero, mq_head = 0, mq_count = 0, mq_capacity = 4\<rparr> tab"
  by (simp add: OSInitMessageQueue_def ht_update_eq) (cases "ht_host mq_init q tab", simp)

lemma room_for_one: "\<not> (4 :: u32) \<le> 1"
  by (simp add: word_le_nat_alt)

lemma test_message_queue_passes:
  assumes "q \<noteq> null" "pk \<noteq> null" "gt \<noteq> null" "sys \<noteq> null"
  shows "failures (test_message_queue sys q backing pk gt) w n = n"
  using assms
  by (simp add: failures_def test_message_queue_def run_simps queue_init mq_full_def mq_empty_def mq_push_def mq_pop_def
      OSGetSystemMessageQueue_def Let_def room_for_one)

section \<open>The GHS runtime\<close>

text \<open>
  \<open>fa\<close>, \<open>fb\<close> and \<open>fc\<close> are the addresses of the variables that receive the indices, which are 0xFFFFFFFF if a call writes
  none.
\<close>

definition flock_create :: "'m mutex_api \<Rightarrow> ghs_link \<Rightarrow> tid \<Rightarrow> ptr \<Rightarrow> ('m ghs_world, u32) test" where
  "flock_create api L t out =
     do {
       r \<leftarrow> await (ghs_flock_create api L t out);
       State_Monad.return (case r of Some (Fl_index i) \<Rightarrow> i | _ \<Rightarrow> 0xFFFFFFFF)
     }"

definition test_ghs_locks :: "'m mutex_api \<Rightarrow> ghs_link \<Rightarrow> tid \<Rightarrow> ptr \<Rightarrow> ptr \<Rightarrow> ptr \<Rightarrow> ('m ghs_world, unit) test" where
  "test_ghs_locks api L t fa fb fc =
     do {
       await_unit (ghsLock api L t);
       exec (ghsUnlock api L t);
       check True;
       a \<leftarrow> flock_create api L t fa;
       b \<leftarrow> flock_create api L t fb;
       check (a < 100 \<and> b < 100 \<and> a \<noteq> b);
       await_unit (ghs_flock_file api L t a);
       r \<leftarrow> call (ghs_ftrylock_file api L t b);
       check (r = 0);
       exec (ghs_funlock_file api L t b);
       exec (ghs_funlock_file api L t a);
       exec (ghs_flock_destroy api L a);
       exec (ghs_flock_destroy api L b);
       c \<leftarrow> flock_create api L t fc;
       check (c = b);
       exec (ghs_flock_destroy api L c)
     }"

definition test_ghs_errno :: "tid \<Rightarrow> ('m ghs_world, unit) test" where
  "test_ghs_errno t =
     do {
       exec (gh_set_errno t 42);
       e \<leftarrow> ask (\<lambda>w. (gh_get_errno t w, gw_errno w t));
       check (e = (42, 42));
       check (gh_errno_ptr t = t);
       exec (gh_set_errno t 0)
     }"

definition test_ghs_mtx :: "'m mutex_api \<Rightarrow> default_heap \<Rightarrow> ptr \<Rightarrow> tid \<Rightarrow> ptr \<Rightarrow> ('m ghs_world, unit) test" where
  "test_ghs_mtx api dh mem t m =
     do {
       exec (\<lambda>w. w\<lparr>gw_cells := (gw_cells w)(m := null)\<rparr>);
       exec (ghs_mtx_init api dh mem m);
       p \<leftarrow> ask (\<lambda>w. gw_cells w m);
       check (p \<noteq> null);
       await_unit (ghs_mtx_lock api t m);
       exec (ghs_mtx_unlock api t m);
       await_unit (ghs_mtx_lock api t m);
       await_unit (ghs_mtx_lock api t m);
       exec (ghs_mtx_unlock api t m);
       exec (ghs_mtx_unlock api t m);
       check True;
       exec (ghs_mtx_dst dh mem m);
       p \<leftarrow> ask (\<lambda>w. gw_cells w m);
       check (p = null)
     }"

lemma test_ghs_errno_passes: "failures (test_ghs_errno t) w n = n"
  by (simp add: failures_def test_ghs_errno_def run_simps gh_set_errno_def gh_get_errno_def gh_errno_ptr_def)

text \<open>
  These two are evaluated: on one thread, with the lock that knows its owner and an expanded heap as the default heap.
\<close>

lemma test_ghs_locks_passes:
  "failures (test_ghs_locks owner_api ghs_demo_link 1 64 72 80) (ghs_start base_demo) 0 = 0"
  by code_simp

lemma test_ghs_mtx_passes:
  "failures (test_ghs_mtx owner_api default_heap_init 0x2000000 1 64) (ghs_start mtx_demo) 0 = 0"
  by code_simp

section \<open>The calling thread\<close>

definition test_core_id :: "'k thread_api \<Rightarrow> ('k thread_world, unit) test" where
  "test_core_id L =
     do {
       i \<leftarrow> ask (OSGetCoreId L);
       check (i \<le> 2)
     }"

definition test_current_thread :: "'k thread_api \<Rightarrow> tid \<Rightarrow> ('k thread_world, unit) test" where
  "test_current_thread L t =
     do {
       a \<leftarrow> call (OSGetCurrentThread L t);
       b \<leftarrow> call (OSGetCurrentThread L t);
       check (a \<noteq> null \<and> a = b)
     }"

lemma test_core_id_passes: "failures (test_core_id L) w n = n"
  by (simp add: failures_def test_core_id_def run_simps OSGetCoreId_def Let_def linorder_not_less)

text \<open>A thread the library has started knows its object; any other one, as the test's, is given the main thread's.\<close>

lemma test_current_thread_passes:
  assumes "th_main L \<noteq> null" "\<forall>k. t_current w t = Some k \<longrightarrow> th_guest (thread_of k w) \<noteq> null"
  shows "failures (test_current_thread L t) w n = n"
  using assms by (cases "t_current w t")
    (simp_all add: failures_def test_current_thread_def run_simps OSGetCurrentThread_def set_thread_def Let_def)

end
