(* ===== verification/Interleave.thy ===== *)
theory Interleave
  imports Prelude
begin

text \<open>
  Programs of several threads. A thread is a list of statements; a statement is one action on the shared state, or \<open>None\<close>
  while it has to wait. A step of the program is the next statement of any thread that need not wait, so a schedule, the
  list of the threads whose turn it is, covers every interleaving. A thread whose turn comes while it waits does nothing.

  The locale \<open>interleaved\<close> is what a program has to promise: an invariant of its steps under which it is never stuck.
  What follows is that every schedule keeps the invariant, and that every schedule which gives each thread its turn often
  enough brings all of them to their end.
\<close>

type_synonym 'g stmt = "'g \<Rightarrow> 'g option"

record 'g conf =
  cf_pc :: "tid \<Rightarrow> nat"
  cf_state :: 'g

definition conf_start :: "'g \<Rightarrow> 'g conf" where
  "conf_start g = \<lparr>cf_pc = (\<lambda>_. 0), cf_state = g\<rparr>"

definition advance_to :: "tid \<Rightarrow> 'g \<Rightarrow> 'g conf \<Rightarrow> 'g conf" where
  "advance_to t g c = \<lparr>cf_pc = (cf_pc c)(t := Suc (cf_pc c t)), cf_state = g\<rparr>"

inductive thread_does :: "(tid \<Rightarrow> 'g stmt list) \<Rightarrow> tid \<Rightarrow> 'g conf \<Rightarrow> 'g conf \<Rightarrow> bool" for code t c where
  does: "cf_pc c t < length (code t) \<Longrightarrow> (code t ! cf_pc c t) (cf_state c) = Some g \<Longrightarrow>
    thread_does code t c (advance_to t g c)"

inductive_simps thread_does_simp: "thread_does code t c c'"

fun turn_of :: "(tid \<Rightarrow> 'g stmt list) \<Rightarrow> tid \<Rightarrow> 'g conf \<Rightarrow> 'g conf" where
  "turn_of code t c =
     (if cf_pc c t < length (code t) then
        (case (code t ! cf_pc c t) (cf_state c) of None \<Rightarrow> c | Some g \<Rightarrow> advance_to t g c)
      else c)"

definition run_schedule :: "(tid \<Rightarrow> 'g stmt list) \<Rightarrow> tid list \<Rightarrow> 'g conf \<Rightarrow> 'g conf" where
  "run_schedule code ts c = fold (turn_of code) ts c"

lemma run_schedule_simps [simp]:
  "run_schedule code [] c = c"
  "run_schedule code (t # ts) c = run_schedule code ts (turn_of code t c)"
  "run_schedule code (ts @ us) c = run_schedule code us (run_schedule code ts c)"
  by (simp_all add: run_schedule_def)

lemma turn_of_cases: "turn_of code t c = c \<or> thread_does code t c (turn_of code t c)"
  by (auto simp: thread_does_simp split: option.split)

lemma turn_of_does: "thread_does code t c c' \<Longrightarrow> turn_of code t c = c'"
  by (auto simp: thread_does_simp)

lemma advance_to_simps [simp]:
  "cf_state (advance_to t g c) = g" "cf_pc (advance_to t g c) = (cf_pc c)(t := Suc (cf_pc c t))"
  by (simp_all add: advance_to_def)

lemma does_moves: "thread_does code t c c' \<Longrightarrow> c' \<noteq> c"
  by (metis advance_to_simps(2) fun_upd_same n_not_Suc_n thread_does_simp)

text \<open>How many statements the threads have before them: every step that is made takes one off.\<close>

definition to_go :: "(tid \<Rightarrow> 'g stmt list) \<Rightarrow> tid set \<Rightarrow> 'g conf \<Rightarrow> nat" where
  "to_go code ts c = (\<Sum>t \<in> ts. length (code t) - cf_pc c t)"

definition all_ended :: "(tid \<Rightarrow> 'g stmt list) \<Rightarrow> tid set \<Rightarrow> 'g conf \<Rightarrow> bool" where
  "all_ended code ts c \<longleftrightarrow> (\<forall>t \<in> ts. length (code t) \<le> cf_pc c t)"

lemma to_go_step:
  assumes "finite ts" "t \<in> ts" "thread_does code t c c'"
  shows "to_go code ts c' < to_go code ts c"
proof -
  from assms(3) obtain g where g: "cf_pc c t < length (code t)" "c' = advance_to t g c" by (auto simp: thread_does_simp)
  have "(\<Sum>u \<in> ts - {t}. length (code u) - cf_pc c' u) = (\<Sum>u \<in> ts - {t}. length (code u) - cf_pc c u)"
    using g(2) by (intro sum.cong) auto
  then show ?thesis
    using g assms(1,2) by (simp add: to_go_def sum.remove [of ts t])
qed

lemma to_go_0: "finite ts \<Longrightarrow> to_go code ts c = 0 \<Longrightarrow> all_ended code ts c"
  by (simp add: to_go_def all_ended_def)

locale interleaved =
  fixes code :: "tid \<Rightarrow> 'g stmt list"
    and threads :: "tid set"
    and inv :: "'g conf \<Rightarrow> bool"
  assumes finite_threads: "finite threads"
    and only_threads: "t \<notin> threads \<Longrightarrow> code t = []"
    and keeps: "inv c \<Longrightarrow> thread_does code t c c' \<Longrightarrow> inv c'"
    and not_stuck: "inv c \<Longrightarrow> \<not> all_ended code threads c \<Longrightarrow> \<exists>t c'. thread_does code t c c'"
begin

lemma does_in: "thread_does code t c c' \<Longrightarrow> t \<in> threads"
  using only_threads [of t] by (cases "t \<in> threads") (auto simp: thread_does_simp)

lemma turn_keeps_inv: "inv c \<Longrightarrow> inv (turn_of code t c)"
  using turn_of_cases [of code t c] keeps by metis

lemma schedule_keeps: "inv c \<Longrightarrow> inv (run_schedule code ts c)"
  by (induction ts arbitrary: c) (simp_all add: turn_keeps_inv del: turn_of.simps)

lemma turn_le: "to_go code threads (turn_of code t c) \<le> to_go code threads c"
proof (cases "turn_of code t c = c")
  case False
  then have does: "thread_does code t c (turn_of code t c)" using turn_of_cases [of code t c] by blast
  from to_go_step [OF finite_threads does_in [OF does] does] show ?thesis by simp
qed simp

lemma schedule_le: "to_go code threads (run_schedule code ts c) \<le> to_go code threads c"
proof (induction ts arbitrary: c)
  case (Cons t ts)
  then show ?case using turn_le [of t c] order_trans by (fastforce simp del: turn_of.simps)
qed simp

text \<open>A schedule in which every thread has a turn makes a step, unless the program has ended.\<close>

lemma round_steps:
  assumes "inv c" "threads \<subseteq> set ts" "\<not> all_ended code threads c"
  shows "to_go code threads (run_schedule code ts c) < to_go code threads c"
proof -
  obtain t c' where does: "thread_does code t c c'" using not_stuck [OF assms(1,3)] by blast
  then have "t \<in> set ts" using does_in assms(2) by blast
  then show ?thesis
    using assms(1)
  proof (induction ts)
    case (Cons u us)
    show ?case
    proof (cases "turn_of code u c = c")
      case True
      then have "t \<noteq> u" using turn_of_does [OF does] does_moves [OF does] by auto
      with Cons True show ?thesis by (simp del: turn_of.simps)
    next
      case False
      then have u: "thread_does code u c (turn_of code u c)" using turn_of_cases [of code u c] by blast
      from to_go_step [OF finite_threads does_in [OF u] u] schedule_le [of us "turn_of code u c"]
      show ?thesis by (simp del: turn_of.simps)
    qed
  qed simp
qed

lemma fair_ends:
  assumes "inv c" "\<forall>r \<in> set rounds. threads \<subseteq> set r" "to_go code threads c \<le> length rounds"
  shows "all_ended code threads (run_schedule code (concat rounds) c)"
  using assms
proof (induction rounds arbitrary: c)
  case Nil
  then show ?case using to_go_0 [OF finite_threads] by simp
next
  case (Cons r rounds)
  have inv: "inv (run_schedule code r c)" using schedule_keeps [OF Cons.prems(1)] .
  have "to_go code threads (run_schedule code r c) \<le> length rounds"
  proof (cases "all_ended code threads c")
    case True
    then have "to_go code threads c = 0" by (simp add: to_go_def all_ended_def)
    with schedule_le [of r c] show ?thesis by simp
  next
    case False
    with round_steps [OF Cons.prems(1) _ False, of r] Cons.prems(2,3) show ?thesis by simp
  qed
  from Cons.IH [OF inv _ this] Cons.prems(2) show ?case by simp
qed

end

end
