(* ===== verification/SuiteThreads.thy ===== *)
theory SuiteThreads
  imports Interleave ThreadLife
begin

text \<open>
  The frame of the tests of \<^verbatim>\<open>tests/main.cpp\<close> that run threads, which are programs of theory \<open>Interleave\<close>: the test is thread 0, the threads it
  creates are 1 and 2. They are started, joined and ended by the functions of \<^verbatim>\<open>thread.cpp\<close>: a worker's first statement waits
  until libnx was told to start it, its last one is the end of the trampoline, and \<^verbatim>\<open>OSJoinThread\<close> waits for that. An
  increment of a plain variable is a load and a store.
\<close>

section \<open>Statements\<close>

record 'k test_state =
  ts_world :: "'k thread_world"
  ts_ended :: "ptr set"
  g_failures :: s32

text \<open>\<open>ts_ended\<close>: the threads whose trampoline has returned. The tests rely on a host that creates, starts and joins.\<close>

definition host_grants :: "'k thread_api \<Rightarrow> bool" where
  "host_grants L \<longleftrightarrow> (\<forall>k p r c q. fst (th_create L k p r c q)) \<and> (\<forall>k q. fst (th_start L k q)) \<and> (\<forall>k q. fst (th_wait L k q))"

definition act :: "('g \<Rightarrow> 'g) \<Rightarrow> 'g stmt" where
  "act f g = Some (f g)"

definition verify :: "(('k, 'z) test_state_scheme \<Rightarrow> bool) \<Rightarrow> ('k, 'z) test_state_scheme stmt" where
  "verify P g = Some (if P g then g else g\<lparr>g_failures := g_failures g + 1\<rparr>)"

definition create_thread :: "'k thread_api \<Rightarrow> ptr \<Rightarrow> ptr \<Rightarrow> s32 \<Rightarrow> u8 \<Rightarrow> ('k, 'z) test_state_scheme stmt" where
  "create_thread L th entry argc attr g =
     Some (g\<lparr>ts_world := snd (OSCreateThread L th entry argc null (th + 0x8000) 0x4000 16 attr (ts_world g)),
             ts_ended := ts_ended g - {th}\<rparr>)"

definition resume_thread :: "'k thread_api \<Rightarrow> ptr \<Rightarrow> ('k, 'z) test_state_scheme stmt" where
  "resume_thread L th g = Some (g\<lparr>ts_world := snd (OSResumeThread L th (ts_world g))\<rparr>)"

definition join_thread ::
  "'k thread_api \<Rightarrow> ptr \<Rightarrow> ptr \<Rightarrow> (s32 \<times> s32 option \<Rightarrow> ('k, 'z) test_state_scheme \<Rightarrow> ('k, 'z) test_state_scheme)
     \<Rightarrow> ('k, 'z) test_state_scheme stmt" where
  "join_thread L th res k g =
     (if fst (OSJoinThread_enter th (ts_world g)) \<and> th \<notin> ts_ended g then None
      else (case OSJoinThread L th res (ts_world g) of (r, w) \<Rightarrow> Some (k r (g\<lparr>ts_world := w\<rparr>))))"

definition enter_thread :: "tid \<Rightarrow> ptr \<Rightarrow> ('k, 'z) test_state_scheme stmt" where
  "enter_thread t th g =
     (if th_started (thread_of th (ts_world g)) then Some (g\<lparr>ts_world := trampoline_enter t th (ts_world g)\<rparr>) else None)"

definition leave_thread :: "ptr \<Rightarrow> s32 \<Rightarrow> ('k, 'z) test_state_scheme stmt" where
  "leave_thread th r g =
     Some (g\<lparr>ts_world := snd (trampoline_leave th r (ts_world g)), ts_ended := insert th (ts_ended g)\<rparr>)"

lemmas stmt_defs = act_def verify_def create_thread_def resume_thread_def join_thread_def enter_thread_def leave_thread_def

section \<open>The life of a worker\<close>

text \<open>
  A worker whose thread object is created, resumed and joined by the statements \<open>cx\<close>, \<open>rx\<close> and \<open>jx\<close> of the test and that has
  \<open>n\<close> statements: what its host thread looks like while the test is before statement \<open>p\<close> and the worker before \<open>q\<close>.
\<close>

definition worker_at :: "nat \<Rightarrow> nat \<Rightarrow> nat \<Rightarrow> nat \<Rightarrow> nat \<Rightarrow> nat \<Rightarrow> ptr \<Rightarrow> ('k, 'z) test_state_scheme \<Rightarrow> bool" where
  "worker_at cx rx jx n p q th g \<longleftrightarrow>
     (let h = thread_of th (ts_world g) in
      q \<le> n \<and> (0 < q \<longrightarrow> rx < p) \<and> (jx < p \<longrightarrow> q = n) \<and> (th \<in> ts_ended g \<longleftrightarrow> q = n) \<and> th_started h = (rx < p \<and> p \<le> jx) \<and>
      (cx < p \<longrightarrow> p \<le> jx \<longrightarrow> th_created h \<and> \<not> th_detached h) \<and> (cx < p \<longrightarrow> p \<le> rx \<longrightarrow> suspendCount h = 1))"

named_theorems worker_steps \<open>how the statements move the life of a worker on\<close>

lemma worker_frame [worker_steps]:
  assumes "worker_at cx rx jx n p q th g" "thread_of th (ts_world g') = thread_of th (ts_world g)"
    "th \<in> ts_ended g' \<longleftrightarrow> th \<in> ts_ended g" "p \<noteq> cx" "p \<noteq> rx" "p \<noteq> jx"
  shows "worker_at cx rx jx n (Suc p) q th g'"
proof -
  have "rx < Suc p \<longleftrightarrow> rx < p" "jx < Suc p \<longleftrightarrow> jx < p" "cx < Suc p \<longleftrightarrow> cx < p" "Suc p \<le> jx \<longleftrightarrow> p \<le> jx" "Suc p \<le> rx \<longleftrightarrow> p \<le> rx"
    using assms(4-6) by auto
  then show ?thesis using assms(1-3) unfolding worker_at_def Let_def by (simp only:) blast
qed

lemma created: "host_grants L \<Longrightarrow> fst (OSCreateThread L k e ac av st sz p a w) = 1"
  by (simp add: OSCreateThread_def host_grants_def Let_def case_prod_unfold)

lemma worker_create [worker_steps]:
  assumes "worker_at cx rx jx n cx q th g" "host_grants L" "attr AND 8 = 0" "cx < rx" "rx < jx" "0 < n"
    and "create_thread L th entry argc attr g = Some g'"
  shows "worker_at cx rx jx n (Suc cx) q th g'"
proof -
  have g': "g' = g\<lparr>ts_world := snd (OSCreateThread L th entry argc null (th + 0x8000) 0x4000 16 attr (ts_world g)),
      ts_ended := ts_ended g - {th}\<rparr>"
    using assms(7) by (simp add: create_thread_def)
  show ?thesis
    unfolding g' using assms(1-6) by (auto simp: worker_at_def create_thread_of created Let_def)
qed

lemma worker_resume [worker_steps]:
  assumes "worker_at cx rx jx n rx q th g" "host_grants L" "cx < rx" "rx < jx" "resume_thread L th g = Some g'"
  shows "worker_at cx rx jx n (Suc rx) q th g'"
proof -
  have pos: "0 <s (1 :: s32)" by (simp add: word_sless_alt)
  have g': "g' = g\<lparr>ts_world := snd (OSResumeThread L th (ts_world g))\<rparr>" using assms(5) by (simp add: resume_thread_def)
  show ?thesis
    unfolding g' using assms(1-4) pos
    by (auto simp: worker_at_def OSResumeThread_def host_grants_def Let_def case_prod_unfold)
qed

lemma worker_join [worker_steps]:
  assumes "worker_at cx rx jx n jx q th g" "host_grants L" "cx < rx" "rx < jx" "join_thread L th res k g = Some g'"
    and "\<And>r g. ts_world (k r g) = ts_world g \<and> ts_ended (k r g) = ts_ended g"
  shows "worker_at cx rx jx n (Suc jx) q th g'"
proof -
  let ?w = "ts_world g"
  have en: "fst (OSJoinThread_enter th ?w)"
    using assms(1,3,4) by (auto simp: worker_at_def OSJoinThread_enter_def Let_def)
  then have "th \<in> ts_ended g" using assms(5) by (simp add: join_thread_def split: if_splits)
  moreover have g': "g' = k (fst (OSJoinThread L th res ?w)) (g\<lparr>ts_world := snd (OSJoinThread L th res ?w)\<rparr>)"
    using assms(5) by (auto simp: join_thread_def split: if_splits prod.splits)
  ultimately show ?thesis
    unfolding g' using assms(1-4,6) en
    by (auto simp: worker_at_def OSJoinThread_def OSJoinThread_enter_def OSJoinThread_leave_def host_grants_def Let_def case_prod_unfold)
qed

lemma worker_enter [worker_steps]:
  assumes "worker_at cx rx jx n p 0 th g" "1 < n" "rx < jx" "enter_thread t th g = Some g'"
  shows "worker_at cx rx jx n p (Suc 0) th g'"
  using assms by (auto simp: worker_at_def enter_thread_def trampoline_enter_def Let_def split: if_splits)

lemma worker_body [worker_steps]:
  assumes "worker_at cx rx jx n p q th g" "0 < q" "Suc q < n" "thread_of th (ts_world g') = thread_of th (ts_world g)"
    "th \<in> ts_ended g' \<longleftrightarrow> th \<in> ts_ended g"
  shows "worker_at cx rx jx n p (Suc q) th g'"
  using assms by (auto simp: worker_at_def Let_def)

lemma worker_leave [worker_steps]:
  assumes "worker_at cx rx jx n p q th g" "0 < q" "Suc q = n" "leave_thread th r g = Some g'"
  shows "worker_at cx rx jx n p (Suc q) th g'"
proof -
  have g': "g' = g\<lparr>ts_world := snd (trampoline_leave th r (ts_world g)), ts_ended := insert th (ts_ended g)\<rparr>"
    using assms(4) by (simp add: leave_thread_def)
  show ?thesis
    unfolding g' using assms(1-3) by (auto simp: worker_at_def trampoline_leave_def Let_def)
qed

text \<open>The other worker, and a worker that has gone a step.\<close>

lemma worker_other:
  assumes "worker_at cx rx jx n p q th g" "thread_of th (ts_world g') = thread_of th (ts_world g)" "th \<in> ts_ended g' \<longleftrightarrow> th \<in> ts_ended g"
  shows "worker_at cx rx jx n p q th g'"
  using assms by (simp add: worker_at_def)

text \<open>What these statements leave alone.\<close>

definition elsewhere :: "ptr \<Rightarrow> ('k, 'z) test_state_scheme \<Rightarrow> ('k, 'z) test_state_scheme \<Rightarrow> bool" where
  "elsewhere th g g' \<longleftrightarrow>
     (\<exists>w e. g' = g\<lparr>ts_world := w, ts_ended := e\<rparr>) \<and>
     (\<forall>x. x \<noteq> th \<longrightarrow> thread_of x (ts_world g') = thread_of x (ts_world g) \<and> (x \<in> ts_ended g' \<longleftrightarrow> x \<in> ts_ended g))"

lemma create_elsewhere: "create_thread L th entry argc attr g = Some g' \<Longrightarrow> elsewhere th g g'"
  by (auto simp: elsewhere_def create_thread_def create_thread_of)

lemma resume_elsewhere: "resume_thread L th g = Some g' \<Longrightarrow> elsewhere th g g'"
proof -
  assume "resume_thread L th g = Some g'"
  then have "g' = g\<lparr>ts_world := snd (OSResumeThread L th (ts_world g)), ts_ended := ts_ended g\<rparr>" by (cases g; cases g') (auto simp: resume_thread_def)
  then show ?thesis unfolding elsewhere_def
    by (intro conjI exI) (assumption, simp add: OSResumeThread_def Let_def case_prod_unfold)
qed

lemma join_elsewhere: "join_thread L th res (\<lambda>r g. g) g = Some g' \<Longrightarrow> elsewhere th g g'"
proof -
  assume "join_thread L th res (\<lambda>r g. g) g = Some g'"
  then have "g' = g\<lparr>ts_world := snd (OSJoinThread L th res (ts_world g)), ts_ended := ts_ended g\<rparr>"
    by (cases g; cases g') (auto simp: join_thread_def split: if_splits prod.splits)
  then show ?thesis unfolding elsewhere_def
    by (intro conjI exI) (assumption, simp add: OSJoinThread_def OSJoinThread_enter_def OSJoinThread_leave_def Let_def case_prod_unfold)
qed

lemma worker_elsewhere:
  assumes "worker_at cx rx jx n p q x g" "elsewhere th g g'" "x \<noteq> th" "p \<noteq> cx" "p \<noteq> rx" "p \<noteq> jx"
  shows "worker_at cx rx jx n (Suc p) q x g'"
  using assms by (intro worker_frame [of cx rx jx n p q x g]) (auto simp: elsewhere_def)

end
