(* ===== verification/SuiteSpin.thy ===== *)
theory SuiteSpin
  imports SuiteThreads SpinLock
begin

text \<open>
  \<^verbatim>\<open>test_spinlock\<close> of \<^verbatim>\<open>tests/main.cpp\<close>: two threads and a counter that is incremented under a spinlock, over every schedule.
\<close>

section \<open>The program\<close>

record ('k, 'm) spin_state = "'k test_state" +
  sp_tab :: "'m host_spinlock table"
  s_spinCounter :: s32
  sp_got :: s32
  sp_reg :: "tid \<Rightarrow> s32"

text \<open>\<open>sp_reg t\<close> is the register in which thread \<open>t\<close> increments the counter; \<open>n\<close> is how often each worker does, 5000 in the test.\<close>

definition spin_body :: "'m mutex_api \<Rightarrow> tid \<Rightarrow> ptr \<Rightarrow> ('k, 'm) spin_state stmt list" where
  "spin_body api t l =
     [\<lambda>g. map_option (\<lambda>(r, tab). g\<lparr>sp_tab := tab\<rparr>) (OSUninterruptibleSpinLock_Acquire api t l (sp_tab g)),
      act (\<lambda>g. g\<lparr>sp_reg := (sp_reg g)(t := s_spinCounter g)\<rparr>),
      act (\<lambda>g. g\<lparr>s_spinCounter := sp_reg g t + 1\<rparr>),
      act (\<lambda>g. g\<lparr>sp_tab := snd (OSUninterruptibleSpinLock_Release api t l (sp_tab g))\<rparr>)]"

definition spin_worker :: "'m mutex_api \<Rightarrow> nat \<Rightarrow> tid \<Rightarrow> ptr \<Rightarrow> ptr \<Rightarrow> ('k, 'm) spin_state stmt list" where
  "spin_worker api n t th l = enter_thread t th # concat (replicate n (spin_body api t l)) @ [leave_thread th 0]"

definition test_spinlock ::
  "'k thread_api \<Rightarrow> 'm mutex_api \<Rightarrow> nat \<Rightarrow> ptr \<Rightarrow> ptr \<Rightarrow> ptr \<Rightarrow> ptr \<Rightarrow> ('k, 'm) spin_state stmt list" where
  "test_spinlock L api n entry a b l =
     [act (\<lambda>g. g\<lparr>sp_tab := OSInitSpinLock api l (sp_tab g)\<rparr>),
      act (\<lambda>g. case OSTryAcquireSpinLock api 0 l (sp_tab g) of (r, tab) \<Rightarrow> g\<lparr>sp_got := r, sp_tab := tab\<rparr>),
      verify (\<lambda>g. sp_got g = 1),
      act (\<lambda>g. g\<lparr>sp_tab := snd (OSReleaseSpinLock api 0 l (sp_tab g))\<rparr>),
      act (\<lambda>g. g\<lparr>s_spinCounter := 0\<rparr>),
      create_thread L a entry 0 OS_THREAD_ATTRIB_AFFINITY_ANY,
      create_thread L b entry 0 OS_THREAD_ATTRIB_AFFINITY_ANY,
      resume_thread L a,
      resume_thread L b,
      join_thread L a 8 (\<lambda>r g. g),
      join_thread L b 8 (\<lambda>r g. g),
      verify (\<lambda>g. s_spinCounter g = of_nat (2 * n))]"

definition spin_code ::
  "'k thread_api \<Rightarrow> 'm mutex_api \<Rightarrow> nat \<Rightarrow> ptr \<Rightarrow> ptr \<Rightarrow> ptr \<Rightarrow> ptr \<Rightarrow> tid \<Rightarrow> ('k, 'm) spin_state stmt list" where
  "spin_code L api n entry a b l t =
     (if t = 0 then test_spinlock L api n entry a b l
      else if t = 1 then spin_worker api n 1 a l
      else if t = 2 then spin_worker api n 2 b l
      else [])"

text \<open>Between its acquire and its release, by the number of the worker's next statement.\<close>

definition inside :: "nat \<Rightarrow> nat \<Rightarrow> bool" where
  "inside n q \<longleftrightarrow> 2 \<le> q \<and> q \<le> 4 * n \<and> q mod 4 \<noteq> 1"

definition spin_data ::
  "('m \<Rightarrow> tid option) \<Rightarrow> 'm mutex_api \<Rightarrow> nat \<Rightarrow> ptr \<Rightarrow> nat \<Rightarrow> tid \<Rightarrow> nat \<Rightarrow> tid \<Rightarrow> nat \<Rightarrow> ('k, 'm) spin_state \<Rightarrow> bool" where
  "spin_data owner api n l p t q t' q' g \<longleftrightarrow>
     spin_holder api owner l (sp_tab g) =
       (if p = 2 \<or> p = 3 then Some 0 else if inside n q then Some t else if inside n q' then Some t' else None) \<and>
     \<not> (inside n q \<and> inside n q') \<and>
     (4 < p \<longrightarrow> s_spinCounter g = of_nat (q div 4 + q' div 4)) \<and>
     (q mod 4 = 3 \<longrightarrow> q \<le> 4 * n \<longrightarrow> sp_reg g t = s_spinCounter g) \<and>
     (q' mod 4 = 3 \<longrightarrow> q' \<le> 4 * n \<longrightarrow> sp_reg g t' = s_spinCounter g)"

definition spin_inv ::
  "'k thread_api \<Rightarrow> ('m \<Rightarrow> tid option) \<Rightarrow> 'm mutex_api \<Rightarrow> nat \<Rightarrow> ptr \<Rightarrow> ptr \<Rightarrow> ptr \<Rightarrow> s32 \<Rightarrow> ('k, 'm) spin_state conf \<Rightarrow> bool" where
  "spin_inv L owner api n a b l fails c \<longleftrightarrow>
     mutex_laws api owner \<and> host_grants L \<and> l \<noteq> null \<and> a \<noteq> b \<and> cf_pc c 0 \<le> 12 \<and>
     worker_at 5 7 9 (4 * n + 2) (cf_pc c 0) (cf_pc c 1) a (cf_state c) \<and>
     worker_at 6 8 10 (4 * n + 2) (cf_pc c 0) (cf_pc c 2) b (cf_state c) \<and>
     spin_data owner api n l (cf_pc c 0) 1 (cf_pc c 1) 2 (cf_pc c 2) (cf_state c) \<and>
     (cf_pc c 0 = 2 \<longrightarrow> sp_got (cf_state c) = 1) \<and> g_failures (cf_state c) = fails"

lemma nth_concat_replicate:
  "i < length b * n \<Longrightarrow> concat (replicate n b) ! i = b ! (i mod length b)"
proof (induction n arbitrary: i)
  case (Suc n)
  show ?case
  proof (cases "i < length b")
    case False
    then have "concat (replicate n b) ! (i - length b) = b ! ((i - length b) mod length b)"
      using Suc.prems by (intro Suc.IH) auto
    with False show ?thesis by (simp add: nth_append le_mod_geq)
  qed (simp add: nth_append)
qed simp

lemma spin_loop_length [simp]: "length (concat (replicate n (spin_body api t l))) = 4 * n"
  by (simp add: length_concat spin_body_def sum_list_replicate)

lemma spin_worker_length [simp]: "length (spin_worker api n t th l) = 4 * n + 2"
  by (simp add: spin_worker_def)

lemma spin_worker_nth:
  "spin_worker api n t th l ! 0 = enter_thread t th"
  "0 < q \<Longrightarrow> q \<le> 4 * n \<Longrightarrow> spin_worker api n t th l ! q = spin_body api t l ! ((q - 1) mod 4)"
  "spin_worker api n t th l ! (4 * n + 1) = leave_thread th 0"
proof -
  show "spin_worker api n t th l ! 0 = enter_thread t th" by (simp add: spin_worker_def)
  show "spin_worker api n t th l ! (4 * n + 1) = leave_thread th 0" by (simp add: spin_worker_def nth_append)
  show "spin_worker api n t th l ! q = spin_body api t l ! ((q - 1) mod 4)" if "0 < q" "q \<le> 4 * n"
  proof -
    have "q - 1 < length (spin_body api t l) * n" using that by (simp add: spin_body_def)
    from nth_concat_replicate [OF this] that show ?thesis
      by (cases q) (simp_all add: spin_worker_def nth_append, simp add: spin_body_def)
  qed
qed

text \<open>One statement of a worker: what it does to the lock, the counter and its register.\<close>

lemma spin_worker_data:
  assumes "spin_data owner api n l p t q t' q' g" "mutex_laws api owner" "l \<noteq> null" "t \<noteq> t'" "4 < p" "q < 4 * n + 2"
    and "(spin_worker api n t th l ! q) g = Some g'"
  shows "spin_data owner api n l p t (Suc q) t' q' g' \<and> g_failures g' = g_failures g \<and>
    (0 < q \<longrightarrow> q \<le> 4 * n \<longrightarrow> ts_world g' = ts_world g \<and> ts_ended g' = ts_ended g)"
proof -
  have in_q: "inside n (4 * i + 1) \<longleftrightarrow> False" "inside n (4 * i + 2) \<longleftrightarrow> i < n" "inside n (4 * i + 3) \<longleftrightarrow> i < n"
    "inside n (4 * i + 4) \<longleftrightarrow> i < n"
    "inside n (Suc (Suc (Suc (4 * i)))) \<longleftrightarrow> i < n" "inside n (Suc (4 * i + 3)) \<longleftrightarrow> i < n" "inside n (Suc (4 * i + 4)) \<longleftrightarrow> False" for i
    by (auto simp: inside_def mod_Suc)
  consider "q = 0" | "q = 4 * n + 1" | "0 < q" "q \<le> 4 * n" using assms(6) by linarith
  then show ?thesis
  proof cases
    case 1
    then show ?thesis
      using assms(1,5,7) by (auto simp: spin_data_def inside_def spin_worker_nth enter_thread_def split: if_splits)
  next
    case 2
    have "\<not> inside n (4 * n + 1)" "\<not> inside n (4 * n + 2)" by (simp_all add: inside_def)
    moreover have "Suc (4 * n) div 4 = n" "Suc (Suc (4 * n)) div 4 = n" "Suc (Suc (4 * n)) mod 4 = 2" by presburger+
    moreover have "leave_thread th 0 g = Some g'" using assms(7) 2 by (simp only: spin_worker_nth)
    ultimately show ?thesis using assms(1,5) 2 by (auto simp: spin_data_def leave_thread_def)
  next
    case 3
    define i where "i = (q - 1) div 4"
    define r where "r = (q - 1) mod 4"
    have q: "q = 4 * i + Suc r" "i < n" using 3 mult_div_mod_eq [of 4 "q - 1"] unfolding i_def r_def by linarith+
    have dm: "Suc (4 * i) div 4 = i" "Suc (Suc (4 * i)) div 4 = i" "Suc (Suc (4 * i)) mod 4 = 2" "(4 * i + 3) div 4 = i"
      "Suc (Suc (Suc (4 * i))) div 4 = i"
      "Suc (4 * i + 3) div 4 = Suc i" "(4 * i + 4) div 4 = Suc i" "Suc (4 * i + 4) div 4 = Suc i" "Suc (4 * i + 4) mod 4 = 1"
      by presburger+
    have at: "(spin_body api t l ! r) g = Some g'" using assms(7) by (simp only: spin_worker_nth(2) [OF 3] r_def)
    consider "r = 0" | "r = 1" | "r = 2" | "r = 3" unfolding r_def by linarith
    then show ?thesis
    proof cases
      case 1
      have free: "spin_holder api owner l (sp_tab g) = None"
      proof (rule ccontr)
        assume "spin_holder api owner l (sp_tab g) \<noteq> None"
        from spin_acquire_spec(2) [OF assms(2,3) this, of t] at 1 show False
          by (simp add: spin_body_def OSUninterruptibleSpinLock_Acquire_def)
      qed
      then obtain tab where tab: "spin_acquire api t l (sp_tab g) = Some (1, tab)" "spin_holder api owner l tab = Some t"
        using spin_acquire_spec(1) [OF assms(2,3), where t = t] by blast
      with 1 at have g': "g' = g\<lparr>sp_tab := tab\<rparr>" by (simp add: spin_body_def OSUninterruptibleSpinLock_Acquire_def)
      have "\<not> inside n q'" using free assms(1,5) by (auto simp: spin_data_def split: if_splits)
      then show ?thesis using assms(1,5) q 1 in_q [of i] dm tab(2) by (simp add: g' spin_data_def)
    next
      case 2
      then have g': "g' = g\<lparr>sp_reg := (sp_reg g)(t := s_spinCounter g)\<rparr>" using at by (simp add: spin_body_def act_def)
      show ?thesis using assms(1,4,5) q 2 in_q [of i] dm by (simp add: g' spin_data_def)
    next
      case 3
      then have g': "g' = g\<lparr>s_spinCounter := sp_reg g t + 1\<rparr>" using at by (simp add: spin_body_def act_def)
      show ?thesis using assms(1,4,5) q 3 in_q [of i] dm by (auto simp: g' spin_data_def inside_def)
    next
      case 4
      then have g': "g' = g\<lparr>sp_tab := snd (OSUninterruptibleSpinLock_Release api t l (sp_tab g))\<rparr>"
        using at by (simp add: spin_body_def act_def)
      have "spin_holder api owner l (sp_tab g) = Some t" "\<not> inside n q'"
        using assms(1,5) q 4 in_q [of i] dm by (auto simp: spin_data_def)
      with spin_release_spec(1) [OF assms(2,3)] assms(1,5) q 4 in_q [of i] dm show ?thesis
        by (simp add: g' spin_data_def OSUninterruptibleSpinLock_Release_def)
    qed
  qed
qed

lemma spin_data_swap: "spin_data owner api n l p t q t' q' g \<longleftrightarrow> spin_data owner api n l p t' q' t q g"
  by (auto simp: spin_data_def add.commute split: if_splits)

lemma spin_worker_life:
  assumes "(spin_worker api n t th l ! q) g = Some g'" "worker_at cx rx jx (4 * n + 2) p q th g" "q < 4 * n + 2" "rx < jx"
    and "0 < q \<longrightarrow> q \<le> 4 * n \<longrightarrow> ts_world g' = ts_world g \<and> ts_ended g' = ts_ended g"
  shows "worker_at cx rx jx (4 * n + 2) p (Suc q) th g'"
    "x \<noteq> th \<Longrightarrow> thread_of x (ts_world g') = thread_of x (ts_world g) \<and> (x \<in> ts_ended g' \<longleftrightarrow> x \<in> ts_ended g)"
proof -
  consider "q = 0" | "q = 4 * n + 1" | "0 < q" "q \<le> 4 * n" using assms(3) by linarith
  then have "worker_at cx rx jx (4 * n + 2) p (Suc q) th g' \<and>
    (x \<noteq> th \<longrightarrow> thread_of x (ts_world g') = thread_of x (ts_world g) \<and> (x \<in> ts_ended g' \<longleftrightarrow> x \<in> ts_ended g))"
  proof cases
    case 1
    then have e: "enter_thread t th g = Some g'" using assms(1) by (simp only: spin_worker_nth)
    with worker_enter [OF _ _ assms(4) e] assms(2) 1 show ?thesis
      by (auto simp: enter_thread_def trampoline_enter_def split: if_splits)
  next
    case 2
    then have e: "leave_thread th 0 g = Some g'" using assms(1) by (simp only: spin_worker_nth)
    with worker_leave [OF assms(2) _ _ e] 2 show ?thesis by (auto simp: leave_thread_def trampoline_leave_def Let_def)
  next
    case 3
    with worker_body [OF assms(2), of g'] assms(5) show ?thesis by simp
  qed
  then show "worker_at cx rx jx (4 * n + 2) p (Suc q) th g'"
    "x \<noteq> th \<Longrightarrow> thread_of x (ts_world g') = thread_of x (ts_world g) \<and> (x \<in> ts_ended g' \<longleftrightarrow> x \<in> ts_ended g)"
    by blast+
qed

lemma spin_enter_after:
  assumes "(spin_worker api n t th l ! q) g = Some g'" "worker_at cx rx jx (4 * n + 2) p q th g"
  shows "rx < p"
proof (cases "q = 0")
  case True
  then have "enter_thread t th g = Some g'" using assms(1) by (simp only: spin_worker_nth)
  with assms(2) show ?thesis by (simp add: worker_at_def enter_thread_def Let_def split: if_splits)
qed (use assms(2) in \<open>simp add: worker_at_def Let_def\<close>)

lemma below_12:
  "p < 12 \<Longrightarrow> p < 4 \<or> p = 4 \<or> p = 5 \<or> p = 6 \<or> p = 7 \<or> p = 8 \<or> p = 9 \<or> p = 10 \<or> p = (11 :: nat)"
  by presburger

lemma spin_main:
  assumes "spin_inv L owner api n a b l fails c" "cf_pc c 0 < 12"
    and "(test_spinlock L api n entry a b l ! cf_pc c 0) (cf_state c) = Some g'"
  shows "spin_inv L owner api n a b l fails (advance_to 0 g' c)"
proof -
  let ?p = "cf_pc c 0" and ?q1 = "cf_pc c 1" and ?q2 = "cf_pc c 2" and ?g = "cf_state c"
  have laws: "mutex_laws api owner" "host_grants L" "l \<noteq> null" "a \<noteq> b"
    and life: "worker_at 5 7 9 (4 * n + 2) ?p ?q1 a ?g" "worker_at 6 8 10 (4 * n + 2) ?p ?q2 b ?g"
    and data: "spin_data owner api n l ?p 1 ?q1 2 ?q2 ?g" "?p = 2 \<longrightarrow> sp_got ?g = 1" "g_failures ?g = fails"
    using assms(1) by (auto simp: spin_inv_def)
  have early: "?p \<le> 7 \<Longrightarrow> ?q1 = 0" "?p \<le> 8 \<Longrightarrow> ?q2 = 0" and late: "9 < ?p \<Longrightarrow> ?q1 = 4 * n + 2" "10 < ?p \<Longrightarrow> ?q2 = 4 * n + 2"
    using life by (auto simp: worker_at_def Let_def)
  have "worker_at 5 7 9 (4 * n + 2) (Suc ?p) ?q1 a g' \<and> worker_at 6 8 10 (4 * n + 2) (Suc ?p) ?q2 b g' \<and>
    spin_data owner api n l (Suc ?p) 1 ?q1 2 ?q2 g' \<and> (Suc ?p = 2 \<longrightarrow> sp_got g' = 1) \<and> g_failures g' = fails"
  proof -
    note cond = assms(3) [unfolded test_spinlock_def]
    have moves: "worker_at 5 7 9 (4 * n + 2) (Suc ?p) ?q1 a g' \<and> worker_at 6 8 10 (4 * n + 2) (Suc ?p) ?q2 b g'"
      if "ts_world g' = ts_world ?g" "ts_ended g' = ts_ended ?g" "?p \<notin> {5, 6, 7, 8, 9, 10}"
      using that worker_frame [OF life(1), of g'] worker_frame [OF life(2), of g'] by simp
    have stays: "spin_data owner api n l (Suc ?p) 1 ?q1 2 ?q2 g' \<and> (Suc ?p = 2 \<longrightarrow> sp_got g' = 1) \<and> g_failures g' = fails"
      if "elsewhere x ?g g'" "4 < ?p" for x
      using that data by (auto simp: elsewhere_def spin_data_def)
    consider "?p < 4" | "?p = 4" | "?p = 5" | "?p = 6" | "?p = 7" | "?p = 8" | "?p = 9" | "?p = 10" | "?p = 11"
      using below_12 [OF assms(2)] by blast
    then show ?thesis
    proof cases
      case 1
      then have q: "?q1 = 0" "?q2 = 0" "\<not> inside n 0" using early by (simp_all add: inside_def)
      have holder: "spin_holder api owner l (sp_tab ?g) = (if ?p = 2 \<or> ?p = 3 then Some 0 else None)"
        using data(1) q by (simp add: spin_data_def)
      from 1 consider "?p = 0" | "?p = 1" | "?p = 2" | "?p = 3" by linarith
      then show ?thesis
      proof cases
        case 1
        then have g': "g' = ?g\<lparr>sp_tab := OSInitSpinLock api l (sp_tab ?g)\<rparr>" using cond by (simp add: act_def)
        have "spin_holder api owner l (OSInitSpinLock api l (sp_tab ?g)) = spin_holder api owner l (sp_tab ?g)"
          using laws(3) by (simp add: OSInitSpinLock_def ht_get_eq) (simp add: spin_holder_def)
        with 1 moves data(3) holder q show ?thesis by (simp add: g' spin_data_def)
      next
        case 2
        then have g': "g' = ?g\<lparr>sp_got := fst (OSTryAcquireSpinLock api 0 l (sp_tab ?g)), sp_tab := snd (OSTryAcquireSpinLock api 0 l (sp_tab ?g))\<rparr>"
          using cond by (simp add: act_def case_prod_unfold)
        with 2 moves data(3) holder q spin_try_spec [OF laws(1,3), of 0 "sp_tab ?g"] show ?thesis
          by (simp add: g' spin_data_def OSTryAcquireSpinLock_def)
      next
        case 3
        then have "g' = ?g" using cond data(2) by (simp add: verify_def)
        with 3 moves data holder q show ?thesis by (simp add: spin_data_def)
      next
        case 4
        then have g': "g' = ?g\<lparr>sp_tab := snd (OSReleaseSpinLock api 0 l (sp_tab ?g))\<rparr>" using cond by (simp add: act_def)
        with 4 moves data(3) holder q spin_release_spec(1) [OF laws(1,3), of "sp_tab ?g" 0] show ?thesis
          by (simp add: g' spin_data_def OSReleaseSpinLock_def)
      qed
    next
      case 2
      then have g': "g' = ?g\<lparr>s_spinCounter := 0\<rparr>" using cond by (simp add: act_def)
      with 2 moves data early show ?thesis by (simp add: spin_data_def inside_def)
    next
      case 3
      then have st: "create_thread L a entry 0 OS_THREAD_ATTRIB_AFFINITY_ANY ?g = Some g'" using cond by simp
      note el = create_elsewhere [OF st]
      have "worker_at 5 7 9 (4 * n + 2) (Suc 5) ?q1 a g'"
        by (rule worker_create [OF life(1) [unfolded 3] laws(2) _ _ _ _ st]) simp_all
      with worker_elsewhere [OF life(2) el] stays [OF el] 3 laws(4) show ?thesis by simp
    next
      case 4
      then have st: "create_thread L b entry 0 OS_THREAD_ATTRIB_AFFINITY_ANY ?g = Some g'" using cond by simp
      note el = create_elsewhere [OF st]
      have "worker_at 6 8 10 (4 * n + 2) (Suc 6) ?q2 b g'"
        by (rule worker_create [OF life(2) [unfolded 4] laws(2) _ _ _ _ st]) simp_all
      with worker_elsewhere [OF life(1) el] stays [OF el] 4 laws(4) show ?thesis by simp
    next
      case 5
      then have st: "resume_thread L a ?g = Some g'" using cond by simp
      note el = resume_elsewhere [OF st]
      have "worker_at 5 7 9 (4 * n + 2) (Suc 7) ?q1 a g'"
        by (rule worker_resume [OF life(1) [unfolded 5] laws(2) _ _ st]) simp_all
      with worker_elsewhere [OF life(2) el] stays [OF el] 5 laws(4) show ?thesis by simp
    next
      case 6
      then have st: "resume_thread L b ?g = Some g'" using cond by simp
      note el = resume_elsewhere [OF st]
      have "worker_at 6 8 10 (4 * n + 2) (Suc 8) ?q2 b g'"
        by (rule worker_resume [OF life(2) [unfolded 6] laws(2) _ _ st]) simp_all
      with worker_elsewhere [OF life(1) el] stays [OF el] 6 laws(4) show ?thesis by simp
    next
      case 7
      then have st: "join_thread L a 8 (\<lambda>r g. g) ?g = Some g'" using cond by simp
      note el = join_elsewhere [OF st]
      have "worker_at 5 7 9 (4 * n + 2) (Suc 9) ?q1 a g'"
        by (rule worker_join [OF life(1) [unfolded 7] laws(2) _ _ st]) simp_all
      with worker_elsewhere [OF life(2) el] stays [OF el] 7 laws(4) show ?thesis by simp
    next
      case 8
      then have st: "join_thread L b 8 (\<lambda>r g. g) ?g = Some g'" using cond by simp
      note el = join_elsewhere [OF st]
      have "worker_at 6 8 10 (4 * n + 2) (Suc 10) ?q2 b g'"
        by (rule worker_join [OF life(2) [unfolded 8] laws(2) _ _ st]) simp_all
      with worker_elsewhere [OF life(1) el] stays [OF el] 8 laws(4) show ?thesis by simp
    next
      case 9
      have "(4 * n + 2) div 4 = n" by simp
      with 9 late data have "s_spinCounter ?g = of_nat (2 * n)" by (simp add: spin_data_def)
      then have "g' = ?g" using cond 9 by (simp add: verify_def)
      with 9 moves data show ?thesis by (simp add: spin_data_def)
    qed
  qed
  then show ?thesis using laws assms(2) by (simp add: spin_inv_def)
qed

lemma spin_one:
  assumes "spin_inv L owner api n a b l fails c" "t = 1 \<and> x = a \<or> t = 2 \<and> x = b" "cf_pc c t < 4 * n + 2"
    and "(spin_worker api n t x l ! cf_pc c t) (cf_state c) = Some g'"
  shows "spin_inv L owner api n a b l fails (advance_to t g' c)"
proof -
  let ?p = "cf_pc c 0" and ?q1 = "cf_pc c 1" and ?q2 = "cf_pc c 2" and ?g = "cf_state c"
  have laws: "mutex_laws api owner" "host_grants L" "l \<noteq> null" "a \<noteq> b" "?p \<le> 12"
    and life: "worker_at 5 7 9 (4 * n + 2) ?p ?q1 a ?g" "worker_at 6 8 10 (4 * n + 2) ?p ?q2 b ?g"
    and data: "spin_data owner api n l ?p 1 ?q1 2 ?q2 ?g" "g_failures ?g = fails"
    using assms(1) by (auto simp: spin_inv_def)
  from assms(2) show ?thesis
  proof
    assume t: "t = 1 \<and> x = a"
    have st: "(spin_worker api n 1 a l ! ?q1) ?g = Some g'" and q: "?q1 < 4 * n + 2" using assms(3,4) t by simp_all
    have p: "7 < ?p" using spin_enter_after [OF st life(1)] .
    have new: "spin_data owner api n l ?p 1 (Suc ?q1) 2 ?q2 g'" "g_failures g' = fails"
      "0 < ?q1 \<longrightarrow> ?q1 \<le> 4 * n \<longrightarrow> ts_world g' = ts_world ?g \<and> ts_ended g' = ts_ended ?g"
      using spin_worker_data [OF data(1) laws(1,3) _ _ q st] p data(2) by simp_all
    have "worker_at 5 7 9 (4 * n + 2) ?p (Suc ?q1) a g'" using spin_worker_life(1) [OF st life(1) q _ new(3)] by simp
    moreover have "worker_at 6 8 10 (4 * n + 2) ?p ?q2 b g'"
      using worker_other [OF life(2), of g'] spin_worker_life(2) [OF st life(1) q _ new(3), of b] laws(4) by simp
    ultimately show ?thesis using laws new(1,2) p t by (simp add: spin_inv_def)
  next
    assume t: "t = 2 \<and> x = b"
    have st: "(spin_worker api n 2 b l ! ?q2) ?g = Some g'" and q: "?q2 < 4 * n + 2" using assms(3,4) t by simp_all
    have p: "8 < ?p" using spin_enter_after [OF st life(2)] .
    have new: "spin_data owner api n l ?p 2 (Suc ?q2) 1 ?q1 g'" "g_failures g' = fails"
      "0 < ?q2 \<longrightarrow> ?q2 \<le> 4 * n \<longrightarrow> ts_world g' = ts_world ?g \<and> ts_ended g' = ts_ended ?g"
      using spin_worker_data [OF data(1) [unfolded spin_data_swap [of owner api n l ?p 1]] laws(1,3) _ _ q st] p data(2)
      by simp_all
    have "worker_at 6 8 10 (4 * n + 2) ?p (Suc ?q2) b g'" using spin_worker_life(1) [OF st life(2) q _ new(3)] by simp
    moreover have "worker_at 5 7 9 (4 * n + 2) ?p ?q1 a g'"
      using worker_other [OF life(1), of g'] spin_worker_life(2) [OF st life(2) q _ new(3), of a] laws(4) by simp
    ultimately show ?thesis
      using laws new(1,2) p t spin_data_swap [of owner api n l ?p 2 "Suc ?q2" 1 ?q1 g'] by (simp add: spin_inv_def)
  qed
qed

text \<open>A worker waits only before it is started, or for the lock while the other one has it.\<close>

lemma spin_worker_goes:
  assumes "worker_at cx rx jx (4 * n + 2) p q th g" "q < 4 * n + 2" "rx < p" "p \<le> jx" "mutex_laws api owner" "l \<noteq> null"
    and "\<not> (\<exists>g'. (spin_worker api n t th l ! q) g = Some g')"
  shows "spin_holder api owner l (sp_tab g) \<noteq> None \<and> q mod 4 = 1"
proof -
  consider "q = 0" | "q = 4 * n + 1" | "0 < q" "q \<le> 4 * n" using assms(2) by linarith
  then show ?thesis
  proof cases
    case 1
    with assms(1,3,4,7) show ?thesis by (simp add: spin_worker_nth enter_thread_def worker_at_def Let_def)
  next
    case 2
    then have "(spin_worker api n t th l ! q) g = leave_thread th 0 g" by (simp only: spin_worker_nth)
    with assms(7) show ?thesis by (simp add: leave_thread_def)
  next
    case 3
    define r where "r = (q - 1) mod 4"
    have "(spin_worker api n t th l ! q) g = (spin_body api t l ! r) g" by (simp only: spin_worker_nth(2) [OF 3] r_def)
    then have no: "(spin_body api t l ! r) g = None" using assms(7) by (cases "(spin_body api t l ! r) g") auto
    consider "r = 0" | "r = 1" | "r = 2" | "r = 3" unfolding r_def by linarith
    then show ?thesis
    proof cases
      case 1
      then have "spin_acquire api t l (sp_tab g) = None" using no by (simp add: spin_body_def OSUninterruptibleSpinLock_Acquire_def)
      then have "spin_holder api owner l (sp_tab g) \<noteq> None" using spin_acquire_spec(1) [OF assms(5,6), of "sp_tab g" t] by auto
      moreover have "q mod 4 = 1" using 1 3 unfolding r_def by presburger
      ultimately show ?thesis by simp
    qed (use no in \<open>simp_all add: spin_body_def act_def\<close>)
  qed
qed

lemma spin_main_goes:
  assumes "p < 12" "p = 9 \<longrightarrow> a \<in> ts_ended g" "p = 10 \<longrightarrow> b \<in> ts_ended g"
  shows "\<exists>g'. (test_spinlock L api n entry a b l ! p) g = Some g'"
proof -
  from assms(1) have "p = 0 \<or> p = 1 \<or> p = 2 \<or> p = 3 \<or> p = 4 \<or> p = 5 \<or> p = 6 \<or> p = 7 \<or> p = 8 \<or> p = 9 \<or> p = 10 \<or> p = 11"
    by presburger
  with assms(2,3) show ?thesis by (elim disjE) (simp_all add: test_spinlock_def stmt_defs split: prod.split)
qed

lemma test_spinlock_length [simp]: "length (test_spinlock L api n entry a b l) = 12"
  by (simp add: test_spinlock_def)

interpretation spin_test: interleaved "spin_code L api n entry a b l" "{0, 1, 2}" "spin_inv L owner api n a b l fails"
  for L :: "'k thread_api" and api :: "'m mutex_api" and n entry a b l owner fails
proof
  fix c c' :: "('k, 'm) spin_state conf" and t
  show "finite {0, 1, 2 :: tid}" by simp
  show "spin_code L api n entry a b l t = []" if "t \<notin> {0, 1, 2}" using that by (simp add: spin_code_def)
  show "spin_inv L owner api n a b l fails c'"
    if "spin_inv L owner api n a b l fails c" "thread_does (spin_code L api n entry a b l) t c c'"
    using that(2)
  proof (cases rule: thread_does.cases)
    case (does g')
    with that(1) spin_main [of L owner api n a b l fails c entry g'] spin_one [of L owner api n a b l fails c t _ g']
    show ?thesis by (auto simp: spin_code_def split: if_splits)
  qed
  show "\<exists>t c'. thread_does (spin_code L api n entry a b l) t c c'"
    if inv: "spin_inv L owner api n a b l fails c" and open_: "\<not> all_ended (spin_code L api n entry a b l) {0, 1, 2} c"
  proof (rule ccontr)
    assume stuck: "\<nexists>t c'. thread_does (spin_code L api n entry a b l) t c c'"
    let ?p = "cf_pc c 0" and ?q1 = "cf_pc c 1" and ?q2 = "cf_pc c 2" and ?g = "cf_state c"
    have laws: "mutex_laws api owner" "l \<noteq> null" "?p \<le> 12"
      and life: "worker_at 5 7 9 (4 * n + 2) ?p ?q1 a ?g" "worker_at 6 8 10 (4 * n + 2) ?p ?q2 b ?g"
      and data: "spin_data owner api n l ?p 1 ?q1 2 ?q2 ?g"
      using inv by (auto simp: spin_inv_def)
    have ends: "?q1 \<le> 4 * n + 2" "?q2 \<le> 4 * n + 2" "9 < ?p \<Longrightarrow> ?q1 = 4 * n + 2" "10 < ?p \<Longrightarrow> ?q2 = 4 * n + 2"
      "a \<in> ts_ended ?g \<longleftrightarrow> ?q1 = 4 * n + 2" "b \<in> ts_ended ?g \<longleftrightarrow> ?q2 = 4 * n + 2"
      using life by (auto simp: worker_at_def Let_def)
    have no: "\<not> (\<exists>g'. (spin_code L api n entry a b l t ! cf_pc c t) ?g = Some g')"
      if "cf_pc c t < length (spin_code L api n entry a b l t)" for t
      using stuck that by (auto simp: thread_does_simp)
    have "?p < 12" using open_ ends laws(3) by (cases "?p = 12") (auto simp: all_ended_def spin_code_def)
    with no [of 0] spin_main_goes [of ?p a ?g b L api n entry l] ends
    have at: "?p = 9 \<and> ?q1 < 4 * n + 2 \<or> ?p = 10 \<and> ?q2 < 4 * n + 2" by (auto simp: spin_code_def)
    have one: "spin_holder api owner l (sp_tab ?g) \<noteq> None \<and> ?q1 mod 4 = 1" if "?p = 9" "?q1 < 4 * n + 2"
      using spin_worker_goes [OF life(1) that(2) _ _ laws(1,2), of 1] no [of 1] that by (simp add: spin_code_def)
    have two: "spin_holder api owner l (sp_tab ?g) \<noteq> None \<and> ?q2 mod 4 = 1" if "?p = 9 \<or> ?p = 10" "?q2 < 4 * n + 2"
      using spin_worker_goes [OF life(2) that(2) _ _ laws(1,2), of 2] no [of 2] that by (auto simp: spin_code_def)
    have "inside n ?q1 \<or> inside n ?q2" if "spin_holder api owner l (sp_tab ?g) \<noteq> None" "?p = 9 \<or> ?p = 10"
      using data that by (auto simp: spin_data_def split: if_splits)
    with at one two ends show False by (auto simp: inside_def)
  qed
qed

lemma spin_start:
  assumes "mutex_laws api owner" "host_grants L" "l \<noteq> null" "a \<noteq> b" "spin_holder api owner l (sp_tab g) = None"
    and "\<forall>x \<in> {a, b}. \<not> th_started (thread_of x (ts_world g)) \<and> x \<notin> ts_ended g"
  shows "spin_inv L owner api n a b l (g_failures g) (conf_start g)"
  using assms by (simp add: spin_inv_def conf_start_def worker_at_def spin_data_def inside_def Let_def)

text \<open>
  C6: two threads that each increment a plain counter \<open>n\<close> times between acquire and release of one spinlock, as \<^verbatim>\<open>test_spinlock\<close>
  does with 5000, lose no increment under any interleaving of the two threads and the test: the test reports no failure,
  whatever the schedule. And it ends: no deadlock is possible, and every schedule that gives each of the three threads a turn
  in each of \<open>8 n + 16\<close> rounds brings the test to its end with the counter at \<open>2 n\<close>.
\<close>

theorem test_spinlock_passes:
  assumes "mutex_laws api owner" "host_grants L" "l \<noteq> null" "a \<noteq> b" "spin_holder api owner l (sp_tab g) = None"
    and "\<forall>x \<in> {a, b}. \<not> th_started (thread_of x (ts_world g)) \<and> x \<notin> ts_ended g"
  shows "g_failures (cf_state (run_schedule (spin_code L api n entry a b l) ts (conf_start g))) = g_failures g
    \<and> ((\<forall>r \<in> set rounds. {0, 1, 2} \<subseteq> set r) \<longrightarrow> 8 * n + 16 \<le> length rounds \<longrightarrow>
         (let c = run_schedule (spin_code L api n entry a b l) (concat rounds) (conf_start g)
          in all_ended (spin_code L api n entry a b l) {0, 1, 2} c \<and> s_spinCounter (cf_state c) = of_nat (2 * n)))"
proof -
  let ?code = "spin_code L api n entry a b l"
  note start = spin_start [OF assms, of n]
  have inv: "spin_inv L owner api n a b l (g_failures g) (run_schedule ?code us (conf_start g))" for us
    using spin_test.schedule_keeps [OF start] .
  have count: "s_spinCounter (cf_state c) = of_nat (2 * n)"
    if "spin_inv L owner api n a b l (g_failures g) c" "all_ended ?code {0, 1, 2} c" for c
  proof -
    have "12 \<le> cf_pc c 0" using that(2) by (simp add: all_ended_def spin_code_def)
    moreover have "(4 * n + 2) div 4 = n" by simp
    ultimately show ?thesis using that(1) by (simp add: spin_inv_def worker_at_def spin_data_def Let_def)
  qed
  have "to_go ?code {0, 1, 2} (conf_start g) = 8 * n + 16"
    by (simp add: to_go_def conf_start_def spin_code_def)
  then have "all_ended ?code {0, 1, 2} (run_schedule ?code (concat rounds) (conf_start g))"
    if "\<forall>r \<in> set rounds. {0, 1, 2} \<subseteq> set r" "8 * n + 16 \<le> length rounds"
    using spin_test.fair_ends [OF start that(1), of entry] that(2) by simp
  with inv count show ?thesis by (simp add: spin_inv_def Let_def)
qed

definition spin_demo :: "(unit, tid option) spin_state" where
  "spin_demo = \<lparr>ts_world = thread_start_world (), ts_ended = {}, g_failures = 0, sp_tab = Map.empty, s_spinCounter = 7,
     sp_got = 0, sp_reg = (\<lambda>_. 0)\<rparr>"

theorem test_spinlock_passes_witness:
  "s_spinCounter (cf_state (run_schedule (spin_code easy_api owner_api 5000 1 16 32 64) (concat (replicate 40016 [2, 0, 1]))
     (conf_start spin_demo))) = 10000"
proof -
  have "host_grants easy_api" by (simp add: host_grants_def easy_api_def)
  moreover have "\<forall>x \<in> {16, 32}. \<not> th_started (thread_of x (ts_world spin_demo)) \<and> x \<notin> ts_ended spin_demo"
    by (simp add: spin_demo_def thread_start_world_def thread_of_def thread_init_def)
  moreover have "spin_holder owner_api (\<lambda>m. m) 64 (sp_tab spin_demo) = None"
    by (simp add: spin_demo_def spin_holder_def sl_init_def owner_api_def)
  ultimately show ?thesis
    using test_spinlock_passes [OF owner_api_laws, of easy_api 64 16 32 spin_demo 5000 1 "[]" "replicate 40016 [2, 0, 1]"]
    by (simp add: Let_def)
qed

end
