(* ===== verification/SuiteEvent.thy ===== *)
theory SuiteEvent
  imports SuiteThreads Event
begin

text \<open>
  \<^verbatim>\<open>test_event_manual\<close> of \<^verbatim>\<open>tests/main.cpp\<close>: two threads wait for one event and then increment a plain counter. The event lets
  both go, but the increments may overlap: there is a schedule under which the test reports a failure of the library that is
  a failure of the test.
\<close>

record 'k event_state = "'k test_state" +
  et_tab :: "host_event table"
  s_eventSeen :: s32
  et_reg :: "tid \<Rightarrow> s32"

definition event_worker :: "tid \<Rightarrow> ptr \<Rightarrow> ptr \<Rightarrow> 'k event_state stmt list" where
  "event_worker t th ev =
     [enter_thread t th,
      \<lambda>g. map_option (\<lambda>tab. g\<lparr>et_tab := tab\<rparr>) (OSWaitEvent ev (et_tab g)),
      act (\<lambda>g. g\<lparr>et_reg := (et_reg g)(t := s_eventSeen g)\<rparr>),
      act (\<lambda>g. g\<lparr>s_eventSeen := et_reg g t + 1\<rparr>),
      leave_thread th 0]"

definition test_event_manual :: "'k thread_api \<Rightarrow> ptr \<Rightarrow> ptr \<Rightarrow> ptr \<Rightarrow> ptr \<Rightarrow> 'k event_state stmt list" where
  "test_event_manual L entry a b ev =
     [act (\<lambda>g. g\<lparr>et_tab := OSInitEvent ev 0 0 (et_tab g)\<rparr>),
      act (\<lambda>g. g\<lparr>s_eventSeen := 0\<rparr>),
      create_thread L a entry 0 OS_THREAD_ATTRIB_AFFINITY_ANY,
      create_thread L b entry 0 OS_THREAD_ATTRIB_AFFINITY_ANY,
      resume_thread L a,
      resume_thread L b,
      verify (\<lambda>g. s_eventSeen g = 0),
      act (\<lambda>g. g\<lparr>et_tab := OSSignalEvent ev (et_tab g)\<rparr>),
      join_thread L a 8 (\<lambda>r g. g),
      join_thread L b 8 (\<lambda>r g. g),
      verify (\<lambda>g. s_eventSeen g = 2)]"

definition event_code :: "'k thread_api \<Rightarrow> ptr \<Rightarrow> ptr \<Rightarrow> ptr \<Rightarrow> ptr \<Rightarrow> tid \<Rightarrow> 'k event_state stmt list" where
  "event_code L entry a b ev t =
     (if t = 0 then test_event_manual L entry a b ev
      else if t = 1 then event_worker 1 a ev
      else if t = 2 then event_worker 2 b ev
      else [])"

definition event_demo :: "unit event_state" where
  "event_demo = \<lparr>ts_world = thread_start_world (), ts_ended = {}, g_failures = 0, et_tab = Map.empty, s_eventSeen = 0,
     et_reg = (\<lambda>_. 0)\<rparr>"

text \<open>One thread after the other, and the two increments interleaved.\<close>

lemma test_event_manual_race:
  "g_failures (cf_state (run_schedule (event_code easy_api 1 16 32 64)
     (replicate 8 0 @ [1, 1, 1, 1, 1, 2, 2, 2, 2, 2] @ replicate 3 0) (conf_start event_demo))) = 0"
  "g_failures (cf_state (run_schedule (event_code easy_api 1 16 32 64)
     (replicate 8 0 @ [1, 2, 1, 2, 1, 2, 1, 2, 1, 2] @ replicate 3 0) (conf_start event_demo))) = 1"
  by code_simp+

end
