(* ===== verification/Spec2Isabelle.thy ===== *)
theory Spec2Isabelle
  imports FrmHeap BaseHeap Mutex Semaphore Event MessageQueue Time FsApi ThreadLife AlarmSched DynLoad LockedCache Ghs Atomics
    CalendarOrder GuestMemory Driver SysConfig DebugLog CriticalSection GhsHeap AlarmLoop SuiteHeaps SuiteTime
    SuiteSystem SuiteSync SuiteSpin SuiteEvent
begin

text \<open>
  coreinit-nx: the system library of the Wii U (Cafe OS \<^verbatim>\<open>coreinit\<close>) written over libnx, so that recompiled Wii U code can
  run on Horizon. This development models the library's sources (\<^verbatim>\<open>source/\<close> and the types of \<^verbatim>\<open>include/coreinit/\<close>) function
  by function and proves what makes them correct.

  \<^bold>\<open>Parts and how they interact\<close>

  The guest allocates its structures itself; the library never reads them. Their addresses are keys of tables of host
  objects (\<^verbatim>\<open>HandleTable\<close>), and most components are one such table with the functions over it. Under them lies libnx, which
  is not part of the repository: locks, condition variables, threads, ticks, settings; and the C library's files and
  \<^verbatim>\<open>malloc\<close>. These are parameters of the model.

  \<^item> \<open>Prelude\<close>: machine types as words, guest memory, the C string functions, facts about words. \<open>Alignment\<close>: the address
    arithmetic of the heaps and its meaning on the natural numbers.

  \<^item> \<open>HandleTable\<close>: \<^verbatim>\<open>internal/handle_table.hpp\<close>, with the interface \<open>lazy_table\<close> (an object is created at first use and kept)
    and \<open>hosted_object\<close> (an invariant of every object of a table), which the two heaps are instances of.

  \<^item> \<open>FrmHeap\<close>: \<^verbatim>\<open>memfrmheap.cpp\<close>. \<open>ExpHeap\<close>, \<open>ExpHeapWf\<close>, \<open>ExpHeapApi\<close>: the heap of \<^verbatim>\<open>memexpheap.cpp\<close>, the invariant of its
    blocks, its functions on the table of heaps. \<open>BaseHeap\<close>: the base heaps of the same file and \<^verbatim>\<open>memdefaultheap.cpp\<close>,
    with the interface \<open>block_allocator\<close> (blocks handed out are new and disjoint), interpreted on the default heap.

  \<^item> \<open>Mutex\<close>: \<^verbatim>\<open>mutex.cpp\<close> and \<^verbatim>\<open>cond.cpp\<close>, with the interface \<open>recursive_lock\<close>. \<open>SpinLock\<close>: \<^verbatim>\<open>spinlock.cpp\<close>. \<open>Monitor\<close>: how
    semaphores, events and message queues wait, with the interface \<open>no_lost_wakeup\<close>; \<open>Semaphore\<close>, \<open>Event\<close> and
    \<open>MessageQueue\<close> interpret it on \<^verbatim>\<open>semaphore.cpp\<close>, \<^verbatim>\<open>event.cpp\<close> and the two sides of \<^verbatim>\<open>messagequeue.cpp\<close>. \<open>Atomics\<close>:
    \<^verbatim>\<open>atomic64.cpp\<close>.

  \<^item> \<open>Thread\<close>, \<open>ThreadLife\<close>: \<^verbatim>\<open>thread.cpp\<close> and its properties. \<open>Alarm\<close>, \<open>AlarmSched\<close>: \<^verbatim>\<open>alarm.cpp\<close>, whose scheduler thread is
    a sequence of passes and callbacks among the calls of the other threads. \<open>AlarmLoop\<close>: the same thread as a state machine
    with a clock, where it waits and is woken, and the shutdown in its parts.

  \<^item> \<open>Calendar\<close>, \<open>Time\<close>: \<^verbatim>\<open>time.cpp\<close> and \<^verbatim>\<open>systeminfo.cpp\<close>; \<open>CalendarOrder\<close> makes calendar times a linear order.

  \<^item> \<open>FileSystem\<close>, \<open>FsSlots\<close>, \<open>FsApi\<close>: \<^verbatim>\<open>filesystem.cpp\<close> over a C library that is a record of functions; \<open>handle_pool\<close> is
    the interface of its handles.

  \<^item> \<open>SymbolRegistry\<close>, \<open>DynLoad\<close>: \<^verbatim>\<open>symbol_registry.cpp\<close> with the interface \<open>symbol_table\<close>, and \<^verbatim>\<open>dynload.cpp\<close>, its client.

  \<^item> \<open>Ghs\<close>: \<^verbatim>\<open>ghs.cpp\<close>, a client of mutexes, spinlocks and the default heap. \<open>CriticalSection\<close>: the interface
    \<open>exclusive_lock\<close> of all three kinds of lock, a sublocale of \<open>recursive_lock\<close>. \<open>GhsHeap\<close>: the runtime's mutexes as a client
    of \<open>block_allocator\<close>; the property that joins them is at the end of this theory. \<open>LockedCache\<close>: \<^verbatim>\<open>lockedcache.cpp\<close>. \<open>Driver\<close>:
    \<^verbatim>\<open>driver.cpp\<close>. \<open>GuestMemory\<close>: \<^verbatim>\<open>memory.cpp\<close> and \<^verbatim>\<open>cache.cpp\<close>. \<open>SysConfig\<close>: \<^verbatim>\<open>userconfig.cpp\<close> and \<^verbatim>\<open>mcp.cpp\<close>. \<open>DebugLog\<close>:
    \<^verbatim>\<open>debug.cpp\<close> and \<^verbatim>\<open>misc.cpp\<close>.

  \<^item> \<open>Suite\<close>, \<open>SuiteHeaps\<close>, \<open>SuiteTime\<close>, \<open>SuiteSystem\<close>, \<open>SuiteSync\<close>: tests of \<^verbatim>\<open>tests/main.cpp\<close> as computations over the model,
    each with the lemma that it reports no failure. \<open>Interleave\<close>: threads as lists of statements under every schedule, with the interface
    \<open>interleaved\<close> (an invariant, and that a fair schedule ends); \<open>SuiteThreads\<close>: the statements tests with threads are made of;
    \<open>SuiteSpin\<close>, \<open>SuiteEvent\<close>: two such tests.

  \<^bold>\<open>How the code is read\<close>

  A function of the sources is a definition of its name, on a record of the statics of its file, with its results and the
  state after it; names that begin with underscores or clash are changed as their theory says. Unsigned integers are words
  of their width and wrap as the code does; \<^verbatim>\<open>int64_t\<close> times and calendar numbers are integers where their theory shows
  that they stay in range, and cut to their width by \<open>int64_of\<close> where they may not. \<^verbatim>\<open>std::map\<close> is a map, or the list of its entries where the order counts. A body that holds its
  lock from start to end is one step; a function that gives the lock up or waits is cut there, and the steps of several
  threads are interleaved as sequences of calls or as a step relation (\<open>mon_step\<close>, \<open>sync_step\<close>, \<open>alarm_step\<close>,
  \<open>sched_step\<close>, \<open>thread_does\<close>). A call that
  cannot go on is \<open>None\<close>. Guest callbacks are addresses: that they are called is part of the state, what they do then
  are further calls.

  What the host answers (a tick, \<^verbatim>\<open>malloc\<close>, a system setting) is an argument, or a field of a record of functions where
  the answers depend on state (\<open>mutex_api\<close>, \<open>thread_api\<close>, \<open>libc\<close>, \<open>set_api\<close>). The laws a property needs of them are its
  hypotheses (\<open>mutex_laws\<close>: a lock has at most one owner; \<open>libc_laws\<close>: what a fresh stream is; \<open>malloc_ok\<close>: new memory),
  each with a concrete instance in the witnesses (\<open>owner_api\<close>, \<open>toy_libc\<close>, \<open>easy_api\<close>).

  \<^bold>\<open>What the lemmas show\<close>

  \<^item> Heaps: an invariant of the whole structure under every sequence of calls (with any arguments for the expanded heap; for
    the frame heap, with arguments that meet the two conditions its code does not check); blocks handed out are aligned,
    inside the region and disjoint; a request succeeds exactly when the reported size allows it; freeing or
    restoring a state gives back exactly what was taken.

  \<^item> Locks: the mutex is a recursive lock and keeps its depth across a wait; a timed attempt ends at its deadline; a bit
    used with test-and-set is a lock. Nothing that waits misses its wake-up: tokens, signals and messages are conserved
    and a thread sleeps only while it has nothing to wait for; whom a body wakes is part of the body (\<open>sem_signal\<close>,
    \<open>ev_signal\<close>, \<open>send_body\<close>, \<open>receive_body\<close>).

  \<^item> Queues, handles, the loader and the file-lock pool refine a list, an owner of streams, a reference count and a set.

  \<^item> Threads and alarms: a thread starts in exactly the resume that makes it runnable; a one-shot alarm rings once, at the
    first pass after its time, and a wait for it ends. The scheduler sleeps through no alarm: it is late by no more than the
    pause between its two readings of the clock and the time the host takes to wake it.

  \<^item> The library's own tests hold in the model, the one of the spinlock under every schedule of its two threads, with an end
    under every fair one.

  \<^item> Time: the closed calendar formulas are the Gregorian calendar, with conversions that round-trip and keep the
    order (the way back for all times but the lowest partial second, where the code overflows), and the clock is exact
    and monotone for nine years of uptime.

  \<^item> The defects the modelling showed are lemmas of their own: \<open>frm_adjust_escapes\<close>, \<open>OSSignalEventAll_auto_releases_none\<close>,
    \<open>event_deadline_wraps\<close>, \<open>OSIsThreadTerminated_inverted\<close>, \<open>OSCreateThread_keeps_cancel\<close>, \<open>LCAlloc_wraps\<close>,
    \<open>ghs_flock_born_locked\<close>, \<open>UCReadSysConfig_overruns\<close>, \<open>OSCalendarTimeToTicks_overflows\<close>, \<open>shutdown_race\<close>; and one of the
    tests, \<open>test_event_manual_race\<close>. Where the README promises more than the code does, the code's behaviour is a lemma:
    \<open>OSCancelAlarm_in_flight\<close>, \<open>UCReadSysConfig_reports\<close>, \<open>last_error_step\<close>.

  \<^bold>\<open>Bounds\<close>

  There is no fuel: every loop of the code is a structural recursion or a recursion over what its environment does at
  each turn, and where it may go on for ever a theorem says when it ends (\<open>OSWaitEventWithTimeout_deadline\<close>,
  \<open>OSTryAcquireSpinLockWithTimeout_returns\<close>, \<open>OSWaitAlarm_returns\<close>). Counters that could wrap bound the properties, in
  their hypotheses: the depth of a mutex stays below 2^32, handle numbers below 2^31.

  \<^bold>\<open>Not modelled\<close>

  Data races: \<^verbatim>\<open>ensureInit\<close> flags, \<^verbatim>\<open>__ghs_flock_destroy\<close> and the \<^verbatim>\<open>HostFile\<close> pointers of the file system are used outside
  their locks; the model has the sequences the lock order allows. The formatting of \<^verbatim>\<open>vsnprintf\<close> is an argument (the text it
  makes), floating point does not occur. A handle of the loader is an element of its array; pointers into the middle of
  one are not expressed. Of \<^verbatim>\<open>tests/main.cpp\<close>, the tests of condition variables, semaphores, alarms, files,
  atomic counters and thread lifecycle are not translated (their functions have properties of their own), nor \<^verbatim>\<open>main\<close>,
  which calls the tests. The Python tools, the census tables and the Makefile are not part of the library.
  Headers that only declare functions have nothing to model.
\<close>

section \<open>Components together\<close>

text \<open>
  C19: the mutexes the C++ runtime creates lie in blocks of the default heap that are outstanding and do not overlap, over
  every sequence of calls of the GHS runtime by any threads. So locking or unlocking one never changes who holds another;
  and destroying one gives back exactly its block.
\<close>
theorem ghs_mtx_independent:
  assumes "base_ready top_of b" "mtx_run api L cs (ghs_start b) = Some w"
    and "gw_cells w c \<noteq> null" "gw_cells w c' \<noteq> null" "c \<noteq> c'" "c \<noteq> null"
  shows "(unat (gw_cells w c) + 44 \<le> unat (gw_cells w c') \<or> unat (gw_cells w c') + 44 \<le> unat (gw_cells w c)) \<and>
    gw_cells w c \<in> fst ` mem2_outstanding (gw_heap w) \<and>
    (\<forall>t w'. ghs_mtx_lock api t c w = Some w' \<longrightarrow>
       mutex_holder api owner (gw_cells w c') (gw_mutexes w') = mutex_holder api owner (gw_cells w c') (gw_mutexes w)) \<and>
    (\<forall>t. mutex_holder api owner (gw_cells w c') (gw_mutexes (ghs_mtx_unlock api t c w)) =
       mutex_holder api owner (gw_cells w c') (gw_mutexes w)) \<and>
    mem2_outstanding (gw_heap (ghs_mtx_dst default_heap_init m c w)) =
      {(q, l) \<in> mem2_outstanding (gw_heap w). q \<noteq> gw_cells w c}"
proof -
  have ok: "base_ready top_of (gw_heap w)" "cells_own (gw_cells w) (mem2_outstanding (gw_heap w)) 44"
    using mtx_run_ok [OF mtx_start_ok [OF assms(1)] assms(2)] by (simp_all add: mtx_ok_def)
  have apart: "unat (gw_cells w c) + 44 \<le> unat (gw_cells w c') \<or> unat (gw_cells w c') + 44 \<le> unat (gw_cells w c)"
    using ok(2) assms(3-5) unfolding cells_own_def by blast
  then have ne: "gw_cells w c' \<noteq> gw_cells w c" by auto
  have out: "gw_cells w c \<in> fst ` mem2_outstanding (gw_heap w)"
    using ok(2) assms(3) unfolding cells_own_def by force
  have dst: "mem2_outstanding (gw_heap (ghs_mtx_dst default_heap_init m c w)) =
      {(q, l) \<in> mem2_outstanding (gw_heap w). q \<noteq> gw_cells w c}"
    using defh.free_out [OF ok(1) assms(3), of m] assms(3,6) by (simp add: ghs_mtx_dst_def default_heap_init_def)
  show ?thesis
    using apart out dst holder_frame [OF ne] assms(3,6) by (auto simp: ghs_mtx_lock_def ghs_mtx_unlock_def)
qed

theorem ghs_mtx_independent_witness:
  "\<exists>w. mtx_run owner_api ghs_demo_link [Mx_init 0 64, Mx_init 0 72] (ghs_start mtx_demo) = Some w \<and>
     gw_cells w 64 \<noteq> gw_cells w 72 \<and> gw_cells w 64 \<in> fst ` mem2_outstanding (gw_heap w)"
proof -
  obtain w where w: "mtx_run owner_api ghs_demo_link [Mx_init 0 64, Mx_init 0 72] (ghs_start mtx_demo) = Some w"
    "gw_cells w 64 \<noteq> null" "gw_cells w 72 \<noteq> null"
    using mtx_demo_run by blast
  have "(64 :: ptr) \<noteq> 72" "(64 :: ptr) \<noteq> null" by simp_all
  from ghs_mtx_independent [OF mtx_demo_ready w this] w(1) show ?thesis by (intro exI [of _ w]) auto
qed

end
